(* ===== verification/Prelude.thy ===== *)
theory Prelude
  imports Main "HOL-Library.Word"
begin

unbundle bit_operations_syntax

text \<open>
  The vocabulary the component theories share: the C integer types as words, fixed-size C
  arrays as functions from an index (only the indices below the declared bound are ever
  read or written by the models), and the three loops that recur all over the code:
  \<^item> \<open>first_index\<close>: ``for (i = 0; i < n; i++) if (P(i)) return i;''
  \<^item> \<open>shift_down\<close>: ``for (j = i; j < last; j++) a[j] = a[j+1];''
  \<^item> \<open>push_all\<close>, \<open>pop_upto\<close>: a loop that stores (fetches) one element per turn and
    stops at the first one that does not fit (at the first miss).
  The collection \<open>array_simps\<close> holds the closed forms, \<open>wrap_simps\<close> the facts about
  counters of type \<^typ>\<open>32 word\<close> that run modulo the size of a table.
\<close>

section \<open>Integer types\<close>

type_synonym u8 = "8 word"
type_synonym u16 = "16 word"
type_synonym u32 = "32 word"
type_synonym u64 = "64 word"

named_theorems array_simps \<open>closed forms of the loops over C arrays\<close>
named_theorems wrap_simps \<open>32-bit counters taken modulo a table size\<close>

section \<open>Linear search\<close>

definition first_index :: "(nat \<Rightarrow> bool) \<Rightarrow> nat \<Rightarrow> nat option" where
  "first_index P n = find P [0..<n]"

lemma first_index_SomeD:
  "first_index P n = Some i \<Longrightarrow> i < n \<and> P i \<and> (\<forall>j < i. \<not> P j)"
  by (auto simp: first_index_def find_Some_iff)

lemma first_index_None_iff: "first_index P n = None \<longleftrightarrow> (\<forall>i < n. \<not> P i)"
  by (auto simp: first_index_def find_None_iff)

lemma first_index_Some_iff:
  "first_index P n = Some i \<longleftrightarrow> i < n \<and> P i \<and> (\<forall>j < i. \<not> P j)"
  by (auto simp: first_index_def find_Some_iff)

lemma first_index_exists:
  assumes "P i" and "i < n"
  obtains j where "first_index P n = Some j" and "j \<le> i"
proof (cases "first_index P n")
  case None
  with assms show ?thesis by (auto simp: first_index_None_iff)
next
  case (Some j)
  then have "j \<le> i" using assms(1) by (meson first_index_SomeD not_less)
  with Some show ?thesis by (rule that)
qed

lemma first_index_cong:
  "(\<And>i. i < n \<Longrightarrow> P i = Q i) \<Longrightarrow> first_index P n = first_index Q n"
  unfolding first_index_def by (rule find_cong) auto

lemma first_index_0 [simp]: "first_index P 0 = None"
  by (simp add: first_index_def)

lemma first_index_Suc:
  "first_index P (Suc n) =
     (case first_index P n of Some i \<Rightarrow> Some i | None \<Rightarrow> if P n then Some n else None)"
proof (cases "first_index P n")
  case None
  then have "\<forall>i < n. \<not> P i" by (simp add: first_index_None_iff)
  then have "first_index P (Suc n) = (if P n then Some n else None)"
    by (simp add: first_index_None_iff first_index_Some_iff less_Suc_eq)
  with None show ?thesis by simp
next
  case (Some i)
  from first_index_SomeD [OF this] have "first_index P (Suc n) = Some i"
    by (simp add: first_index_Some_iff less_Suc_eq)
  with Some show ?thesis by simp
qed

section \<open>Arrays as functions\<close>

definition arr_list :: "(nat \<Rightarrow> 'a) \<Rightarrow> nat \<Rightarrow> 'a list" where
  "arr_list a n = map a [0..<n]"

lemma length_arr_list [simp]: "length (arr_list a n) = n"
  by (simp add: arr_list_def)

lemma nth_arr_list [simp]: "i < n \<Longrightarrow> arr_list a n ! i = a i"
  by (simp add: arr_list_def)

lemma arr_list_0 [simp]: "arr_list a 0 = []"
  by (simp add: arr_list_def)

lemma arr_list_Suc [array_simps]: "arr_list a (Suc n) = arr_list a n @ [a n]"
  by (simp add: arr_list_def)

lemma arr_list_cong: "(\<And>i. i < n \<Longrightarrow> a i = b i) \<Longrightarrow> arr_list a n = arr_list b n"
  by (simp add: arr_list_def)

lemma arr_list_upd_beyond [array_simps]: "n \<le> i \<Longrightarrow> arr_list (a(i := x)) n = arr_list a n"
  by (rule arr_list_cong) auto

lemma arr_list_upd [array_simps]: "i < n \<Longrightarrow> arr_list (a(i := x)) n = (arr_list a n)[i := x]"
  by (rule nth_equalityI) (auto simp: nth_list_update)

lemma in_set_arr_list: "x \<in> set (arr_list a n) \<longleftrightarrow> (\<exists>i < n. a i = x)"
  by (auto simp: arr_list_def)

function shift_down :: "nat \<Rightarrow> nat \<Rightarrow> (nat \<Rightarrow> 'a) \<Rightarrow> (nat \<Rightarrow> 'a)" where
  "shift_down j stop a =
     (if j < stop then shift_down (Suc j) stop (a(j := a (Suc j))) else a)"
  by pat_completeness auto
termination
  by (relation "measure (\<lambda>(j, stop, a). stop - j)") auto

declare shift_down.simps [simp del]

lemma shift_down_apply:
  "shift_down j stop a i = (if j \<le> i \<and> i < stop then a (Suc i) else a i)"
proof (induction j stop a arbitrary: i rule: shift_down.induct)
  case (1 j stop a)
  show ?case
  proof (cases "j < stop")
    case True
    have "shift_down (Suc j) stop (a(j := a (Suc j))) i
          = (if Suc j \<le> i \<and> i < stop then (a(j := a (Suc j))) (Suc i)
             else (a(j := a (Suc j))) i)"
      by (rule "1.IH" [OF True])
    with True show ?thesis by (auto simp: shift_down.simps [of j stop a])
  next
    case False
    then show ?thesis by (auto simp: shift_down.simps [of j stop a])
  qed
qed

lemma arr_list_shift_down:
  assumes "i < n"
  shows "arr_list (shift_down i (n - 1) a) (n - 1)
         = take i (arr_list a n) @ drop (Suc i) (arr_list a n)"
  using assms by (intro nth_equalityI) (auto simp: shift_down_apply nth_append)

section \<open>Ring buffers\<close>

definition ring_list :: "nat \<Rightarrow> (nat \<Rightarrow> 'a) \<Rightarrow> nat \<Rightarrow> nat \<Rightarrow> 'a list" where
  "ring_list sz a head count = map (\<lambda>k. a ((head + k) mod sz)) [0..<count]"

lemma length_ring_list [simp]: "length (ring_list sz a h c) = c"
  by (simp add: ring_list_def)

lemma ring_list_0 [simp]: "ring_list sz a h 0 = []"
  by (simp add: ring_list_def)

lemma ring_list_mod [simp]: "ring_list sz a (h mod sz) c = ring_list sz a h c"
  by (simp add: ring_list_def mod_add_left_eq)

lemma ring_list_cong_mod:
  "h mod sz = h' mod sz \<Longrightarrow> ring_list sz a h c = ring_list sz a h' c"
  by (metis ring_list_mod)

lemma ring_list_deq:
  "ring_list sz a h (Suc c) = a (h mod sz) # ring_list sz a (Suc h) c"
  by (simp add: ring_list_def upt_conv_Cons map_Suc_upt [symmetric] del: upt_Suc)

lemma mod_add_inj:
  assumes "k < (sz::nat)" "l < sz" "(h + k) mod sz = (h + l) mod sz"
  shows "k = l"
proof (rule ccontr)
  assume "k \<noteq> l"
  then consider "k < l" | "l < k" by linarith
  then show False
  proof cases
    case 1
    with assms(3) have "sz dvd l - k"
      by (metis add_less_cancel_left less_imp_le mod_eq_dvd_iff_nat add_diff_cancel_left)
    with 1 assms(2) show False by (auto dest: dvd_imp_le)
  next
    case 2
    with assms(3) have "sz dvd k - l"
      by (metis add_less_cancel_left less_imp_le mod_eq_dvd_iff_nat add_diff_cancel_left)
    with 2 assms(1) show False by (auto dest: dvd_imp_le)
  qed
qed

lemma ring_list_enq:
  assumes "c < sz"
  shows "ring_list sz (a((h + c) mod sz := x)) h (Suc c) = ring_list sz a h c @ [x]"
proof -
  have "(h + k) mod sz \<noteq> (h + c) mod sz" if "k < c" for k
    using mod_add_inj [of k sz c h] that assms by auto
  then show ?thesis by (simp add: ring_list_def)
qed

lemma unat_Suc_mod [wrap_simps]:
  assumes "sz dvd 2 ^ 32"
  shows "unat (w + 1 :: u32) mod sz = Suc (unat w) mod sz"
proof -
  have "unat (w + 1) = (unat w + 1) mod 2 ^ 32"
    by (simp add: unat_word_ariths)
  then show ?thesis using assms by (simp add: mod_mod_cancel)
qed

lemma unat_add_mod [wrap_simps]:
  assumes "sz dvd 2 ^ 32"
  shows "unat (v + w :: u32) mod sz = (unat v + unat w) mod sz"
proof -
  have "unat (v + w) = (unat v + unat w) mod 2 ^ 32"
    by (simp add: unat_word_ariths)
  then show ?thesis using assms by (simp add: mod_mod_cancel)
qed

lemma unat_pos: "w \<noteq> 0 \<Longrightarrow> 0 < unat w" for w :: "'a::len word"
  using unat_eq_zero [of w] by linarith

lemma unat_Suc: "unat (w :: u32) < n \<Longrightarrow> n < 2 ^ 32 \<Longrightarrow> unat (w + 1) = Suc (unat w)"
  by (simp add: unat_word_ariths)

lemma unat_pred: "(w :: u32) \<noteq> 0 \<Longrightarrow> unat (w - 1) = unat w - 1"
  by (metis unat_minus_one)

section \<open>Linked lists\<close>

text \<open>
  Following \<open>nxt\<close> from the pointer \<open>k\<close> visits the nodes \<open>xs\<close> and ends at the pointer \<open>m\<close>.
\<close>

fun linked_to :: "('p \<Rightarrow> 'p option) \<Rightarrow> 'p option \<Rightarrow> 'p list \<Rightarrow> 'p option \<Rightarrow> bool" where
  "linked_to nxt k [] m \<longleftrightarrow> k = m"
| "linked_to nxt k (x # xs) m \<longleftrightarrow> k = Some x \<and> linked_to nxt (nxt x) xs m"

lemma linked_to_append:
  "linked_to nxt k (xs @ ys) m \<longleftrightarrow> (\<exists>j. linked_to nxt k xs j \<and> linked_to nxt j ys m)"
  by (induction xs arbitrary: k) auto

lemma linked_to_cong:
  "(\<And>x. x \<in> set xs \<Longrightarrow> nxt x = nxt' x) \<Longrightarrow> linked_to nxt k xs m \<longleftrightarrow> linked_to nxt' k xs m"
  by (induction xs arbitrary: k) auto

lemma linked_to_relink:
  assumes "linked_to nxt k (xs @ [q]) m" and "q \<notin> set xs"
  shows "linked_to (nxt(q := m')) k (xs @ [q]) m'"
proof -
  have "linked_to nxt k xs (Some q)" using assms(1) by (auto simp: linked_to_append)
  moreover have "linked_to nxt k xs (Some q) \<longleftrightarrow> linked_to (nxt(q := m')) k xs (Some q)"
    using assms(2) by (intro linked_to_cong) auto
  ultimately have "linked_to (nxt(q := m')) k xs (Some q)" by blast
  then show ?thesis by (auto simp: linked_to_append)
qed

section \<open>Masks\<close>

text \<open>
  \<open>x & ~(2^n - 1)\<close> rounds down to a multiple of \<open>2^n\<close> (alignment of heap blocks, the frame
  address in a page table entry); \<open>x & (2^n - 1)\<close> is the remainder (the offset in a page).
\<close>

lemma and_not_mask: "w AND NOT (mask n) = push_bit n (drop_bit n w)" for w :: u32
  by (rule bit_word_eqI) (auto simp: bit_simps)

lemma unat_u32_less: "unat (w :: u32) < 2 ^ 32"
proof -
  have "unat w < 2 ^ LENGTH(32)" by (rule unsigned_less)
  then show ?thesis by simp
qed

lemma unat_and_not_mask: "unat (w AND NOT (mask n)) = unat w div 2 ^ n * 2 ^ n" for w :: u32
proof -
  have le: "unat w div 2 ^ n * 2 ^ n \<le> unat w" by (rule div_times_less_eq_dividend)
  then have "unat w div 2 ^ n * 2 ^ n < 2 ^ 32"
    using unat_u32_less by (rule le_less_trans)
  moreover have "unat (push_bit n (drop_bit n w)) = unat w div 2 ^ n * 2 ^ n mod 2 ^ 32"
  proof -
    have "unat (push_bit n (drop_bit n w)) = take_bit LENGTH(32) (push_bit n (drop_bit n (unat w)))"
      by (simp only: unsigned_push_bit_eq unat_drop_bit_eq)
    then show ?thesis by (simp add: drop_bit_eq_div push_bit_eq_mult take_bit_eq_mod)
  qed
  ultimately show ?thesis by (simp add: and_not_mask)
qed

lemma unat_and_mask: "unat (w AND mask n) = unat w mod 2 ^ n" for w :: u32
proof -
  have "unat (w AND mask n) = take_bit n (unat w)"
    by (simp only: take_bit_eq_mask [symmetric] unsigned_take_bit_eq)
  then show ?thesis by (simp only: take_bit_eq_mod)
qed

lemma mask_OR_split: "(w AND NOT (mask n)) OR (w AND mask n) = w" for w :: u32
  by (rule bit_word_eqI) (auto simp: bit_simps)

lemma mask_2: "(3 :: u32) = mask 2" and mask_12: "(0xFFF :: u32) = mask 12"
  by (simp_all add: mask_eq_exp_minus_1)

section \<open>Element-wise loops over a container\<close>

fun push_all :: "('a \<Rightarrow> 'q \<Rightarrow> 'q option) \<Rightarrow> 'a list \<Rightarrow> 'q \<Rightarrow> bool \<times> 'q" where
  "push_all put [] q = (True, q)"
| "push_all put (x # xs) q =
     (case put x q of None \<Rightarrow> (False, q) | Some q' \<Rightarrow> push_all put xs q')"

fun pop_upto :: "('q \<Rightarrow> ('a \<times> 'q) option) \<Rightarrow> nat \<Rightarrow> 'q \<Rightarrow> 'a list \<times> 'q" where
  "pop_upto get 0 q = ([], q)"
| "pop_upto get (Suc n) q =
     (case get q of None \<Rightarrow> ([], q)
      | Some (x, q') \<Rightarrow> (let (xs, q'') = pop_upto get n q' in (x # xs, q'')))"

text \<open>Two places of a ring of \<open>m\<close> entries are the same again after \<open>m\<close> steps and no earlier.\<close>

lemma ring_places_differ:
  fixes p q m :: nat
  assumes "p < q" and "q < p + m"
  shows "p mod m \<noteq> q mod m"
proof
  assume "p mod m = q mod m"
  then have "m dvd q - p" using assms(1) mod_eq_dvd_iff_nat [of p q m] by simp
  with assms show False by (auto dest: dvd_imp_le)
qed

end
