(* ===== verification/Interfaces.thy ===== *)
theory Interfaces
  imports Prelude
begin

text \<open>
  The contracts several components of the system implement, each as a locale whose
  parameters are the operations the client calls and whose assumptions are the laws the
  provider keeps. The component theories interpret them on the model of the C code.
  \<^item> \<open>bounded_fifo\<close>: a queue of at most \<open>cap\<close> elements that refuses an element when it is
    full, keeps \<open>kept x\<close> of an element \<open>x\<close> and hands the elements out in the order they came (pipes and message queues of
    \<^verbatim>\<open>kernel/ipc.c\<close>, the key buffer of \<^verbatim>\<open>drivers/keyboard.c\<close>).
  \<^item> \<open>slot_table\<close>: a table of \<open>slots\<close> entries with an ``active'' flag; allocation takes the
    lowest free entry (pipes, queues, file descriptors, sockets, animations).
  \<^item> \<open>allocator\<close>: an allocator whose blocks lie above everything it granted before (the
    kernel heap), so that the blocks of any run of requests are pairwise disjoint.
\<close>

section \<open>Bounded first-in first-out queues\<close>

datatype 'a fifo_event = Put 'a | Get

text \<open>
  A run of a queue: the elements that were accepted, the elements that were handed out, and
  the queue at the end. A refused element and a get on the empty queue change nothing.
\<close>

fun fifo_run :: "('a \<Rightarrow> 'q \<Rightarrow> 'q option) \<Rightarrow> ('q \<Rightarrow> ('b \<times> 'q) option)
    \<Rightarrow> 'a fifo_event list \<Rightarrow> 'q \<Rightarrow> 'a list \<times> 'b list \<times> 'q" where
  "fifo_run put get [] q = ([], [], q)"
| "fifo_run put get (Put x # es) q =
     (case put x q of
        None \<Rightarrow> fifo_run put get es q
      | Some q' \<Rightarrow> (let (ins, outs, r) = fifo_run put get es q' in (x # ins, outs, r)))"
| "fifo_run put get (Get # es) q =
     (case get q of
        None \<Rightarrow> fifo_run put get es q
      | Some (x, q') \<Rightarrow> (let (ins, outs, r) = fifo_run put get es q' in (ins, x # outs, r)))"

locale bounded_fifo =
  fixes contents :: "'q \<Rightarrow> 'b list"
    and kept :: "'a \<Rightarrow> 'b"
    and inv :: "'q \<Rightarrow> bool"
    and cap :: nat
    and put :: "'a \<Rightarrow> 'q \<Rightarrow> 'q option"
    and get :: "'q \<Rightarrow> ('b \<times> 'q) option"
  assumes within_cap: "inv q \<Longrightarrow> length (contents q) \<le> cap"
    and put_full: "inv q \<Longrightarrow> length (contents q) = cap \<Longrightarrow> put x q = None"
    and put_room: "inv q \<Longrightarrow> length (contents q) < cap \<Longrightarrow>
          \<exists>q'. put x q = Some q' \<and> inv q' \<and> contents q' = contents q @ [kept x]"
    and get_empty: "inv q \<Longrightarrow> contents q = [] \<Longrightarrow> get q = None"
    and get_next: "inv q \<Longrightarrow> contents q = y # ys \<Longrightarrow>
          \<exists>q'. get q = Some (y, q') \<and> inv q' \<and> contents q' = ys"
begin

lemma put_SomeD:
  assumes "inv q" and "put x q = Some q'"
  shows "inv q' \<and> contents q' = contents q @ [kept x] \<and> length (contents q) < cap"
proof -
  have "length (contents q) < cap"
    using within_cap [OF assms(1)] put_full [OF assms(1), of x] assms(2)
    by (cases "length (contents q) = cap") auto
  with put_room [OF assms(1) this, of x] assms(2) show ?thesis by auto
qed

lemma put_NoneD: "inv q \<Longrightarrow> put x q = None \<Longrightarrow> length (contents q) = cap"
  using put_room [of q x] within_cap [of q] by fastforce

lemma get_SomeD:
  assumes "inv q" and "get q = Some (x, q')"
  shows "inv q' \<and> contents q = x # contents q'"
  using assms get_empty [of q] get_next [of q] by (cases "contents q") fastforce+

lemma get_NoneD: "inv q \<Longrightarrow> get q = None \<Longrightarrow> contents q = []"
  using get_next [of q] by (cases "contents q") fastforce+

lemma push_all_contents:
  assumes "inv q" and "push_all put xs q = (ok, q')"
  shows "inv q' \<and> contents q' = contents q @ take (cap - length (contents q)) (map kept xs)
         \<and> ok = (length xs \<le> cap - length (contents q))"
  using assms
proof (induction xs arbitrary: q)
  case Nil
  then show ?case by simp
next
  case (Cons x xs)
  show ?case
  proof (cases "put x q")
    case None
    with Cons.prems put_NoneD [of q x] show ?thesis by auto
  next
    case (Some p)
    note p = put_SomeD [OF Cons.prems(1) Some]
    then have room: "cap - length (contents q) = Suc (cap - length (contents p))"
      by (simp add: Suc_diff_Suc)
    have "inv q' \<and> contents q' = contents p @ take (cap - length (contents p)) (map kept xs)
          \<and> ok = (length xs \<le> cap - length (contents p))"
      using Cons.IH [of p] Cons.prems(2) Some p by simp
    with p room show ?thesis by simp
  qed
qed

lemma pop_upto_contents:
  assumes "inv q" and "pop_upto get n q = (ys, q')"
  shows "inv q' \<and> ys = take n (contents q) \<and> contents q' = drop n (contents q)"
  using assms
proof (induction n arbitrary: q ys)
  case 0
  then show ?case by simp
next
  case (Suc n)
  show ?case
  proof (cases "get q")
    case None
    with Suc.prems get_NoneD [of q] show ?thesis by auto
  next
    case (Some r)
    obtain x p where r: "r = (x, p)" by fastforce
    note p = get_SomeD [OF Suc.prems(1) Some [unfolded r]]
    obtain zs where zs: "pop_upto get n p = (zs, q')" "ys = x # zs"
      using Suc.prems(2) Some r by (auto split: prod.splits)
    with Suc.IH [of p zs] p show ?thesis by simp
  qed
qed

lemma write_then_read:
  assumes "inv q" and "contents q = []" and "length xs \<le> cap"
    and "push_all put xs q = (ok, q')" and "pop_upto get (length xs) q' = (ys, q'')"
  shows "ok \<and> ys = map kept xs \<and> contents q'' = []"
  using push_all_contents [OF assms(1,4)] pop_upto_contents [of q' "length xs" ys q''] assms
  by auto

text \<open>Nothing is lost, duplicated or reordered over a whole run.\<close>

lemma fifo_run_order:
  assumes "inv q" and "fifo_run put get es q = (ins, outs, r)"
  shows "inv r \<and> contents q @ map kept ins = outs @ contents r"
  using assms
proof (induction es arbitrary: q ins outs)
  case Nil
  then show ?case by simp
next
  case (Cons e es)
  show ?case
  proof (cases e)
    case (Put x)
    show ?thesis
    proof (cases "put x q")
      case None
      with Cons Put show ?thesis by simp
    next
      case (Some p)
      obtain ins' where run: "fifo_run put get es p = (ins', outs, r)" "ins = x # ins'"
        using Cons.prems(2) Put Some by (auto split: prod.splits)
      with Cons.IH [of p ins' outs] put_SomeD [OF Cons.prems(1) Some] show ?thesis by simp
    qed
  next
    case Get
    show ?thesis
    proof (cases "get q")
      case None
      with Cons Get show ?thesis by simp
    next
      case (Some y)
      obtain x p where y: "y = (x, p)" by fastforce
      obtain outs' where run: "fifo_run put get es p = (ins, outs', r)" "outs = x # outs'"
        using Cons.prems(2) Get Some y by (auto split: prod.splits)
      with Cons.IH [of p ins outs'] get_SomeD [OF Cons.prems(1) Some [unfolded y]]
      show ?thesis by simp
    qed
  qed
qed

end

section \<open>Slot tables\<close>

text \<open>Allocating until the table refuses, at most \<open>k\<close> times.\<close>

fun take_slots :: "('t \<Rightarrow> (nat \<times> 't) option) \<Rightarrow> nat \<Rightarrow> 't \<Rightarrow> nat list \<times> 't" where
  "take_slots alloc 0 t = ([], t)"
| "take_slots alloc (Suc k) t =
     (case alloc t of None \<Rightarrow> ([], t)
      | Some (i, t') \<Rightarrow> (let (is, u) = take_slots alloc k t' in (i # is, u)))"

locale slot_table =
  fixes busy :: "'t \<Rightarrow> nat \<Rightarrow> bool"
    and slots :: nat
    and alloc :: "'t \<Rightarrow> (nat \<times> 't) option"
    and release :: "nat \<Rightarrow> 't \<Rightarrow> 't"
  assumes alloc_NoneD: "alloc t = None \<Longrightarrow> i < slots \<Longrightarrow> busy t i"
    and alloc_SomeD: "alloc t = Some (i, t') \<Longrightarrow>
          i < slots \<and> \<not> busy t i \<and> (\<forall>j < i. busy t j) \<and> busy t' = (busy t)(i := True)"
    and release_busy: "i < slots \<Longrightarrow> busy (release i t) = (busy t)(i := False)"
begin

lemma alloc_release: "alloc t = Some (i, t') \<Longrightarrow> busy (release i t') = busy t"
  using alloc_SomeD [of t i t'] release_busy [of i t'] by (auto simp: fun_eq_iff)

lemma alloc_after_release:
  assumes "i < slots" and "\<forall>j < i. busy t j"
  shows "\<exists>t'. alloc (release i t) = Some (i, t')"
proof (cases "alloc (release i t)")
  case None
  with alloc_NoneD [of "release i t" i] release_busy [OF assms(1), of t] assms(1)
  show ?thesis by simp
next
  case (Some r)
  obtain j t' where r: "r = (j, t')" by fastforce
  from alloc_SomeD [OF Some [unfolded r]] release_busy [OF assms(1), of t] assms(2)
  have "\<not> j < i" and "\<not> i < j" by auto
  with Some r show ?thesis by (cases "i = j") auto
qed

lemma take_slots_distinct:
  assumes "take_slots alloc k t = (is, u)"
  shows "distinct is \<and> set is \<subseteq> {i. i < slots \<and> \<not> busy t i}
         \<and> (\<forall>i. busy u i \<longleftrightarrow> busy t i \<or> i \<in> set is)"
  using assms
proof (induction k arbitrary: t "is")
  case 0
  then show ?case by simp
next
  case (Suc k)
  show ?case
  proof (cases "alloc t")
    case None
    with Suc.prems show ?thesis by simp
  next
    case (Some r)
    obtain j t' where r: "r = (j, t')" by fastforce
    obtain js where js: "take_slots alloc k t' = (js, u)" "is = j # js"
      using Suc.prems Some r by (auto split: prod.splits)
    note j = alloc_SomeD [OF Some [unfolded r]]
    then have "{i. i < slots \<and> \<not> busy t' i} = {i. i < slots \<and> \<not> busy t i} - {j}"
      by auto
    with Suc.IH [OF js(1)] js(2) j show ?thesis by auto
  qed
qed

text \<open>The table serves exactly as many requests as it has free slots.\<close>

lemma take_slots_count:
  assumes "take_slots alloc k t = (is, u)"
  shows "length is = min k (card {i. i < slots \<and> \<not> busy t i})"
  using assms
proof (induction k arbitrary: t "is")
  case 0
  then show ?case by simp
next
  case (Suc k)
  show ?case
  proof (cases "alloc t")
    case None
    with alloc_NoneD [OF None] have "{i. i < slots \<and> \<not> busy t i} = {}" by auto
    then have free: "card {i. i < slots \<and> \<not> busy t i} = 0" by (simp only: card.empty)
    from Suc.prems None have "is = []" by simp
    then show ?thesis by (simp only: free list.size min_0R)
  next
    case (Some r)
    obtain j t' where r: "r = (j, t')" by fastforce
    obtain js where js: "take_slots alloc k t' = (js, u)" "is = j # js"
      using Suc.prems Some r by (auto split: prod.splits)
    note j = alloc_SomeD [OF Some [unfolded r]]
    have "{i. i < slots \<and> \<not> busy t i} = insert j {i. i < slots \<and> \<not> busy t' i}"
      using j by auto
    moreover have "j \<notin> {i. i < slots \<and> \<not> busy t' i}" using j by simp
    ultimately have "card {i. i < slots \<and> \<not> busy t i}
        = Suc (card {i. i < slots \<and> \<not> busy t' i})" by simp
    with Suc.IH [of t' js] js show ?thesis by simp
  qed
qed

end

section \<open>Allocators\<close>

fun alloc_run :: "('r \<Rightarrow> 'h \<Rightarrow> 'p option \<times> 'h) \<Rightarrow> 'r list \<Rightarrow> 'h \<Rightarrow> ('p \<times> 'r) list \<times> 'h" where
  "alloc_run alloc [] h = ([], h)"
| "alloc_run alloc (r # rs) h =
     (case alloc r h of
        (None, h') \<Rightarrow> alloc_run alloc rs h'
      | (Some p, h') \<Rightarrow> (let (bs, h'') = alloc_run alloc rs h' in ((p, r) # bs, h'')))"

locale allocator =
  fixes alloc :: "'r \<Rightarrow> 'h \<Rightarrow> 'p option \<times> 'h"
    and inv :: "'h \<Rightarrow> bool"
    and mark :: "'h \<Rightarrow> nat"
    and addr :: "'p \<Rightarrow> nat"
    and len :: "'r \<Rightarrow> nat"
    and good :: "'r \<Rightarrow> bool"
    and limit :: nat
  assumes mark_limit: "inv h \<Longrightarrow> mark h \<le> limit"
    and refused: "inv h \<Longrightarrow> good r \<Longrightarrow> alloc r h = (None, h') \<Longrightarrow> h' = h"
    and granted: "inv h \<Longrightarrow> good r \<Longrightarrow> alloc r h = (Some p, h') \<Longrightarrow>
          inv h' \<and> mark h \<le> addr p \<and> addr p + len r \<le> mark h'"
begin

abbreviation before :: "'p \<times> 'r \<Rightarrow> 'p \<times> 'r \<Rightarrow> bool" where
  "before b c \<equiv> addr (fst b) + len (snd b) \<le> addr (fst c)"

lemma alloc_run_blocks:
  assumes "inv h" and "\<forall>r \<in> set rs. good r" and "alloc_run alloc rs h = (bs, h')"
  shows "inv h' \<and> mark h \<le> mark h' \<and> sorted_wrt before bs
         \<and> (\<forall>b \<in> set bs. mark h \<le> addr (fst b) \<and> addr (fst b) + len (snd b) \<le> mark h')"
  using assms
proof (induction rs arbitrary: h bs)
  case Nil
  then show ?case by simp
next
  case (Cons r rs)
  obtain res g where step: "alloc r h = (res, g)" by fastforce
  show ?case
  proof (cases res)
    case None
    with step Cons refused [of h r g] show ?thesis by simp
  next
    case (Some p)
    note g = granted [OF Cons.prems(1) _ step [unfolded Some]]
    obtain cs where run: "alloc_run alloc rs g = (cs, h')" "bs = (p, r) # cs"
      using Cons.prems(3) step Some by (auto split: prod.splits)
    have "inv h' \<and> mark g \<le> mark h' \<and> sorted_wrt before cs
        \<and> (\<forall>b \<in> set cs. mark g \<le> addr (fst b) \<and> addr (fst b) + len (snd b) \<le> mark h')"
      using Cons.IH [OF _ _ run(1)] Cons.prems(2) g by simp
    then show ?thesis using g Cons.prems(2) run(2) by fastforce
  qed
qed

lemma alloc_run_disjoint:
  assumes "inv h" and "\<forall>r \<in> set rs. good r" and "alloc_run alloc rs h = (bs, h')"
    and "i < j" and "j < length bs"
  shows "addr (fst (bs ! i)) + len (snd (bs ! i)) \<le> addr (fst (bs ! j))
         \<and> addr (fst (bs ! j)) + len (snd (bs ! j)) \<le> limit"
proof -
  note run = alloc_run_blocks [OF assms(1-3)]
  then have "before (bs ! i) (bs ! j)" using assms(4,5) by (simp add: sorted_wrt_iff_nth_less)
  moreover have "bs ! j \<in> set bs" using assms(5) by simp
  ultimately show ?thesis using run mark_limit [of h'] by fastforce
qed

end

end
