(* ===== verification/CString.thy ===== *)
theory CString
  imports Prelude
begin

text \<open>
  The memory and string routines of \<^verbatim>\<open>kernel/generic.c\<close> (and \<open>memmove\<close> of \<^verbatim>\<open>libc/libc.c\<close>).

  A C buffer is a \<^typ>\<open>char list\<close> that starts at the pointer and ends where the object
  ends, the terminating NUL included; advancing a pointer drops the head. Reading or
  writing past the end of the object is undefined behaviour in C and the value
  \<^term>\<open>None\<close> here. The value of a character as \<^verbatim>\<open>uint8_t\<close> is \<^term>\<open>of_char c :: int\<close>.
  Source and destination are distinct objects, except for \<open>memmove\<close>, which works on one
  memory.

  \<open>cstr\<close> reads the string a buffer holds. The lemmas relate each routine to list functions
  on that string; the components above this theory work with the strings themselves.
\<close>

abbreviation NUL :: char where
  "NUL \<equiv> CHR 0x00"

abbreviation char_val :: "char \<Rightarrow> int" where
  "char_val c \<equiv> of_char c"

section \<open>Block routines\<close>

fun memset :: "char list \<Rightarrow> int \<Rightarrow> nat \<Rightarrow> char list option" where
  "memset p v 0 = Some p"
| "memset [] v (Suc n) = None"
| "memset (_ # p) v (Suc n) = map_option ((#) (char_of v)) (memset p v n)"

fun memcpy :: "char list \<Rightarrow> char list \<Rightarrow> nat \<Rightarrow> char list option" where
  "memcpy d s 0 = Some d"
| "memcpy (_ # d) (x # s) (Suc n) = map_option ((#) x) (memcpy d s n)"
| "memcpy _ _ (Suc n) = None"

fun memcmp :: "char list \<Rightarrow> char list \<Rightarrow> nat \<Rightarrow> int option" where
  "memcmp a b 0 = Some 0"
| "memcmp (x # a) (y # b) (Suc n) =
     (if x \<noteq> y then Some (char_val x - char_val y) else memcmp a b n)"
| "memcmp _ _ (Suc n) = None"

text \<open>
  \<open>memmove\<close> copies upwards when the destination is below the source and downwards
  otherwise; both loops are over one memory, indexed by address.
\<close>

fun copy_up :: "nat \<Rightarrow> nat \<Rightarrow> nat \<Rightarrow> (nat \<Rightarrow> 'a) \<Rightarrow> (nat \<Rightarrow> 'a)" where
  "copy_up d s 0 m = m"
| "copy_up d s (Suc n) m = copy_up (Suc d) (Suc s) n (m(d := m s))"

fun copy_down :: "nat \<Rightarrow> nat \<Rightarrow> nat \<Rightarrow> (nat \<Rightarrow> 'a) \<Rightarrow> (nat \<Rightarrow> 'a)" where
  "copy_down d s 0 m = m"
| "copy_down d s (Suc n) m = copy_down d s n (m(d + n := m (s + n)))"

definition memmove :: "nat \<Rightarrow> nat \<Rightarrow> nat \<Rightarrow> (nat \<Rightarrow> 'a) \<Rightarrow> (nat \<Rightarrow> 'a)" where
  "memmove d s n m = (if d < s then copy_up d s n m else copy_down d s n m)"

section \<open>String routines\<close>

fun strlen :: "char list \<Rightarrow> nat option" where
  "strlen [] = None"
| "strlen (c # s) = (if c = NUL then Some 0 else map_option Suc (strlen s))"

fun strcmp :: "char list \<Rightarrow> char list \<Rightarrow> int option" where
  "strcmp (x # a) (y # b) =
     (if x \<noteq> NUL \<and> y \<noteq> NUL \<and> x = y then strcmp a b
      else Some (char_val x - char_val y))"
| "strcmp _ _ = None"

fun strncmp :: "char list \<Rightarrow> char list \<Rightarrow> nat \<Rightarrow> int option" where
  "strncmp a b 0 = Some 0"
| "strncmp (x # a) (y # b) (Suc n) =
     (if x \<noteq> y then Some (char_val x - char_val y)
      else if x = NUL then Some 0
      else strncmp a b n)"
| "strncmp _ _ (Suc n) = None"

fun strcpy :: "char list \<Rightarrow> char list \<Rightarrow> char list option" where
  "strcpy (_ # d) (x # s) =
     (if x = NUL then Some (x # d) else map_option ((#) x) (strcpy d s))"
| "strcpy _ _ = None"

fun strncpy :: "char list \<Rightarrow> char list \<Rightarrow> nat \<Rightarrow> char list option" where
  "strncpy d s 0 = Some d"
| "strncpy (y # d) (x # s) (Suc n) =
     (if x = NUL then memset (y # d) 0 (Suc n) else map_option ((#) x) (strncpy d s n))"
| "strncpy _ _ (Suc n) = None"

definition strcat :: "char list \<Rightarrow> char list \<Rightarrow> char list option" where
  "strcat dst src =
     (case strlen dst of None \<Rightarrow> None
      | Some n \<Rightarrow> map_option (\<lambda>d. take n dst @ d) (strcpy (drop n dst) src))"

fun strncat_tail :: "char list \<Rightarrow> char list \<Rightarrow> nat \<Rightarrow> char list option" where
  "strncat_tail (_ # d) s 0 = Some (NUL # d)"
| "strncat_tail (_ # d) (x # s) (Suc n) =
     (if x = NUL then Some (NUL # d) else map_option ((#) x) (strncat_tail d s n))"
| "strncat_tail _ _ _ = None"

definition strncat :: "char list \<Rightarrow> char list \<Rightarrow> nat \<Rightarrow> char list option" where
  "strncat dst src n =
     (case strlen dst of None \<Rightarrow> None
      | Some k \<Rightarrow> map_option (\<lambda>d. take k dst @ d) (strncat_tail (drop k dst) src n))"

text \<open>\<open>strchr\<close> and \<open>strrchr\<close> give the offset of the hit, \<^term>\<open>Some None\<close> for NULL.\<close>

fun strchr :: "char list \<Rightarrow> int \<Rightarrow> nat option option" where
  "strchr [] c = None"
| "strchr (x # s) c =
     (if x = NUL then Some None
      else if x = char_of c then Some (Some 0)
      else map_option (map_option Suc) (strchr s c))"

fun strrchr_from :: "char list \<Rightarrow> int \<Rightarrow> nat \<Rightarrow> nat option \<Rightarrow> nat option option" where
  "strrchr_from [] c i hit = None"
| "strrchr_from (x # s) c i hit =
     (if x = NUL then Some hit
      else strrchr_from s c (Suc i) (if x = char_of c then Some i else hit))"

definition strrchr :: "char list \<Rightarrow> int \<Rightarrow> nat option option" where
  "strrchr s c = strrchr_from s c 0 None"

text \<open>
  \<^verbatim>\<open>strstr(line, t) != NULL\<close>. The routine is not in the repository; this is what the standard says of it.
\<close>

fun occurs :: "string \<Rightarrow> string \<Rightarrow> bool" where
  "occurs t [] = (t = [])"
| "occurs t (c # s) = (take (length t) (c # s) = t \<or> occurs t s)"

section \<open>strtok\<close>

text \<open>
  The static \<^verbatim>\<open>strtok_ptr\<close> together with the buffer it points into. The scan loops run while
  the character is (is not) a delimiter and stop at NUL.
\<close>

record strtok_state =
  tok_buf :: "char list"
  tok_ptr :: "nat option"

function strtok_skip :: "bool \<Rightarrow> char list \<Rightarrow> char list \<Rightarrow> nat \<Rightarrow> nat option" where
  "strtok_skip delims delim b i =
     (if i < length b then
        (if b ! i \<noteq> NUL then
           (case strchr delim (char_val (b ! i)) of
              None \<Rightarrow> None
            | Some hit \<Rightarrow> if (hit \<noteq> None) = delims then strtok_skip delims delim b (Suc i)
                         else Some i)
         else Some i)
      else None)"
  by pat_completeness auto
termination
  by (relation "measure (\<lambda>(delims, delim, b, i). length b - i)") auto

declare strtok_skip.simps [simp del]

definition strtok :: "char list option \<Rightarrow> char list \<Rightarrow> strtok_state
    \<Rightarrow> (nat option \<times> strtok_state) option" where
  "strtok str delim st0 =
     (let st = (case str of Some b \<Rightarrow> st0\<lparr>tok_buf := b, tok_ptr := Some 0\<rparr> | None \<Rightarrow> st0) in
      case tok_ptr st of
        None \<Rightarrow> Some (None, st)
      | Some p \<Rightarrow>
          (case strtok_skip True delim (tok_buf st) p of
             None \<Rightarrow> None
           | Some q \<Rightarrow>
               if tok_buf st ! q = NUL then Some (None, st\<lparr>tok_ptr := Some q\<rparr>)
               else (case strtok_skip False delim (tok_buf st) q of
                       None \<Rightarrow> None
                     | Some e \<Rightarrow>
                         if tok_buf st ! e \<noteq> NUL
                         then Some (Some q, st\<lparr>tok_buf := (tok_buf st)[e := NUL],
                                               tok_ptr := Some (Suc e)\<rparr>)
                         else Some (Some q, st\<lparr>tok_ptr := Some e\<rparr>))))"

section \<open>The string in a buffer\<close>

definition cstr :: "char list \<Rightarrow> string" where
  "cstr b = takeWhile (\<lambda>c. c \<noteq> NUL) b"

lemma cstr_Nil [simp]: "cstr [] = []"
  by (simp add: cstr_def)

lemma cstr_Cons [simp]: "cstr (c # b) = (if c = NUL then [] else c # cstr b)"
  by (simp add: cstr_def)

lemma cstr_no_NUL [simp]: "NUL \<notin> set (cstr b)"
  by (induction b) auto

lemma cstr_append_NUL [simp]: "NUL \<notin> set s \<Longrightarrow> cstr (s @ NUL # junk) = s"
  by (induction s) auto

lemma cstr_self: "NUL \<notin> set s \<Longrightarrow> cstr s = s"
  by (induction s) auto

lemma cstr_length: "NUL \<in> set b \<Longrightarrow> length (cstr b) < length b"
  by (induction b) auto

lemma strlen_eq: "strlen b = (if NUL \<in> set b then Some (length (cstr b)) else None)"
  by (induction b) auto

lemma char_val_eq_0 [simp]: "char_val c = 0 \<longleftrightarrow> c = NUL"
  using of_char_eq_iff [of c NUL, where ?'a = int] by simp

lemma char_val_nonneg [simp]: "0 \<le> char_val c"
  by (metis of_nat_of_char of_nat_0_le_iff)

lemma char_val_pos: "c \<noteq> NUL \<Longrightarrow> 0 < char_val c"
  using char_val_nonneg [of c] char_val_eq_0 [of c] by linarith

lemma strcmp_defined:
  "NUL \<in> set a \<Longrightarrow> NUL \<in> set b \<Longrightarrow> \<exists>r. strcmp a b = Some r"
  by (induction a b rule: strcmp.induct) auto

lemma strcmp_zero:
  "strcmp a b = Some r \<Longrightarrow> r = 0 \<longleftrightarrow> cstr a = cstr b"
  by (induction a b rule: strcmp.induct) (auto split: if_splits)

definition char_less :: "(char \<times> char) set" where
  "char_less = {(x, y). char_val x < char_val y}"

lemma strcmp_negative:
  "strcmp a b = Some r \<Longrightarrow> r < 0 \<longleftrightarrow> (cstr a, cstr b) \<in> lexord char_less"
proof (induction a b rule: strcmp.induct)
  case (1 x a y b)
  then show ?case
    by (auto simp: char_less_def char_val_pos not_less split: if_splits)
qed auto

lemma memset_eq:
  "memset b v n = (if n \<le> length b then Some (replicate n (char_of v) @ drop n b) else None)"
  by (induction b v n rule: memset.induct) auto

lemma memcpy_eq:
  "memcpy d s n = (if n \<le> length d \<and> n \<le> length s then Some (take n s @ drop n d) else None)"
  by (induction d s n rule: memcpy.induct) auto

lemma strncpy_length: "strncpy d s n = Some b \<Longrightarrow> length b = length d"
proof (induction d s n arbitrary: b rule: strncpy.induct)
  case (2 y d x s n)
  then show ?case by (auto simp: memset_eq min_def split: if_splits)
qed auto


lemma char_of_0 [simp]: "char_of (0::int) = NUL"
  by (rule of_char_eqI [where ?'a = int]) (simp add: of_char_of)

lemma strncpy_content:
  assumes "strncpy d s n = Some b" "n < length d" "d ! n = NUL"
  shows "cstr b = take n (cstr s) \<and> drop n b = drop n d"
  using assms
proof (induction d s n arbitrary: b rule: strncpy.induct)
  case (1 d s)
  then show ?case by (cases d) auto
next
  case (2 y d x s n)
  show ?case
  proof (cases "x = NUL")
    case True
    with "2.prems" show ?thesis by (auto simp: memset_eq split: if_splits)
  next
    case False
    with 2 show ?thesis by auto
  qed
qed auto

lemma strncpy_defined:
  assumes "NUL \<in> set s" "n \<le> length d"
  shows "\<exists>b. strncpy d s n = Some b"
  using assms
proof (induction d s n rule: strncpy.induct)
  case (2 y d x s n)
  then show ?case by (auto simp: memset_eq)
qed (auto simp: Suc_le_length_iff)

section \<open>strtok splits into fields\<close>

text \<open>
  The specification of the idiom ``\<^verbatim>\<open>for (t = strtok(s, d); t; t = strtok(NULL, d))\<close>'': the
  maximal delimiter-free pieces of the string, in order. \<open>strtok_loop\<close> is that loop; its
  fuel counts the calls, and one more than the length of the string is enough, since every
  token takes at least one character.
\<close>

function fields :: "(char \<Rightarrow> bool) \<Rightarrow> string \<Rightarrow> string list" where
  "fields P [] = []"
| "fields P (c # s) =
     (if P c then fields P s
      else takeWhile (\<lambda>d. \<not> P d) (c # s) # fields P (dropWhile (\<lambda>d. \<not> P d) s))"
  by pat_completeness auto
termination
  by (relation "measure (\<lambda>(P, s). length s)") (auto simp: le_imp_less_Suc length_dropWhile_le)

fun strtok_loop :: "nat \<Rightarrow> char list \<Rightarrow> (nat option \<times> strtok_state) option \<Rightarrow> string list option" where
  "strtok_loop 0 delim r = None"
| "strtok_loop (Suc k) delim None = None"
| "strtok_loop (Suc k) delim (Some (None, st)) = Some []"
| "strtok_loop (Suc k) delim (Some (Some q, st)) =
     map_option ((#) (cstr (drop q (tok_buf st)))) (strtok_loop k delim (strtok None delim st))"

lemma strchr_delim:
  "NUL \<notin> set ds \<Longrightarrow> \<exists>hit. strchr (ds @ [NUL]) (char_val c) = Some hit \<and> (hit \<noteq> None) = (c \<in> set ds)"
  by (induction ds) auto

lemma strtok_skip_run:
  assumes "NUL \<notin> set ds" and "NUL \<notin> set s"
  shows "strtok_skip want (ds @ [NUL]) (pre @ s @ NUL # junk) (length pre)
       = Some (length pre + length (takeWhile (\<lambda>c. (c \<in> set ds) = want) s))"
  using assms(2)
proof (induction s arbitrary: pre)
  case Nil
  show ?case by (simp add: strtok_skip.simps nth_append)
next
  case (Cons c s)
  from strchr_delim [OF assms(1), of c] obtain hit
    where hit: "strchr (ds @ [NUL]) (char_val c) = Some hit" "(hit \<noteq> None) = (c \<in> set ds)"
    by blast
  have step: "strtok_skip want (ds @ [NUL]) (pre @ (c # s) @ NUL # junk) (length pre)
      = (if (c \<in> set ds) = want
         then strtok_skip want (ds @ [NUL]) ((pre @ [c]) @ s @ NUL # junk) (length (pre @ [c]))
         else Some (length pre))"
    using Cons.prems hit
    by (subst strtok_skip.simps) (auto simp: nth_append)
  show ?case
    using Cons.IH [of "pre @ [c]"] Cons.prems by (subst step) auto
qed


text \<open>
  One call on a text \<open>s\<close> that follows \<open>pre\<close> in the buffer: the delimiters at its front are skipped, and the
  token behind them is cut off by a terminator if there is a delimiter left.
\<close>

lemma strtok_once:
  fixes ds s pre junk :: string
  defines "lead \<equiv> takeWhile (\<lambda>c. c \<in> set ds) s" and "rest \<equiv> dropWhile (\<lambda>c. c \<in> set ds) s"
  defines "tok \<equiv> takeWhile (\<lambda>c. c \<notin> set ds) rest" and "left \<equiv> dropWhile (\<lambda>c. c \<notin> set ds) rest"
  assumes "NUL \<notin> set ds" and "NUL \<notin> set s"
    and "tok_buf st = pre @ s @ NUL # junk" and "tok_ptr st = Some (length pre)"
  shows "rest = [] \<Longrightarrow> strtok None (ds @ [NUL]) st = Some (None, st\<lparr>tok_ptr := Some (length (pre @ lead))\<rparr>)"
    and "rest \<noteq> [] \<Longrightarrow> left = [] \<Longrightarrow> strtok None (ds @ [NUL]) st
      = Some (Some (length (pre @ lead)), st\<lparr>tok_ptr := Some (length (pre @ lead @ tok))\<rparr>)"
    and "left = c # m \<Longrightarrow> strtok None (ds @ [NUL]) st
      = Some (Some (length (pre @ lead)), st\<lparr>tok_buf := (pre @ lead @ tok @ [NUL]) @ m @ NUL # junk,
          tok_ptr := Some (length (pre @ lead @ tok @ [NUL]))\<rparr>)"
proof -
  have s: "s = lead @ rest" and rest: "rest = tok @ left" by (simp_all add: lead_def rest_def tok_def left_def)
  have buf: "tok_buf st = (pre @ lead) @ rest @ NUL # junk" using assms(7) s by simp
  have noNUL: "NUL \<notin> set rest" using assms(6) s by auto
  then have noNULs: "NUL \<notin> set tok" "NUL \<notin> set left" using rest by auto
  have skip: "strtok_skip True (ds @ [NUL]) (tok_buf st) (length pre) = Some (length (pre @ lead))"
    using strtok_skip_run [OF assms(5,6), of True pre junk] assms(7) by (simp add: lead_def)
  have skip2: "strtok_skip False (ds @ [NUL]) (tok_buf st) (length (pre @ lead)) = Some (length (pre @ lead @ tok))"
    using strtok_skip_run [OF assms(5) noNUL, of False "pre @ lead" junk] buf by (simp add: tok_def)
  show "strtok None (ds @ [NUL]) st = Some (None, st\<lparr>tok_ptr := Some (length (pre @ lead))\<rparr>)" if "rest = []"
    using that skip assms(8) buf by (simp add: strtok_def nth_append)
  have at: "tok_buf st ! length (pre @ lead) \<noteq> NUL" if "rest \<noteq> []"
    using buf that noNUL by (cases rest) (auto simp: nth_append)
  show "strtok None (ds @ [NUL]) st
      = Some (Some (length (pre @ lead)), st\<lparr>tok_ptr := Some (length (pre @ lead @ tok))\<rparr>)"
    if "rest \<noteq> []" and "left = []"
    using skip skip2 assms(8) at [OF that(1)] buf rest that(2) by (simp add: strtok_def nth_append)
  show "strtok None (ds @ [NUL]) st
      = Some (Some (length (pre @ lead)), st\<lparr>tok_buf := (pre @ lead @ tok @ [NUL]) @ m @ NUL # junk,
          tok_ptr := Some (length (pre @ lead @ tok @ [NUL]))\<rparr>)" if "left = c # m"
  proof -
    have "tok_buf st ! length (pre @ lead @ tok) \<noteq> NUL" using buf rest that noNULs by (auto simp: nth_append)
    moreover have "(tok_buf st)[length (pre @ lead @ tok) := NUL] = (pre @ lead @ tok @ [NUL]) @ m @ NUL # junk"
      using buf rest that by (simp add: list_update_append)
    moreover have "rest \<noteq> []" using rest that by simp
    ultimately show ?thesis using skip skip2 assms(8) at by (simp add: strtok_def)
  qed
qed

lemma strtok_fields:
  assumes "NUL \<notin> set ds" and "NUL \<notin> set s" and "length (fields (\<lambda>c. c \<in> set ds) s) < k"
    and "tok_buf st = pre @ s @ NUL # junk" and "tok_ptr st = Some (length pre)"
  shows "strtok_loop k (ds @ [NUL]) (strtok None (ds @ [NUL]) st)
       = Some (fields (\<lambda>c. c \<in> set ds) s)"
  using assms(2-5)
proof (induction "length s" arbitrary: k s pre st rule: less_induct)
  case less
  let ?P = "\<lambda>c. c \<in> set ds"
  define lead where "lead = takeWhile ?P s"
  define rest where "rest = dropWhile ?P s"
  define tok where "tok = takeWhile (\<lambda>c. \<not> ?P c) rest"
  define left where "left = dropWhile (\<lambda>c. \<not> ?P c) rest"
  have s: "s = lead @ rest" and rest: "rest = tok @ left" by (simp_all add: lead_def rest_def tok_def left_def)
  have buf: "tok_buf st = pre @ lead @ tok @ left @ NUL # junk" using less.prems(3) s rest by simp
  have noNULs: "NUL \<notin> set tok" "NUL \<notin> set left" using less.prems(1) s rest by auto
  obtain k' where k: "k = Suc k'" using less.prems(2) by (cases k) auto
  note call = strtok_once [OF assms(1) less.prems(1,3,4), folded lead_def rest_def, folded tok_def left_def]
  have fields_s: "fields ?P s = fields ?P rest" unfolding rest_def by (induction s) auto
  show ?case
  proof (cases "rest = []")
    case True
    then show ?thesis using call(1) fields_s k by simp
  next
    case False
    then have "\<not> ?P (hd rest)" unfolding rest_def by (rule hd_dropWhile)
    then have fields_rest: "fields ?P s = tok # fields ?P left"
      using False by (cases rest) (simp_all add: fields_s tok_def left_def)
    have "tok \<noteq> []" using \<open>\<not> ?P (hd rest)\<close> False by (cases rest) (simp_all add: tok_def)
    show ?thesis
    proof (cases left)
      case Nil
      let ?st = "st\<lparr>tok_ptr := Some (length (pre @ lead @ tok))\<rparr>"
      have "strtok_loop k' (ds @ [NUL]) (strtok None (ds @ [NUL]) ?st) = Some (fields ?P [])"
        using less.prems(2) k fields_rest Nil False s buf
        by (intro less.hyps [where pre = "pre @ lead @ tok"]) simp_all
      then show ?thesis using call(2) False Nil buf noNULs by (simp add: k fields_rest)
    next
      case (Cons d m)
      then have "?P d" unfolding left_def by (metis hd_dropWhile list.distinct(1) list.sel(1))
      let ?st = "st\<lparr>tok_buf := (pre @ lead @ tok @ [NUL]) @ m @ NUL # junk,
          tok_ptr := Some (length (pre @ lead @ tok @ [NUL]))\<rparr>"
      have "strtok_loop k' (ds @ [NUL]) (strtok None (ds @ [NUL]) ?st) = Some (fields ?P m)"
        using less.prems(2) k fields_rest Cons \<open>?P d\<close> s rest noNULs
        by (intro less.hyps [where pre = "pre @ lead @ tok @ [NUL]"]) simp_all
      then show ?thesis using call(3) [OF Cons] noNULs Cons \<open>?P d\<close> by (simp add: k fields_rest)
    qed
  qed
qed

lemma fields_no_delim: "\<forall>c \<in> set n. \<not> P c \<Longrightarrow> n \<noteq> [] \<Longrightarrow> fields P n = [n]"
proof (induction n)
  case (Cons c n)
  then have dw: "dropWhile (\<lambda>d. \<not> P d) n = []" and tw: "takeWhile (\<lambda>d. \<not> P d) n = n"
    by (simp_all add: takeWhile_eq_all_conv)
  have "fields P (c # n)
      = (c # takeWhile (\<lambda>d. \<not> P d) n) # fields P (dropWhile (\<lambda>d. \<not> P d) n)"
    using Cons by simp
  then show ?case unfolding dw tw by simp
qed simp

lemma fields_split: "P d \<Longrightarrow> fields P (a @ d # b) = fields P a @ fields P b"
proof (induction P a rule: fields.induct)
  case (2 P c s)
  show ?case
  proof (cases "P c")
    case False
    have t: "takeWhile (\<lambda>d. \<not> P d) (s @ d # b) = takeWhile (\<lambda>d. \<not> P d) s"
      and dr: "dropWhile (\<lambda>d. \<not> P d) (s @ d # b) = dropWhile (\<lambda>d. \<not> P d) s @ d # b"
      using 2(3) by (induction s) auto
    show ?thesis using 2(2) [OF False 2(3)] False by (simp add: t dr)
  qed (use 2 in simp)
qed simp

lemma length_fields_le: "length (fields P s) \<le> length s"
  by (induction P s rule: fields.induct) (auto intro: le_trans [OF _ length_dropWhile_le])

lemma strtok_splits:
  assumes "NUL \<notin> set ds" and "NUL \<notin> set s"
  shows "strtok_loop (Suc (length s)) (ds @ [NUL]) (strtok (Some (s @ NUL # junk)) (ds @ [NUL]) st)
         = Some (fields (\<lambda>c. c \<in> set ds) s)"
proof -
  let ?st = "st\<lparr>tok_buf := s @ NUL # junk, tok_ptr := Some 0\<rparr>"
  have "strtok (Some (s @ NUL # junk)) (ds @ [NUL]) st = strtok None (ds @ [NUL]) ?st"
    by (simp add: strtok_def)
  then show ?thesis
    using strtok_fields [OF assms, of "Suc (length s)" ?st "[]" junk] length_fields_le
    by (simp add: le_imp_less_Suc)
qed

text \<open>
  C18. Calling \<open>strtok\<close> on a string and then with NULL until it returns NULL gives exactly the
  non-empty delimiter-free fields of the string, in order, whatever lies behind the
  terminator, and never leaves the buffer.
\<close>

theorem strtok_all_fields:
  assumes "NUL \<notin> set ds" and "NUL \<notin> set s"
  shows "strtok_loop (Suc (length s)) (ds @ [NUL]) (strtok (Some (s @ NUL # junk)) (ds @ [NUL]) st)
         = Some (fields (\<lambda>c. c \<in> set ds) s)"
  using assms by (rule strtok_splits)

theorem strtok_all_fields_witness:
  "strtok_loop 6 [CHR ''/'', NUL] (strtok (Some (''/a//b'' @ [NUL, CHR ''x''])) [CHR ''/'', NUL]
      \<lparr>tok_buf = [], tok_ptr = None\<rparr>) = Some [''a'', ''b'']"
proof -
  have "NUL \<notin> set ''/''" and "NUL \<notin> set ''/a//b''" by simp_all
  from strtok_all_fields [OF this, of "''x''" "\<lparr>tok_buf = [], tok_ptr = None\<rparr>"]
  show ?thesis by (simp add: eval_nat_numeral)
qed


section \<open>Comparison and block copy\<close>

lemma strncmp_zero:
  "strncmp a b n = Some r \<Longrightarrow> r = 0 \<longleftrightarrow> take n (cstr a) = take n (cstr b)"
  by (induction a b n rule: strncmp.induct) (auto split: if_splits)

lemma strncmp_defined:
  "NUL \<in> set a \<Longrightarrow> NUL \<in> set b \<Longrightarrow> \<exists>r. strncmp a b n = Some r"
  by (induction a b n rule: strncmp.induct) auto

lemma strcpy_eq:
  assumes "NUL \<in> set s"
  shows "strcpy d s = (if length (cstr s) < length d
           then Some (cstr s @ NUL # drop (Suc (length (cstr s))) d) else None)"
  using assms by (induction d s rule: strcpy.induct) auto

lemma copy_up_apply:
  assumes "d \<le> s \<or> s + n \<le> d"
  shows "copy_up d s n m k = (if d \<le> k \<and> k < d + n then m (s + (k - d)) else m k)"
  using assms
proof (induction d s n m rule: copy_up.induct)
  case (2 d s n m)
  have "copy_up (Suc d) (Suc s) n (m(d := m s)) k
      = (if Suc d \<le> k \<and> k < Suc d + n then (m(d := m s)) (Suc s + (k - Suc d))
         else (m(d := m s)) k)"
    using "2.prems" by (intro "2.IH") auto
  with "2.prems" show ?case by (auto simp: Suc_diff_Suc)
qed auto

lemma copy_down_apply:
  assumes "s \<le> d"
  shows "copy_down d s n m k = (if d \<le> k \<and> k < d + n then m (s + (k - d)) else m k)"
  using assms
proof (induction d s n m rule: copy_down.induct)
  case (2 d s n m)
  have "copy_down d s n (m(d + n := m (s + n))) k
      = (if d \<le> k \<and> k < d + n then (m(d + n := m (s + n))) (s + (k - d))
         else (m(d + n := m (s + n))) k)"
    using "2.prems" by (rule "2.IH")
  with "2.prems" show ?case by auto
qed auto

text \<open>
  \<open>memmove\<close> copies the source range as it was before the call, even where source and
  destination overlap, and changes nothing outside the destination.
\<close>

theorem memmove_apply:
  "memmove d s n m k = (if d \<le> k \<and> k < d + n then m (s + (k - d)) else m k)"
  by (simp add: memmove_def copy_up_apply copy_down_apply)

text \<open>
  On terminated strings \<open>strcmp\<close> never leaves the buffers, returns 0 exactly for equal
  strings and a negative value exactly when the first string comes first in the
  lexicographic order of the characters read as unsigned bytes.
\<close>

theorem strcmp_compares:
  assumes "NUL \<in> set a" and "NUL \<in> set b"
  shows "\<exists>r. strcmp a b = Some r \<and> (r = 0 \<longleftrightarrow> cstr a = cstr b)
             \<and> (r < 0 \<longleftrightarrow> (cstr a, cstr b) \<in> lexord char_less)"
  using strcmp_defined [OF assms] strcmp_zero strcmp_negative by blast

theorem strcmp_compares_witness:
  "\<exists>r. strcmp [CHR ''a'', NUL] [CHR ''b'', NUL] = Some r \<and> r < 0"
proof -
  have "NUL \<in> set [CHR ''a'', NUL]" and "NUL \<in> set [CHR ''b'', NUL]" by simp_all
  from strcmp_compares [OF this]
  show ?thesis by (auto simp: char_less_def lexord_def)
qed

end
