(* ===== verification/Heap_Alloc.thy ===== *)
theory Heap_Alloc
  imports Interfaces CString
begin

text \<open>
  The kernel heap of \<^verbatim>\<open>kernel/generic.c\<close>: a bump allocator over the 8 MB array \<^verbatim>\<open>heap\<close>.

  A pointer into the heap is its offset from \<^verbatim>\<open>&heap[0]\<close>, NULL is \<^term>\<open>None\<close>. All arithmetic
  on \<^verbatim>\<open>heap_ptr\<close> and \<^verbatim>\<open>size\<close> is on 32-bit unsigned values and wraps as in the code
  (\<^verbatim>\<open>size_t\<close> is \<^verbatim>\<open>unsigned int\<close> on this target). The contents of the array is a function
  from offsets to bytes.
\<close>

record heap =
  h_mem :: "nat \<Rightarrow> u8"
  h_ptr :: u32

definition HEAP_SIZE :: u32 where
  "HEAP_SIZE = 1024 * 1024 * 8"

definition malloc :: "u32 \<Rightarrow> heap \<Rightarrow> u32 option \<times> heap" where
  "malloc sz h =
     (if h_ptr h + sz > HEAP_SIZE then (None, h)
      else let ptr = h_ptr h;
               hp = h_ptr h + sz;
               hp = (hp + 3) AND NOT 3
           in (Some ptr, h\<lparr>h_ptr := hp\<rparr>))"

definition realloc :: "u32 option \<Rightarrow> u32 \<Rightarrow> heap \<Rightarrow> u32 option \<times> heap" where
  "realloc ptr sz h =
     (case ptr of
        None \<Rightarrow> malloc sz h
      | Some p \<Rightarrow>
          (case malloc sz h of
             (None, h') \<Rightarrow> (None, h')
           | (Some q, h') \<Rightarrow>
               (Some q, h'\<lparr>h_mem := copy_up (unat q) (unat p) (unat sz) (h_mem h')\<rparr>)))"

definition free :: "u32 option \<Rightarrow> heap \<Rightarrow> heap" where
  "free ptr h = h"

text \<open>\<^verbatim>\<open>memcpy\<close> from an object outside the heap into it, and reading a range back.\<close>

fun store_bytes :: "nat \<Rightarrow> 'a list \<Rightarrow> (nat \<Rightarrow> 'a) \<Rightarrow> (nat \<Rightarrow> 'a)" where
  "store_bytes d [] m = m"
| "store_bytes d (x # xs) m = store_bytes (Suc d) xs (m(d := x))"

definition load_bytes :: "nat \<Rightarrow> nat \<Rightarrow> (nat \<Rightarrow> 'a) \<Rightarrow> 'a list" where
  "load_bytes d n m = map m [d..<d + n]"

definition byte_of :: "char \<Rightarrow> u8" where
  "byte_of c = word_of_int (char_val c)"

text \<open>\<open>strdup\<close> of the string \<open>s\<close>: \<open>strlen(s) + 1\<close> bytes, the terminator copied too.\<close>

definition strdup :: "string \<Rightarrow> heap \<Rightarrow> u32 option \<times> heap" where
  "strdup s h =
     (let len = of_nat (length s + 1) in
      case malloc len h of
        (None, h') \<Rightarrow> (None, h')
      | (Some p, h') \<Rightarrow>
          (Some p, h'\<lparr>h_mem := store_bytes (unat p) (map byte_of (s @ [NUL])) (h_mem h')\<rparr>))"

section \<open>Memory ranges\<close>

lemma store_bytes_apply:
  "store_bytes d xs m k = (if d \<le> k \<and> k < d + length xs then xs ! (k - d) else m k)"
proof (induction d xs m rule: store_bytes.induct)
  case (2 d x xs m)
  have "store_bytes (Suc d) xs (m(d := x)) k
      = (if Suc d \<le> k \<and> k < Suc d + length xs then xs ! (k - Suc d) else (m(d := x)) k)"
    by (rule "2.IH")
  then show ?case by (auto simp: nth_Cons' Suc_diff_Suc)
qed auto

lemma length_load_bytes [simp]: "length (load_bytes d n m) = n"
  by (simp add: load_bytes_def)

lemma nth_load_bytes [simp]: "i < n \<Longrightarrow> load_bytes d n m ! i = m (d + i)"
  by (simp add: load_bytes_def)

lemma load_bytes_cong:
  "(\<And>k. d \<le> k \<Longrightarrow> k < d + n \<Longrightarrow> m k = m' k) \<Longrightarrow> load_bytes d n m = load_bytes d n m'"
  by (rule nth_equalityI) auto

lemma load_store_same [simp]: "load_bytes d (length xs) (store_bytes d xs m) = xs"
  by (rule nth_equalityI) (auto simp: store_bytes_apply)

lemma load_store_other:
  "d + n \<le> e \<or> e + length xs \<le> d \<Longrightarrow> load_bytes d n (store_bytes e xs m) = load_bytes d n m"
  by (rule load_bytes_cong) (auto simp: store_bytes_apply)

lemma copy_up_outside: "k < d \<or> d + n \<le> k \<Longrightarrow> copy_up d s n m k = m k"
  by (induction d s n m rule: copy_up.induct) auto

lemma copy_up_prefix: "k < n \<Longrightarrow> s + k < d \<Longrightarrow> copy_up d s n m (d + k) = m (s + k)"
proof (induction d s n m arbitrary: k rule: copy_up.induct)
  case (2 d s n m)
  show ?case
  proof (cases k)
    case 0
    with "2.prems" show ?thesis by (simp add: copy_up_outside)
  next
    case (Suc j)
    then have "copy_up (Suc d) (Suc s) n (m(d := m s)) (Suc d + j) = (m(d := m s)) (Suc s + j)"
      using "2.prems" by (intro "2.IH") auto
    with Suc "2.prems" show ?thesis by simp
  qed
qed simp

section \<open>The allocator contract\<close>

definition heap_ok :: "heap \<Rightarrow> bool" where
  "heap_ok h \<longleftrightarrow> unat (h_ptr h) \<le> unat HEAP_SIZE \<and> 4 dvd unat (h_ptr h)"

text \<open>Request sizes for which \<open>heap_ptr + size\<close> cannot wrap.\<close>

definition size_ok :: "u32 \<Rightarrow> bool" where
  "size_ok sz \<longleftrightarrow> unat sz < 2 ^ 32 - unat HEAP_SIZE"

lemma unat_HEAP_SIZE [simp]: "unat HEAP_SIZE = 8388608"
  by (simp add: HEAP_SIZE_def)

lemma unat_align4:
  assumes "unat w + 3 < 2 ^ 32"
  shows "unat ((w + 3) AND NOT 3 :: u32) = (unat w + 3) div 4 * 4"
proof -
  have "unat (w + 3) = unat w + 3" using assms by (simp add: unat_word_ariths)
  then show ?thesis using unat_and_not_mask [of "w + 3" 2] by (simp add: mask_2 [symmetric])
qed

lemma malloc_cases:
  assumes "heap_ok h" and "size_ok sz"
  shows "malloc sz h =
    (if unat (h_ptr h) + unat sz \<le> unat HEAP_SIZE
     then (Some (h_ptr h), h\<lparr>h_ptr := (h_ptr h + sz + 3) AND NOT 3\<rparr>) else (None, h))"
proof -
  have "unat (h_ptr h + sz) = unat (h_ptr h) + unat sz"
    using assms by (simp add: heap_ok_def size_ok_def unat_word_ariths)
  then show ?thesis by (auto simp: malloc_def Let_def word_less_nat_alt not_less)
qed

lemma malloc_SomeD:
  assumes "heap_ok h" and "size_ok sz" and "malloc sz h = (Some p, h')"
  shows "heap_ok h' \<and> p = h_ptr h \<and> unat p + unat sz \<le> unat (h_ptr h')
         \<and> unat (h_ptr h') < unat p + unat sz + 4 \<and> h_mem h' = h_mem h"
proof -
  have fits: "unat (h_ptr h) + unat sz \<le> 8388608" and p: "p = h_ptr h"
      and h': "h' = h\<lparr>h_ptr := (h_ptr h + sz + 3) AND NOT 3\<rparr>"
    using assms(3) by (auto simp: malloc_cases [OF assms(1,2)] split: if_splits)
  have sum: "unat (h_ptr h + sz) = unat (h_ptr h) + unat sz"
    using fits by (simp add: unat_word_ariths)
  then have ptr: "unat (h_ptr h') = (unat (h_ptr h) + unat sz + 3) div 4 * 4"
    using fits unat_align4 [of "h_ptr h + sz"] by (simp add: h')
  have "(unat (h_ptr h) + unat sz + 3) div 4 \<le> 2097152"
    using fits by (simp add: div_le_mono [of "unat (h_ptr h) + unat sz + 3" "4 * 2097152 + 3" 4, simplified])
  then have "unat (h_ptr h') \<le> 8388608" using ptr by simp
  moreover have "unat (h_ptr h) + unat sz \<le> unat (h_ptr h')"
      and "unat (h_ptr h') < unat (h_ptr h) + unat sz + 4"
    unfolding ptr by presburger+
  ultimately show ?thesis using ptr by (simp add: heap_ok_def p) (simp add: h')
qed

lemma malloc_NoneD: "malloc sz h = (None, h') \<Longrightarrow> h' = h"
  by (simp add: malloc_def Let_def split: if_splits)


lemma realloc_SomeD:
  assumes "heap_ok h" and "size_ok sz" and "realloc ptr sz h = (Some q, h')"
  shows "heap_ok h' \<and> q = h_ptr h \<and> unat q + unat sz \<le> unat (h_ptr h')
         \<and> (\<forall>k < unat q. h_mem h' k = h_mem h k)"
proof (cases ptr)
  case None
  with assms malloc_SomeD [OF assms(1,2)] show ?thesis by (auto simp: realloc_def)
next
  case (Some p)
  obtain g where g: "malloc sz h = (Some q, g)"
      "h' = g\<lparr>h_mem := copy_up (unat q) (unat p) (unat sz) (h_mem g)\<rparr>"
    using assms(3) Some by (auto simp: realloc_def split: prod.splits option.splits)
  with malloc_SomeD [OF assms(1,2) g(1)] show ?thesis
    by (auto simp: heap_ok_def copy_up_outside)
qed

lemma realloc_NoneD: "realloc ptr sz h = (None, h') \<Longrightarrow> h' = h"
  by (auto simp: realloc_def dest: malloc_NoneD split: option.splits prod.splits)

lemma realloc_contents:
  assumes "heap_ok h" and "size_ok sz" and "realloc (Some p) sz h = (Some q, h')"
    and "unat p + n \<le> unat (h_ptr h)" and "n \<le> unat sz"
  shows "load_bytes (unat q) n (h_mem h') = load_bytes (unat p) n (h_mem h)"
proof -
  obtain g where g: "malloc sz h = (Some q, g)"
      "h' = g\<lparr>h_mem := copy_up (unat q) (unat p) (unat sz) (h_mem g)\<rparr>"
    using assms(3) by (auto simp: realloc_def split: prod.splits option.splits)
  note m = malloc_SomeD [OF assms(1,2) g(1)]
  show ?thesis
  proof (rule nth_equalityI)
    fix i
    assume "i < length (load_bytes (unat q) n (h_mem h'))"
    then have i: "i < n" by simp
    with assms(4,5) m have "unat p + i < unat q" "i < unat sz" by auto
    with i m show "load_bytes (unat q) n (h_mem h') ! i = load_bytes (unat p) n (h_mem h) ! i"
      by (simp add: g(2) copy_up_prefix)
  qed simp
qed

text \<open>A request of a client of the heap; \<open>free\<close> never gives memory back.\<close>

datatype heap_request = Malloc (req_size: u32) | Realloc "u32 option" (req_size: u32)

fun heap_serve :: "heap_request \<Rightarrow> heap \<Rightarrow> u32 option \<times> heap" where
  "heap_serve (Malloc sz) h = malloc sz h"
| "heap_serve (Realloc ptr sz) h = realloc ptr sz h"

lemma heap_serve_granted:
  assumes "heap_ok h" and "size_ok (req_size r)" and "heap_serve r h = (Some p, h')"
  shows "heap_ok h' \<and> unat (h_ptr h) \<le> unat p
         \<and> unat p + unat (req_size r) \<le> unat (h_ptr h')"
  using assms malloc_SomeD [of h "req_size r" p h'] realloc_SomeD [of h "req_size r" _ p h']
  by (cases r) fastforce+

lemma heap_serve_refused: "heap_serve r h = (None, h') \<Longrightarrow> h' = h"
  by (cases r) (auto dest: malloc_NoneD realloc_NoneD)

interpretation kernel_heap: allocator heap_serve heap_ok "\<lambda>h. unat (h_ptr h)" unat
    "\<lambda>r. unat (req_size r)" "\<lambda>r. size_ok (req_size r)" "unat HEAP_SIZE"
proof unfold_locales
  show "unat (h_ptr h) \<le> unat HEAP_SIZE" if "heap_ok h" for h
    using that by (simp add: heap_ok_def)
next
  show "h' = h" if "heap_serve r h = (None, h')" for h r h'
    using that by (rule heap_serve_refused)
next
  show "heap_ok h' \<and> unat (h_ptr h) \<le> unat p \<and> unat p + unat (req_size r) \<le> unat (h_ptr h')"
    if "heap_ok h" "size_ok (req_size r)" "heap_serve r h = (Some p, h')" for h r p h'
    using that by (rule heap_serve_granted)
qed

text \<open>
  C16. As long as every requested size is more than 8 MB below \<open>2^32\<close>, so that the 32-bit sum of the bounds check
  cannot wrap (\<open>malloc_wraps_around\<close> below shows that blocks overlap otherwise), the blocks granted by any run of
  \<open>malloc\<close> and \<open>realloc\<close> calls (with \<open>free\<close> calls in between, which do nothing) are pairwise disjoint and
  lie inside the 8 MB heap array.
\<close>

theorem heap_blocks_disjoint:
  assumes "heap_ok h" and "\<forall>r \<in> set rs. size_ok (req_size r)"
    and "alloc_run heap_serve rs h = (bs, h')" and "i < j" and "j < length bs"
  shows "unat (fst (bs ! i)) + unat (req_size (snd (bs ! i))) \<le> unat (fst (bs ! j))
         \<and> unat (fst (bs ! j)) + unat (req_size (snd (bs ! j))) \<le> unat HEAP_SIZE"
  using assms by (rule kernel_heap.alloc_run_disjoint)

theorem heap_blocks_disjoint_witness:
  "case alloc_run heap_serve [Malloc 5, Realloc (Some 0) 7] \<lparr>h_mem = (\<lambda>_. 0), h_ptr = 0\<rparr> of (bs, h') \<Rightarrow>
     map snd bs = [Malloc 5, Realloc (Some 0) 7]
     \<and> unat (fst (bs ! 0)) + 5 \<le> unat (fst (bs ! 1)) \<and> unat (fst (bs ! 1)) + 7 \<le> unat HEAP_SIZE"
proof -
  let ?h = "\<lparr>h_mem = (\<lambda>_. 0), h_ptr = 0\<rparr>"
  have run: "alloc_run heap_serve [Malloc 5, Realloc (Some 0) 7] ?h
      = ([(0, Malloc 5), (8, Realloc (Some 0) 7)],
         \<lparr>h_mem = copy_up 8 0 7 (\<lambda>_. 0), h_ptr = 16\<rparr>)"
    by (simp add: malloc_def realloc_def HEAP_SIZE_def Let_def)
  show ?thesis
    using heap_blocks_disjoint [of ?h "[Malloc 5, Realloc (Some 0) 7]", OF _ _ run, of 0 1]
    unfolding run by (simp add: heap_ok_def size_ok_def)
qed

text \<open>
  Growing a block with \<open>realloc\<close> keeps its contents (as much of it as fits) and leaves
  every byte below the heap mark, so every other block, as it was.
\<close>

theorem realloc_keeps:
  assumes "heap_ok h" and "size_ok sz" and "realloc (Some p) sz h = (Some q, h')"
    and "unat p + n \<le> unat (h_ptr h)" and "n \<le> unat sz"
  shows "load_bytes (unat q) n (h_mem h') = load_bytes (unat p) n (h_mem h)
         \<and> (\<forall>k < unat (h_ptr h). h_mem h' k = h_mem h k)"
  using realloc_contents [OF assms] realloc_SomeD [OF assms(1-3)] by simp

theorem realloc_keeps_witness:
  "load_bytes 4 3 (copy_up 4 0 6 (\<lambda>k. if k = 1 then 7 else 0 :: u8)) = [0, 7, 0]"
proof -
  let ?h = "\<lparr>h_mem = (\<lambda>k. if k = 1 then 7 else 0), h_ptr = 4\<rparr>"
  have r: "realloc (Some 0) 6 ?h = (Some 4,
      \<lparr>h_mem = copy_up 4 0 6 (\<lambda>k. if k = 1 then 7 else 0), h_ptr = 12\<rparr>)"
    by (simp add: realloc_def malloc_def HEAP_SIZE_def Let_def)
  show ?thesis
    using realloc_keeps [of ?h 6 0 4 _ 3, OF _ _ r]
    by (simp add: heap_ok_def size_ok_def load_bytes_def upt_rec)
qed

text \<open>
  The bound check of \<open>malloc\<close> is made on the wrapped sum: on any heap that is in use, a
  request for the \<open>2^32 - heap_ptr\<close> bytes that do not exist is granted and resets the heap
  mark to 0, so the next request is given the start of the array, on top of the blocks
  already handed out.
\<close>

theorem malloc_wraps_around:
  assumes "h_ptr h \<noteq> 0" and "sz \<le> HEAP_SIZE"
  shows "fst (malloc (- h_ptr h) h) = Some (h_ptr h)
         \<and> fst (malloc sz (snd (malloc (- h_ptr h) h))) = Some 0"
  using assms by (simp add: malloc_def Let_def)

theorem malloc_wraps_around_witness:
  "fst (malloc (- 16) \<lparr>h_mem = (\<lambda>_. 0), h_ptr = 16\<rparr>) = Some 16
   \<and> fst (malloc 4 (snd (malloc (- 16) \<lparr>h_mem = (\<lambda>_. 0), h_ptr = 16\<rparr>))) = Some 0"
  using malloc_wraps_around [of "\<lparr>h_mem = (\<lambda>_. 0), h_ptr = 16\<rparr>" 4]
  by (simp add: HEAP_SIZE_def)

end
