(* ===== verification/Ipc.thy ===== *)
theory Ipc
  imports Interfaces Heap_Alloc
begin

text \<open>
  Inter-process communication: \<^verbatim>\<open>kernel/ipc.c\<close> and \<^verbatim>\<open>kernel/ipc.h\<close>.

  The three static tables are the fields of the record \<open>ipc\<close>; a fixed-size C array is a
  function from its index. Handles (\<^verbatim>\<open>int\<close>) are \<^typ>\<open>int\<close>, counters and sizes are 32-bit
  words that wrap. A \<^verbatim>\<open>(pointer, size)\<close> argument is the list of the \<open>size\<close> bytes at the
  pointer; the output buffer of \<open>ipc_pipe_read\<close> is the returned list, its length the returned
  count. Shared memory takes its segments from the kernel heap.
\<close>

section \<open>State\<close>

definition IPC_MAX_PIPES :: nat where "IPC_MAX_PIPES = 32"

definition IPC_MAX_QUEUES :: nat where "IPC_MAX_QUEUES = 32"

definition IPC_MAX_SHMEM :: nat where "IPC_MAX_SHMEM = 16"

definition IPC_PIPE_SIZE :: nat where "IPC_PIPE_SIZE = 4096"

definition IPC_MSG_MAX_SIZE :: u32 where "IPC_MSG_MAX_SIZE = 512"

definition IPC_MSG_MAX :: nat where "IPC_MSG_MAX = 64"

lemmas ipc_sizes [simp] = IPC_MAX_PIPES_def IPC_MAX_QUEUES_def IPC_MAX_SHMEM_def
  IPC_PIPE_SIZE_def IPC_MSG_MAX_SIZE_def IPC_MSG_MAX_def

record ipc_pipe =
  p_data :: "nat \<Rightarrow> u8"
  p_head :: u32
  p_tail :: u32
  p_count :: u32
  p_active :: bool
  p_reader_pid :: u32
  p_writer_pid :: u32

record ipc_message =
  m_data :: "nat \<Rightarrow> u8"
  m_size :: u32
  m_sender_pid :: u32
  m_type :: u32

record ipc_queue =
  q_messages :: "nat \<Rightarrow> ipc_message"
  q_head :: u32
  q_tail :: u32
  q_count :: u32
  q_active :: bool
  q_owner_pid :: u32

record ipc_shmem =
  s_addr :: "u32 option"
  s_size :: u32
  s_key :: u32
  s_active :: bool
  s_owner_pid :: u32

record ipc =
  g_pipes :: "nat \<Rightarrow> ipc_pipe"
  g_queues :: "nat \<Rightarrow> ipc_queue"
  g_shmem :: "nat \<Rightarrow> ipc_shmem"

definition zero_pipe :: ipc_pipe where
  "zero_pipe = \<lparr>p_data = (\<lambda>_. 0), p_head = 0, p_tail = 0, p_count = 0, p_active = False,
     p_reader_pid = 0, p_writer_pid = 0\<rparr>"

definition zero_message :: ipc_message where
  "zero_message = \<lparr>m_data = (\<lambda>_. 0), m_size = 0, m_sender_pid = 0, m_type = 0\<rparr>"

definition zero_queue :: ipc_queue where
  "zero_queue = \<lparr>q_messages = (\<lambda>_. zero_message), q_head = 0, q_tail = 0, q_count = 0,
     q_active = False, q_owner_pid = 0\<rparr>"

definition zero_shmem :: ipc_shmem where
  "zero_shmem = \<lparr>s_addr = None, s_size = 0, s_key = 0, s_active = False, s_owner_pid = 0\<rparr>"

definition ipc_init :: ipc where
  "ipc_init = \<lparr>g_pipes = (\<lambda>_. zero_pipe), g_queues = (\<lambda>_. zero_queue),
     g_shmem = (\<lambda>_. zero_shmem)\<rparr>"

section \<open>Pipes\<close>

definition ipc_pipe_create :: "u32 \<Rightarrow> u32 \<Rightarrow> ipc \<Rightarrow> int \<times> ipc" where
  "ipc_pipe_create rpid wpid s =
     (case first_index (\<lambda>i. \<not> p_active (g_pipes s i)) IPC_MAX_PIPES of
        Some i \<Rightarrow>
          (int i, s\<lparr>g_pipes := (g_pipes s)(i := (g_pipes s i)
             \<lparr>p_active := True, p_head := 0, p_tail := 0, p_count := 0,
              p_reader_pid := rpid, p_writer_pid := wpid\<rparr>)\<rparr>)
      | None \<Rightarrow> (-1, s))"

definition pipe_put :: "u8 \<Rightarrow> ipc_pipe \<Rightarrow> ipc_pipe option" where
  "pipe_put x p =
     (if p_count p \<ge> of_nat IPC_PIPE_SIZE then None
      else Some (p\<lparr>p_data := (p_data p)(unat (p_tail p) mod IPC_PIPE_SIZE := x),
                   p_tail := p_tail p + 1, p_count := p_count p + 1\<rparr>))"

definition pipe_get :: "ipc_pipe \<Rightarrow> (u8 \<times> ipc_pipe) option" where
  "pipe_get p =
     (if p_count p > 0
      then Some (p_data p (unat (p_head p) mod IPC_PIPE_SIZE),
                 p\<lparr>p_head := p_head p + 1, p_count := p_count p - 1\<rparr>)
      else None)"

definition pipe_open :: "int \<Rightarrow> ipc \<Rightarrow> bool" where
  "pipe_open fd s \<longleftrightarrow>
     \<not> (fd < 0 \<or> fd \<ge> int IPC_MAX_PIPES \<or> \<not> p_active (g_pipes s (nat fd)))"

definition ipc_pipe_write :: "int \<Rightarrow> u8 list \<Rightarrow> ipc \<Rightarrow> bool \<times> ipc" where
  "ipc_pipe_write fd data s =
     (if \<not> pipe_open fd s then (False, s)
      else let (ok, p) = push_all pipe_put data (g_pipes s (nat fd))
           in (ok, s\<lparr>g_pipes := (g_pipes s)(nat fd := p)\<rparr>))"

definition ipc_pipe_read :: "int \<Rightarrow> u32 \<Rightarrow> ipc \<Rightarrow> u8 list \<times> ipc" where
  "ipc_pipe_read fd sz s =
     (if \<not> pipe_open fd s then ([], s)
      else let (buf, p) = pop_upto pipe_get (unat sz) (g_pipes s (nat fd))
           in (buf, s\<lparr>g_pipes := (g_pipes s)(nat fd := p)\<rparr>))"

definition ipc_pipe_close :: "int \<Rightarrow> ipc \<Rightarrow> bool \<times> ipc" where
  "ipc_pipe_close fd s =
     (if fd < 0 \<or> fd \<ge> int IPC_MAX_PIPES then (False, s)
      else (True, s\<lparr>g_pipes := (g_pipes s)(nat fd := (g_pipes s (nat fd))\<lparr>p_active := False\<rparr>)\<rparr>))"

section \<open>Message queues\<close>

definition ipc_queue_create :: "u32 \<Rightarrow> ipc \<Rightarrow> int \<times> ipc" where
  "ipc_queue_create owner s =
     (case first_index (\<lambda>i. \<not> q_active (g_queues s i)) IPC_MAX_QUEUES of
        Some i \<Rightarrow>
          (int i, s\<lparr>g_queues := (g_queues s)(i := (g_queues s i)
             \<lparr>q_active := True, q_owner_pid := owner, q_head := 0, q_tail := 0, q_count := 0\<rparr>)\<rparr>)
      | None \<Rightarrow> (-1, s))"

definition queue_put :: "u32 \<times> u8 list \<Rightarrow> ipc_queue \<Rightarrow> ipc_queue option" where
  "queue_put td q =
     (if q_count q \<ge> of_nat IPC_MSG_MAX then None
      else let (type, data) = td;
               sz = of_nat (length data);
               slot = unat (q_tail q) mod IPC_MSG_MAX;
               msg = q_messages q slot;
               n = (if sz < IPC_MSG_MAX_SIZE then sz else IPC_MSG_MAX_SIZE);
               msg = msg\<lparr>m_type := type, m_size := n,
                         m_data := store_bytes 0 (take (unat n) data) (m_data msg)\<rparr>
           in Some (q\<lparr>q_messages := (q_messages q)(slot := msg),
                      q_tail := q_tail q + 1, q_count := q_count q + 1\<rparr>))"

definition queue_get :: "ipc_queue \<Rightarrow> (ipc_message \<times> ipc_queue) option" where
  "queue_get q =
     (if q_count q = 0 then None
      else Some (q_messages q (unat (q_head q) mod IPC_MSG_MAX),
                 q\<lparr>q_head := q_head q + 1, q_count := q_count q - 1\<rparr>))"

definition queue_open :: "int \<Rightarrow> ipc \<Rightarrow> bool" where
  "queue_open qid s \<longleftrightarrow>
     \<not> (qid < 0 \<or> qid \<ge> int IPC_MAX_QUEUES \<or> \<not> q_active (g_queues s (nat qid)))"

definition ipc_queue_send :: "int \<Rightarrow> u32 \<Rightarrow> u8 list \<Rightarrow> ipc \<Rightarrow> bool \<times> ipc" where
  "ipc_queue_send qid type data s =
     (if \<not> queue_open qid s then (False, s)
      else case queue_put (type, data) (g_queues s (nat qid)) of
             None \<Rightarrow> (False, s)
           | Some q \<Rightarrow> (True, s\<lparr>g_queues := (g_queues s)(nat qid := q)\<rparr>))"

definition ipc_queue_recv :: "int \<Rightarrow> ipc \<Rightarrow> ipc_message option \<times> ipc" where
  "ipc_queue_recv qid s =
     (if \<not> queue_open qid s then (None, s)
      else case queue_get (g_queues s (nat qid)) of
             None \<Rightarrow> (None, s)
           | Some (msg, q) \<Rightarrow> (Some msg, s\<lparr>g_queues := (g_queues s)(nat qid := q)\<rparr>))"

definition ipc_queue_destroy :: "int \<Rightarrow> ipc \<Rightarrow> bool \<times> ipc" where
  "ipc_queue_destroy qid s =
     (if qid < 0 \<or> qid \<ge> int IPC_MAX_QUEUES then (False, s)
      else (True, s\<lparr>g_queues :=
              (g_queues s)(nat qid := (g_queues s (nat qid))\<lparr>q_active := False\<rparr>)\<rparr>))"

section \<open>Shared memory\<close>

text \<open>A failed \<open>malloc\<close> leaves NULL in the slot, which stays inactive.\<close>

definition ipc_shmem_create :: "u32 \<Rightarrow> u32 \<Rightarrow> ipc \<times> heap \<Rightarrow> int \<times> ipc \<times> heap" where
  "ipc_shmem_create key sz sh =
     (let (s, h) = sh in
      case first_index (\<lambda>i. \<not> s_active (g_shmem s i)) IPC_MAX_SHMEM of
        None \<Rightarrow> (-1, s, h)
      | Some i \<Rightarrow>
          (let (p, h') = malloc sz h;
               seg = (g_shmem s i)\<lparr>s_addr := p\<rparr> in
           if p = None then (-1, s\<lparr>g_shmem := (g_shmem s)(i := seg)\<rparr>, h')
           else (int i, s\<lparr>g_shmem := (g_shmem s)(i := seg
                   \<lparr>s_size := sz, s_key := key, s_active := True\<rparr>)\<rparr>, h')))"

definition ipc_shmem_attach :: "int \<Rightarrow> ipc \<Rightarrow> u32 option" where
  "ipc_shmem_attach shmid s =
     (if shmid < 0 \<or> shmid \<ge> int IPC_MAX_SHMEM \<or> \<not> s_active (g_shmem s (nat shmid)) then None
      else s_addr (g_shmem s (nat shmid)))"

definition ipc_shmem_detach :: "int \<Rightarrow> bool" where
  "ipc_shmem_detach shmid \<longleftrightarrow> shmid \<ge> 0 \<and> shmid < int IPC_MAX_SHMEM"

definition ipc_shmem_destroy :: "int \<Rightarrow> ipc \<times> heap \<Rightarrow> bool \<times> ipc \<times> heap" where
  "ipc_shmem_destroy shmid sh =
     (let (s, h) = sh in
      if shmid < 0 \<or> shmid \<ge> int IPC_MAX_SHMEM \<or> \<not> s_active (g_shmem s (nat shmid)) then (False, s, h)
      else (True,
            s\<lparr>g_shmem := (g_shmem s)(nat shmid := (g_shmem s (nat shmid))\<lparr>s_active := False\<rparr>)\<rparr>,
            free (s_addr (g_shmem s (nat shmid))) h))"

section \<open>Each pipe is a bounded FIFO of bytes\<close>

definition pipe_ok :: "ipc_pipe \<Rightarrow> bool" where
  "pipe_ok p \<longleftrightarrow> unat (p_count p) \<le> IPC_PIPE_SIZE \<and> p_tail p = p_head p + p_count p"

definition pipe_contents :: "ipc_pipe \<Rightarrow> u8 list" where
  "pipe_contents p = ring_list IPC_PIPE_SIZE (p_data p) (unat (p_head p)) (unat (p_count p))"

lemma unat_numeral_le: "(numeral n :: u32) \<le> w \<longleftrightarrow> unat (numeral n :: u32) \<le> unat w"
  by (simp add: word_le_nat_alt)

lemma pipe_put_full: "pipe_ok p \<Longrightarrow> unat (p_count p) = IPC_PIPE_SIZE \<Longrightarrow> pipe_put x p = None"
  by (simp add: pipe_put_def word_le_nat_alt)

lemma pipe_put_room:
  assumes "pipe_ok p" and "unat (p_count p) < IPC_PIPE_SIZE"
  shows "\<exists>p'. pipe_put x p = Some p' \<and> pipe_ok p' \<and> pipe_contents p' = pipe_contents p @ [x]"
proof -
  let ?p = "p\<lparr>p_data := (p_data p)(unat (p_tail p) mod IPC_PIPE_SIZE := x),
              p_tail := p_tail p + 1, p_count := p_count p + 1\<rparr>"
  have count: "unat (p_count p + 1) = Suc (unat (p_count p))"
    using assms(2) by (intro unat_Suc [of _ 4096]) simp_all
  have slot: "unat (p_tail p) mod 4096 = (unat (p_head p) + unat (p_count p)) mod 4096"
    using assms(1) by (simp add: pipe_ok_def unat_add_mod)
  have "pipe_put x p = Some ?p"
    using assms(2) by (simp add: pipe_put_def word_le_nat_alt)
  moreover have "pipe_ok ?p"
    using assms count by (simp add: pipe_ok_def)
  moreover have "pipe_contents ?p = pipe_contents p @ [x]"
    using assms(2) by (simp add: pipe_contents_def count slot ring_list_enq)
  ultimately show ?thesis by blast
qed

lemma pipe_get_empty: "unat (p_count p) = 0 \<Longrightarrow> pipe_get p = None"
  by (simp add: pipe_get_def unat_eq_0)

lemma pipe_get_next:
  assumes "pipe_ok p" and "pipe_contents p = y # ys"
  shows "\<exists>p'. pipe_get p = Some (y, p') \<and> pipe_ok p' \<and> pipe_contents p' = ys"
proof -
  let ?p = "p\<lparr>p_head := p_head p + 1, p_count := p_count p - 1\<rparr>"
  have nz: "p_count p \<noteq> 0" using assms(2) by (auto simp: pipe_contents_def)
  then obtain c where c: "unat (p_count p) = Suc c" "unat (p_count p - 1) = c"
    by (metis unat_pred unat_eq_0 diff_Suc_1 not0_implies_Suc)
  have head: "unat (p_head p + 1) mod 4096 = Suc (unat (p_head p)) mod 4096"
    by (rule unat_Suc_mod) simp
  have "pipe_contents p = p_data p (unat (p_head p) mod 4096) # pipe_contents ?p"
    by (simp add: pipe_contents_def c ring_list_deq ring_list_cong_mod [OF head])
  moreover have "pipe_ok ?p"
    using assms(1) c by (simp add: pipe_ok_def)
  moreover have "pipe_get p = Some (p_data p (unat (p_head p) mod 4096), ?p)"
    using nz by (simp add: pipe_get_def word_neq_0_conv [symmetric])
  ultimately show ?thesis using assms(2) by auto
qed

interpretation pipe_fifo: bounded_fifo pipe_contents "\<lambda>x. x" pipe_ok IPC_PIPE_SIZE pipe_put pipe_get
proof unfold_locales
  show "length (pipe_contents p) \<le> IPC_PIPE_SIZE" if "pipe_ok p" for p
    using that by (simp add: pipe_ok_def pipe_contents_def)
next
  show "pipe_put x p = None" if "pipe_ok p" "length (pipe_contents p) = IPC_PIPE_SIZE" for p x
    using that by (intro pipe_put_full) (simp_all add: pipe_contents_def)
next
  show "\<exists>p'. pipe_put x p = Some p' \<and> pipe_ok p' \<and> pipe_contents p' = pipe_contents p @ [x]"
    if "pipe_ok p" "length (pipe_contents p) < IPC_PIPE_SIZE" for p x
    using that by (intro pipe_put_room) (simp_all add: pipe_contents_def)
next
  show "pipe_get p = None" if "pipe_ok p" "pipe_contents p = []" for p
    using that by (intro pipe_get_empty) (metis length_ring_list list.size(3) pipe_contents_def)
qed (rule pipe_get_next)

section \<open>Each message queue is a bounded FIFO of messages\<close>

definition queue_ok :: "ipc_queue \<Rightarrow> bool" where
  "queue_ok q \<longleftrightarrow> unat (q_count q) \<le> IPC_MSG_MAX \<and> q_tail q = q_head q + q_count q"

definition msg_view :: "ipc_message \<Rightarrow> u32 \<times> u8 list" where
  "msg_view m = (m_type m, load_bytes 0 (unat (m_size m)) (m_data m))"

definition msg_kept :: "u32 \<times> u8 list \<Rightarrow> u32 \<times> u8 list" where
  "msg_kept td = (fst td, take (min (length (snd td) mod 2 ^ 32) 512) (snd td))"

definition queue_contents :: "ipc_queue \<Rightarrow> (u32 \<times> u8 list) list" where
  "queue_contents q = map msg_view
     (ring_list IPC_MSG_MAX (q_messages q) (unat (q_head q)) (unat (q_count q)))"

definition queue_pop :: "ipc_queue \<Rightarrow> ((u32 \<times> u8 list) \<times> ipc_queue) option" where
  "queue_pop q = map_option (\<lambda>(m, q'). (msg_view m, q')) (queue_get q)"

lemma queue_put_full: "unat (q_count q) = IPC_MSG_MAX \<Longrightarrow> queue_put td q = None"
  by (simp add: queue_put_def word_le_nat_alt)

lemma msg_stored:
  fixes data :: "u8 list"
  defines "n \<equiv> (if of_nat (length data) < IPC_MSG_MAX_SIZE then of_nat (length data)
                else IPC_MSG_MAX_SIZE)"
  shows "msg_view (m\<lparr>m_type := t, m_size := n,
           m_data := store_bytes 0 (take (unat n) data) (m_data m)\<rparr>) = msg_kept (t, data)"
proof -
  have n: "unat n = min (length data mod 2 ^ 32) 512"
    by (auto simp: n_def word_less_nat_alt unat_of_nat min_def)
  then have "unat n \<le> length data"
    by (metis min.coboundedI1 mod_less_eq_dividend)
  then have "length (take (unat n) data) = unat n" by simp
  then have "load_bytes 0 (unat n) (store_bytes 0 (take (unat n) data) (m_data m))
      = take (unat n) data"
    by (metis load_store_same)
  then show ?thesis by (simp add: msg_view_def msg_kept_def n)
qed

lemma queue_put_room:
  assumes "queue_ok q" and "unat (q_count q) < IPC_MSG_MAX"
  shows "\<exists>q'. queue_put td q = Some q' \<and> queue_ok q'
           \<and> queue_contents q' = queue_contents q @ [msg_kept td]"
proof -
  obtain t d where td: "td = (t, d)" by fastforce
  let ?slot = "unat (q_tail q) mod IPC_MSG_MAX"
  let ?n = "if of_nat (length d) < IPC_MSG_MAX_SIZE then of_nat (length d) else IPC_MSG_MAX_SIZE"
  let ?m = "(q_messages q ?slot)\<lparr>m_type := t, m_size := ?n,
     m_data := store_bytes 0 (take (unat ?n) d) (m_data (q_messages q ?slot))\<rparr>"
  let ?q = "q\<lparr>q_messages := (q_messages q)(?slot := ?m),
              q_tail := q_tail q + 1, q_count := q_count q + 1\<rparr>"
  have count: "unat (q_count q + 1) = Suc (unat (q_count q))"
    using assms(2) by (intro unat_Suc [of _ 64]) simp_all
  have slot: "unat (q_tail q) mod 64 = (unat (q_head q) + unat (q_count q)) mod 64"
    using assms(1) by (simp add: queue_ok_def unat_add_mod)
  have "queue_put td q = Some ?q"
    using assms(2) by (simp add: queue_put_def word_le_nat_alt td Let_def)
  moreover have "queue_ok ?q"
    using assms count by (simp add: queue_ok_def)
  moreover have "queue_contents ?q = queue_contents q @ [msg_view ?m]"
    using assms(2) by (simp add: queue_contents_def count slot ring_list_enq)
  moreover have "msg_view ?m = msg_kept td"
    unfolding td by (rule msg_stored)
  ultimately show ?thesis by auto
qed

lemma queue_pop_empty: "unat (q_count q) = 0 \<Longrightarrow> queue_pop q = None"
  by (simp add: queue_pop_def queue_get_def unat_eq_0)

lemma queue_pop_next:
  assumes "queue_ok q" and "queue_contents q = y # ys"
  shows "\<exists>q'. queue_pop q = Some (y, q') \<and> queue_ok q' \<and> queue_contents q' = ys"
proof -
  let ?q = "q\<lparr>q_head := q_head q + 1, q_count := q_count q - 1\<rparr>"
  let ?m = "q_messages q (unat (q_head q) mod 64)"
  have nz: "q_count q \<noteq> 0" using assms(2) by (auto simp: queue_contents_def)
  then obtain c where c: "unat (q_count q) = Suc c" "unat (q_count q - 1) = c"
    by (metis unat_pred unat_eq_0 diff_Suc_1 not0_implies_Suc)
  have head: "unat (q_head q + 1) mod 64 = Suc (unat (q_head q)) mod 64"
    by (rule unat_Suc_mod) simp
  have "queue_contents q = msg_view ?m # queue_contents ?q"
    by (simp add: queue_contents_def c ring_list_deq ring_list_cong_mod [OF head])
  moreover have "queue_ok ?q"
    using assms(1) c by (simp add: queue_ok_def)
  moreover have "queue_pop q = Some (msg_view ?m, ?q)"
    using nz by (simp add: queue_pop_def queue_get_def)
  ultimately show ?thesis using assms(2) by auto
qed

interpretation queue_fifo: bounded_fifo queue_contents msg_kept queue_ok IPC_MSG_MAX queue_put
    queue_pop
proof unfold_locales
  show "length (queue_contents q) \<le> IPC_MSG_MAX" if "queue_ok q" for q
    using that by (simp add: queue_ok_def queue_contents_def)
next
  show "queue_put x q = None" if "queue_ok q" "length (queue_contents q) = IPC_MSG_MAX" for q x
    using that by (intro queue_put_full) (simp_all add: queue_contents_def)
next
  show "\<exists>q'. queue_put x q = Some q' \<and> queue_ok q'
          \<and> queue_contents q' = queue_contents q @ [msg_kept x]"
    if "queue_ok q" "length (queue_contents q) < IPC_MSG_MAX" for q x
    using that by (intro queue_put_room) (simp_all add: queue_contents_def)
next
  show "queue_pop q = None" if "queue_ok q" "queue_contents q = []" for q
    using that by (intro queue_pop_empty) (metis length_ring_list length_map list.size(3) queue_contents_def)
qed (rule queue_pop_next)

section \<open>The pipe and queue tables\<close>

definition pipe_alloc :: "u32 \<Rightarrow> u32 \<Rightarrow> ipc \<Rightarrow> (nat \<times> ipc) option" where
  "pipe_alloc rpid wpid s =
     (let (fd, s') = ipc_pipe_create rpid wpid s in if fd < 0 then None else Some (nat fd, s'))"

definition queue_alloc :: "u32 \<Rightarrow> ipc \<Rightarrow> (nat \<times> ipc) option" where
  "queue_alloc owner s =
     (let (qid, s') = ipc_queue_create owner s in if qid < 0 then None else Some (nat qid, s'))"

interpretation pipe_slots: slot_table "\<lambda>s i. p_active (g_pipes s i)" IPC_MAX_PIPES
    "pipe_alloc rpid wpid" "\<lambda>i s. snd (ipc_pipe_close (int i) s)" for rpid wpid
proof unfold_locales
  show "p_active (g_pipes s i)" if "pipe_alloc rpid wpid s = None" "i < IPC_MAX_PIPES" for s i
    using that by (auto simp: pipe_alloc_def ipc_pipe_create_def first_index_None_iff
        split: option.splits)
next
  show "i < IPC_MAX_PIPES \<and> \<not> p_active (g_pipes s i) \<and> (\<forall>j < i. p_active (g_pipes s j))
      \<and> (\<lambda>k. p_active (g_pipes s' k)) = (\<lambda>k. p_active (g_pipes s k))(i := True)"
    if "pipe_alloc rpid wpid s = Some (i, s')" for s i s'
    using that by (auto simp: pipe_alloc_def ipc_pipe_create_def first_index_Some_iff fun_eq_iff
        split: option.splits)
next
  show "(\<lambda>k. p_active (g_pipes (snd (ipc_pipe_close (int i) s)) k))
      = (\<lambda>k. p_active (g_pipes s k))(i := False)" if "i < IPC_MAX_PIPES" for i s
    using that by (auto simp: ipc_pipe_close_def)
qed

interpretation queue_slots: slot_table "\<lambda>s i. q_active (g_queues s i)" IPC_MAX_QUEUES
    "queue_alloc owner" "\<lambda>i s. snd (ipc_queue_destroy (int i) s)" for owner
proof unfold_locales
  show "q_active (g_queues s i)" if "queue_alloc owner s = None" "i < IPC_MAX_QUEUES" for s i
    using that by (auto simp: queue_alloc_def ipc_queue_create_def first_index_None_iff
        split: option.splits)
next
  show "i < IPC_MAX_QUEUES \<and> \<not> q_active (g_queues s i) \<and> (\<forall>j < i. q_active (g_queues s j))
      \<and> (\<lambda>k. q_active (g_queues s' k)) = (\<lambda>k. q_active (g_queues s k))(i := True)"
    if "queue_alloc owner s = Some (i, s')" for s i s'
    using that by (auto simp: queue_alloc_def ipc_queue_create_def first_index_Some_iff fun_eq_iff
        split: option.splits)
next
  show "(\<lambda>k. q_active (g_queues (snd (ipc_queue_destroy (int i) s)) k))
      = (\<lambda>k. q_active (g_queues s k))(i := False)" if "i < IPC_MAX_QUEUES" for i s
    using that by (auto simp: ipc_queue_destroy_def)
qed

section \<open>The whole subsystem: calls, reachable states, invariant\<close>

datatype ipc_call =
    Pipe_create u32 u32
  | Pipe_write int "u8 list"
  | Pipe_read int u32
  | Pipe_close int
  | Queue_create u32
  | Queue_send int u32 "u8 list"
  | Queue_recv int
  | Queue_destroy int
  | Shmem_create u32 u32
  | Shmem_destroy int

fun ipc_exec :: "ipc_call \<Rightarrow> ipc \<times> heap \<Rightarrow> ipc \<times> heap" where
  "ipc_exec (Pipe_create r w) (s, h) = (snd (ipc_pipe_create r w s), h)"
| "ipc_exec (Pipe_write fd d) (s, h) = (snd (ipc_pipe_write fd d s), h)"
| "ipc_exec (Pipe_read fd n) (s, h) = (snd (ipc_pipe_read fd n s), h)"
| "ipc_exec (Pipe_close fd) (s, h) = (snd (ipc_pipe_close fd s), h)"
| "ipc_exec (Queue_create owner) (s, h) = (snd (ipc_queue_create owner s), h)"
| "ipc_exec (Queue_send qid t d) (s, h) = (snd (ipc_queue_send qid t d s), h)"
| "ipc_exec (Queue_recv qid) (s, h) = (snd (ipc_queue_recv qid s), h)"
| "ipc_exec (Queue_destroy qid) (s, h) = (snd (ipc_queue_destroy qid s), h)"
| "ipc_exec (Shmem_create key sz) (s, h) = snd (ipc_shmem_create key sz (s, h))"
| "ipc_exec (Shmem_destroy shmid) (s, h) = snd (ipc_shmem_destroy shmid (s, h))"

text \<open>
  Reachable states: any sequence of calls, with other kernel code allocating on the same heap
  in between. A segment request whose size wraps the sum in \<open>malloc\<close> is excluded (see the
  theory of the heap for what happens then).
\<close>

inductive ipc_reach :: "ipc \<times> heap \<Rightarrow> bool" where
  init: "heap_ok h \<Longrightarrow> ipc_reach (ipc_init, h)"
| call: "ipc_reach sh \<Longrightarrow> (\<And>key sz. c = Shmem_create key sz \<Longrightarrow> size_ok sz) \<Longrightarrow>
     ipc_reach (ipc_exec c sh)"
| other: "ipc_reach (s, h) \<Longrightarrow> heap_ok h' \<Longrightarrow> unat (h_ptr h) \<le> unat (h_ptr h') \<Longrightarrow>
     ipc_reach (s, h')"

definition pipes_ok :: "ipc \<Rightarrow> bool" where
  "pipes_ok s \<longleftrightarrow> (\<forall>i. pipe_ok (g_pipes s i))"

definition queues_ok :: "ipc \<Rightarrow> bool" where
  "queues_ok s \<longleftrightarrow> (\<forall>i. queue_ok (g_queues s i)
     \<and> (\<forall>k. m_sender_pid (q_messages (g_queues s i) k) = 0))"

definition seg_range :: "ipc_shmem \<Rightarrow> nat set" where
  "seg_range m = (case s_addr m of None \<Rightarrow> {} | Some p \<Rightarrow> {unat p ..< unat p + unat (s_size m)})"

definition shmem_ok :: "ipc \<Rightarrow> heap \<Rightarrow> bool" where
  "shmem_ok s h \<longleftrightarrow> heap_ok h
     \<and> (\<forall>i. s_active (g_shmem s i) \<longrightarrow>
          s_addr (g_shmem s i) \<noteq> None \<and> seg_range (g_shmem s i) \<subseteq> {..< unat (h_ptr h)})
     \<and> (\<forall>i j. s_active (g_shmem s i) \<longrightarrow> s_active (g_shmem s j) \<longrightarrow> i \<noteq> j \<longrightarrow>
          seg_range (g_shmem s i) \<inter> seg_range (g_shmem s j) = {})"

named_theorems ipc_defs \<open>the calls of the IPC subsystem\<close>
declare ipc_pipe_create_def [ipc_defs] ipc_pipe_write_def [ipc_defs] ipc_pipe_read_def [ipc_defs]
  ipc_pipe_close_def [ipc_defs] ipc_queue_create_def [ipc_defs] ipc_queue_send_def [ipc_defs]
  ipc_queue_recv_def [ipc_defs] ipc_queue_destroy_def [ipc_defs] ipc_shmem_create_def [ipc_defs]
  ipc_shmem_destroy_def [ipc_defs]

lemma pipe_ok_fresh: "pipe_ok (p\<lparr>p_active := True, p_head := 0, p_tail := 0, p_count := 0,
    p_reader_pid := r, p_writer_pid := w\<rparr>)"
  by (simp add: pipe_ok_def)

lemma pipe_ok_close: "pipe_ok (p\<lparr>p_active := b\<rparr>) = pipe_ok p"
  by (simp add: pipe_ok_def)

lemma pipes_ok_exec:
  assumes "pipes_ok s"
  shows "pipes_ok (fst (ipc_exec c (s, h)))"
proof -
  have pushed: "pipe_ok p" if "push_all pipe_put d (g_pipes s i) = (b, p)" for d i b p
    using pipe_fifo.push_all_contents [OF _ that] assms by (simp add: pipes_ok_def)
  have popped: "pipe_ok p" if "pop_upto pipe_get n (g_pipes s i) = (ys, p)" for n i ys p
    using pipe_fifo.pop_upto_contents [OF _ that] assms by (simp add: pipes_ok_def)
  show ?thesis
    using assms
    by (cases c) (auto simp: pipes_ok_def ipc_defs pipe_ok_fresh pipe_ok_close
        Let_def dest: pushed popped split: option.splits prod.splits)
qed

lemma queue_ok_put:
  "queue_ok q \<Longrightarrow> queue_put td q = Some q' \<Longrightarrow> queue_ok q'"
  using queue_fifo.put_SomeD by blast

lemma queue_put_sender:
  "queue_put td q = Some q' \<Longrightarrow> \<forall>k. m_sender_pid (q_messages q k) = 0 \<Longrightarrow>
     m_sender_pid (q_messages q' k) = 0"
  by (auto simp: queue_put_def Let_def split: if_splits prod.splits)

lemma queue_ok_get: "queue_ok q \<Longrightarrow> queue_get q = Some (m, q') \<Longrightarrow> queue_ok q'"
  using queue_fifo.get_SomeD [of q "msg_view m" q'] by (simp add: queue_pop_def)

lemma queue_get_messages: "queue_get q = Some (m, q') \<Longrightarrow> q_messages q' = q_messages q"
  by (auto simp: queue_get_def split: if_splits)

lemma queue_ok_fresh: "queue_ok (q\<lparr>q_active := True, q_owner_pid := w, q_head := 0,
    q_tail := 0, q_count := 0\<rparr>)"
  by (simp add: queue_ok_def)

lemma queue_ok_close: "queue_ok (q\<lparr>q_active := b\<rparr>) = queue_ok q"
  by (simp add: queue_ok_def)

lemma queues_ok_upd:
  assumes "queues_ok s" and "queue_ok q" and "\<And>k. m_sender_pid (q_messages q k) = 0"
  shows "queues_ok (s\<lparr>g_queues := (g_queues s)(i := q)\<rparr>)"
  using assms by (simp add: queues_ok_def)

lemma queues_okD:
  "queues_ok s \<Longrightarrow> queue_ok (g_queues s i) \<and> m_sender_pid (q_messages (g_queues s i) k) = 0"
  by (simp add: queues_ok_def)

lemma queues_ok_same: "queues_ok s \<Longrightarrow> g_queues s' = g_queues s \<Longrightarrow> queues_ok s'"
  by (simp add: queues_ok_def)

lemma queues_ok_send:
  assumes "queues_ok s"
  shows "queues_ok (snd (ipc_queue_send qid t d s))"
proof (cases "queue_put (t, d) (g_queues s (nat qid))")
  case None
  then show ?thesis using assms by (simp add: ipc_queue_send_def)
next
  case (Some q)
  have "queue_ok q" using queue_ok_put Some queues_okD [OF assms] by blast
  moreover have "m_sender_pid (q_messages q k) = 0" for k
    using queue_put_sender [OF Some] queues_okD [OF assms] by blast
  ultimately show ?thesis using Some assms by (simp add: ipc_queue_send_def queues_ok_upd)
qed

lemma queues_ok_recv:
  assumes "queues_ok s"
  shows "queues_ok (snd (ipc_queue_recv qid s))"
proof (cases "queue_get (g_queues s (nat qid))")
  case None
  then show ?thesis using assms by (simp add: ipc_queue_recv_def)
next
  case (Some r)
  obtain m q where r: "r = (m, q)" by fastforce
  have "queue_ok q" using queue_ok_get Some r queues_okD [OF assms] by blast
  moreover have "m_sender_pid (q_messages q k) = 0" for k
    using queue_get_messages Some r queues_okD [OF assms] by metis
  ultimately show ?thesis using Some r assms by (simp add: ipc_queue_recv_def queues_ok_upd)
qed

lemma queues_ok_exec:
  assumes "queues_ok s"
  shows "queues_ok (fst (ipc_exec c (s, h)))"
proof (cases c)
  case (Queue_create owner)
  then show ?thesis using assms queues_okD [OF assms]
    by (auto simp: ipc_queue_create_def queue_ok_fresh intro!: queues_ok_upd split: option.splits)
next
  case (Queue_destroy qid)
  then show ?thesis using assms queues_okD [OF assms]
    by (auto simp: ipc_queue_destroy_def queue_ok_close intro!: queues_ok_upd)
qed (use assms queues_ok_send queues_ok_recv in
      \<open>auto simp: ipc_defs Let_def intro: queues_ok_same split: option.splits prod.splits\<close>)

lemma shmem_ok_mono:
  "shmem_ok s h \<Longrightarrow> heap_ok h' \<Longrightarrow> unat (h_ptr h) \<le> unat (h_ptr h') \<Longrightarrow> shmem_ok s h'"
  unfolding shmem_ok_def by (meson lessThan_subset_iff subset_trans)

lemma shmem_ok_same: "shmem_ok s h \<Longrightarrow> g_shmem s' = g_shmem s \<Longrightarrow> shmem_ok s' h"
  by (simp add: shmem_ok_def)

lemma shmem_ok_inactive:
  "shmem_ok s h \<Longrightarrow> \<not> s_active m \<Longrightarrow> shmem_ok (s\<lparr>g_shmem := (g_shmem s)(i := m)\<rparr>) h"
  unfolding shmem_ok_def by (auto split: if_splits)

lemma shmem_ok_new_segment:
  assumes ok: "shmem_ok s h" "heap_ok h'" "\<not> s_active (g_shmem s i)"
    and p: "unat (h_ptr h) \<le> unat p" "unat p + unat sz \<le> unat (h_ptr h')"
  shows "shmem_ok (s\<lparr>g_shmem := (g_shmem s)(i := (g_shmem s i)
      \<lparr>s_addr := Some p, s_size := sz, s_key := key, s_active := True\<rparr>)\<rparr>) h'"
proof -
  let ?seg = "(g_shmem s i)\<lparr>s_addr := Some p, s_size := sz, s_key := key, s_active := True\<rparr>"
  have seg: "seg_range ?seg = {unat p ..< unat p + unat sz}" by (simp add: seg_range_def)
  have old: "seg_range (g_shmem s j) \<subseteq> {..< unat (h_ptr h)}" if "s_active (g_shmem s j)" for j
    using ok(1) that by (simp add: shmem_ok_def)
  have apart: "seg_range ?seg \<inter> seg_range (g_shmem s j) = {}" if "s_active (g_shmem s j)" for j
    using old [OF that] p(1) by (auto simp: seg)
  have "seg_range (g_shmem s j) \<subseteq> {..< unat (h_ptr h')}" if "s_active (g_shmem s j)" for j
    using old [OF that] p by fastforce
  moreover have "seg_range ?seg \<subseteq> {..< unat (h_ptr h')}"
    using p(2) by (auto simp: seg)
  ultimately show ?thesis
    using ok apart unfolding shmem_ok_def by (auto simp: Int_commute)
qed

lemma shmem_ok_create:
  assumes "shmem_ok s h" and "size_ok sz" and "ipc_shmem_create key sz (s, h) = (r, s', h')"
  shows "shmem_ok s' h'"
proof (cases "first_index (\<lambda>i. \<not> s_active (g_shmem s i)) IPC_MAX_SHMEM")
  case None
  with assms show ?thesis by (simp add: ipc_shmem_create_def)
next
  case (Some i)
  then have inactive: "\<not> s_active (g_shmem s i)" by (simp add: first_index_Some_iff)
  have heap: "heap_ok h" using assms(1) by (simp add: shmem_ok_def)
  obtain res g where m: "malloc sz h = (res, g)" by fastforce
  show ?thesis
  proof (cases res)
    case None
    with m assms(1,3) Some inactive malloc_NoneD [of sz h g] show ?thesis
      by (auto simp: ipc_shmem_create_def intro!: shmem_ok_inactive)
  next
    case (Some p)
    note gr = malloc_SomeD [OF heap assms(2) m [unfolded Some]]
    have "s' = s\<lparr>g_shmem := (g_shmem s)(i := (g_shmem s i)
        \<lparr>s_addr := Some p, s_size := sz, s_key := key, s_active := True\<rparr>)\<rparr>" "h' = g"
      using assms(3) Some m \<open>first_index _ _ = Some i\<close> by (auto simp: ipc_shmem_create_def)
    then show ?thesis
      using shmem_ok_new_segment [OF assms(1) _ inactive, of g p sz key] gr by auto
  qed
qed

lemma shmem_ok_exec:
  assumes "shmem_ok s h" and "\<And>key sz. c = Shmem_create key sz \<Longrightarrow> size_ok sz"
    and "ipc_exec c (s, h) = (s', h')"
  shows "shmem_ok s' h'"
proof (cases c)
  case (Shmem_create key sz)
  then show ?thesis
    using shmem_ok_create [OF assms(1)] assms(2,3) by (metis ipc_exec.simps(9) prod.collapse)
next
  case (Shmem_destroy shmid)
  then show ?thesis using assms
    by (auto simp: ipc_shmem_destroy_def free_def split: if_splits intro!: shmem_ok_inactive)
qed (use assms in \<open>auto simp: ipc_defs Let_def intro: shmem_ok_same
      split: option.splits prod.splits if_splits\<close>)

lemma ipc_reach_ok: "ipc_reach (s, h) \<Longrightarrow> pipes_ok s \<and> queues_ok s \<and> shmem_ok s h"
proof (induction "(s, h)" arbitrary: s h rule: ipc_reach.induct)
  case (init h)
  then show ?case
    by (simp add: pipes_ok_def queues_ok_def shmem_ok_def ipc_init_def zero_pipe_def
        zero_queue_def zero_message_def zero_shmem_def pipe_ok_def queue_ok_def)
next
  case (call sh c)
  obtain s0 h0 where sh: "sh = (s0, h0)" by fastforce
  then have "pipes_ok s0 \<and> queues_ok s0 \<and> shmem_ok s0 h0" using call.hyps(2) by blast
  then show ?case
    using pipes_ok_exec [of s0 c h0] queues_ok_exec [of s0 c h0]
      shmem_ok_exec [of s0 h0 c s h] call.hyps sh by auto
next
  case (other s h h')
  then show ?case by (blast intro: shmem_ok_mono)
qed

lemma ipc_reach_pipe: "ipc_reach (s, h) \<Longrightarrow> pipe_ok (g_pipes s i)"
  using ipc_reach_ok by (simp add: pipes_ok_def)

lemma ipc_reach_queue: "ipc_reach (s, h) \<Longrightarrow> queue_ok (g_queues s i)"
  using ipc_reach_ok by (simp add: queues_ok_def)

section \<open>Properties\<close>

lemma ipc_example_heap: "heap_ok \<lparr>h_mem = (\<lambda>_. 0), h_ptr = 0\<rparr>"
  by (simp add: heap_ok_def)

lemmas ipc_zero_defs = ipc_init_def zero_pipe_def zero_queue_def zero_message_def zero_shmem_def

text \<open>
  In every reachable state a write to an open pipe appends as many of the bytes as the
  4096-byte ring has room for, in order, reports success exactly when all of them fit (so
  after a refused write the bytes that fitted stay in the pipe), and changes nothing else.
\<close>

theorem ipc_pipe_write_result:
  assumes "ipc_reach (s, h)" and "pipe_open fd s" and "ipc_pipe_write fd data s = (ok, s')"
  shows "pipe_contents (g_pipes s' (nat fd))
           = pipe_contents (g_pipes s (nat fd))
             @ take (4096 - length (pipe_contents (g_pipes s (nat fd)))) data
         \<and> (ok \<longleftrightarrow> length data \<le> 4096 - length (pipe_contents (g_pipes s (nat fd))))
         \<and> s' = s\<lparr>g_pipes := (g_pipes s)(nat fd := g_pipes s' (nat fd))\<rparr>"
proof -
  obtain p where p: "push_all pipe_put data (g_pipes s (nat fd)) = (ok, p)"
      "s' = s\<lparr>g_pipes := (g_pipes s)(nat fd := p)\<rparr>"
    using assms(2,3) by (auto simp: ipc_pipe_write_def split: prod.splits)
  from pipe_fifo.push_all_contents [OF ipc_reach_pipe [OF assms(1)] p(1)] p(2)
  show ?thesis by simp
qed

theorem ipc_pipe_write_result_witness:
  "pipe_contents (g_pipes (snd (ipc_pipe_write 0 [7, 8] (snd (ipc_pipe_create 1 2 ipc_init)))) 0)
   = [7, 8]"
proof -
  let ?s = "snd (ipc_pipe_create 1 2 ipc_init)"
  have idx: "first_index (\<lambda>i. \<not> p_active (g_pipes ipc_init i)) 32 = Some 0"
    by (simp add: first_index_Some_iff ipc_zero_defs)
  have reach: "ipc_reach (?s, \<lparr>h_mem = (\<lambda>_. 0), h_ptr = 0\<rparr>)"
    using ipc_reach.call [OF ipc_reach.init [OF ipc_example_heap], of "Pipe_create 1 2"] by simp
  have "pipe_open 0 ?s" and "pipe_contents (g_pipes ?s 0) = []"
    by (simp_all add: ipc_pipe_create_def idx pipe_open_def pipe_contents_def)
  then show ?thesis
    using ipc_pipe_write_result [OF reach, of 0 "[7, 8]"] by (simp add: prod_eq_iff)
qed

text \<open>
  C29. In every reachable state a read of \<open>n\<close> bytes from an open pipe returns the oldest
  \<open>min n (fill)\<close> bytes in the order they were written, removes exactly those, and changes
  nothing else.
\<close>

theorem ipc_pipe_read_result:
  assumes "ipc_reach (s, h)" and "pipe_open fd s" and "ipc_pipe_read fd n s = (buf, s')"
  shows "buf = take (unat n) (pipe_contents (g_pipes s (nat fd)))
         \<and> pipe_contents (g_pipes s' (nat fd)) = drop (unat n) (pipe_contents (g_pipes s (nat fd)))
         \<and> s' = s\<lparr>g_pipes := (g_pipes s)(nat fd := g_pipes s' (nat fd))\<rparr>"
proof -
  obtain p where p: "pop_upto pipe_get (unat n) (g_pipes s (nat fd)) = (buf, p)"
      "s' = s\<lparr>g_pipes := (g_pipes s)(nat fd := p)\<rparr>"
    using assms(2,3) by (auto simp: ipc_pipe_read_def split: prod.splits)
  from pipe_fifo.pop_upto_contents [OF ipc_reach_pipe [OF assms(1)] p(1)] p(2)
  show ?thesis by simp
qed

theorem ipc_pipe_read_result_witness:
  "fst (ipc_pipe_read 0 5 (snd (ipc_pipe_write 0 [7, 8] (snd (ipc_pipe_create 1 2 ipc_init)))))
   = [7, 8]"
proof -
  let ?s = "snd (ipc_pipe_create 1 2 ipc_init)"
  let ?t = "snd (ipc_pipe_write 0 [7, 8] ?s)"
  have idx: "first_index (\<lambda>i. \<not> p_active (g_pipes ipc_init i)) 32 = Some 0"
    by (simp add: first_index_Some_iff ipc_zero_defs)
  have "ipc_reach (?s, \<lparr>h_mem = (\<lambda>_. 0), h_ptr = 0\<rparr>)"
    using ipc_reach.call [OF ipc_reach.init [OF ipc_example_heap], of "Pipe_create 1 2"] by simp
  then have reach: "ipc_reach (?t, \<lparr>h_mem = (\<lambda>_. 0), h_ptr = 0\<rparr>)"
    using ipc_reach.call [of "(?s, \<lparr>h_mem = (\<lambda>_. 0), h_ptr = 0\<rparr>)" "Pipe_write 0 [7, 8]"] by simp
  have "pipe_open 0 ?t" and "pipe_contents (g_pipes ?t 0) = [7, 8]"
    by (simp_all add: ipc_pipe_create_def idx pipe_open_def pipe_contents_def ipc_pipe_write_def
        pipe_put_def ring_list_def upt_rec word_le_nat_alt)
  then show ?thesis
    using ipc_pipe_read_result [OF reach, of 0 5] by (simp add: prod_eq_iff)
qed

text \<open>
  C1. Over any interleaving of sends to and receives from a message queue of a reachable
  state, however often its 32-bit counters wrap, the messages received followed by those
  still queued are exactly those queued before followed by those accepted, each as its type
  and the first 512 bytes of its data: none is lost, duplicated or reordered.
\<close>

theorem queue_messages_in_order:
  assumes "ipc_reach (s, h)"
    and "fifo_run queue_put queue_pop es (g_queues s i) = (ins, outs, q)"
  shows "queue_contents (g_queues s i) @ map msg_kept ins = outs @ queue_contents q
         \<and> length (queue_contents q) \<le> 64"
  using queue_fifo.fifo_run_order [OF ipc_reach_queue [OF assms(1)] assms(2)]
    queue_fifo.within_cap [of q] by simp

theorem queue_messages_in_order_witness:
  "queue_contents (snd (snd (fifo_run queue_put queue_pop [Put (4, [1]), Put (5, [2]), Get]
     (g_queues ipc_init 0)))) = [(5, [2])]"
proof -
  let ?r = "fifo_run queue_put queue_pop [Put (4, [1]), Put (5, [2]), Get] (g_queues ipc_init 0)"
  obtain ins outs q where r: "?r = (ins, outs, q)" by (metis prod.exhaust)
  have "ins = [(4, [1]), (5, [2])]" and "length outs = 1"
    using r by (auto simp: queue_put_def queue_pop_def queue_get_def ipc_zero_defs word_le_nat_alt)
  moreover have "queue_contents (g_queues ipc_init 0) @ map msg_kept ins = outs @ queue_contents q
      \<and> length (queue_contents q) \<le> 64"
    by (rule queue_messages_in_order [OF ipc_reach.init [OF ipc_example_heap] r])
  moreover have "queue_contents (g_queues ipc_init 0) = []"
    by (simp add: queue_contents_def ipc_zero_defs)
  ultimately show ?thesis
    using r by (auto simp: msg_kept_def length_Suc_conv)
qed

text \<open>
  In every reachable state the calls on an open message queue behave as on a list of at
  most 64 messages: a send appends the message, or fails and changes nothing when 64 are
  queued; a receive hands out the oldest message, or fails on the empty queue.
\<close>

theorem ipc_queue_calls:
  assumes "ipc_reach (s, h)" and "queue_open qid s"
    and "ipc_queue_send qid t d s = (ok, s1)" and "ipc_queue_recv qid s = (r, s2)"
  shows "(if length (queue_contents (g_queues s (nat qid))) < 64
          then ok \<and> queue_contents (g_queues s1 (nat qid))
                     = queue_contents (g_queues s (nat qid)) @ [msg_kept (t, d)]
          else \<not> ok \<and> s1 = s)
       \<and> (case queue_contents (g_queues s (nat qid)) of
            [] \<Rightarrow> r = None \<and> s2 = s
          | m # ms \<Rightarrow> map_option msg_view r = Some m \<and> queue_contents (g_queues s2 (nat qid)) = ms)"
proof (rule conjI)
  let ?q = "g_queues s (nat qid)"
  note ok = ipc_reach_queue [OF assms(1), of "nat qid"]
  show "if length (queue_contents ?q) < 64
      then ok \<and> queue_contents (g_queues s1 (nat qid)) = queue_contents ?q @ [msg_kept (t, d)]
      else \<not> ok \<and> s1 = s"
    using assms(2,3) queue_fifo.put_SomeD [OF ok, of "(t, d)"] queue_fifo.put_NoneD [OF ok, of "(t, d)"]
    by (cases "queue_put (t, d) ?q") (auto simp: ipc_queue_send_def)
  show "case queue_contents ?q of [] \<Rightarrow> r = None \<and> s2 = s
      | m # ms \<Rightarrow> map_option msg_view r = Some m \<and> queue_contents (g_queues s2 (nat qid)) = ms"
  proof (cases "queue_get ?q")
    case None
    with assms(2,4) queue_fifo.get_NoneD [OF ok] show ?thesis
      by (simp add: ipc_queue_recv_def queue_pop_def)
  next
    case (Some mq)
    obtain m q where mq: "mq = (m, q)" by fastforce
    then have "queue_pop ?q = Some (msg_view m, q)" using Some by (simp add: queue_pop_def)
    from queue_fifo.get_SomeD [OF ok this] Some mq assms(2,4) show ?thesis
      by (auto simp: ipc_queue_recv_def)
  qed
qed

theorem ipc_queue_calls_witness:
  "fst (ipc_queue_send 0 9 [1] (snd (ipc_queue_create 1 ipc_init)))
   \<and> fst (ipc_queue_recv 0 (snd (ipc_queue_create 1 ipc_init))) = None"
proof -
  let ?s = "snd (ipc_queue_create 1 ipc_init)"
  have idx: "first_index (\<lambda>i. \<not> q_active (g_queues ipc_init i)) 32 = Some 0"
    by (simp add: first_index_Some_iff ipc_zero_defs)
  have reach: "ipc_reach (?s, \<lparr>h_mem = (\<lambda>_. 0), h_ptr = 0\<rparr>)"
    using ipc_reach.call [OF ipc_reach.init [OF ipc_example_heap], of "Queue_create 1"] by simp
  have "queue_open 0 ?s" and "queue_contents (g_queues ?s 0) = []"
    by (simp_all add: ipc_queue_create_def idx queue_open_def queue_contents_def)
  then show ?thesis
    using ipc_queue_calls [OF reach _ prod.collapse [symmetric] prod.collapse [symmetric],
        of 0 9 "[1]"] by simp
qed

text \<open>
  No reachable state ever delivers a message with its sender filled in: the field
  \<open>sender_pid\<close> of every received message is 0, because \<open>ipc_queue_send\<close> never sets it.
\<close>

theorem sender_pid_never_set:
  assumes "ipc_reach (s, h)" and "ipc_queue_recv qid s = (Some m, s')"
  shows "m_sender_pid m = 0"
  using assms ipc_reach_ok [OF assms(1)] queues_okD [of s]
  by (auto simp: ipc_queue_recv_def queue_get_def split: if_splits option.splits)

theorem sender_pid_never_set_witness:
  "\<exists>m. fst (ipc_queue_recv 0 (snd (ipc_queue_send 0 9 [1] (snd (ipc_queue_create 1 ipc_init)))))
        = Some m \<and> m_sender_pid m = 0"
proof -
  let ?h = "\<lparr>h_mem = (\<lambda>_. 0), h_ptr = 0\<rparr>"
  let ?s = "snd (ipc_queue_create 1 ipc_init)"
  let ?t = "snd (ipc_queue_send 0 9 [1] ?s)"
  have idx: "first_index (\<lambda>i. \<not> q_active (g_queues ipc_init i)) 32 = Some 0"
    by (simp add: first_index_Some_iff ipc_zero_defs)
  have "ipc_reach (?s, ?h)"
    using ipc_reach.call [OF ipc_reach.init [OF ipc_example_heap], of "Queue_create 1"] by simp
  then have reach: "ipc_reach (?t, ?h)"
    using ipc_reach.call [of "(?s, ?h)" "Queue_send 0 9 [1]"] by simp
  have "fst (ipc_queue_recv 0 ?t) \<noteq> None"
    by (simp add: ipc_queue_create_def idx queue_open_def ipc_queue_send_def ipc_queue_recv_def
        queue_put_def queue_get_def Let_def)
  then obtain m s' where "ipc_queue_recv 0 ?t = (Some m, s')"
    by (metis option.exhaust prod.collapse)
  with sender_pid_never_set [OF reach this] show ?thesis by simp
qed



text \<open>
  Creating pipes until the table refuses hands out distinct handles that were free, and
  serves exactly as many requests as there are free entries among the 32.
\<close>

theorem pipe_handles_distinct:
  assumes "take_slots (pipe_alloc rpid wpid) k s = (fds, s')"
  shows "distinct fds \<and> set fds \<subseteq> {i. i < 32 \<and> \<not> p_active (g_pipes s i)}
         \<and> length fds = min k (card {i. i < 32 \<and> \<not> p_active (g_pipes s i)})"
  using pipe_slots.take_slots_distinct [OF assms] pipe_slots.take_slots_count [OF assms] by simp

theorem pipe_handles_distinct_witness:
  "\<exists>fds s'. take_slots (pipe_alloc 1 2) 3 ipc_init = (fds, s') \<and> distinct fds \<and> length fds = 3"
proof -
  obtain fds s' where run: "take_slots (pipe_alloc 1 2) 3 ipc_init = (fds, s')" by fastforce
  have "{i. i < 32 \<and> \<not> p_active (g_pipes ipc_init i)} = {..< 32 :: nat}"
    by (auto simp: ipc_zero_defs)
  with pipe_handles_distinct [OF run] run show ?thesis by simp
qed

end
