(* ===== verification/Format_Print.thy ===== *)
theory Format_Print
  imports Prelude
begin

text \<open>
  Number and text formatting: \<open>int_to_str\<close>, \<open>uint_to_str\<close> and \<open>snprintf\<close> of
  \<^verbatim>\<open>kernel/generic.c\<close>, the character predicates, \<open>atoi\<close> and \<open>itoa\<close> of \<^verbatim>\<open>libc/libc.c\<close>.
  A C string is the list of its characters without the terminator; a function that writes a
  string into a buffer returns what it stores before the terminator. The variable arguments
  of \<open>snprintf\<close> are the 32-bit words on the stack (two words, low one first, for a 64-bit
  argument), and \<open>deref\<close> gives the string at an address. \<open>None\<close> stands for reading behind the
  terminator of the format or behind the arguments.
\<close>

section \<open>Characters\<close>

abbreviation (input) char_code :: "char \<Rightarrow> nat" where
  "char_code c \<equiv> of_char c"

definition isdigit :: "char \<Rightarrow> bool" where
  "isdigit c \<longleftrightarrow> 48 \<le> char_code c \<and> char_code c \<le> 57"

definition isupper :: "char \<Rightarrow> bool" where
  "isupper c \<longleftrightarrow> 65 \<le> char_code c \<and> char_code c \<le> 90"

definition islower :: "char \<Rightarrow> bool" where
  "islower c \<longleftrightarrow> 97 \<le> char_code c \<and> char_code c \<le> 122"

definition isalpha :: "char \<Rightarrow> bool" where
  "isalpha c \<longleftrightarrow> (97 \<le> char_code c \<and> char_code c \<le> 122) \<or> (65 \<le> char_code c \<and> char_code c \<le> 90)"

definition isspace :: "char \<Rightarrow> bool" where
  "isspace c \<longleftrightarrow> c = CHR '' '' \<or> c = CHR 0x09 \<or> c = CHR 0x0A \<or> c = CHR 0x0D"

definition toupper :: "char \<Rightarrow> char" where
  "toupper c = (if islower c then char_of (char_code c - 32) else c)"

definition tolower :: "char \<Rightarrow> char" where
  "tolower c = (if isupper c then char_of (char_code c + 32) else c)"

section \<open>Numbers\<close>

definition digit_char :: "nat \<Rightarrow> char" where
  "digit_char r = char_of (if r < 10 then 48 + r else 97 + r - 10)"

text \<open>
  The digits as the loops store them in \<open>tmp\<close>, the lowest first. The loops end only for
  \<open>base \<ge> 2\<close>, which all calls in the system pass; below it the code divides by zero or loops.
\<close>

function tmp_digits :: "nat \<Rightarrow> nat \<Rightarrow> string" where
  "tmp_digits base n =
     (if n > 0 \<and> base \<ge> 2 then digit_char (n mod base) # tmp_digits base (n div base) else [])"
  by pat_completeness auto
termination
  by (relation "measure snd") auto

declare tmp_digits.simps [simp del]

definition uint_to_str :: "u64 \<Rightarrow> nat \<Rightarrow> string" where
  "uint_to_str n base = (if n = 0 then ''0'' else rev (tmp_digits base (unat n)))"

text \<open>\<open>-n\<close> wraps for the smallest value; the loop then finds a negative number and stops.\<close>

definition int_to_str :: "u64 \<Rightarrow> nat \<Rightarrow> string" where
  "int_to_str n base =
     (if n = 0 then ''0''
      else let neg = sint n < 0;
               m = (if neg then - n else n);
               tmp = tmp_digits base (nat (sint m)) in
           rev (tmp @ (if neg then ''-'' else [])))"

definition itoa :: "u32 \<Rightarrow> nat \<Rightarrow> string" where
  "itoa n base =
     (if n = 0 then ''0''
      else let neg = (sint n < 0 \<and> base = 10);
               m = (if neg then - n else n);
               tmp = tmp_digits base (nat (sint m)) in
           rev (tmp @ (if neg then ''-'' else [])))"

fun atoi_loop :: "u32 \<Rightarrow> string \<Rightarrow> u32" where
  "atoi_loop result [] = result"
| "atoi_loop result (c # s) =
     (if isdigit c then atoi_loop (result * 10 + of_nat (char_code c - 48)) s else result)"

definition atoi :: "string \<Rightarrow> u32" where
  "atoi s = (case s of
       c # s' \<Rightarrow> if c = CHR ''-'' then atoi_loop 0 s' * (- 1) else atoi_loop 0 s * 1
     | [] \<Rightarrow> atoi_loop 0 s * 1)"

definition abs_int :: "u32 \<Rightarrow> u32" where
  "abs_int x = (if sint x < 0 then - x else x)"

definition min_int :: "u32 \<Rightarrow> u32 \<Rightarrow> u32" where
  "min_int a b = (if sint a < sint b then a else b)"

definition max_int :: "u32 \<Rightarrow> u32 \<Rightarrow> u32" where
  "max_int a b = (if sint a > sint b then a else b)"

section \<open>snprintf\<close>

text \<open>\<open>for (i = 0; tmp[i] && pos < size-1; i++) buf[pos++] = tmp[i];\<close>\<close>

fun emit :: "nat \<Rightarrow> string \<Rightarrow> string \<Rightarrow> string" where
  "emit lim [] out = out"
| "emit lim (c # s) out = (if length out < lim then emit lim s (out @ [c]) else out)"

fun snprintf_loop ::
  "(u32 \<Rightarrow> string) \<Rightarrow> nat \<Rightarrow> string \<Rightarrow> u32 list \<Rightarrow> string \<Rightarrow> string option" where
  "snprintf_loop deref lim [] args out = Some out"
| "snprintf_loop deref lim (c # fmt) args out =
     (if \<not> length out < lim then Some out
      else if c \<noteq> CHR ''%'' then snprintf_loop deref lim fmt args (out @ [c])
      else case fmt of
        [] \<Rightarrow> None
      | d # fmt1 \<Rightarrow>
          if d = CHR ''d'' \<or> d = CHR ''i'' then
            (case args of [] \<Rightarrow> None
             | v # args1 \<Rightarrow>
                 snprintf_loop deref lim fmt1 args1 (emit lim (int_to_str (scast v) 10) out))
          else if d = CHR ''u'' then
            (case args of [] \<Rightarrow> None
             | v # args1 \<Rightarrow>
                 snprintf_loop deref lim fmt1 args1 (emit lim (uint_to_str (ucast v) 10) out))
          else if d = CHR ''x'' then
            (case args of [] \<Rightarrow> None
             | v # args1 \<Rightarrow>
                 snprintf_loop deref lim fmt1 args1 (emit lim (uint_to_str (ucast v) 16) out))
          else if d = CHR ''l'' then
            (case fmt1 of [] \<Rightarrow> None
             | e # fmt2 \<Rightarrow>
                 if e = CHR ''l'' then
                   (case fmt2 of [] \<Rightarrow> None
                    | _ # fmt3 \<Rightarrow>
                        (case args of
                           lo # hi # args1 \<Rightarrow>
                             snprintf_loop deref lim fmt3 args1
                               (emit lim (uint_to_str (push_bit 32 (ucast hi) OR ucast lo) 10) out)
                         | _ \<Rightarrow> None))
                 else snprintf_loop deref lim fmt2 args out)
          else if d = CHR ''s'' then
            (case args of [] \<Rightarrow> None
             | v # args1 \<Rightarrow>
                 snprintf_loop deref lim fmt1 args1
                   (emit lim (if v = 0 then ''(null)'' else deref v) out))
          else if d = CHR ''c'' then
            (case args of [] \<Rightarrow> None
             | v # args1 \<Rightarrow> snprintf_loop deref lim fmt1 args1 (out @ [char_of (unat v)]))
          else if d = CHR ''%'' then snprintf_loop deref lim fmt1 args (out @ ''%'')
          else snprintf_loop deref lim fmt1 args out)"

text \<open>
  \<open>size - 1\<close> is computed in \<open>size_t\<close>, so that for \<open>size = 0\<close> the limit is \<open>2^32 - 1\<close>. The
  function returns the number of stored characters.
\<close>

definition snprintf :: "(u32 \<Rightarrow> string) \<Rightarrow> u32 \<Rightarrow> string \<Rightarrow> u32 list \<Rightarrow> string option" where
  "snprintf deref sz fmt args = snprintf_loop deref (unat (sz - 1)) fmt args []"

section \<open>Digits\<close>

lemma tmp_digits_0 [simp]: "tmp_digits base 0 = []"
  by (simp add: tmp_digits.simps)

lemma tmp_digits_step:
  "0 < n \<Longrightarrow> base \<ge> 2 \<Longrightarrow>
   tmp_digits base n = digit_char (n mod base) # tmp_digits base (n div base)"
  by (simp add: tmp_digits.simps)

lemma tmp_digits_length: "n < base ^ k \<Longrightarrow> length (tmp_digits base n) \<le> k"
proof (induction base n arbitrary: k rule: tmp_digits.induct)
  case (1 base n)
  show ?case
  proof (cases "n > 0 \<and> base \<ge> 2")
    case True
    then obtain k' where k: "k = Suc k'" using 1(2) by (cases k) auto
    then have "n div base < base ^ k'"
      using 1(2) True by (simp add: less_mult_imp_div_less mult.commute)
    with 1(1) True k show ?thesis by (simp add: tmp_digits_step)
  next
    case False
    then show ?thesis by (auto simp: tmp_digits.simps [of base n])
  qed
qed

lemma char_code_digit_char: "r < 10 \<Longrightarrow> char_code (digit_char r) = 48 + r"
  by (simp add: digit_char_def)

lemma isdigit_digit_char: "r < 10 \<Longrightarrow> isdigit (digit_char r)"
  by (simp add: isdigit_def char_code_digit_char)

lemma isdigit_minus [simp]: "\<not> isdigit (CHR ''-'')"
  by (simp add: isdigit_def)

lemma tmp_digits_isdigit: "c \<in> set (tmp_digits 10 n) \<Longrightarrow> isdigit c"
proof (induction "10 :: nat" n rule: tmp_digits.induct)
  case (1 n)
  then show ?case
    by (cases "n > 0") (auto simp: tmp_digits_step isdigit_digit_char)
qed

lemma atoi_loop_tmp_digits:
  "atoi_loop r (rev (tmp_digits 10 n) @ rest)
   = atoi_loop (r * 10 ^ length (tmp_digits 10 n) + of_nat n) rest"
proof (induction "10 :: nat" n arbitrary: rest rule: tmp_digits.induct)
  case (1 n)
  show ?case
  proof (cases "n > 0")
    case True
    have split: "of_nat n = of_nat (n div 10) * 10 + (of_nat (n mod 10) :: u32)"
      by (metis div_mult_mod_eq of_nat_add of_nat_mult of_nat_numeral)
    show ?thesis
      using 1(1) True
      by (simp add: tmp_digits_step isdigit_digit_char char_code_digit_char split
          algebra_simps)
  qed simp
qed

lemma atoi_digits:
  assumes "0 < n"
  shows "atoi (rev (tmp_digits 10 n)) = of_nat n"
proof -
  have "tmp_digits 10 n \<noteq> []" using assms by (simp add: tmp_digits_step)
  then obtain c s where cs: "rev (tmp_digits 10 n) = c # s"
    by (metis neq_Nil_conv rev_is_Nil_conv)
  then have "c \<in> set (tmp_digits 10 n)" by (metis list.set_intros(1) set_rev)
  then have "c \<noteq> CHR ''-''" using tmp_digits_isdigit by fastforce
  with cs atoi_loop_tmp_digits [of 0 n "[]"] show ?thesis by (simp add: atoi_def)
qed

lemma atoi_minus_digits: "atoi (CHR ''-'' # rev (tmp_digits 10 n)) = - of_nat n"
  using atoi_loop_tmp_digits [of 0 n "[]"] by (simp add: atoi_def)

lemma atoi_zero [simp]: "atoi ''0'' = 0"
  by (simp add: atoi_def isdigit_def)

lemma of_nat_sint: "0 \<le> sint (w :: u32) \<Longrightarrow> of_nat (nat (sint w)) = w"
  by simp

lemma sint_uminus_u32:
  fixes w :: u32
  assumes "sint w < 0" and "w \<noteq> 0x80000000"
  shows "0 < sint (- w)"
proof -
  have "sint w \<noteq> - (2 ^ 31)"
  proof
    assume "sint w = - (2 ^ 31)"
    then have "w = word_of_int (- (2 ^ 31))" by (metis of_int_sint scast_id)
    with assms(2) show False by simp
  qed
  moreover have "- (2 ^ 31) \<le> sint w" using sint_ge [of w] by simp
  ultimately have "sint (- w) = - sint w"
    using assms(1) by (simp add: sint_word_ariths signed_take_bit_int_eq_self_iff)
  with assms(1) show ?thesis by simp
qed

lemma snprintf_tmp_fits:
  "length (uint_to_str v 10) \<le> 20" "length (uint_to_str v 16) \<le> 16"
  "length (int_to_str v 10) \<le> 20"
proof -
  have "unat v < 2 ^ LENGTH(64)" by (rule unsigned_less)
  then have v: "unat v < 2 ^ 64" by simp
  then show "length (uint_to_str v 10) \<le> 20"
    using tmp_digits_length [of "unat v" 10 20] by (simp add: uint_to_str_def)
  show "length (uint_to_str v 16) \<le> 16"
    using v tmp_digits_length [of "unat v" 16 16] by (simp add: uint_to_str_def)
  have m: "nat (sint m) < 10 ^ 19" for m :: u64
    using sint_lt [of m] by simp
  show "length (int_to_str v 10) \<le> 20"
    using tmp_digits_length [OF m, of v] tmp_digits_length [OF m, of "- v"]
    by (simp add: int_to_str_def Let_def)
qed

section \<open>The text a format stands for\<close>

text \<open>
  The specification of \<open>snprintf\<close>: a format parses into directives, and rendering them with
  the arguments gives the whole text, with no buffer in sight. Every character after a percent
  sign that starts none of the conversions is skipped.
\<close>

datatype directive = Lit char | Dec | Unsigned | Hex | Long_Unsigned | Text | Chr

definition conversion :: "char \<Rightarrow> directive list" where
  "conversion d =
     (if d = CHR ''d'' \<or> d = CHR ''i'' then [Dec]
      else if d = CHR ''u'' then [Unsigned]
      else if d = CHR ''x'' then [Hex]
      else if d = CHR ''s'' then [Text]
      else if d = CHR ''c'' then [Chr]
      else if d = CHR ''%'' then [Lit CHR ''%'']
      else [])"

fun parse_fmt :: "string \<Rightarrow> directive list option" where
  "parse_fmt [] = Some []"
| "parse_fmt (c # fmt) =
     (if c \<noteq> CHR ''%'' then map_option ((#) (Lit c)) (parse_fmt fmt)
      else case fmt of
        [] \<Rightarrow> None
      | d # fmt1 \<Rightarrow>
          if d = CHR ''l'' then
            (case fmt1 of [] \<Rightarrow> None
             | e # fmt2 \<Rightarrow>
                 if e = CHR ''l'' then
                   (case fmt2 of [] \<Rightarrow> None
                    | _ # fmt3 \<Rightarrow> map_option ((#) Long_Unsigned) (parse_fmt fmt3))
                 else parse_fmt fmt2)
          else map_option ((@) (conversion d)) (parse_fmt fmt1))"

definition u64_of :: "u32 \<Rightarrow> u32 \<Rightarrow> u64" where
  "u64_of lo hi = push_bit 32 (ucast hi) OR ucast lo"

fun directive_text :: "(u32 \<Rightarrow> string) \<Rightarrow> directive \<Rightarrow> u32 list \<Rightarrow> (string \<times> u32 list) option" where
  "directive_text deref (Lit c) args = Some ([c], args)"
| "directive_text deref Dec (v # args) = Some (int_to_str (scast v) 10, args)"
| "directive_text deref Unsigned (v # args) = Some (uint_to_str (ucast v) 10, args)"
| "directive_text deref Hex (v # args) = Some (uint_to_str (ucast v) 16, args)"
| "directive_text deref Long_Unsigned (lo # hi # args) = Some (uint_to_str (u64_of lo hi) 10, args)"
| "directive_text deref Text (v # args) = Some (if v = 0 then ''(null)'' else deref v, args)"
| "directive_text deref Chr (v # args) = Some ([char_of (unat v)], args)"
| "directive_text deref _ _ = None"

fun render :: "(u32 \<Rightarrow> string) \<Rightarrow> directive list \<Rightarrow> u32 list \<Rightarrow> string option" where
  "render deref [] args = Some []"
| "render deref (d # ds) args =
     (case directive_text deref d args of None \<Rightarrow> None
      | Some (t, args') \<Rightarrow> map_option ((@) t) (render deref ds args'))"

definition fmt_text :: "(u32 \<Rightarrow> string) \<Rightarrow> string \<Rightarrow> u32 list \<Rightarrow> string option" where
  "fmt_text deref fmt args =
     (case parse_fmt fmt of None \<Rightarrow> None | Some ds \<Rightarrow> render deref ds args)"

lemma emit_eq: "emit lim s out = (if length out \<le> lim then take lim (out @ s) else out)"
  by (induction lim s out rule: emit.induct) auto

lemma emit_take [simp]: "emit lim s (take lim out) = take lim (out @ s)"
  by (auto simp: emit_eq min_def)

lemma directive_text_SomeD:
  assumes "directive_text deref d args = Some (t, args')"
  shows "case d of Lit c \<Rightarrow> t = [c] \<and> args' = args
    | Dec \<Rightarrow> \<exists>v. args = v # args' \<and> t = int_to_str (scast v) 10
    | Unsigned \<Rightarrow> \<exists>v. args = v # args' \<and> t = uint_to_str (ucast v) 10
    | Hex \<Rightarrow> \<exists>v. args = v # args' \<and> t = uint_to_str (ucast v) 16
    | Long_Unsigned \<Rightarrow> \<exists>lo hi. args = lo # hi # args' \<and> t = uint_to_str (u64_of lo hi) 10
    | Text \<Rightarrow> \<exists>v. args = v # args' \<and> t = (if v = 0 then ''(null)'' else deref v)
    | Chr \<Rightarrow> \<exists>v. args = v # args' \<and> t = [char_of (unat v)]"
  using assms by (cases "(deref, d, args)" rule: directive_text.cases) auto

lemma append_one_below:
  "length (take lim out) < lim \<Longrightarrow> take lim out @ [c] = take lim (out @ [c])"
  by auto

lemma take_take_append: "\<not> length (take lim out) < lim \<Longrightarrow> take lim out = take lim (out @ s)"
  by auto

lemma conversion_ConsD:
  "conversion d = x # xs \<Longrightarrow>
     x = Dec \<and> d = CHR ''d'' \<or> x = Dec \<and> d = CHR ''i'' \<or> x = Unsigned \<and> d = CHR ''u''
   \<or> x = Hex \<and> d = CHR ''x'' \<or> x = Text \<and> d = CHR ''s'' \<or> x = Chr \<and> d = CHR ''c''
   \<or> x = Lit CHR ''%'' \<and> d = CHR ''%''"
  by (auto simp: conversion_def split: if_splits)

text \<open>One conversion of the loop does what its directive says.\<close>

lemma snprintf_loop_conversion:
  assumes room: "length (take lim out) < lim" and "d \<noteq> CHR ''l''"
    and parse: "render deref (conversion d @ ds) args = Some s"
    and IH: "\<And>args out s. render deref ds args = Some s \<Longrightarrow>
      snprintf_loop deref lim fmt args (take lim out) = Some (take lim (out @ s))"
  shows "snprintf_loop deref lim (CHR ''%'' # d # fmt) args (take lim out) = Some (take lim (out @ s))"
proof (cases "conversion d")
  case Nil
  with parse have "snprintf_loop deref lim fmt args (take lim out) = Some (take lim (out @ s))"
    by (intro IH) simp
  with Nil room assms(2) show ?thesis
    by (simp add: conversion_def del: length_take take_append split: if_splits)
next
  case (Cons x xs)
  then have xs: "xs = []" by (auto simp: conversion_def split: if_splits)
  with Cons parse obtain t args' s' where t: "directive_text deref x args = Some (t, args')"
      and s: "render deref ds args' = Some s'" "s = t @ s'"
    by (auto split: option.splits)
  show ?thesis
    using conversion_ConsD [OF Cons] directive_text_SomeD [OF t] room
      IH [OF s(1), of "out @ t"] unfolding s(2)
    by (elim disjE) (auto simp: append_one_below simp del: length_take take_append)
qed

lemma snprintf_loop_render:
  assumes "parse_fmt fmt = Some ds" and "render deref ds args = Some s"
  shows "snprintf_loop deref lim fmt args (take lim out) = Some (take lim (out @ s))"
  using assms
proof (induction fmt arbitrary: ds args out s rule: parse_fmt.induct)
  case 1
  then show ?case by simp
next
  case (2 c fmt)
  show ?case
  proof (cases "length (take lim out) < lim \<and> c = CHR ''%''")
    case False
    show ?thesis
    proof (cases "length (take lim out) < lim")
      case True
      then obtain ds' s' where "parse_fmt fmt = Some ds'" "render deref ds' args = Some s'" "s = c # s'"
        using False 2(5,6) by (auto split: option.splits)
      with 2(1) [of ds' args s' "out @ [c]"] True False show ?thesis
        by (simp add: append_one_below del: length_take)
    qed (use take_take_append in \<open>simp add: take_take_append [symmetric] del: length_take take_append\<close>)
  next
    case room: True
    then obtain d fmt1 where fmt: "fmt = d # fmt1" using 2(5) by (cases fmt) auto
    show ?thesis
    proof (cases "d = CHR ''l''")
      case False
      then obtain ds' where "parse_fmt fmt1 = Some ds'" "ds = conversion d @ ds'"
        using 2(5) room fmt by auto
      then have "snprintf_loop deref lim (CHR ''%'' # d # fmt1) args (take lim out)
          = Some (take lim (out @ s))"
        using 2(4) [of d fmt1] 2(6) room fmt False by (intro snprintf_loop_conversion) auto
      with fmt room show ?thesis by blast
    next
      case True
      then obtain e fmt2 where e: "fmt1 = e # fmt2" using 2(5) room fmt by (cases fmt1) auto
      show ?thesis
      proof (cases "e = CHR ''l''")
        case False
        with 2(3) [of d fmt1 e fmt2 ds args s out] 2(5,6) room fmt e True show ?thesis
          by (simp del: length_take)
      next
        case l: True
        then obtain u fmt3 ds' where u: "fmt2 = u # fmt3" "parse_fmt fmt3 = Some ds'"
            "ds = Long_Unsigned # ds'"
          using 2(5) room fmt e True by (cases fmt2) auto
        then obtain t args' s' where t: "directive_text deref Long_Unsigned args = Some (t, args')"
            and s: "render deref ds' args' = Some s'" "s = t @ s'"
          using 2(6) by (auto split: option.splits)
        show ?thesis
          using 2(2) [of d fmt1 e fmt2 u fmt3 ds' args' s' "out @ t"] u s room fmt e True l
            directive_text_SomeD [OF t]
          by (auto simp: u64_of_def simp del: length_take)
      qed
    qed
  qed
qed

lemma length_emit: "length out \<le> lim \<Longrightarrow> length (emit lim s out) \<le> lim"
  by (simp add: emit_eq)

lemma snprintf_loop_length:
  "snprintf_loop deref lim fmt args out = Some s \<Longrightarrow> length out \<le> lim \<Longrightarrow> length s \<le> lim"
proof (induction fmt arbitrary: args out rule: length_induct)
  case (1 fmt)
  have IH: "length s \<le> lim"
    if "snprintf_loop deref lim fmt' args' out' = Some s" "length out' \<le> lim"
      "length fmt' < length fmt" for fmt' args' out'
    using 1 that by blast
  show ?case
  proof (cases fmt)
    case (Cons c rest)
    show ?thesis
    proof (cases "length out < lim")
      case room: True
      show ?thesis
      proof (cases rest)
        case Nil
        with 1(2,3) Cons room show ?thesis by (auto split: if_splits)
      next
        case d: (Cons d fmt1)
        show ?thesis
        proof (cases "c = CHR ''%''")
          case True
          show ?thesis
          proof (cases "d = CHR ''l''")
            case l: True
            then obtain e fmt2 where e: "fmt1 = e # fmt2"
              using 1(2) room True Cons d by (cases fmt1) auto
            show ?thesis
            proof (cases "e = CHR ''l''")
              case l2: True
              then obtain u fmt3 where "fmt2 = u # fmt3"
                using 1(2) room True Cons d l e by (cases fmt2) auto
              moreover from this obtain lo hi args' where "args = lo # hi # args'"
                using 1(2) room True Cons d l e l2
                by (cases args; cases "tl args") auto
              ultimately show ?thesis
                using 1(2,3) room True Cons d l e l2
                by (intro IH [of fmt3]) (auto intro: length_emit)
            next
              case False
              with 1(2,3) room True Cons d l e show ?thesis
                by (intro IH [of fmt2]) auto
            qed
          next
            case False
            have e: "length (emit lim t out) \<le> lim" for t
              using 1(3) by (rule length_emit)
            show ?thesis
            proof (cases args)
              case Nil
              with 1(2,3) room True Cons d False show ?thesis
                using IH [of fmt1 args] by (auto split: if_splits)
            next
              case (Cons v args')
              with 1(2,3) room True \<open>fmt = c # rest\<close> d False e show ?thesis
                using IH [of fmt1 args] IH [of fmt1 args'] by (simp split: if_splits)
            qed
          qed
        qed (use 1(2,3) IH Cons room in \<open>simp add: Cons\<close>)
      qed
    qed (use 1(2,3) Cons in simp)
  qed (use 1(2,3) in simp)
qed

lemma int_to_str_length: "length (int_to_str (scast (v :: u32)) 10) \<le> 11"
proof -
  have v: "- (2 ^ 31) \<le> sint v" "sint v < 2 ^ 31"
    using sint_ge [of v] sint_lt [of v] by simp_all
  have s: "sint (scast v :: u64) = sint v" by (simp add: sint_up_scast is_up)
  have "sint (- (scast v :: u64)) = - sint v"
    unfolding sint_word_ariths s using v by (simp add: signed_take_bit_int_eq_self_iff)
  with s v have "nat (sint (scast v :: u64)) < 10 ^ 10" "nat (sint (- (scast v :: u64))) < 10 ^ 10"
    by simp_all
  then show ?thesis
    using tmp_digits_length by (auto simp: int_to_str_def Let_def intro: le_SucI)
qed

lemma atoi_int_to_str: "atoi (int_to_str (scast (v :: u32)) 10) = v"
proof -
  have v: "- (2 ^ 31) \<le> sint v" "sint v < 2 ^ 31"
    using sint_ge [of v] sint_lt [of v] by simp_all
  have s: "sint (scast v :: u64) = sint v" by (simp add: sint_up_scast is_up)
  then have zero: "(scast v :: u64) = 0 \<longleftrightarrow> v = 0"
    by (metis signed_0 signed_word_eqI)
  have neg: "sint (- (scast v :: u64)) = - sint v"
    unfolding sint_word_ariths s using v by (simp add: signed_take_bit_int_eq_self_iff)
  consider "v = 0" | "0 < sint v" | "sint v < 0"
    using zero by (metis linorder_neqE signed_0 signed_word_eqI)
  then show ?thesis
  proof cases
    case 2
    then have "v \<noteq> 0" by auto
    with 2 zero s show ?thesis by (simp add: int_to_str_def atoi_digits of_nat_sint)
  next
    case 3
    then have "v \<noteq> 0" by auto
    have "of_nat (nat (- sint v)) = - (word_of_int (sint v) :: u32)"
      using 3 by (simp add: of_nat_nat)
    with 3 zero s neg \<open>v \<noteq> 0\<close> show ?thesis
      by (simp add: int_to_str_def atoi_minus_digits)
  qed (simp add: int_to_str_def)
qed

section \<open>Properties\<close>

text \<open>
  C19. \<open>snprintf\<close> refines its specification: whenever the format parses and the arguments
  suffice, the buffer holds the first \<open>size - 1\<close> characters of the rendered text (\<open>size - 1\<close>
  in 32-bit arithmetic), whatever the format and the arguments are.
\<close>

theorem snprintf_renders:
  assumes "fmt_text deref fmt args = Some s"
  shows "snprintf deref sz fmt args = Some (take (unat (sz - 1)) s)"
proof -
  obtain ds where "parse_fmt fmt = Some ds" and "render deref ds args = Some s"
    using assms by (auto simp: fmt_text_def split: option.splits)
  from snprintf_loop_render [OF this, of "unat (sz - 1)" "[]"] show ?thesis
    by (simp add: snprintf_def)
qed

theorem snprintf_renders_witness:
  "snprintf (\<lambda>_. ''root'') 12 ''%s:%d %x%%'' [4096, -7, 255] = Some ''root:-7 ff%''"
proof -
  have "fmt_text (\<lambda>_. ''root'') ''%s:%d %x%%'' [4096, -7, 255] = Some ''root:-7 ff%''"
    by code_simp
  from snprintf_renders [OF this, of 12] show ?thesis by simp
qed

text \<open>
  For a non-zero size \<open>snprintf\<close> keeps the text and its terminator inside the buffer, for
  every format (well-formed or not) and all arguments.
\<close>

theorem snprintf_in_bounds:
  assumes "snprintf deref sz fmt args = Some s" and "sz \<noteq> 0"
  shows "length s < unat sz"
proof -
  have "length s \<le> unat (sz - 1)"
    using assms(1) unfolding snprintf_def by (rule snprintf_loop_length) simp
  with assms(2) show ?thesis
    using unat_pred [OF assms(2)] unat_gt_0 [of sz] by linarith
qed

theorem snprintf_in_bounds_witness:
  "\<exists>s. snprintf (\<lambda>_. ''blockos'') 5 ''<%s>'' [1] = Some s \<and> length s < unat (5 :: u32)"
proof -
  have s: "snprintf (\<lambda>_. ''blockos'') 5 ''<%s>'' [1] = Some ''<blo''" by code_simp
  have "length ''<blo'' < unat (5 :: u32)" by (rule snprintf_in_bounds [OF s]) simp
  with s show ?thesis by blast
qed

text \<open>
  C40. Printing an integer with \<open>%d\<close> into a buffer of at least 12 bytes and reading it back
  with \<open>atoi\<close> gives the integer, for every 32-bit value including the smallest one.
\<close>

theorem print_then_atoi:
  assumes "12 \<le> sz"
  shows "\<exists>s. snprintf deref sz ''%d'' [v] = Some s \<and> atoi s = v"
proof -
  have "unat (sz - 1) \<ge> 11"
    using assms unat_pred [of sz] by (cases "sz = 0") (auto simp: word_le_nat_alt)
  then have "take (unat (sz - 1)) (int_to_str (scast v) 10) = int_to_str (scast v) 10"
    using int_to_str_length [of v] by simp
  moreover have "snprintf deref sz ''%d'' [v] = Some (take (unat (sz - 1)) (int_to_str (scast v) 10))"
    using snprintf_loop_render [of "''%d''" "[Dec]" deref "[v]" _ "unat (sz - 1)" "[]"]
    by (simp add: snprintf_def conversion_def)
  ultimately show ?thesis by (simp add: atoi_int_to_str)
qed

theorem print_then_atoi_witness:
  "\<exists>s. snprintf (\<lambda>_. []) 12 ''%d'' [-2147483648] = Some s \<and> atoi s = -2147483648"
  using print_then_atoi [of 12] by simp

text \<open>
  \<open>atoi\<close> inverts \<open>itoa\<close> in base 10 on every integer except the smallest one, for which
  \<open>-n\<close> wraps, \<open>itoa\<close> writes a lone minus sign and the value read back is 0.
\<close>

theorem atoi_itoa: "atoi (itoa n 10) = (if n = 0x80000000 then 0 else n)"
proof -
  consider "n = 0" | "n = 0x80000000" | "0 < sint n" | "sint n < 0" "n \<noteq> 0x80000000" "n \<noteq> 0"
    by (metis linorder_neqE signed_0 signed_word_eqI)
  then show ?thesis
  proof cases
    case 1
    then show ?thesis by (simp add: itoa_def)
  next
    case 2
    then show ?thesis by (simp add: itoa_def atoi_def)
  next
    case 3
    then have "n \<noteq> 0" and "n \<noteq> 0x80000000" by auto
    with 3 show ?thesis by (simp add: itoa_def atoi_digits of_nat_sint)
  next
    case 4
    from sint_uminus_u32 [OF 4(1,2)] have "of_nat (nat (sint (- n))) = - n"
      by (intro of_nat_sint) simp
    with 4 show ?thesis by (simp add: itoa_def atoi_minus_digits)
  qed
qed

text \<open>
  \<open>itoa\<close> of a negative number in a base other than 10 is the empty string: the sign is
  dropped only for base 10, and the digit loop runs only on positive numbers.
\<close>

theorem itoa_negative_other_base:
  assumes "sint n < 0" and "base \<noteq> 10"
  shows "itoa n base = ''''"
  using assms by (auto simp: itoa_def Let_def)

theorem itoa_negative_other_base_witness: "itoa (-255) 16 = ''''"
  using itoa_negative_other_base [of "-255" 16] by simp

text \<open>
  \<open>snprintf\<close> has no field widths: the format \<open>%02llu:%02llu\<close> of the clock in the task bar
  prints the text ``2llu:2llu'' whatever the time is.
\<close>

theorem clock_format_ignores_time:
  "snprintf deref sz ''%02llu:%02llu'' args = Some (take (unat (sz - 1)) ''2llu:2llu'')"
  using snprintf_loop_render [of "''%02llu:%02llu''" "map Lit ''2llu:2llu''" deref args _ "unat (sz - 1)" "[]"]
  by (simp add: snprintf_def conversion_def)

end
