(* ===== verification/Scheduler.thy ===== *)
theory Scheduler
  imports Interfaces
begin

text \<open>
  The process scheduler of \<^verbatim>\<open>kernel/scheduler.c\<close>: a ring of 256 process pointers served round
  robin or by priority, and the timer tick. The header \<^verbatim>\<open>process.h\<close> is not in the repository:
  a process pointer is a number, the fields of \<^verbatim>\<open>process_t\<close> the scheduler touches are a record
  of integers kept in a store, and \<^verbatim>\<open>process_get_current\<close>, \<^verbatim>\<open>process_set_current\<close> and the two
  state constants are the fields of \<open>process_api\<close>, a parameter of the definitions.
\<close>

section \<open>State\<close>

definition SCHED_ROUND_ROBIN :: int where "SCHED_ROUND_ROBIN = 0"

definition SCHED_PRIORITY :: int where "SCHED_PRIORITY = 1"

definition SCHED_TIME_SLICE :: int where "SCHED_TIME_SLICE = 20"

lemmas sched_consts [simp] = SCHED_ROUND_ROBIN_def SCHED_PRIORITY_def SCHED_TIME_SLICE_def

type_synonym proc_ptr = nat

record process =
  state :: int
  priority :: int
  jiffies_used :: int
  time_slice :: int

record 'e process_api =
  get_current :: "'e \<Rightarrow> proc_ptr option"
  set_current :: "proc_ptr option \<Rightarrow> 'e \<Rightarrow> 'e"
  STATE_READY :: int
  STATE_BLOCKED :: int

record 'e sched =
  g_mode :: int
  g_queue :: "nat \<Rightarrow> proc_ptr option"
  g_queue_head :: u32
  g_queue_tail :: u32
  g_queue_count :: u32
  g_tick :: u32
  procs :: "proc_ptr \<Rightarrow> process"
  environ :: 'e

section \<open>Operations\<close>

definition scheduler_init :: "int \<Rightarrow> 'e sched \<Rightarrow> 'e sched" where
  "scheduler_init mode s =
     s\<lparr>g_mode := mode, g_queue_head := 0, g_queue_tail := 0, g_queue_count := 0,
       g_queue := (\<lambda>_. None)\<rparr>"

definition scheduler_add :: "proc_ptr option \<Rightarrow> 'e sched \<Rightarrow> 'e sched" where
  "scheduler_add proc s =
     (if proc = None \<or> g_queue_count s \<ge> 256 then s
      else s\<lparr>g_queue := (g_queue s)(unat (g_queue_tail s) mod 256 := proc),
             g_queue_tail := g_queue_tail s + 1,
             g_queue_count := g_queue_count s + 1\<rparr>)"

text \<open>\<open>(g_queue_head + i) % 256\<close>; the sum is unsigned and 256 divides \<open>2^32\<close>.\<close>

definition ring_slot :: "'e sched \<Rightarrow> nat \<Rightarrow> nat" where
  "ring_slot s i = unat (g_queue_head s + of_nat i) mod 256"

definition scheduler_remove :: "proc_ptr option \<Rightarrow> 'e sched \<Rightarrow> 'e sched" where
  "scheduler_remove proc s =
     (case first_index (\<lambda>i. g_queue s (ring_slot s i) = proc) (unat (g_queue_count s)) of
        None \<Rightarrow> s
      | Some i \<Rightarrow> s\<lparr>g_queue := (g_queue s)(ring_slot s i := None),
                    g_queue_count := g_queue_count s - 1\<rparr>)"

definition is_ready :: "'e process_api \<Rightarrow> 'e sched \<Rightarrow> proc_ptr option \<Rightarrow> bool" where
  "is_ready api s p =
     (case p of None \<Rightarrow> False | Some q \<Rightarrow> state (procs s q) = STATE_READY api)"

text \<open>The loop over the ring in priority mode keeps the best process found so far.\<close>

fun best_of :: "'e process_api \<Rightarrow> 'e sched \<Rightarrow> nat list \<Rightarrow> proc_ptr option \<Rightarrow> int \<Rightarrow> proc_ptr option"
where
  "best_of api s [] best best_prio = best"
| "best_of api s (i # is) best best_prio =
     (case g_queue s (ring_slot s i) of
        Some p \<Rightarrow>
          if state (procs s p) = STATE_READY api \<and> priority (procs s p) > best_prio
          then best_of api s is (Some p) (priority (procs s p))
          else best_of api s is best best_prio
      | None \<Rightarrow> best_of api s is best best_prio)"

definition scheduler_next :: "'e process_api \<Rightarrow> 'e sched \<Rightarrow> proc_ptr option \<times> 'e sched" where
  "scheduler_next api s =
     (if g_queue_count s = 0 then (None, s)
      else if g_mode s = SCHED_ROUND_ROBIN then
        (case first_index (\<lambda>i. is_ready api s (g_queue s (ring_slot s i))) 256 of
           Some i \<Rightarrow> (g_queue s (ring_slot s i),
                      s\<lparr>g_queue_head := (g_queue_head s + of_nat i + 1) mod 256\<rparr>)
         | None \<Rightarrow> (None, s))
      else if g_mode s = SCHED_PRIORITY then (best_of api s [0..<256] None (- 1000), s)
      else (None, s))"

definition upd_proc :: "proc_ptr \<Rightarrow> (process \<Rightarrow> process) \<Rightarrow> 'e sched \<Rightarrow> 'e sched" where
  "upd_proc p f s = s\<lparr>procs := (procs s)(p := f (procs s p))\<rparr>"

definition make_current :: "'e process_api \<Rightarrow> proc_ptr option \<Rightarrow> 'e sched \<Rightarrow> 'e sched" where
  "make_current api p s = s\<lparr>environ := set_current api p (environ s)\<rparr>"

definition scheduler_tick :: "'e process_api \<Rightarrow> 'e sched \<Rightarrow> 'e sched" where
  "scheduler_tick api s0 =
     (let s = s0\<lparr>g_tick := g_tick s0 + 1\<rparr> in
      case get_current api (environ s) of
        None \<Rightarrow> (let (p, s1) = scheduler_next api s in make_current api p s1)
      | Some cur \<Rightarrow>
          let s = upd_proc cur (\<lambda>c. c\<lparr>jiffies_used := jiffies_used c + 1\<rparr>) s;
              s = upd_proc cur (\<lambda>c. c\<lparr>time_slice := time_slice c - 1\<rparr>) s in
          if time_slice (procs s cur) \<le> 0 then
            let s = upd_proc cur (\<lambda>c. c\<lparr>time_slice := SCHED_TIME_SLICE\<rparr>) s;
                (next, s) = scheduler_next api s in
            (case next of
               None \<Rightarrow> s
             | Some n \<Rightarrow>
                 if n \<noteq> cur then
                   let s = upd_proc cur (\<lambda>c. c\<lparr>state := STATE_READY api\<rparr>) s;
                       s = make_current api (Some n) s in
                   upd_proc n (\<lambda>c. c\<lparr>state := STATE_READY api\<rparr>) s
                 else s)
          else s)"

definition scheduler_yield :: "'e process_api \<Rightarrow> 'e sched \<Rightarrow> 'e sched" where
  "scheduler_yield api s =
     (case get_current api (environ s) of
        None \<Rightarrow> s
      | Some cur \<Rightarrow> scheduler_tick api (upd_proc cur (\<lambda>c. c\<lparr>time_slice := 0\<rparr>) s))"

definition scheduler_block :: "'e process_api \<Rightarrow> proc_ptr option \<Rightarrow> 'e sched \<Rightarrow> 'e sched" where
  "scheduler_block api proc s =
     (case proc of None \<Rightarrow> s | Some p \<Rightarrow> upd_proc p (\<lambda>c. c\<lparr>state := STATE_BLOCKED api\<rparr>) s)"

definition scheduler_unblock :: "'e process_api \<Rightarrow> proc_ptr option \<Rightarrow> 'e sched \<Rightarrow> 'e sched" where
  "scheduler_unblock api proc s =
     (case proc of None \<Rightarrow> s | Some p \<Rightarrow> upd_proc p (\<lambda>c. c\<lparr>state := STATE_READY api\<rparr>) s)"

definition scheduler_set_mode :: "int \<Rightarrow> 'e sched \<Rightarrow> 'e sched" where
  "scheduler_set_mode mode s = s\<lparr>g_mode := mode\<rparr>"

definition scheduler_get_running_count :: "'e sched \<Rightarrow> u32" where
  "scheduler_get_running_count s = g_queue_count s"

section \<open>The ring\<close>

lemma ring_slot_eq: "ring_slot s i = (unat (g_queue_head s) + i) mod 256"
proof -
  have "ring_slot s i = (unat (g_queue_head s) + unat (of_nat i :: u32)) mod 256"
    unfolding ring_slot_def by (rule unat_add_mod) simp
  also have "unat (of_nat i :: u32) mod 256 = i mod 256"
    by (simp add: unat_of_nat mod_mod_cancel)
  ultimately show ?thesis by (metis mod_add_right_eq)
qed

lemma ring_slot_less [simp]: "ring_slot s i < 256"
  by (simp add: ring_slot_def)

text \<open>How many slots lie between the head and the slot \<open>j\<close>.\<close>

definition ring_dist :: "'e sched \<Rightarrow> nat \<Rightarrow> nat" where
  "ring_dist s j = (j + 256 - unat (g_queue_head s) mod 256) mod 256"

lemma ring_slot_dist: "j < 256 \<Longrightarrow> ring_slot s (ring_dist s j) = j"
proof -
  assume j: "j < 256"
  have "ring_slot s (ring_dist s j)
      = (unat (g_queue_head s) mod 256 + (j + 256 - unat (g_queue_head s) mod 256)) mod 256"
    unfolding ring_slot_eq ring_dist_def by (metis mod_add_left_eq mod_add_right_eq)
  also have "\<dots> = (j + 256) mod 256"
    by (rule arg_cong [of _ _ "\<lambda>x. x mod 256"])
      (use mod_less_divisor [of 256 "unat (g_queue_head s)"] in linarith)
  finally show ?thesis using j by simp
qed

lemma unat_head_after:
  "unat ((g_queue_head s + of_nat i + 1) mod 256 :: u32) = (unat (g_queue_head s) + i + 1) mod 256"
  for s :: "'e sched"
proof -
  have w: "g_queue_head s + of_nat i + 1 = g_queue_head s + of_nat (i + 1)"
    by (simp only: of_nat_add of_nat_1 add.assoc)
  have u: "unat (256 :: u32) = 256" by simp
  show ?thesis
    using ring_slot_eq [of s "i + 1"] unfolding ring_slot_def w unat_mod u
    by (simp only: add.assoc)
qed

lemma sub_mod_256:
  assumes "a \<le> j" and "j < (256 :: nat)"
  shows "(j + 256 - a) mod 256 = j - a"
proof -
  have e: "j + 256 - a = (j - a) + 256" using assms(1) by linarith
  have "j - a < 256" using assms(2) by linarith
  then show ?thesis unfolding e mod_add_self2 by (rule mod_less)
qed

lemma dist_arith:
  assumes "h < 256" "j < (256 :: nat)" "i < d" and d: "d = (j + 256 - h) mod 256"
  shows "(j + 256 - (h + i + 1) mod 256) mod 256 = d - i - 1"
proof (cases "h \<le> j")
  case True
  have d: "d = j - h" using sub_mod_256 [OF True assms(2)] d by simp
  with assms(3) have le: "h + i + 1 \<le> j" by linarith
  with assms(2) have "(h + i + 1) mod 256 = h + i + 1" by simp
  with sub_mod_256 [OF le assms(2)] show ?thesis unfolding d by simp
next
  case False
  then have d: "d = j + 256 - h" using assms(1) d by simp
  show ?thesis
  proof (cases "h + i + 1 < 256")
    case True
    with False show ?thesis unfolding d by simp
  next
    case below: False
    then have e: "(h + i + 1) mod 256 = h + i + 1 - 256"
      using assms(1-3) unfolding d by (simp add: le_mod_geq)
    have "h + i + 1 - 256 \<le> j" using assms(1-3) below unfolding d by linarith
    from sub_mod_256 [OF this assms(2)] have "(j + 256 - (h + i + 1) mod 256) mod 256
        = j - (h + i + 1 - 256)"
      unfolding e .
    also have "\<dots> = d - i - 1"
      using assms(1-3) below unfolding d by linarith
    finally show ?thesis .
  qed
qed

lemma ring_dist_after:
  assumes "i < ring_dist s j" and "j < 256"
  shows "ring_dist (s\<lparr>g_queue_head := (g_queue_head s + of_nat i + 1) mod 256\<rparr>) j
         = ring_dist s j - i - 1"
proof -
  let ?h = "unat (g_queue_head s) mod 256"
  have "(unat (g_queue_head s) + i + 1) mod 256 = (?h + i + 1) mod 256"
    by (metis add.assoc mod_add_left_eq)
  then have "ring_dist (s\<lparr>g_queue_head := (g_queue_head s + of_nat i + 1) mod 256\<rparr>) j
      = (j + 256 - (?h + i + 1) mod 256) mod 256"
    by (simp add: ring_dist_def unat_head_after)
  with dist_arith [OF _ assms(2,1), of ?h] show ?thesis by (simp add: ring_dist_def)
qed


section \<open>Choosing the next process\<close>

text \<open>The results of \<open>n\<close> consecutive calls of \<open>scheduler_next\<close>.\<close>

fun next_calls :: "'e process_api \<Rightarrow> nat \<Rightarrow> 'e sched \<Rightarrow> proc_ptr option list" where
  "next_calls api 0 s = []"
| "next_calls api (Suc n) s =
     (let (p, s') = scheduler_next api s in p # next_calls api n s')"

lemma next_round_robin:
  assumes "g_mode s = 0" and "g_queue_count s \<noteq> 0"
    and "first_index (\<lambda>i. is_ready api s (g_queue s (ring_slot s i))) 256 = Some i"
  shows "scheduler_next api s = (g_queue s (ring_slot s i),
      s\<lparr>g_queue_head := (g_queue_head s + of_nat i + 1) mod 256\<rparr>)"
  using assms by (simp add: scheduler_next_def)

lemma next_calls_reach:
  assumes "g_mode s = 0" and "g_queue_count s \<noteq> 0" and "j < 256" and "g_queue s j = Some p"
    and "state (procs s p) = STATE_READY api" and "ring_dist s j < n"
  shows "Some p \<in> set (next_calls api n s)"
  using assms
proof (induction n arbitrary: s)
  case (Suc n)
  have "is_ready api s (g_queue s (ring_slot s (ring_dist s j)))"
    using Suc.prems by (simp add: ring_slot_dist is_ready_def)
  moreover have "ring_dist s j < 256" by (simp add: ring_dist_def)
  ultimately obtain i where
    i: "first_index (\<lambda>i. is_ready api s (g_queue s (ring_slot s i))) 256 = Some i"
      and le: "i \<le> ring_dist s j"
    by (rule first_index_exists)
  let ?s = "s\<lparr>g_queue_head := (g_queue_head s + of_nat i + 1) mod 256\<rparr>"
  note nxt = next_round_robin [OF Suc.prems(1,2) i]
  show ?case
  proof (cases "i = ring_dist s j")
    case True
    then show ?thesis using nxt Suc.prems by (simp add: ring_slot_dist)
  next
    case False
    with le have "i < ring_dist s j" by simp
    from ring_dist_after [OF this Suc.prems(3)] Suc.prems this
    have "Some p \<in> set (next_calls api n ?s)" by (intro Suc.IH) auto
    then show ?thesis using nxt by simp
  qed
qed simp

lemma best_of_invariant:
  assumes "best_of api s is b prio = r"
    and "\<And>p. b = Some p \<Longrightarrow> prio = priority (procs s p)"
  shows "(case r of
      None \<Rightarrow> b = None
    | Some p \<Rightarrow> (b = Some p \<or> (\<exists>i \<in> set is. g_queue s (ring_slot s i) = Some p
                    \<and> state (procs s p) = STATE_READY api))
        \<and> prio \<le> priority (procs s p))
    \<and> (\<forall>i \<in> set is. \<forall>q. g_queue s (ring_slot s i) = Some q \<and> state (procs s q) = STATE_READY api
         \<longrightarrow> priority (procs s q) \<le> (case r of None \<Rightarrow> prio | Some p \<Rightarrow> priority (procs s p)))"
  using assms
proof (induction "is" arbitrary: b prio)
  case Nil
  then show ?case by (auto split: option.splits)
next
  case (Cons i "is")
  show ?case
  proof (cases "\<exists>p. g_queue s (ring_slot s i) = Some p \<and> state (procs s p) = STATE_READY api
      \<and> priority (procs s p) > prio")
    case True
    then obtain p where p: "g_queue s (ring_slot s i) = Some p" "state (procs s p) = STATE_READY api"
        "priority (procs s p) > prio" by blast
    with Cons.prems have r: "best_of api s is (Some p) (priority (procs s p)) = r" by simp
    from Cons.IH [OF r] p show ?thesis by (fastforce split: option.splits)
  next
    case False
    then have r: "best_of api s is b prio = r" using Cons.prems by (auto split: option.splits)
    from Cons.IH [OF r Cons.prems(2)] False show ?thesis
      by (fastforce split: option.splits)
  qed
qed

section \<open>Properties\<close>

text \<open>A concrete queue of the ready processes 0, 1 and 2, process 7 running, for the witnesses.\<close>

definition example_api :: "proc_ptr option process_api" where
  "example_api = \<lparr>get_current = (\<lambda>e. e), set_current = (\<lambda>p _. p), STATE_READY = 1, STATE_BLOCKED = 2\<rparr>"

definition example_sched :: "int \<Rightarrow> proc_ptr option sched" where
  "example_sched mode = \<lparr>g_mode = mode, g_queue = (\<lambda>i. if i < 3 then Some i else None),
     g_queue_head = 0, g_queue_tail = 3, g_queue_count = 3, g_tick = 0,
     procs = (\<lambda>p. \<lparr>state = 1, priority = int p, jiffies_used = 0, time_slice = 5\<rparr>),
     environ = Some 7\<rparr>"

text \<open>
  C15. Round robin starves nobody: a process that sits in the ring and stays ready is handed
  out by one of any 256 consecutive calls of \<open>scheduler_next\<close>, whatever else is in the ring and
  wherever the head is.
\<close>

theorem round_robin_no_starvation:
  assumes "g_mode s = SCHED_ROUND_ROBIN" and "g_queue_count s \<noteq> 0"
    and "j < 256" and "g_queue s j = Some p" and "state (procs s p) = STATE_READY api"
  shows "Some p \<in> set (next_calls api 256 s)"
  using assms by (intro next_calls_reach [of s j]) (auto simp: ring_dist_def)

theorem round_robin_no_starvation_witness:
  "Some 2 \<in> set (next_calls example_api 256 (example_sched 0))"
  using round_robin_no_starvation [of "example_sched 0" 2 2 example_api]
  by (simp add: example_sched_def example_api_def)


text \<open>
  C35. In priority mode \<open>scheduler_next\<close> returns a ready process of the ring whose priority no
  ready process of the ring exceeds, returns NULL only when no ready process has a priority
  above -1000, and changes nothing.
\<close>

theorem priority_picks_maximum:
  assumes "g_mode s = SCHED_PRIORITY" and "g_queue_count s \<noteq> 0"
    and "scheduler_next api s = (r, s')"
  shows "s' = s \<and>
    (case r of
       None \<Rightarrow> \<forall>j < 256. \<forall>q. g_queue s j = Some q \<and> state (procs s q) = STATE_READY api
                 \<longrightarrow> priority (procs s q) \<le> - 1000
     | Some p \<Rightarrow> (\<exists>j < 256. g_queue s j = Some p) \<and> state (procs s p) = STATE_READY api
         \<and> (\<forall>j < 256. \<forall>q. g_queue s j = Some q \<and> state (procs s q) = STATE_READY api
                 \<longrightarrow> priority (procs s q) \<le> priority (procs s p)))"
proof -
  have r: "best_of api s [0..<256] None (- 1000) = r" and s': "s' = s"
    using assms by (auto simp: scheduler_next_def)
  have all: "(\<forall>i \<in> set [0..<256]. P (ring_slot s i)) \<longleftrightarrow> (\<forall>j < 256. P j)" for P
  proof
    assume all_i: "\<forall>i \<in> set [0..<256]. P (ring_slot s i)"
    show "\<forall>j < 256. P j"
    proof (intro allI impI)
      fix j :: nat
      assume "j < 256"
      then have "P (ring_slot s (ring_dist s j))"
        using all_i by (simp add: ring_dist_def)
      with \<open>j < 256\<close> show "P j" by (simp add: ring_slot_dist)
    qed
  qed simp
  note inv = best_of_invariant [OF r, simplified option.simps]
  show ?thesis
  proof (cases r)
    case None
    with inv s' all [of "\<lambda>j. \<forall>q. g_queue s j = Some q \<and> state (procs s q) = STATE_READY api
        \<longrightarrow> priority (procs s q) \<le> - 1000"] show ?thesis by simp
  next
    case (Some p)
    with inv s' all [of "\<lambda>j. \<forall>q. g_queue s j = Some q \<and> state (procs s q) = STATE_READY api
        \<longrightarrow> priority (procs s q) \<le> priority (procs s p)"] show ?thesis
      by simp (meson ring_slot_less)
  qed
qed

theorem priority_picks_maximum_witness:
  "\<exists>p. scheduler_next example_api (example_sched 1) = (Some p, example_sched 1)
     \<and> 2 \<le> priority (procs (example_sched 1) p)"
proof -
  obtain r s' where n: "scheduler_next example_api (example_sched 1) = (r, s')" by fastforce
  have "g_mode (example_sched 1) = SCHED_PRIORITY" and "g_queue_count (example_sched 1) \<noteq> 0"
    by (simp_all add: example_sched_def)
  note m = priority_picks_maximum [OF this n]
  have q: "g_queue (example_sched 1) 2 = Some 2 \<and> state (procs (example_sched 1) 2) = STATE_READY example_api"
      "priority (procs (example_sched 1) 2) = 2"
    by (simp_all add: example_sched_def example_api_def)
  have two: "(2 :: nat) < 256" by simp
  show ?thesis
  proof (cases r)
    case None
    with m have "\<forall>j < 256. \<forall>q. g_queue (example_sched 1) j = Some q
        \<and> state (procs (example_sched 1) q) = STATE_READY example_api
        \<longrightarrow> priority (procs (example_sched 1) q) \<le> - 1000"
      by simp
    then have "priority (procs (example_sched 1) 2) \<le> - 1000" using q(1) two by blast
    with q(2) show ?thesis by simp
  next
    case (Some p)
    with m have "\<forall>j < 256. \<forall>q. g_queue (example_sched 1) j = Some q
        \<and> state (procs (example_sched 1) q) = STATE_READY example_api
        \<longrightarrow> priority (procs (example_sched 1) q) \<le> priority (procs (example_sched 1) p)"
      by simp
    then have "priority (procs (example_sched 1) 2) \<le> priority (procs (example_sched 1) p)"
      using q(1) two by blast
    with q(2) m n Some show ?thesis by simp
  qed
qed


text \<open>
  A process that has been scheduled once can no longer be removed: after it was added to
  an empty round-robin queue and handed out, \<open>scheduler_remove\<close> looks only at the entry behind
  it, changes nothing, and the process is handed out again.
\<close>

theorem scheduled_process_not_removed:
  fixes s :: "'e sched"
  assumes "state (procs s p) = STATE_READY api"
    and "s1 = scheduler_add (Some p) (scheduler_init SCHED_ROUND_ROBIN s)"
    and "scheduler_next api s1 = (r, s2)"
  shows "r = Some p \<and> scheduler_remove (Some p) s2 = s2 \<and> fst (scheduler_next api s2) = Some p"
proof -
  have q: "g_queue s1 = (\<lambda>_. None)(0 := Some p)" and h: "g_queue_head s1 = 0"
      and c: "g_queue_count s1 = 1" and m: "g_mode s1 = 0" and pr: "procs s1 = procs s"
    using assms(2) by (auto simp: scheduler_add_def scheduler_init_def)
  have slot: "ring_slot s1 i = i mod 256" for i by (simp add: ring_slot_eq h)
  have "first_index (\<lambda>i. is_ready api s1 (g_queue s1 (ring_slot s1 i))) 256 = Some 0"
    using assms(1) by (simp add: first_index_Some_iff slot is_ready_def q pr)
  from next_round_robin [OF m _ this] assms(3)
  have r: "r = Some p" and s2: "s2 = s1\<lparr>g_queue_head := 1\<rparr>"
    by (auto simp: c slot q h)
  have slot2: "ring_slot s2 i = Suc i mod 256" for i by (simp add: ring_slot_eq s2)
  have "scheduler_remove (Some p) s2 = s2"
    by (simp add: scheduler_remove_def s2 c slot2 [unfolded s2] first_index_def q)
  moreover have ready: "is_ready api s2 (g_queue s2 (ring_slot s2 i)) \<longleftrightarrow> i = 255" if "i < 256" for i
    using that assms(1) by (auto simp: is_ready_def s2 slot2 [unfolded s2] q pr mod_Suc split: if_splits)
  then have "first_index (\<lambda>i. is_ready api s2 (g_queue s2 (ring_slot s2 i))) 256 = Some 255"
    by (simp add: first_index_Some_iff)
  from next_round_robin [OF _ _ this] have "fst (scheduler_next api s2) = Some p"
    by (simp add: s2 m c slot2 [unfolded s2] q)
  ultimately show ?thesis using r by blast
qed

theorem scheduled_process_not_removed_witness:
  "fst (scheduler_next example_api (scheduler_remove (Some 4) (snd (scheduler_next example_api
     (scheduler_add (Some 4) (scheduler_init 0 (example_sched 1))))))) = Some 4"
proof -
  let ?s = "scheduler_add (Some 4) (scheduler_init SCHED_ROUND_ROBIN (example_sched 1))"
  obtain r s2 where n: "scheduler_next example_api ?s = (r, s2)" by fastforce
  have "state (procs (example_sched 1) 4) = STATE_READY example_api"
    by (simp add: example_sched_def example_api_def)
  from scheduled_process_not_removed [OF this refl n] n show ?thesis by simp
qed


text \<open>
  The timer tick charges the running process one jiffy, counts its slice down and refills
  it to 20 when it is used up; before that the running process is not changed. The slice of
  the running process stays between 1 and 20.
\<close>

theorem tick_runs_down_slice:
  fixes s :: "'e sched"
  assumes "get_current api (environ s) = Some c" and "s' = scheduler_tick api s"
  shows "jiffies_used (procs s' c) = jiffies_used (procs s c) + 1
    \<and> time_slice (procs s' c) = (if time_slice (procs s c) \<le> 1 then 20 else time_slice (procs s c) - 1)
    \<and> (1 < time_slice (procs s c) \<longrightarrow> environ s' = environ s \<and> g_queue_head s' = g_queue_head s)"
proof -
  have nxt: "procs (snd (scheduler_next api t)) = procs t" for t :: "'e sched"
    by (auto simp: scheduler_next_def split: option.splits)
  define a where "a = upd_proc c (\<lambda>x. x\<lparr>time_slice := time_slice x - 1\<rparr>)
      (upd_proc c (\<lambda>x. x\<lparr>jiffies_used := jiffies_used x + 1\<rparr>) (s\<lparr>g_tick := g_tick s + 1\<rparr>))"
  have a: "jiffies_used (procs a c) = jiffies_used (procs s c) + 1"
      "time_slice (procs a c) = time_slice (procs s c) - 1"
      "environ a = environ s" "g_queue_head a = g_queue_head s"
    by (simp_all add: a_def upd_proc_def)
  define b where "b = upd_proc c (\<lambda>x. x\<lparr>time_slice := 20\<rparr>) a"
  obtain n t where t: "scheduler_next api b = (n, t)" by fastforce
  then have "procs t = procs b" using nxt [of b] by simp
  then have pt: "jiffies_used (procs t c) = jiffies_used (procs a c)" "time_slice (procs t c) = 20"
    by (simp_all add: b_def upd_proc_def)
  have s': "s' = (if time_slice (procs a c) \<le> 0 then
      (case n of None \<Rightarrow> t
       | Some m \<Rightarrow> if m \<noteq> c then upd_proc m (\<lambda>x. x\<lparr>state := STATE_READY api\<rparr>)
           (make_current api (Some m) (upd_proc c (\<lambda>x. x\<lparr>state := STATE_READY api\<rparr>) t))
         else t) else a)"
    using assms t by (cases n) (simp_all add: scheduler_tick_def Let_def a_def [symmetric] b_def [symmetric])
  show ?thesis
    using a pt unfolding s' by (cases n) (auto simp: upd_proc_def make_current_def)
qed

theorem tick_runs_down_slice_witness:
  "time_slice (procs (scheduler_tick example_api (example_sched 0)) 7) = 4"
proof -
  have "get_current example_api (environ (example_sched 0)) = Some 7"
    by (simp add: example_sched_def example_api_def)
  from tick_runs_down_slice [OF this refl] show ?thesis by (simp add: example_sched_def)
qed


end
