(* ===== verification/Vmm.thy ===== *)
theory Vmm
  imports Heap_Alloc
begin

text \<open>
  The virtual memory manager of \<^verbatim>\<open>kernel/vmm.c\<close>: the kernel page directory, its page tables
  (4 KB blocks of the kernel heap) and address translation. Memory is a function from 32-bit
  addresses to bytes; 32-bit entries are read and written as four bytes, low byte first. The
  address \<open>hb\<close> of the array \<^verbatim>\<open>heap\<close>, which the linker chooses, is a parameter; NULL is
  \<^term>\<open>None\<close>. The registers \<open>cr0\<close> and \<open>cr3\<close> are fields of the state, and \<open>invlpg\<close> has no
  counterpart because the model has no TLB. An outcome \<^term>\<open>None\<close> of an operation is the
  dereference of a NULL page directory.
\<close>

section \<open>Memory\<close>

type_synonym memory = "u32 \<Rightarrow> u8"

definition load32 :: "memory \<Rightarrow> u32 \<Rightarrow> u32" where
  "load32 m a = ucast (m a) OR push_bit 8 (ucast (m (a + 1)))
     OR push_bit 16 (ucast (m (a + 2))) OR push_bit 24 (ucast (m (a + 3)))"

definition store32 :: "u32 \<Rightarrow> u32 \<Rightarrow> memory \<Rightarrow> memory" where
  "store32 a v m = m(a := ucast v, a + 1 := ucast (drop_bit 8 v),
     a + 2 := ucast (drop_bit 16 v), a + 3 := ucast (drop_bit 24 v))"

fun mem_set :: "u32 \<Rightarrow> u8 \<Rightarrow> nat \<Rightarrow> memory \<Rightarrow> memory" where
  "mem_set a v 0 m = m"
| "mem_set a v (Suc n) m = mem_set (a + 1) v n (m(a := v))"

fun mem_copy :: "u32 \<Rightarrow> u32 \<Rightarrow> nat \<Rightarrow> memory \<Rightarrow> memory" where
  "mem_copy d s 0 m = m"
| "mem_copy d s (Suc n) m = mem_copy (d + 1) (s + 1) n (m(d := m s))"

section \<open>State and operations\<close>

definition PAGE_SIZE :: u32 where "PAGE_SIZE = 4096"

definition PAGE_PRESENT :: u32 where "PAGE_PRESENT = 1"

definition PAGE_WRITABLE :: u32 where "PAGE_WRITABLE = 2"

record vmm =
  v_mem :: memory
  v_heap :: heap
  g_kernel_dir :: "u32 option"
  g_current_dir :: "u32 option"
  cr0 :: u32
  cr3 :: u32

definition dir_idx :: "u32 \<Rightarrow> u32" where "dir_idx virt = drop_bit 22 virt"

definition tbl_idx :: "u32 \<Rightarrow> u32" where "tbl_idx virt = drop_bit 12 virt AND 0x3FF"

text \<open>The address of entry \<open>i\<close> of a directory or table at \<open>p\<close>, and its contents.\<close>

definition entry_addr :: "u32 \<Rightarrow> u32 \<Rightarrow> u32" where "entry_addr p i = p + 4 * i"

definition entry :: "vmm \<Rightarrow> u32 \<Rightarrow> u32 \<Rightarrow> u32" where
  "entry s p i = load32 (v_mem s) (entry_addr p i)"

definition set_entry :: "u32 \<Rightarrow> u32 \<Rightarrow> u32 \<Rightarrow> vmm \<Rightarrow> vmm" where
  "set_entry p i v s = s\<lparr>v_mem := store32 (entry_addr p i) v (v_mem s)\<rparr>"

definition vmm_map :: "u32 \<Rightarrow> u32 \<Rightarrow> u32 \<Rightarrow> u32 \<Rightarrow> vmm \<Rightarrow> vmm" where
  "vmm_map hb virt phys flags s =
     (case g_kernel_dir s of
        None \<Rightarrow> s
      | Some d \<Rightarrow>
          if entry s d (dir_idx virt) AND PAGE_PRESENT = 0 then
            (case malloc 4096 (v_heap s) of
               (None, h) \<Rightarrow> s\<lparr>v_heap := h\<rparr>
             | (Some p, h) \<Rightarrow>
                 let tbl = hb + p;
                     s = s\<lparr>v_heap := h, v_mem := mem_set tbl 0 4096 (v_mem s)\<rparr>;
                     s = set_entry d (dir_idx virt) (tbl OR PAGE_PRESENT OR PAGE_WRITABLE) s in
                 set_entry tbl (tbl_idx virt) ((phys AND NOT 0xFFF) OR (flags AND 0xFFF)) s)
          else
            let tbl = entry s d (dir_idx virt) AND NOT 0xFFF in
            set_entry tbl (tbl_idx virt) ((phys AND NOT 0xFFF) OR (flags AND 0xFFF)) s)"

definition vmm_unmap :: "u32 \<Rightarrow> vmm \<Rightarrow> vmm option" where
  "vmm_unmap virt s =
     (case g_kernel_dir s of
        None \<Rightarrow> None
      | Some d \<Rightarrow>
          if entry s d (dir_idx virt) AND PAGE_PRESENT = 0 then Some s
          else let tbl = entry s d (dir_idx virt) AND NOT 0xFFF in
               Some (set_entry tbl (tbl_idx virt) 0 s))"

definition vmm_get_phys :: "u32 \<Rightarrow> vmm \<Rightarrow> u32" where
  "vmm_get_phys virt s =
     (case g_kernel_dir s of
        None \<Rightarrow> 0
      | Some d \<Rightarrow>
          if entry s d (dir_idx virt) AND PAGE_PRESENT = 0 then 0
          else let tbl = entry s d (dir_idx virt) AND NOT 0xFFF in
               (entry s tbl (tbl_idx virt) AND NOT 0xFFF) OR (virt AND 0xFFF))"

definition vmm_is_mapped :: "u32 \<Rightarrow> vmm \<Rightarrow> bool" where
  "vmm_is_mapped virt s \<longleftrightarrow> vmm_get_phys virt s \<noteq> 0"

definition ptr_value :: "u32 option \<Rightarrow> u32" where
  "ptr_value p = (case p of None \<Rightarrow> 0 | Some a \<Rightarrow> a)"

definition vmm_switch :: "u32 option \<Rightarrow> vmm \<Rightarrow> vmm" where
  "vmm_switch dir s = s\<lparr>g_current_dir := dir, cr3 := ptr_value dir\<rparr>"

definition vmm_init :: "u32 \<Rightarrow> vmm \<Rightarrow> vmm" where
  "vmm_init hb s =
     (case malloc 4096 (v_heap s) of
        (None, h) \<Rightarrow> s\<lparr>g_kernel_dir := None, v_heap := h\<rparr>
      | (Some p, h) \<Rightarrow>
          let d = hb + p;
              s = s\<lparr>g_kernel_dir := Some d, v_heap := h, v_mem := mem_set d 0 4096 (v_mem s)\<rparr>;
              s = fold (\<lambda>i. vmm_map hb (of_nat i * PAGE_SIZE) (of_nat i * PAGE_SIZE)
                     (PAGE_PRESENT OR PAGE_WRITABLE)) [0..<1024] s;
              s = vmm_switch (g_kernel_dir s) s in
          s\<lparr>cr0 := cr0 s OR 0x80000000\<rparr>)"

definition vmm_create_dir :: "u32 \<Rightarrow> vmm \<Rightarrow> (u32 option \<times> vmm) option" where
  "vmm_create_dir hb s =
     (case malloc 4096 (v_heap s) of
        (None, h) \<Rightarrow> Some (None, s\<lparr>v_heap := h\<rparr>)
      | (Some p, h) \<Rightarrow>
          (case g_kernel_dir s of
             None \<Rightarrow> None
           | Some d \<Rightarrow> Some (Some (hb + p),
               s\<lparr>v_heap := h, v_mem := mem_copy (hb + p) d 4096 (v_mem s)\<rparr>)))"

definition vmm_destroy_dir :: "u32 option \<Rightarrow> vmm \<Rightarrow> vmm" where
  "vmm_destroy_dir dir s = (if dir = None then s else s\<lparr>v_heap := free dir (v_heap s)\<rparr>)"

section \<open>Words in memory\<close>

text \<open>Two 32-bit words in memory that share no byte.\<close>

definition apart :: "u32 \<Rightarrow> u32 \<Rightarrow> bool" where
  "apart a b \<longleftrightarrow> 4 \<le> a - b \<and> 4 \<le> b - a"

lemma load32_store32_same [simp]: "load32 (store32 a v m) a = v"
  unfolding load32_def store32_def
  by (rule bit_word_eqI) (auto simp: bit_simps, rule ccontr, simp add: not_less)

lemma apart_distinct:
  assumes "apart a b" and "i < 4" and "j < 4"
  shows "a + i \<noteq> b + j"
proof
  assume "a + i = b + j"
  then have "a - b = j - i" and "b - a = i - j" by (auto simp: algebra_simps)
  with assms show False
    unfolding apart_def by (cases "i \<le> j") (unat_arith+)
qed

lemma load32_store32_apart:
  assumes "apart a b"
  shows "load32 (store32 a v m) b = load32 m b"
  using apart_distinct [OF assms, of 0 0] apart_distinct [OF assms, of 0 1]
  apart_distinct [OF assms, of 0 2] apart_distinct [OF assms, of 0 3]
  apart_distinct [OF assms, of 1 0] apart_distinct [OF assms, of 1 1]
  apart_distinct [OF assms, of 1 2] apart_distinct [OF assms, of 1 3]
  apart_distinct [OF assms, of 2 0] apart_distinct [OF assms, of 2 1]
  apart_distinct [OF assms, of 2 2] apart_distinct [OF assms, of 2 3]
  apart_distinct [OF assms, of 3 0] apart_distinct [OF assms, of 3 1]
  apart_distinct [OF assms, of 3 2] apart_distinct [OF assms, of 3 3]
  unfolding load32_def store32_def by simp

lemma mem_set_apply:
  "n \<le> 2 ^ 32 \<Longrightarrow> mem_set a v n m x = (if unat (x - a) < n then v else m x)"
proof (induction a v n m rule: mem_set.induct)
  case (2 a v n m)
  have IH: "mem_set (a + 1) v n (m(a := v)) x = (if unat (x - (a + 1)) < n then v else (m(a := v)) x)"
    using "2.prems" by (intro "2.IH") simp
  show ?case
  proof (cases "x = a")
    case False
    then have "x - a \<noteq> 0" by simp
    then have "unat (x - a) = Suc (unat (x - (a + 1)))"
      using unat_pred [of "x - a"] unat_gt_0 [of "x - a"] by (simp add: algebra_simps)
    with False show ?thesis unfolding mem_set.simps IH by simp
  next
    case True
    then show ?thesis unfolding mem_set.simps IH by simp
  qed
qed simp


section \<open>Pages\<close>

definition page_aligned :: "u32 \<Rightarrow> bool" where
  "page_aligned p \<longleftrightarrow> unat p mod 4096 = 0"

lemma page_aligned_and: "page_aligned (w AND NOT 0xFFF)"
  unfolding page_aligned_def mask_12 unat_and_not_mask by simp

lemma page_aligned_mask: "page_aligned p \<Longrightarrow> p AND NOT 0xFFF = p"
  by (rule word_unat_eq_iff [THEN iffD2])
    (simp add: mask_12 unat_and_not_mask page_aligned_def mod_0_imp_dvd)

lemma table_flags:
  "(p OR PAGE_PRESENT OR PAGE_WRITABLE) AND NOT 0xFFF = p AND NOT 0xFFF"
  "(p OR PAGE_PRESENT OR PAGE_WRITABLE) AND PAGE_PRESENT \<noteq> 0"
proof -
  have "(p OR PAGE_PRESENT OR PAGE_WRITABLE) AND NOT 0xFFF
      = (p AND NOT 0xFFF) OR ((PAGE_PRESENT OR PAGE_WRITABLE) AND NOT 0xFFF)"
    by (simp only: bit.conj_disj_distrib2 or.assoc)
  also have "(PAGE_PRESENT OR PAGE_WRITABLE) AND NOT 0xFFF = 0"
    by (simp add: PAGE_PRESENT_def PAGE_WRITABLE_def)
  finally show "(p OR PAGE_PRESENT OR PAGE_WRITABLE) AND NOT 0xFFF = p AND NOT 0xFFF"
    by (simp only: or.right_neutral)
  have "bit ((p OR PAGE_PRESENT OR PAGE_WRITABLE) AND PAGE_PRESENT) 0"
    by (simp add: PAGE_PRESENT_def bit_simps)
  then show "(p OR PAGE_PRESENT OR PAGE_WRITABLE) AND PAGE_PRESENT \<noteq> 0"
    by (metis bit_0_eq bot_apply bot_bool_def)
qed

lemma mask_10: "(0x3FF :: u32) = mask 10"
  by (simp add: mask_eq_exp_minus_1)

lemma idx_less [simp]: "unat (dir_idx v) < 1024" "unat (tbl_idx v) < 1024"
proof -
  have "unat v < 1024 * 4194304" using unat_u32_less [of v] by simp
  then have "unat v div 4194304 < 1024" by (simp add: less_mult_imp_div_less)
  then show "unat (dir_idx v) < 1024"
    unfolding dir_idx_def unat_drop_bit_eq by (simp add: drop_bit_eq_div)
  show "unat (tbl_idx v) < 1024" unfolding tbl_idx_def mask_10 unat_and_mask by simp
qed

lemma unat_entry_addr:
  assumes "page_aligned p" and "unat i < 1024" and "unat b < 4"
  shows "unat (entry_addr p i + b) = unat p + 4 * unat i + unat b"
proof -
  obtain k where k: "unat p = 4096 * k" using assms(1) unfolding page_aligned_def by fastforce
  have "4096 * k < 4096 * 1048576" using unat_u32_less [of p] k by simp
  then have "k < 1048576" by simp
  then have le: "unat p + 4 * unat i + unat b < 2 ^ 32" using k assms by simp
  then show ?thesis using assms(2) by (simp add: entry_addr_def unat_word_ariths)
qed

lemma unat_diff_far:
  assumes "unat a = 4096 * k + r" and "r < 4096" and "unat t = 4096 * l" and "k \<noteq> l"
  shows "4096 \<le> unat (a - t :: u32)"
proof (cases "l < k")
  case True
  then have "4096 * l + 4096 \<le> 4096 * k" by simp
  with assms have "unat t + 4096 \<le> unat a" by simp
  then show ?thesis by (simp add: unat_sub_if')
next
  case False
  then have "k < l" using assms(4) by simp
  moreover have "4096 * l < 4096 * 1048576" using unat_u32_less [of t] assms(3) by simp
  ultimately show ?thesis using assms by (simp add: unat_sub_if')
qed

lemma apart_mult4:
  assumes "4 dvd unat a" and "4 dvd unat b" and "a \<noteq> b"
  shows "apart a b"
proof -
  obtain k l where kl: "unat a = 4 * k" "unat b = 4 * l" using assms(1,2) by (auto elim!: dvdE)
  then have "k \<noteq> l" using assms(3) by (metis unsigned_word_eqI)
  moreover have "k < 1073741824" "l < 1073741824"
    using unat_u32_less [of a] unat_u32_less [of b] kl by simp_all
  ultimately have "4 \<le> unat (a - b) \<and> 4 \<le> unat (b - a)"
    using kl by (auto simp: unat_sub_if' nat_neq_iff)
  then show ?thesis by (simp add: apart_def word_le_nat_alt)
qed

lemma entry_apart:
  assumes "page_aligned p" "unat i < 1024" "page_aligned q" "unat j < 1024" "(p, i) \<noteq> (q, j)"
  shows "apart (entry_addr p i) (entry_addr q j)"
proof (rule apart_mult4)
  have a: "unat (entry_addr p i) = unat p + 4 * unat i" "unat (entry_addr q j) = unat q + 4 * unat j"
    using unat_entry_addr [OF assms(1,2), of 0] unat_entry_addr [OF assms(3,4), of 0] by simp_all
  obtain k l where kl: "unat p = 4096 * k" "unat q = 4096 * l"
    using assms(1,3) unfolding page_aligned_def by fastforce
  show "4 dvd unat (entry_addr p i)" "4 dvd unat (entry_addr q j)"
    unfolding a kl by (simp_all add: dvd_add dvd_mult2 [of 4 4096])
  show "entry_addr p i \<noteq> entry_addr q j"
  proof
    assume "entry_addr p i = entry_addr q j"
    then have e: "4096 * k + 4 * unat i = 4096 * l + 4 * unat j" using a kl by simp
    then have "1024 * k + unat i = 1024 * l + unat j" by linarith
    moreover have "(1024 * k + unat i) div 1024 = k" "(1024 * l + unat j) div 1024 = l"
      using assms(2,4) by simp_all
    ultimately have "k = l" by metis
    with e kl have "unat p = unat q" "unat i = unat j" by linarith+
    then have "p = q" "i = j" by (auto intro: unsigned_word_eqI)
    then show False using assms(5) by simp
  qed
qed

lemma entry_set_entry [simp]: "entry (set_entry p i v s) p i = v"
  by (simp add: entry_def set_entry_def)

lemma entry_set_other:
  "page_aligned p \<Longrightarrow> unat i < 1024 \<Longrightarrow> page_aligned q \<Longrightarrow> unat j < 1024 \<Longrightarrow> (p, i) \<noteq> (q, j) \<Longrightarrow>
   entry (set_entry p i v s) q j = entry s q j"
  using load32_store32_apart [OF entry_apart, of p i q j] by (simp add: entry_def set_entry_def)

lemma set_entry_simps [simp]:
  "g_kernel_dir (set_entry p i v s) = g_kernel_dir s" "v_heap (set_entry p i v s) = v_heap s"
  by (simp_all add: set_entry_def)

text \<open>A zeroed page reads as zeros; the other pages keep their entries.\<close>

lemma entry_zeroed:
  assumes "page_aligned t" "page_aligned q" "unat j < 1024"
  shows "entry (s\<lparr>v_heap := h, v_mem := mem_set t 0 4096 (v_mem s)\<rparr>) q j
         = (if q = t then 0 else entry s q j)"
proof -
  obtain k l where kl: "unat q = 4096 * k" "unat t = 4096 * l"
    using assms(1,2) unfolding page_aligned_def by fastforce
  have byte: "unat (entry_addr q j + b - t) < 4096 \<longleftrightarrow> q = t" if "unat b < 4" for b
  proof -
    have a: "unat (entry_addr q j + b) = 4096 * k + (4 * unat j + unat b)"
      using unat_entry_addr [OF assms(2,3) that] kl by simp
    have r: "4 * unat j + unat b < 4096" using assms(3) that by simp
    show ?thesis
    proof (cases "k = l")
      case True
      then have "q = t" using kl by (metis unsigned_word_eqI)
      moreover from True have "unat (entry_addr q j + b - t) = 4 * unat j + unat b"
        using a kl by (simp add: unat_sub_if')
      ultimately show ?thesis using r by simp
    next
      case False
      then have "q \<noteq> t" using kl by auto
      with unat_diff_far [OF a r kl(2) False] show ?thesis by simp
    qed
  qed
  have "mem_set t 0 4096 m (entry_addr q j + b) = (if q = t then 0 else m (entry_addr q j + b))"
    if "unat b < 4" for b m
    using byte [OF that] by (simp add: mem_set_apply)
  from this [of 0] this [of 1] this [of 2] this [of 3] show ?thesis
    by (simp add: entry_def load32_def)
qed

section \<open>The page map a state stands for\<close>

definition table_of :: "vmm \<Rightarrow> u32 \<Rightarrow> u32 \<Rightarrow> u32" where
  "table_of s d k = entry s d k AND NOT 0xFFF"

definition present :: "vmm \<Rightarrow> u32 \<Rightarrow> u32 \<Rightarrow> bool" where
  "present s d k \<longleftrightarrow> entry s d k AND PAGE_PRESENT \<noteq> 0"

text \<open>
  The specification: the entry a virtual page has, as a function of the two indices; a page
  whose table is missing has none.
\<close>

definition page_map :: "vmm \<Rightarrow> u32 \<Rightarrow> u32 \<times> u32 \<Rightarrow> u32 option" where
  "page_map s d = (\<lambda>(k, i). if present s d k then Some (entry s (table_of s d k) i) else None)"

definition owned :: "u32 \<Rightarrow> vmm \<Rightarrow> u32 \<Rightarrow> bool" where
  "owned hb s p \<longleftrightarrow> p - hb < h_ptr (v_heap s)"

text \<open>
  The invariant: directory and tables are pairwise distinct pages the heap has handed out, and
  the next block of the heap starts on a page boundary.
\<close>

definition vmm_wf :: "u32 \<Rightarrow> vmm \<Rightarrow> u32 \<Rightarrow> bool" where
  "vmm_wf hb s d \<longleftrightarrow> g_kernel_dir s = Some d \<and> page_aligned d \<and> owned hb s d \<and> heap_ok (v_heap s)
     \<and> page_aligned (hb + h_ptr (v_heap s))
     \<and> (\<forall>k. unat k < 1024 \<and> present s d k \<longrightarrow> table_of s d k \<noteq> d \<and> owned hb s (table_of s d k))
     \<and> (\<forall>k l. unat k < 1024 \<and> unat l < 1024 \<and> present s d k \<and> present s d l
           \<and> table_of s d k = table_of s d l \<longrightarrow> k = l)"

lemma table_of_aligned [simp]: "page_aligned (table_of s d k)"
  by (simp only: table_of_def page_aligned_and)

text \<open>What one step that writes a table entry does to the page map.\<close>

lemma set_table_entry:
  assumes wf: "vmm_wf hb s d" and k: "unat k < 1024" "present s d k" and i: "unat i < 1024"
  shows "vmm_wf hb (set_entry (table_of s d k) i v s) d
    \<and> (\<forall>l j. unat l < 1024 \<and> unat j < 1024 \<longrightarrow>
         page_map (set_entry (table_of s d k) i v s) d (l, j)
         = (if (l, j) = (k, i) then Some v else page_map s d (l, j)))"
proof -
  let ?s = "set_entry (table_of s d k) i v s"
  have d: "page_aligned d" "table_of s d k \<noteq> d" using wf k by (auto simp: vmm_wf_def)
  have dir: "entry ?s d l = entry s d l" if "unat l < 1024" for l
    using d that i by (intro entry_set_other) auto
  then have pres: "present ?s d l = present s d l" "table_of ?s d l = table_of s d l"
    if "unat l < 1024" for l
    using that by (simp_all add: present_def table_of_def)
  have wf': "vmm_wf hb ?s d"
    using wf pres unfolding vmm_wf_def owned_def by (simp cong: conj_cong)
  have "page_map ?s d (l, j) = (if (l, j) = (k, i) then Some v else page_map s d (l, j))"
    if lj: "unat l < 1024" "unat j < 1024" for l j
  proof (cases "present s d l")
    case True
    show ?thesis
    proof (cases "(l, j) = (k, i)")
      case eq: True
      then show ?thesis using k pres by (simp add: page_map_def)
    next
      case False
      with wf k lj True have "(table_of s d k, i) \<noteq> (table_of s d l, j)"
        by (auto simp: vmm_wf_def)
      then have "entry ?s (table_of s d l) j = entry s (table_of s d l) j"
        using i lj by (intro entry_set_other) auto
      with False True pres [OF lj(1)] show ?thesis by (auto simp: page_map_def)
    qed
  next
    case False
    with k pres [OF lj(1)] show ?thesis by (auto simp: page_map_def)
  qed
  with wf' show ?thesis by blast
qed

text \<open>What entering a fresh table into the directory does.\<close>

lemma fresh_page:
  assumes wf: "vmm_wf hb s d" and m: "malloc 4096 (v_heap s) = (Some p, h)"
  shows "heap_ok h" and "page_aligned (hb + p)" and "page_aligned (hb + h_ptr h)" and "hb + p - hb < h_ptr h"
    and "owned hb s q \<Longrightarrow> q - hb < h_ptr h" and "owned hb s q \<Longrightarrow> q \<noteq> hb + p"
proof -
  have ok: "heap_ok (v_heap s)" using wf by (simp add: vmm_wf_def)
  have "size_ok 4096" by (simp add: size_ok_def)
  note mm = malloc_SomeD [OF ok this m]
  show "heap_ok h" using mm by simp
  have p: "p = h_ptr (v_heap s)" using mm by simp
  show t: "page_aligned (hb + p)" using wf p by (simp add: vmm_wf_def)
  have "4 dvd unat (h_ptr h)" "4 dvd unat p" "unat p + 4096 \<le> unat (h_ptr h)"
      "unat (h_ptr h) < unat p + 4096 + 4" and le: "unat (h_ptr h) \<le> 8388608"
    using mm ok by (auto simp: heap_ok_def)
  then have hp: "unat (h_ptr h) = unat p + 4096" by presburger
  with le have "h_ptr h = p + 4096" by (intro word_unat_eq_iff [THEN iffD2]) (simp add: unat_word_ariths)
  moreover have "unat (hb + p) mod 4096 = 0" using t by (simp add: page_aligned_def)
  then have "unat (hb + p + 4096) mod 4096 = 0"
    using mod_mod_cancel [of 4096 "2 ^ 32" "unat (hb + p) + 4096"] by (simp add: unat_word_ariths)
  ultimately show "page_aligned (hb + h_ptr h)" by (simp add: page_aligned_def add.assoc)
  show "hb + p - hb < h_ptr h" using hp by (simp add: word_less_nat_alt)
  show "q - hb < h_ptr h" if "owned hb s q" using that hp unfolding owned_def p word_less_nat_alt by linarith
  show "q \<noteq> hb + p" if "owned hb s q" using that unfolding owned_def p by auto
qed

text \<open>The entries after a zeroed page \<open>t\<close> was put into entry \<open>k\<close> of the directory.\<close>

lemma entry_after_table:
  assumes "page_aligned t" and "page_aligned d" and "unat k < 1024" and "d \<noteq> t"
    and "page_aligned q" and "unat j < 1024"
  shows "entry (set_entry d k e (s\<lparr>v_heap := h, v_mem := mem_set t 0 4096 (v_mem s)\<rparr>)) q j
    = (if q = d \<and> j = k then e else if q = t then 0 else entry s q j)"
proof (cases "q = d \<and> j = k")
  case False
  then have "entry (set_entry d k e (s\<lparr>v_heap := h, v_mem := mem_set t 0 4096 (v_mem s)\<rparr>)) q j
      = entry (s\<lparr>v_heap := h, v_mem := mem_set t 0 4096 (v_mem s)\<rparr>) q j"
    using assms by (intro entry_set_other) auto
  then show ?thesis using entry_zeroed [OF assms(1,5,6)] False by auto
qed simp

lemma add_table:
  fixes hb :: u32 and s :: vmm
  assumes wf: "vmm_wf hb s d" and k: "unat k < 1024" "\<not> present s d k"
    and m: "malloc 4096 (v_heap s) = (Some p, h)"
    and s': "s' = set_entry d k ((hb + p) OR PAGE_PRESENT OR PAGE_WRITABLE)
               (s\<lparr>v_heap := h, v_mem := mem_set (hb + p) 0 4096 (v_mem s)\<rparr>)"
  shows "vmm_wf hb s' d \<and> present s' d k \<and> table_of s' d k = hb + p
    \<and> (\<forall>l j. unat l < 1024 \<and> unat j < 1024 \<longrightarrow>
         page_map s' d (l, j) = (if l = k then Some 0 else page_map s d (l, j)))"
proof -
  let ?t = "hb + p"
  note pg = fresh_page [OF wf m]
  have d: "page_aligned d" "owned hb s d" "g_kernel_dir s = Some d" using wf by (auto simp: vmm_wf_def)
  have dt: "d \<noteq> ?t" by (rule pg(6) [OF d(2)])
  note after = entry_after_table [OF pg(2) d(1) k(1) dt, of _ _ "?t OR PAGE_PRESENT OR PAGE_WRITABLE" s h, folded s']
  have pk: "present s' d k" "table_of s' d k = ?t"
    using after [OF d(1) k(1)] table_flags page_aligned_mask [OF pg(2)] by (simp_all add: present_def table_of_def)
  have pl: "present s' d l = present s d l" "table_of s' d l = table_of s d l" if "unat l < 1024" "l \<noteq> k" for l
    using after [OF d(1) that(1)] that(2) dt by (simp_all add: present_def table_of_def)
  have old: "table_of s d l \<noteq> d" "owned hb s (table_of s d l)" if "unat l < 1024" "present s d l" for l
    using wf that by (auto simp: vmm_wf_def)
  have heap': "v_heap s' = h" "g_kernel_dir s' = Some d" by (simp_all add: s' d)
  have wf': "vmm_wf hb s' d"
    unfolding vmm_wf_def heap' owned_def
  proof (intro conjI allI impI)
    show "table_of s' d l \<noteq> d" "table_of s' d l - hb < h_ptr h"
      if l: "unat l < 1024 \<and> present s' d l" for l
      using l pk pl [of l] old [of l] pg(4,5) dt by (cases "l = k"; auto)+
    show "a = b" if ab: "unat a < 1024 \<and> unat b < 1024 \<and> present s' d a \<and> present s' d b
        \<and> table_of s' d a = table_of s' d b" for a b
    proof (cases "a = k \<or> b = k")
      case True
      with ab pk pl old pg(6) show ?thesis by metis
    next
      case False
      with ab pl [of a] pl [of b] wf show ?thesis by (simp add: vmm_wf_def)
    qed
  qed (use d pg in auto)
  have "page_map s' d (l, j) = (if l = k then Some 0 else page_map s d (l, j))"
    if lj: "unat l < 1024" "unat j < 1024" for l j
  proof (cases "l \<noteq> k \<and> present s d l")
    case True
    with after [of "table_of s d l" j] old [OF lj(1)] pg(6) lj pl [OF lj(1)] show ?thesis
      by (simp add: page_map_def)
  qed (use pk pl [OF lj(1)] after [OF pg(2) lj(2)] dt in \<open>auto simp: page_map_def\<close>)
  with wf' pk show ?thesis by blast
qed

lemma vmm_wf_dir: "vmm_wf hb s d \<Longrightarrow> g_kernel_dir s = Some d"
  unfolding vmm_wf_def by blast

lemma vmm_get_phys_page_map:
  "vmm_wf hb s d \<Longrightarrow> vmm_get_phys v s =
     (case page_map s d (dir_idx v, tbl_idx v) of
        None \<Rightarrow> 0 | Some e \<Rightarrow> (e AND NOT 0xFFF) OR (v AND 0xFFF))"
  by (drule vmm_wf_dir) (simp add: vmm_get_phys_def page_map_def present_def table_of_def)

lemma keep_masked: "((p AND NOT m) OR (f AND m)) AND NOT m = p AND NOT m" for p :: u32
  by (rule bit_word_eqI) (auto simp: bit_simps)

lemma vmm_map_step:
  assumes wf: "vmm_wf hb s d"
    and room: "present s d (dir_idx virt) \<or> fst (malloc 4096 (v_heap s)) \<noteq> None"
  shows "vmm_wf hb (vmm_map hb virt phys flags s) d
    \<and> (\<forall>l j. unat l < 1024 \<and> unat j < 1024 \<longrightarrow>
         page_map (vmm_map hb virt phys flags s) d (l, j)
         = (if (l, j) = (dir_idx virt, tbl_idx virt)
            then Some ((phys AND NOT 0xFFF) OR (flags AND 0xFFF))
            else if l = dir_idx virt \<and> \<not> present s d l then Some 0
            else page_map s d (l, j)))"
proof (cases "present s d (dir_idx virt)")
  case True
  then have "vmm_map hb virt phys flags s
      = set_entry (table_of s d (dir_idx virt)) (tbl_idx virt)
          ((phys AND NOT 0xFFF) OR (flags AND 0xFFF)) s"
    using vmm_wf_dir [OF wf] by (simp add: vmm_map_def present_def table_of_def Let_def)
  with set_table_entry [OF wf idx_less(1) True idx_less(2)]
  have wf': "vmm_wf hb (vmm_map hb virt phys flags s) d"
    and pm: "unat l < 1024 \<Longrightarrow> unat j < 1024 \<Longrightarrow> page_map (vmm_map hb virt phys flags s) d (l, j)
      = (if (l, j) = (dir_idx virt, tbl_idx virt)
         then Some ((phys AND NOT 0xFFF) OR (flags AND 0xFFF)) else page_map s d (l, j))" for l j
    by metis+
  from True have "\<not> (l = dir_idx virt \<and> \<not> present s d l)" for l by blast
  with wf' pm show ?thesis by presburger
next
  case False
  then obtain p h where m: "malloc 4096 (v_heap s) = (Some p, h)"
    using room by (cases "malloc 4096 (v_heap s)") auto
  define s' where "s' = set_entry d (dir_idx virt) ((hb + p) OR PAGE_PRESENT OR PAGE_WRITABLE)
      (s\<lparr>v_heap := h, v_mem := mem_set (hb + p) 0 4096 (v_mem s)\<rparr>)"
  note a = add_table [OF wf idx_less(1) False m s'_def]
  have "vmm_map hb virt phys flags s
      = set_entry (table_of s' d (dir_idx virt)) (tbl_idx virt)
          ((phys AND NOT 0xFFF) OR (flags AND 0xFFF)) s'"
    using vmm_wf_dir [OF wf] False m a
    by (simp add: vmm_map_def present_def Let_def s'_def)
  with set_table_entry [OF _ idx_less(1) _ idx_less(2), of hb s' d virt virt] a
  have wf': "vmm_wf hb (vmm_map hb virt phys flags s) d"
    and pm: "unat l < 1024 \<Longrightarrow> unat j < 1024 \<Longrightarrow> page_map (vmm_map hb virt phys flags s) d (l, j)
      = (if (l, j) = (dir_idx virt, tbl_idx virt)
         then Some ((phys AND NOT 0xFFF) OR (flags AND 0xFFF)) else page_map s' d (l, j))" for l j
    by metis+
  have "unat l < 1024 \<Longrightarrow> unat j < 1024 \<Longrightarrow>
      page_map s' d (l, j) = (if l = dir_idx virt \<and> \<not> present s d l then Some 0 else page_map s d (l, j))" for l j
    using a False by presburger
  with wf' pm show ?thesis by presburger
qed

lemma vmm_map_no_room:
  "\<not> present s d (dir_idx virt) \<Longrightarrow> malloc 4096 (v_heap s) = (None, h) \<Longrightarrow> g_kernel_dir s = Some d \<Longrightarrow>
   vmm_map hb virt phys flags s = s"
  by (simp add: vmm_map_def present_def malloc_NoneD)

lemma vmm_unmap_step:
  assumes wf: "vmm_wf hb s d"
  shows "\<exists>s'. vmm_unmap virt s = Some s' \<and> vmm_wf hb s' d
    \<and> (\<forall>l j. unat l < 1024 \<and> unat j < 1024 \<longrightarrow>
         page_map s' d (l, j)
         = (if (l, j) = (dir_idx virt, tbl_idx virt) \<and> present s d l then Some 0
            else page_map s d (l, j)))"
proof (cases "present s d (dir_idx virt)")
  case True
  then have "vmm_unmap virt s = Some (set_entry (table_of s d (dir_idx virt)) (tbl_idx virt) 0 s)"
    using vmm_wf_dir [OF wf] by (simp add: vmm_unmap_def present_def table_of_def Let_def)
  then show ?thesis
    using set_table_entry [OF wf idx_less(1) True idx_less(2), of virt 0] True by auto
next
  case False
  then have "vmm_unmap virt s = Some s"
    using vmm_wf_dir [OF wf] by (simp add: vmm_unmap_def present_def)
  with wf False show ?thesis by auto
qed

section \<open>Identity mapping at start\<close>

lemma small_page:
  assumes "i < 1024"
  shows "dir_idx (of_nat i * PAGE_SIZE) = 0" and "tbl_idx (of_nat i * PAGE_SIZE) = of_nat i"
proof -
  have u: "unat (of_nat i * PAGE_SIZE) = i * 4096"
    using assms by (simp add: PAGE_SIZE_def unat_word_ariths unat_of_nat)
  have "unat (dir_idx (of_nat i * PAGE_SIZE)) = 0"
    unfolding dir_idx_def unat_drop_bit_eq u using assms by (simp add: drop_bit_eq_div)
  then show "dir_idx (of_nat i * PAGE_SIZE) = 0" by (simp add: unat_eq_zero)
  have "unat (tbl_idx (of_nat i * PAGE_SIZE)) = i"
    unfolding tbl_idx_def mask_10 unat_and_mask unat_drop_bit_eq u using assms by (simp add: drop_bit_eq_div)
  then show "tbl_idx (of_nat i * PAGE_SIZE) = of_nat i" using assms by (intro word_unat_eq_iff [THEN iffD2]) (simp add: unat_of_nat)
qed

lemma identity_maps:
  assumes "vmm_wf hb s d" and "fst (malloc 4096 (v_heap s)) \<noteq> None" and "n \<le> 1024"
    and "s' = fold (\<lambda>i. vmm_map hb (of_nat i * PAGE_SIZE) (of_nat i * PAGE_SIZE)
           (PAGE_PRESENT OR PAGE_WRITABLE)) [0..<n] s"
  shows "vmm_wf hb s' d \<and> (n = 0 \<longrightarrow> s' = s) \<and> (0 < n \<longrightarrow> present s' d 0)
    \<and> (\<forall>i < n. page_map s' d (0, of_nat i)
         = Some ((of_nat i * PAGE_SIZE AND NOT 0xFFF) OR ((PAGE_PRESENT OR PAGE_WRITABLE) AND 0xFFF)))"
  using assms(3,4)
proof (induction n arbitrary: s')
  case 0
  with assms(1) show ?case by simp
next
  case (Suc n)
  define t where "t = fold (\<lambda>i. vmm_map hb (of_nat i * PAGE_SIZE) (of_nat i * PAGE_SIZE)
           (PAGE_PRESENT OR PAGE_WRITABLE)) [0..<n] s"
  let ?e = "\<lambda>i. (of_nat i * PAGE_SIZE AND NOT 0xFFF) OR ((PAGE_PRESENT OR PAGE_WRITABLE) AND 0xFFF)"
  have IH: "vmm_wf hb t d" "n = 0 \<longrightarrow> t = s" "0 < n \<longrightarrow> present t d 0"
      "\<forall>i < n. page_map t d (0, of_nat i) = Some (?e i)"
    using Suc.IH [of t] Suc.prems(1) t_def by auto
  have n: "n < 1024" using Suc.prems by simp
  note sp = small_page [OF n]
  have s': "s' = vmm_map hb (of_nat n * PAGE_SIZE) (of_nat n * PAGE_SIZE) (PAGE_PRESENT OR PAGE_WRITABLE) t"
    using Suc.prems(2) by (simp add: t_def)
  have "present t d (dir_idx (of_nat n * PAGE_SIZE)) \<or> fst (malloc 4096 (v_heap t)) \<noteq> None"
    using IH assms(2) sp by (cases "n = 0") auto
  note m = vmm_map_step [OF IH(1) this, of "of_nat n * PAGE_SIZE" "PAGE_PRESENT OR PAGE_WRITABLE",
      folded s', unfolded sp]
  have u: "unat (of_nat i :: u32) = i" if "i < 1024" for i using that by (simp add: unat_of_nat)
  have pm: "page_map s' d (0, of_nat i) = Some (?e i)" if i: "i < Suc n" for i
  proof (cases "i = n")
    case True
    with m u [OF n] show ?thesis by (simp add: n)
  next
    case False
    with i n have "i < n" "i < 1024" by simp_all
    moreover from this False have "(of_nat i :: u32) \<noteq> of_nat n" using u n by metis
    moreover have "present t d 0" using IH(3) \<open>i < n\<close> by simp
    ultimately show ?thesis using m u [of i] IH(4) by simp
  qed
  from pm [of n] have "present s' d 0" by (auto simp: page_map_def split: if_splits)
  with m pm show ?case by blast
qed

lemma no_table_wf:
  assumes "heap_ok (v_heap s)" and "page_aligned (hb + h_ptr (v_heap s))"
    and m: "malloc 4096 (v_heap s) = (Some p, h)"
    and s': "s' = s\<lparr>g_kernel_dir := Some (hb + p), v_heap := h,
               v_mem := mem_set (hb + p) 0 4096 (v_mem s)\<rparr>"
  shows "vmm_wf hb s' (hb + p) \<and> unat (h_ptr h) = unat (h_ptr (v_heap s)) + 4096"
proof -
  have sz: "size_ok 4096" by (simp add: size_ok_def)
  note mm = malloc_SomeD [OF assms(1) sz m]
  have "4 dvd unat (h_ptr h)" "4 dvd unat p" "unat p + 4096 \<le> unat (h_ptr h)"
      "unat (h_ptr h) < unat p + 4096 + 4"
    using mm assms(1) by (auto simp: heap_ok_def)
  then have hp: "unat (h_ptr h) = unat p + 4096" by presburger
  have p: "p = h_ptr (v_heap s)" and "unat (h_ptr h) \<le> 8388608" using mm by (auto simp: heap_ok_def)
  with hp have hpw: "h_ptr h = p + 4096"
    by (intro word_unat_eq_iff [THEN iffD2]) (simp add: unat_word_ariths)
  have t: "page_aligned (hb + p)" using assms(2) p by simp
  have al: "page_aligned (hb + h_ptr h)"
  proof -
    have "unat (hb + p) mod 4096 = 0" using t by (simp add: page_aligned_def)
    then have "unat (hb + p + 4096) mod 4096 = 0"
      using mod_mod_cancel [of 4096 "2 ^ 32" "unat (hb + p) + 4096"] by (simp add: unat_word_ariths)
    then show ?thesis by (simp add: page_aligned_def hpw add.assoc)
  qed
  have "entry s' (hb + p) k = 0" if "unat k < 1024" for k
    using entry_zeroed [OF t t that, of s h] by (simp add: s' entry_def)
  then have "\<not> present s' (hb + p) k" if "unat k < 1024" for k
    using that by (simp add: present_def)
  moreover have "owned hb s' (hb + p)" using hp by (simp add: owned_def s' word_less_nat_alt)
  ultimately show ?thesis using t al mm hp p by (auto simp: vmm_wf_def s')
qed

section \<open>Properties\<close>

text \<open>An empty memory with the heap at 1 MB, for the witnesses.\<close>

definition example_vmm :: "u32 \<Rightarrow> vmm" where
  "example_vmm hp = \<lparr>v_mem = (\<lambda>_. 0), v_heap = \<lparr>h_mem = (\<lambda>_. 0), h_ptr = hp\<rparr>,
     g_kernel_dir = Some 0x100000, g_current_dir = None, cr0 = 0, cr3 = 0\<rparr>"

definition example_dir :: vmm where
  "example_dir = (example_vmm 0)\<lparr>g_kernel_dir := Some (0x100000 + 0),
     v_heap := \<lparr>h_mem = (\<lambda>_. 0), h_ptr = 4096\<rparr>,
     v_mem := mem_set (0x100000 + 0) 0 4096 (\<lambda>_. 0)\<rparr>"

lemma example_dir_ok:
  "vmm_wf 0x100000 example_dir 0x100000" "fst (malloc 4096 (v_heap example_dir)) \<noteq> None"
proof -
  have "vmm_wf 0x100000 example_dir (0x100000 + 0)"
    by (rule conjunct1 [OF no_table_wf [where s = "example_vmm 0" and h = "\<lparr>h_mem = (\<lambda>_. 0), h_ptr = 4096\<rparr>"]])
      (simp_all add: example_dir_def example_vmm_def heap_ok_def page_aligned_def malloc_def HEAP_SIZE_def)
  then show "vmm_wf 0x100000 example_dir 0x100000" by simp
  show "fst (malloc 4096 (v_heap example_dir)) \<noteq> None"
    by (simp add: example_dir_def malloc_def HEAP_SIZE_def Let_def)
qed

text \<open>
  C6. Mapping a page refines the update of the page map: on well-formed states, when the table
  of the page exists or the heap has room for one, \<open>vmm_map\<close> keeps the invariant, gives the page
  the frame and the flags asked for and leaves every other page as it was (the other pages of
  a new table become empty entries).
\<close>

theorem vmm_map_refines:
  assumes "vmm_wf hb s d"
    and "present s d (dir_idx virt) \<or> fst (malloc 4096 (v_heap s)) \<noteq> None"
  shows "vmm_wf hb (vmm_map hb virt phys flags s) d
    \<and> (\<forall>l j. unat l < 1024 \<and> unat j < 1024 \<longrightarrow>
         page_map (vmm_map hb virt phys flags s) d (l, j)
         = (if (l, j) = (dir_idx virt, tbl_idx virt)
            then Some ((phys AND NOT 0xFFF) OR (flags AND 0xFFF))
            else if l = dir_idx virt \<and> \<not> present s d l then Some 0
            else page_map s d (l, j)))"
  using assms by (rule vmm_map_step)

theorem vmm_map_refines_witness:
  "page_map (vmm_map 0x100000 0x5000 0x9000 3 example_dir) 0x100000 (0, 5) = Some 0x9003"
proof -
  have idx: "dir_idx 0x5000 = 0" "tbl_idx 0x5000 = 5" by code_simp+
  have "unat (0 :: u32) < 1024" "unat (5 :: u32) < 1024" by simp_all
  with vmm_map_refines [OF example_dir_ok(1) disjI2 [OF example_dir_ok(2)], where virt = "0x5000" and phys = "0x9000" and flags = 3]
  show ?thesis unfolding idx by simp
qed

lemma registers_irrelevant:
  "vmm_wf hb (s\<lparr>g_current_dir := a, cr3 := b, cr0 := c\<rparr>) d = vmm_wf hb s d"
  "page_map (s\<lparr>g_current_dir := a, cr3 := b, cr0 := c\<rparr>) d = page_map s d"
  by (simp_all add: vmm_wf_def page_map_def present_def table_of_def owned_def entry_def
      cong: if_cong)

text \<open>
  After \<open>vmm_init\<close> on a heap whose free part starts on a page boundary and holds two pages,
  the invariant holds and every address below 4 MB translates to itself.
\<close>

theorem vmm_init_identity:
  assumes "heap_ok (v_heap s)" and "page_aligned (hb + h_ptr (v_heap s))"
    and "unat (h_ptr (v_heap s)) + 8192 \<le> 8388608" and "v < 0x400000"
  shows "\<exists>d. vmm_wf hb (vmm_init hb s) d \<and> vmm_get_phys v (vmm_init hb s) = v
           \<and> cr3 (vmm_init hb s) = d"
proof -
  have sz: "size_ok 4096" by (simp add: size_ok_def)
  obtain p h where m: "malloc 4096 (v_heap s) = (Some p, h)"
    using malloc_cases [OF assms(1) sz] assms(3) by simp
  define s1 where "s1 = s\<lparr>g_kernel_dir := Some (hb + p), v_heap := h,
      v_mem := mem_set (hb + p) 0 4096 (v_mem s)\<rparr>"
  note w = no_table_wf [OF assms(1,2) m s1_def]
  have "heap_ok (v_heap s1)" using w unfolding vmm_wf_def by blast
  then have "fst (malloc 4096 (v_heap s1)) \<noteq> None"
    using malloc_cases [OF _ sz, of "v_heap s1"] w assms(3) by (simp add: s1_def)
  define s2 where "s2 = fold (\<lambda>i. vmm_map hb (of_nat i * PAGE_SIZE) (of_nat i * PAGE_SIZE)
      (PAGE_PRESENT OR PAGE_WRITABLE)) [0..<1024] s1"
  note im = identity_maps [OF conjunct1 [OF w] \<open>fst (malloc 4096 (v_heap s1)) \<noteq> None\<close> order_refl s2_def]
  note dir = vmm_wf_dir [OF conjunct1 [OF im]]
  have init: "vmm_init hb s = s2\<lparr>g_current_dir := Some (hb + p), cr3 := hb + p, cr0 := cr0 s2 OR 0x80000000\<rparr>"
    using dir m by (simp add: vmm_init_def s1_def [symmetric] s2_def [symmetric] vmm_switch_def
        ptr_value_def Let_def)
  have wf: "vmm_wf hb (vmm_init hb s) (hb + p)"
    using im unfolding init registers_irrelevant by blast
  define i where "i = unat v div 4096"
  have "unat v < 4194304" using assms(4) by (simp add: word_less_nat_alt)
  then have i: "i < 1024" unfolding i_def by (simp add: less_mult_imp_div_less)
  have frame: "v AND NOT 0xFFF = of_nat i * PAGE_SIZE"
    unfolding mask_12 using i
    by (intro word_unat_eq_iff [THEN iffD2], subst unat_and_not_mask)
      (simp add: i_def PAGE_SIZE_def unat_word_ariths unat_of_nat)
  have "dir_idx (v AND NOT 0xFFF) = dir_idx v" "tbl_idx (v AND NOT 0xFFF) = tbl_idx v"
    unfolding dir_idx_def tbl_idx_def mask_12 mask_10
    by ((rule bit_word_eqI), (auto simp: bit_simps simp del: mask_numeral dest: bit_imp_le_length))+
  then have idx: "dir_idx v = 0" "tbl_idx v = of_nat i"
    unfolding frame small_page [OF i] by simp_all
  have pm: "page_map (vmm_init hb s) (hb + p) (0, of_nat i)
      = Some ((of_nat i * PAGE_SIZE AND NOT 0xFFF) OR ((PAGE_PRESENT OR PAGE_WRITABLE) AND 0xFFF))"
    using im i unfolding init registers_irrelevant by blast
  have "vmm_get_phys v (vmm_init hb s) = (of_nat i * PAGE_SIZE AND NOT 0xFFF) OR (v AND 0xFFF)"
    unfolding vmm_get_phys_page_map [OF wf] idx pm option.case keep_masked by (rule refl)
  also have "\<dots> = (v AND NOT 0xFFF) OR (v AND 0xFFF)"
    unfolding frame [symmetric] by (simp only: and.assoc and.idem)
  also have "\<dots> = v" unfolding mask_12 by (rule mask_OR_split)
  finally show ?thesis using wf by (auto simp: init)
qed

theorem vmm_init_identity_witness:
  "vmm_get_phys 0x1234 (vmm_init 0x100000 (example_vmm 0)) = 0x1234"
  using vmm_init_identity [where s = "example_vmm 0" and hb = "0x100000" and v = "0x1234"]
  by (auto simp: example_vmm_def heap_ok_def page_aligned_def)


text \<open>
  A page that was mapped translates to its frame, and after it is unmapped again
  \<open>vmm_get_phys\<close> returns the offset inside the page, so that \<open>vmm_is_mapped\<close> still claims the
  page is mapped for every address in it except the first.
\<close>

theorem map_unmap_translate:
  assumes "vmm_wf hb s d"
    and "present s d (dir_idx virt) \<or> fst (malloc 4096 (v_heap s)) \<noteq> None"
  shows "vmm_get_phys virt (vmm_map hb virt phys flags s) = (phys AND NOT 0xFFF) OR (virt AND 0xFFF)
    \<and> (\<exists>s'. vmm_unmap virt (vmm_map hb virt phys flags s) = Some s'
         \<and> vmm_get_phys virt s' = virt AND 0xFFF
         \<and> (vmm_is_mapped virt s' \<longleftrightarrow> virt AND 0xFFF \<noteq> 0))"
proof -
  let ?m = "vmm_map hb virt phys flags s"
  note m = vmm_map_step [OF assms, of phys flags]
  then have wf: "vmm_wf hb ?m d" by blast
  have pm: "page_map ?m d (dir_idx virt, tbl_idx virt)
      = Some ((phys AND NOT 0xFFF) OR (flags AND 0xFFF))"
    using m idx_less by presburger
  have get: "vmm_get_phys virt ?m = (phys AND NOT 0xFFF) OR (virt AND 0xFFF)"
    unfolding vmm_get_phys_page_map [OF wf] pm option.case keep_masked by (rule refl)
  obtain s' where u: "vmm_unmap virt ?m = Some s'" and wf': "vmm_wf hb s' d"
      and pm': "page_map s' d (dir_idx virt, tbl_idx virt)
        = (if present ?m d (dir_idx virt) then Some 0 else page_map ?m d (dir_idx virt, tbl_idx virt))"
    using vmm_unmap_step [OF wf, of virt] idx_less by metis
  have "present ?m d (dir_idx virt)" using pm by (auto simp: page_map_def split: if_splits)
  then have "vmm_get_phys virt s' = virt AND 0xFFF"
    unfolding vmm_get_phys_page_map [OF wf'] pm' by simp
  with get u show ?thesis by (auto simp: vmm_is_mapped_def)
qed

theorem map_unmap_translate_witness:
  "vmm_get_phys 0x5123 (vmm_map 0x100000 0x5123 0x9000 3 example_dir) = 0x9123"
  using map_unmap_translate [OF example_dir_ok(1) disjI2 [OF example_dir_ok(2)],
      where virt = "0x5123" and phys = "0x9000" and flags = 3]
  by simp


text \<open>
  The addresses when a table starts inside a page: the entry written in it, the one read from the start of the
  page and the entry of the directory are apart, and the one that is read lies in the zeroed block.
\<close>

lemma misaligned_page:
  fixes hb p d i j :: u32
  defines "t \<equiv> hb + p" and "w \<equiv> (hb + p) AND NOT 0xFFF"
  assumes al: "page_aligned hb" "page_aligned d" and off: "4 dvd unat p" "unat p mod 4096 \<noteq> 0"
    and late: "unat p mod 4096 \<le> 4 * unat i" and idx: "unat i < 1024" "unat j < 1024"
    and fits: "unat hb + unat p + 4096 < 4294967296" and before: "unat d + 4096 \<le> unat hb + unat p"
  shows "apart (entry_addr t i) (entry_addr d j)" and "apart (entry_addr t i) (entry_addr w i)"
    and "apart (entry_addr d j) (entry_addr w i)" and "unat c < 4 \<Longrightarrow> unat (entry_addr w i + c - t) < 4096"
proof -
  obtain b where hb: "unat hb = 4096 * b" using al(1) unfolding page_aligned_def by fastforce
  obtain k where d: "unat d = 4096 * k" using al(2) unfolding page_aligned_def by fastforce
  define q where "q = unat p div 4096"
  have "4 dvd unat p mod 4096" using off(1) by (intro dvd_mod) simp_all
  then obtain o' where o': "unat p mod 4096 = 4 * o'" by (rule dvdE)
  have p: "unat p = 4096 * q + 4 * o'" using o' by (metis mult_div_mod_eq q_def)
  have t: "unat t = 4096 * (b + q) + 4 * o'" using hb p fits by (simp add: t_def unat_word_ariths)
  have "4 * o' < 4096" using o' by (metis mod_less_divisor zero_less_numeral)
  then have "(4096 * (b + q) + 4 * o') div 4096 = b + q" by (intro div_nat_eqI) simp_all
  then have w: "unat w = 4096 * (b + q)"
    unfolding w_def t_def [symmetric] mask_12 unat_and_not_mask t by (simp add: algebra_simps)
  have o: "0 < o'" "o' \<le> unat i" using o' off(2) late by simp_all
  have "4096 * (b + q) + 4 * o' = unat hb + unat p" unfolding hb p by (simp add: algebra_simps)
  then have "4096 * (b + q) + 4 * o' + 4 * unat i < 4294967296" "4 * unat i < 4294967296" using fits idx by linarith+
  then have at: "unat (entry_addr t i) = 4 * (1024 * (b + q) + o' + unat i)"
    using t by (simp add: entry_addr_def unat_word_ariths)
  have "page_aligned w" unfolding w_def by (rule page_aligned_and)
  then have aw: "unat (entry_addr w i + c) = 4 * (1024 * (b + q) + unat i) + unat c" if "unat c < 4" for c
    using unat_entry_addr [of w i c] that w idx by simp
  have ad: "unat (entry_addr d j) = 4 * (1024 * k + unat j)" using unat_entry_addr [OF al(2) idx(2), of 0] d by simp
  have "1024 * k + 1024 \<le> 1024 * (b + q) + o'" using before d hb p by simp
  with o idx have below: "1024 * k + unat j < 1024 * (b + q) + unat i" by linarith
  show "apart (entry_addr t i) (entry_addr d j)" by (rule apart_mult4) (use at ad below in \<open>auto\<close>)
  show "apart (entry_addr t i) (entry_addr w i)" by (rule apart_mult4) (use at aw [of 0] o in auto)
  show "apart (entry_addr d j) (entry_addr w i)" by (rule apart_mult4) (use ad aw [of 0] below in auto)
  show "unat (entry_addr w i + c - t) < 4096" if c: "unat c < 4"
  proof -
    have "unat (entry_addr w i + c - t) = 4 * (unat i - o') + unat c" using aw [OF c] t o by (simp add: unat_sub_if')
    then show ?thesis using c idx o by linarith
  qed
qed

text \<open>
  When the free part of the heap does not start on a page boundary, the first mapping in a
  4 MB region is lost: the directory keeps only the upper 20 bits of the table's address, so
  that the entry is read from the wrong place. Here the page lies so far into the table that
  the wrong place is a zeroed entry of the same table.
\<close>

theorem misaligned_table_loses_mapping:
  assumes "g_kernel_dir s = Some d" and "page_aligned d" and "page_aligned hb"
    and "\<not> present s d (dir_idx virt)" and "heap_ok (v_heap s)"
    and "malloc 4096 (v_heap s) = (Some p, h)"
    and "unat p mod 4096 \<noteq> 0" and "unat p mod 4096 \<le> 4 * unat (tbl_idx virt)"
    and "unat hb + 8388608 < 2 ^ 32" and "unat d + 4096 \<le> unat hb + unat p"
  shows "vmm_get_phys virt (vmm_map hb virt phys flags s) = virt AND 0xFFF"
proof -
  let ?t = "hb + p" and ?w = "(hb + p) AND NOT 0xFFF"
  let ?s1 = "s\<lparr>v_heap := h, v_mem := mem_set ?t 0 4096 (v_mem s)\<rparr>"
  let ?e = "?t OR PAGE_PRESENT OR PAGE_WRITABLE"
  let ?s2 = "set_entry d (dir_idx virt) ?e ?s1"
  let ?v = "(phys AND NOT 0xFFF) OR (flags AND 0xFFF)"
  let ?s3 = "set_entry ?t (tbl_idx virt) ?v ?s2"
  have map: "vmm_map hb virt phys flags s = ?s3"
    using assms(1,4,6) by (simp add: vmm_map_def present_def Let_def)
  have mm: "heap_ok h" "p = h_ptr (v_heap s)" "unat p + 4096 \<le> unat (h_ptr h)"
    using malloc_SomeD [OF assms(5) _ assms(6)] by (auto simp: size_ok_def)
  have dvd: "4 dvd unat p" using mm(2) assms(5) by (simp add: heap_ok_def)
  have "unat p + 4096 \<le> 8388608" using mm by (simp add: heap_ok_def)
  then have fits: "unat hb + unat p + 4096 < 4294967296" using assms(9) by simp
  note far = misaligned_page [OF assms(3,2) dvd assms(7,8) idx_less(2) idx_less(1) [of virt] fits assms(10)]
  have dir: "entry ?s3 d (dir_idx virt) = ?e"
    using load32_store32_apart [OF far(1)] by (simp add: entry_def set_entry_def)
  have byte: "mem_set ?t 0 4096 m (entry_addr ?w (tbl_idx virt) + c) = 0" if "unat c < 4" for c m
    using far(4) [OF that] by (simp add: mem_set_apply)
  have "entry ?s3 ?w (tbl_idx virt) = load32 (mem_set ?t 0 4096 (v_mem s)) (entry_addr ?w (tbl_idx virt))"
    using load32_store32_apart [OF far(2)] load32_store32_apart [OF far(3)] by (simp add: entry_def set_entry_def)
  also have "\<dots> = 0"
    using byte [of 0] byte [of 1] byte [of 2] byte [of 3] by (simp add: load32_def)
  finally have zero: "entry ?s3 ?w (tbl_idx virt) = 0" .
  have kd: "g_kernel_dir ?s3 = Some d" using assms(1) by simp
  show ?thesis
    unfolding map vmm_get_phys_def kd option.case dir Let_def table_flags(1) zero
    using table_flags(2) by simp
qed

theorem misaligned_table_loses_mapping_witness:
  "vmm_get_phys 0x1000 (vmm_map 0x100000 0x1000 0x9000 3 (example_vmm 4100)) = 0"
proof -
  have idx: "dir_idx 0x1000 = 0" "tbl_idx 0x1000 = 1" by code_simp+
  have m: "malloc 4096 (v_heap (example_vmm 4100)) = (Some 4100, \<lparr>h_mem = (\<lambda>_. 0), h_ptr = 8196\<rparr>)"
    by (simp add: example_vmm_def malloc_def HEAP_SIZE_def Let_def)
  have "\<not> present (example_vmm 4100) 0x100000 (dir_idx 0x1000)"
    by (simp add: present_def entry_def load32_def example_vmm_def)
  from misaligned_table_loses_mapping [OF _ _ _ this _ m, where hb = "0x100000" and phys = "0x9000" and flags = 3] show ?thesis
    by (simp add: example_vmm_def page_aligned_def heap_ok_def idx)
qed


end
