(* ===== verification/Ramfs.thy ===== *)
theory Ramfs
  imports Heap_Alloc
begin

text \<open>
  The memory file system \<^verbatim>\<open>fs/ramfs.c\<close>. An inode pointer is the heap offset \<open>malloc\<close> gave it;
  the inodes are a store from such offsets to records (the heap never hands out a byte twice, see
  \<open>Heap_Alloc\<close>, so that the records cannot overlap the file data), file data are bytes of the
  heap. The state holds the one instance the kernel has, \<^verbatim>\<open>g_ramfs\<close>, whose address \<^verbatim>\<open>fs\<close> is not
  NULL. Names and paths are strings without terminator, and the fixed buffers are checked where
  the code writes to them: \<^term>\<open>None\<close> is a write behind a buffer, a read of uninitialised
  bytes, the dereference of NULL or a walk over a cyclic list that never ends.
\<close>

section \<open>State\<close>

definition RAMFS_MAX_NAME :: nat where "RAMFS_MAX_NAME = 256"

definition RAMFS_MAX_PATH :: nat where "RAMFS_MAX_PATH = 1024"

definition RAMFS_BLOCK_SIZE :: u32 where "RAMFS_BLOCK_SIZE = 4096"

definition RAMFS_MAX_BLOCKS :: u32 where "RAMFS_MAX_BLOCKS = 8192"

definition RAMFS_TYPE_FILE :: u8 where "RAMFS_TYPE_FILE = 0"

definition RAMFS_TYPE_DIR :: u8 where "RAMFS_TYPE_DIR = 1"

definition RAMFS_TYPE_SYMLINK :: u8 where "RAMFS_TYPE_SYMLINK = 2"

lemmas ramfs_consts = RAMFS_MAX_NAME_def RAMFS_MAX_PATH_def RAMFS_BLOCK_SIZE_def
  RAMFS_MAX_BLOCKS_def RAMFS_TYPE_FILE_def RAMFS_TYPE_DIR_def RAMFS_TYPE_SYMLINK_def

type_synonym inode_ptr = u32

record ramfs_inode =
  i_id :: u32
  i_name :: string
  i_type :: u8
  i_size :: u32
  i_permissions :: u32
  i_uid :: u32
  i_gid :: u32
  i_created :: u64
  i_modified :: u64
  i_data :: "u32 option"
  i_data_size :: u32
  i_parent :: "inode_ptr option"
  i_children :: "inode_ptr option"
  i_next :: "inode_ptr option"
  i_symlink_target :: string

definition zero_inode :: ramfs_inode where
  "zero_inode = \<lparr>i_id = 0, i_name = [], i_type = 0, i_size = 0, i_permissions = 0, i_uid = 0,
     i_gid = 0, i_created = 0, i_modified = 0, i_data = None, i_data_size = 0, i_parent = None,
     i_children = None, i_next = None, i_symlink_target = []\<rparr>"

record ramfs_file =
  f_inode :: "inode_ptr option"
  f_position :: u32
  f_flags :: u32

record ramfs =
  mounted :: bool
  root :: "inode_ptr option"
  total_size :: u32
  used_size :: u32
  file_count :: u32
  dir_count :: u32
  mount_point :: string
  next_inode_id :: u32
  inodes :: "inode_ptr \<Rightarrow> ramfs_inode"
  r_files :: "u32 \<Rightarrow> ramfs_file"
  r_heap :: heap

text \<open>The sizes of the two structures on the 32-bit target.\<close>

definition SIZEOF_INODE :: u32 where "SIZEOF_INODE = 1340"

definition SIZEOF_FILE :: u32 where "SIZEOF_FILE = 12"

definition upd_inode :: "inode_ptr \<Rightarrow> (ramfs_inode \<Rightarrow> ramfs_inode) \<Rightarrow> ramfs \<Rightarrow> ramfs" where
  "upd_inode p f s = s\<lparr>inodes := (inodes s)(p := f (inodes s p))\<rparr>"

section \<open>Paths\<close>

definition last_slash :: "string \<Rightarrow> nat option" where
  "last_slash path = map_option (\<lambda>k. length path - 1 - k)
     (first_index (\<lambda>k. path ! (length path - 1 - k) = CHR ''/'') (length path))"

definition split_path :: "string \<Rightarrow> (string \<times> string) option" where
  "split_path path =
     (let (parent, name) =
        (case last_slash path of
           None \<Rightarrow> (''/'', path)
         | Some i \<Rightarrow> if i = 0 then (''/'', drop 1 path) else (take i path, drop (i + 1) path)) in
      if length parent < RAMFS_MAX_PATH \<and> length name < RAMFS_MAX_NAME
      then Some (parent, name) else None)"

text \<open>The loop over the list of children.\<close>

partial_function (option) find_child ::
  "(inode_ptr \<Rightarrow> ramfs_inode) \<Rightarrow> inode_ptr option \<Rightarrow> string \<Rightarrow> inode_ptr option option"
where
  "find_child ino child token =
     (case child of
        None \<Rightarrow> Some None
      | Some c \<Rightarrow> if i_name (ino c) = token then Some (Some c)
                  else find_child ino (i_next (ino c)) token)"

fun walk :: "(inode_ptr \<Rightarrow> ramfs_inode) \<Rightarrow> inode_ptr option \<Rightarrow> string list \<Rightarrow> inode_ptr option option"
where
  "walk ino current [] = Some current"
| "walk ino None (token # ts) = Some None"
| "walk ino (Some current) (token # ts) =
     (case find_child ino (i_children (ino current)) token of
        None \<Rightarrow> None
      | Some None \<Rightarrow> Some None
      | Some (Some c) \<Rightarrow> walk ino (Some c) ts)"

text \<open>
  \<^verbatim>\<open>tmp\<close> gets 1023 characters at most and its last byte is not initialised, so that a longer
  path is read past its copy. The tokens are those of \<open>strtok\<close> with the delimiter \<^verbatim>\<open>/\<close>.
\<close>

definition path_tokens :: "string \<Rightarrow> string list" where
  "path_tokens path = CString.fields (\<lambda>c. c = CHR ''/'') path"

definition find_inode :: "ramfs \<Rightarrow> string \<Rightarrow> inode_ptr option option" where
  "find_inode s path =
     (if path = ''/'' then Some (root s)
      else if length path < RAMFS_MAX_PATH - 1 then walk (inodes s) (root s) (path_tokens path)
      else None)"

section \<open>Creating inodes\<close>

definition alloc_inode :: "string \<Rightarrow> u8 \<Rightarrow> u32 \<Rightarrow> ramfs \<Rightarrow> inode_ptr option \<times> ramfs" where
  "alloc_inode name type permissions s =
     (case malloc SIZEOF_INODE (r_heap s) of
        (None, h) \<Rightarrow> (None, s\<lparr>r_heap := h\<rparr>)
      | (Some p, h) \<Rightarrow>
          let node = zero_inode\<lparr>i_id := next_inode_id s, i_name := take (RAMFS_MAX_NAME - 1) name,
                       i_type := type, i_permissions := permissions\<rparr> in
          (Some p, s\<lparr>r_heap := h, next_inode_id := next_inode_id s + 1,
                     inodes := (inodes s)(p := node)\<rparr>))"

definition add_child :: "inode_ptr \<Rightarrow> inode_ptr \<Rightarrow> ramfs \<Rightarrow> ramfs" where
  "add_child parent child s =
     (let s = upd_inode child (\<lambda>n. n\<lparr>i_parent := Some parent\<rparr>) s;
          s = upd_inode child (\<lambda>n. n\<lparr>i_next := i_children (inodes s parent)\<rparr>) s in
      upd_inode parent (\<lambda>n. n\<lparr>i_children := Some child\<rparr>) s)"

definition ramfs_init :: "ramfs \<Rightarrow> bool \<times> ramfs" where
  "ramfs_init s =
     (let s = s\<lparr>mounted := False, root := None, total_size := 0, used_size := 0, file_count := 0,
                dir_count := 0, mount_point := []\<rparr>;
          (r, s) = alloc_inode ''/'' RAMFS_TYPE_DIR 493 s;
          s = s\<lparr>root := r\<rparr> in
      if r = None then (False, s)
      else (True, s\<lparr>mounted := False, total_size := RAMFS_MAX_BLOCKS * RAMFS_BLOCK_SIZE,
                    used_size := 0, file_count := 0, dir_count := 1\<rparr>))"

definition ramfs_mount :: "string \<Rightarrow> ramfs \<Rightarrow> bool \<times> ramfs" where
  "ramfs_mount mp s = (True, s\<lparr>mount_point := take (RAMFS_MAX_PATH - 1) mp, mounted := True\<rparr>)"

definition ramfs_umount :: "ramfs \<Rightarrow> bool \<times> ramfs" where
  "ramfs_umount s = (True, s\<lparr>mounted := False\<rparr>)"

text \<open>The common part of the three creation functions, up to their check of the parent.\<close>

definition create_node :: "(ramfs_inode \<Rightarrow> bool) \<Rightarrow> u8 \<Rightarrow> (ramfs_inode \<Rightarrow> ramfs_inode)
    \<Rightarrow> (ramfs \<Rightarrow> ramfs) \<Rightarrow> string \<Rightarrow> u32 \<Rightarrow> ramfs \<Rightarrow> (inode_ptr option \<times> ramfs) option" where
  "create_node parent_ok type fill count path permissions s =
     (case split_path path of
        None \<Rightarrow> None
      | Some (parent_path, name) \<Rightarrow>
          (case find_inode s parent_path of
             None \<Rightarrow> None
           | Some None \<Rightarrow> Some (None, s)
           | Some (Some parent) \<Rightarrow>
               if \<not> parent_ok (inodes s parent) then Some (None, s)
               else
                 (case alloc_inode name type permissions s of
                    (None, s') \<Rightarrow> Some (None, s')
                  | (Some node, s') \<Rightarrow>
                      Some (Some node, count (add_child parent node (upd_inode node fill s'))))))"

definition ramfs_create_file :: "string \<Rightarrow> u32 \<Rightarrow> ramfs \<Rightarrow> (inode_ptr option \<times> ramfs) option" where
  "ramfs_create_file path permissions s =
     create_node (\<lambda>p. i_type p = RAMFS_TYPE_DIR) RAMFS_TYPE_FILE (\<lambda>n. n)
       (\<lambda>s. s\<lparr>file_count := file_count s + 1\<rparr>) path permissions s"

definition ramfs_create_dir :: "string \<Rightarrow> u32 \<Rightarrow> ramfs \<Rightarrow> (inode_ptr option \<times> ramfs) option" where
  "ramfs_create_dir path permissions s =
     create_node (\<lambda>p. i_type p = RAMFS_TYPE_DIR) RAMFS_TYPE_DIR (\<lambda>n. n)
       (\<lambda>s. s\<lparr>dir_count := dir_count s + 1\<rparr>) path permissions s"

definition ramfs_create_symlink :: "string \<Rightarrow> string \<Rightarrow> ramfs \<Rightarrow> (inode_ptr option \<times> ramfs) option" where
  "ramfs_create_symlink path target s =
     create_node (\<lambda>p. True) RAMFS_TYPE_SYMLINK
       (\<lambda>n. n\<lparr>i_symlink_target := take (RAMFS_MAX_PATH - 1) target\<rparr>) (\<lambda>s. s) path 511 s"

definition ramfs_find :: "ramfs \<Rightarrow> string \<Rightarrow> inode_ptr option option" where
  "ramfs_find s path = find_inode s path"

section \<open>Files\<close>

definition ramfs_open :: "string \<Rightarrow> u32 \<Rightarrow> ramfs \<Rightarrow> (u32 option \<times> ramfs) option" where
  "ramfs_open path flags s =
     (case find_inode s path of
        None \<Rightarrow> None
      | Some found \<Rightarrow>
          (case (if found = None \<and> flags AND 1 \<noteq> 0 then ramfs_create_file path 420 s
                 else Some (found, s)) of
             None \<Rightarrow> None
           | Some (None, s) \<Rightarrow> Some (None, s)
           | Some (Some inode, s) \<Rightarrow>
               (case malloc SIZEOF_FILE (r_heap s) of
                  (None, h) \<Rightarrow> Some (None, s\<lparr>r_heap := h\<rparr>)
                | (Some f, h) \<Rightarrow>
                    Some (Some f, s\<lparr>r_heap := h, r_files := (r_files s)(f :=
                      \<lparr>f_inode = Some inode, f_position = 0, f_flags = flags\<rparr>)\<rparr>))))"

definition ramfs_close :: "u32 option \<Rightarrow> ramfs \<Rightarrow> bool \<times> ramfs" where
  "ramfs_close file s = (if file = None then (False, s) else (True, s\<lparr>r_heap := free file (r_heap s)\<rparr>))"

text \<open>
  Reading returns the bytes copied into the caller's buffer. \<open>size - position\<close> is unsigned.
\<close>

definition ramfs_read :: "u32 option \<Rightarrow> u32 \<Rightarrow> ramfs \<Rightarrow> (u8 list \<times> ramfs) option" where
  "ramfs_read file sz s =
     (case file of None \<Rightarrow> Some ([], s) | Some fp \<Rightarrow>
      (let f = r_files s fp in
       case f_inode f of None \<Rightarrow> Some ([], s) | Some p \<Rightarrow>
         (let available = i_size (inodes s p) - f_position f in
          if available = 0 then Some ([], s)
          else let sz = (if sz > available then available else sz) in
            (case i_data (inodes s p) of
               None \<Rightarrow> None
             | Some d \<Rightarrow>
                 Some (load_bytes (unat d + unat (f_position f)) (unat sz) (h_mem (r_heap s)),
                       s\<lparr>r_files := (r_files s)(fp := f\<lparr>f_position := f_position f + sz\<rparr>)\<rparr>)))))"

text \<open>Writing takes the bytes of the caller's buffer and returns their number or 0.\<close>

definition ramfs_write :: "u32 option \<Rightarrow> u8 list \<Rightarrow> ramfs \<Rightarrow> (u32 \<times> ramfs) option" where
  "ramfs_write file buffer s =
     (case file of None \<Rightarrow> Some (0, s) | Some fp \<Rightarrow>
      (let f = r_files s fp; sz = of_nat (length buffer) in
       case f_inode f of None \<Rightarrow> Some (0, s) | Some p \<Rightarrow>
         (let new_size = f_position f + sz;
              (ok, s) =
                (if new_size > i_data_size (inodes s p) then
                   (case realloc (i_data (inodes s p)) new_size (r_heap s) of
                      (None, h) \<Rightarrow> (False, s\<lparr>r_heap := h\<rparr>)
                    | (Some d, h) \<Rightarrow>
                        (True, upd_inode p (\<lambda>n. n\<lparr>i_data := Some d, i_data_size := new_size\<rparr>)
                           (s\<lparr>r_heap := h, used_size := used_size s + sz\<rparr>)))
                 else (True, s)) in
          if \<not> ok then Some (0, s)
          else if buffer \<noteq> [] \<and> i_data (inodes s p) = None then None
          else
            let s = (case i_data (inodes s p) of
                       None \<Rightarrow> s
                     | Some d \<Rightarrow> s\<lparr>r_heap := (r_heap s)\<lparr>h_mem :=
                         store_bytes (unat d + unat (f_position f)) buffer (h_mem (r_heap s))\<rparr>\<rparr>);
                pos = f_position f + sz;
                s = s\<lparr>r_files := (r_files s)(fp := f\<lparr>f_position := pos\<rparr>)\<rparr>;
                s = (if pos > i_size (inodes s p) then upd_inode p (\<lambda>n. n\<lparr>i_size := pos\<rparr>) s else s) in
            Some (sz, s))))"

definition ramfs_seek :: "u32 option \<Rightarrow> u32 \<Rightarrow> ramfs \<Rightarrow> (bool \<times> ramfs) option" where
  "ramfs_seek file offset s =
     (case file of None \<Rightarrow> Some (False, s) | Some fp \<Rightarrow>
        (case f_inode (r_files s fp) of
           None \<Rightarrow> None
         | Some p \<Rightarrow>
             if offset > i_size (inodes s p) then Some (False, s)
             else Some (True, s\<lparr>r_files := (r_files s)(fp := (r_files s fp)\<lparr>f_position := offset\<rparr>)\<rparr>)))"

fun list_children :: "(inode_ptr \<Rightarrow> ramfs_inode) \<Rightarrow> inode_ptr option \<Rightarrow> nat \<Rightarrow> inode_ptr list" where
  "list_children ino child 0 = []"
| "list_children ino None (Suc n) = []"
| "list_children ino (Some c) (Suc n) = c # list_children ino (i_next (ino c)) n"

definition ramfs_list_dir :: "string \<Rightarrow> u32 \<Rightarrow> ramfs \<Rightarrow> inode_ptr list option option" where
  "ramfs_list_dir path count s =
     (case find_inode s path of
        None \<Rightarrow> None
      | Some None \<Rightarrow> Some None
      | Some (Some d) \<Rightarrow>
          if i_type (inodes s d) \<noteq> RAMFS_TYPE_DIR then Some None
          else Some (Some (list_children (inodes s) (i_children (inodes s d)) (unat count))))"

section \<open>Deleting\<close>

text \<open>\<open>while (prev && prev->next != node) prev = prev->next;\<close>\<close>

partial_function (option) find_prev ::
  "(inode_ptr \<Rightarrow> ramfs_inode) \<Rightarrow> inode_ptr \<Rightarrow> inode_ptr option \<Rightarrow> inode_ptr option option"
where
  "find_prev ino node prev =
     (case prev of
        None \<Rightarrow> Some None
      | Some p \<Rightarrow> if i_next (ino p) = Some node then Some (Some p)
                  else find_prev ino node (i_next (ino p)))"

definition unlink_node :: "inode_ptr \<Rightarrow> inode_ptr \<Rightarrow> ramfs \<Rightarrow> ramfs option" where
  "unlink_node parent node s =
     (if i_children (inodes s parent) = Some node
      then Some (upd_inode parent (\<lambda>n. n\<lparr>i_children := i_next (inodes s node)\<rparr>) s)
      else (case find_prev (inodes s) node (i_children (inodes s parent)) of
              None \<Rightarrow> None
            | Some None \<Rightarrow> Some s
            | Some (Some prev) \<Rightarrow>
                Some (upd_inode prev (\<lambda>n. n\<lparr>i_next := i_next (inodes s node)\<rparr>) s)))"

definition ramfs_delete :: "string \<Rightarrow> ramfs \<Rightarrow> (bool \<times> ramfs) option" where
  "ramfs_delete path s =
     (case find_inode s path of
        None \<Rightarrow> None
      | Some None \<Rightarrow> Some (False, s)
      | Some (Some node) \<Rightarrow>
          (case i_parent (inodes s node) of
             None \<Rightarrow> Some (False, s)
           | Some parent \<Rightarrow>
               (case unlink_node parent node s of
                  None \<Rightarrow> None
                | Some s \<Rightarrow>
                    let s = (if i_data (inodes s node) \<noteq> None
                             then s\<lparr>used_size := used_size s - i_data_size (inodes s node),
                                    r_heap := free (i_data (inodes s node)) (r_heap s)\<rparr>
                             else s);
                        s = (if i_type (inodes s node) = RAMFS_TYPE_FILE
                             then s\<lparr>file_count := file_count s - 1\<rparr>
                             else if i_type (inodes s node) = RAMFS_TYPE_DIR
                             then s\<lparr>dir_count := dir_count s - 1\<rparr> else s) in
                    Some (True, s\<lparr>r_heap := free (Some node) (r_heap s)\<rparr>))))"

definition ramfs_get_free_space :: "ramfs \<Rightarrow> u32" where
  "ramfs_get_free_space s = total_size s - used_size s"

definition ramfs_get_used_space :: "ramfs \<Rightarrow> u32" where
  "ramfs_get_used_space s = used_size s"

section \<open>The default tree\<close>

definition default_dirs :: "(string \<times> u32) list" where
  "default_dirs =
    [(''/bin'', 493), (''/boot'', 493), (''/dev'', 493), (''/etc'', 493), (''/home'', 493),
     (''/lib'', 493), (''/mnt'', 493), (''/proc'', 365), (''/root'', 448), (''/sys'', 365),
     (''/tmp'', 511), (''/usr'', 493), (''/usr/bin'', 493), (''/usr/lib'', 493),
     (''/var'', 493), (''/var/log'', 493), (''/blockos'', 493), (''/blockos/themes'', 493),
     (''/blockos/wallpaper'', 493), (''/blockos/apps'', 493)]"

definition NL :: char where "NL = CHR 0x0A"

definition hostname_text :: string where "hostname_text = ''blockos'' @ [NL]"

definition os_release_text :: string where
  "os_release_text =
     ''NAME='' @ [CHR 0x22] @ ''BlockOS'' @ [CHR 0x22, NL]
     @ ''VERSION='' @ [CHR 0x22] @ ''1.0'' @ [CHR 0x22, NL]
     @ ''ID=blockos'' @ [NL]
     @ ''PRETTY_NAME='' @ [CHR 0x22] @ ''BlockOS 1.0'' @ [CHR 0x22, NL]
     @ ''HOME_URL='' @ [CHR 0x22] @ ''https://sourceforge.net/projects/blockos'' @ [CHR 0x22, NL]"

text \<open>
  \<open>data = strdup(text); size = strlen(text); data_size = size;\<close> on a file just created: a failed
  \<open>strdup\<close> leaves NULL with the size set, and \<^verbatim>\<open>used_size\<close> is not touched.
\<close>

definition set_text :: "string \<Rightarrow> inode_ptr option \<times> ramfs \<Rightarrow> ramfs" where
  "set_text txt r =
     (case r of
        (None, s) \<Rightarrow> s
      | (Some p, s) \<Rightarrow>
          let (d, h) = strdup txt (r_heap s); len = of_nat (length txt) in
          upd_inode p (\<lambda>n. n\<lparr>i_data := d, i_size := len, i_data_size := len\<rparr>) (s\<lparr>r_heap := h\<rparr>))"

fun make_dirs :: "(string \<times> u32) list \<Rightarrow> ramfs \<Rightarrow> ramfs option" where
  "make_dirs [] s = Some s"
| "make_dirs ((path, perm) # ds) s =
     (case ramfs_create_dir path perm s of None \<Rightarrow> None | Some (_, s') \<Rightarrow> make_dirs ds s')"

definition ramfs_create_default_structure :: "ramfs \<Rightarrow> ramfs option" where
  "ramfs_create_default_structure s =
     (case make_dirs default_dirs s of None \<Rightarrow> None | Some s \<Rightarrow>
     (case ramfs_create_file ''/etc/hostname'' 420 s of None \<Rightarrow> None | Some r \<Rightarrow>
     (case ramfs_create_file ''/etc/os-release'' 420 (set_text hostname_text r) of
        None \<Rightarrow> None | Some r \<Rightarrow>
     (case ramfs_create_symlink ''/bin/sh'' ''/bin/blocksh'' (set_text os_release_text r) of
        None \<Rightarrow> None | Some (_, s) \<Rightarrow>
      map_option snd (ramfs_create_symlink ''/usr/bin/cc'' ''/usr/bin/gcc'' s)))))"

definition ramfs_load_initrd :: "u8 list \<Rightarrow> ramfs \<Rightarrow> (bool \<times> ramfs) option" where
  "ramfs_load_initrd data s =
     (if data = [] then Some (False, s)
      else case ramfs_create_default_structure s of None \<Rightarrow> None | Some s \<Rightarrow>
      (case ramfs_create_file ''/boot/initrd'' 420 s of
         None \<Rightarrow> None
       | Some (None, s) \<Rightarrow> Some (False, s)
       | Some (Some p, s) \<Rightarrow>
           let (d, h) = malloc (of_nat (length data)) (r_heap s);
               s = upd_inode p (\<lambda>n. n\<lparr>i_data := d\<rparr>) (s\<lparr>r_heap := h\<rparr>) in
           (case d of
              None \<Rightarrow> Some (False, s)
            | Some a \<Rightarrow>
                let len = of_nat (length data);
                    s = s\<lparr>r_heap := (r_heap s)\<lparr>h_mem := store_bytes (unat a) data (h_mem (r_heap s))\<rparr>\<rparr>;
                    s = upd_inode p (\<lambda>n. n\<lparr>i_size := len, i_data_size := len\<rparr>) s in
                Some (True, s\<lparr>used_size := used_size s + len\<rparr>))))"


section \<open>The tree of directories\<close>

primrec chain :: "(inode_ptr \<Rightarrow> ramfs_inode) \<Rightarrow> inode_ptr option \<Rightarrow> inode_ptr list \<Rightarrow> bool" where
  "chain ino c [] \<longleftrightarrow> c = None"
| "chain ino c (x # xs) \<longleftrightarrow> c = Some x \<and> chain ino (i_next (ino x)) xs"

definition kids :: "ramfs \<Rightarrow> inode_ptr \<Rightarrow> inode_ptr list \<Rightarrow> bool" where
  "kids s p xs \<longleftrightarrow> chain (inodes s) (i_children (inodes s p)) xs"

text \<open>
  The specification of the tree: for each inode the partial map from names to children. A path
  is resolved by following the map.
\<close>

definition dir_map :: "ramfs \<Rightarrow> inode_ptr \<Rightarrow> string \<Rightarrow> inode_ptr option" where
  "dir_map s p name =
     (case find_child (inodes s) (i_children (inodes s p)) name of None \<Rightarrow> None | Some r \<Rightarrow> r)"

fun resolve :: "(inode_ptr \<Rightarrow> string \<Rightarrow> inode_ptr option) \<Rightarrow> inode_ptr option \<Rightarrow> string list
    \<Rightarrow> inode_ptr option" where
  "resolve m c [] = c"
| "resolve m None (t # ts) = None"
| "resolve m (Some c) (t # ts) = resolve m (m c t) ts"

lemma resolve_None [simp]: "resolve m None ts = None"
  by (cases ts) auto

definition alive :: "ramfs \<Rightarrow> inode_ptr \<Rightarrow> bool" where
  "alive s p \<longleftrightarrow> p < h_ptr (r_heap s)"

definition tree_ok :: "ramfs \<Rightarrow> bool" where
  "tree_ok s \<longleftrightarrow> heap_ok (r_heap s) \<and> (\<exists>r. root s = Some r \<and> alive s r \<and> i_parent (inodes s r) = None)
     \<and> (\<forall>p. \<exists>xs. kids s p xs \<and> distinct xs
          \<and> (\<forall>x \<in> set xs. alive s x \<and> i_parent (inodes s x) = Some p \<and> p < x))"

lemma chain_cong:
  "(\<And>x. x \<in> set xs \<Longrightarrow> i_next (ino' x) = i_next (ino x)) \<Longrightarrow> chain ino' c xs = chain ino c xs"
  by (induction xs arbitrary: c) auto

lemma chain_unique: "chain ino c xs \<Longrightarrow> chain ino c ys \<Longrightarrow> xs = ys"
proof (induction xs arbitrary: c ys)
  case Nil
  then show ?case by (cases ys) auto
next
  case (Cons x xs)
  then show ?case by (cases ys) auto
qed

lemma find_child_chain:
  "chain ino c xs \<Longrightarrow> find_child ino c t = Some (find (\<lambda>x. i_name (ino x) = t) xs)"
  by (induction xs arbitrary: c) (auto simp: find_child.simps)

lemma tree_okE:
  assumes "tree_ok s"
  obtains xs where "kids s p xs" and "distinct xs"
    and "\<And>x. x \<in> set xs \<Longrightarrow> alive s x \<and> i_parent (inodes s x) = Some p \<and> p < x"
  using assms unfolding tree_ok_def by meson

lemma dir_map_kids: "kids s p xs \<Longrightarrow> dir_map s p t = find (\<lambda>x. i_name (inodes s x) = t) xs"
  by (simp add: dir_map_def kids_def find_child_chain)

lemma find_child_dir_map:
  assumes "tree_ok s"
  shows "find_child (inodes s) (i_children (inodes s p)) t = Some (dir_map s p t)"
proof -
  obtain xs where "kids s p xs" using assms by (rule tree_okE)
  then show ?thesis by (simp add: dir_map_def kids_def find_child_chain)
qed

lemma dir_map_alive: "tree_ok s \<Longrightarrow> dir_map s p t = Some x \<Longrightarrow>
  alive s x \<and> i_name (inodes s x) = t \<and> i_parent (inodes s x) = Some p \<and> p < x"
  by (elim tree_okE [of s p]) (auto simp: dir_map_kids find_Some_iff)

lemma walk_resolve: "tree_ok s \<Longrightarrow> walk (inodes s) c ts = Some (resolve (dir_map s) c ts)"
proof (induction ts arbitrary: c)
  case (Cons t ts)
  show ?case
  proof (cases c)
    case (Some d)
    show ?thesis
      using Cons find_child_dir_map [OF Cons.prems, of d t] Some
      by (cases "dir_map s d t") simp_all
  qed simp
qed simp

text \<open>
  Looking up a path that fits its buffer follows the map from the root; the path \<^verbatim>\<open>/\<close> has no
  token, and an empty path is the root too.
\<close>

lemma find_inode_resolve:
  assumes "tree_ok s" and "length path < 1023"
  shows "find_inode s path = Some (resolve (dir_map s) (root s) (path_tokens path))"
  using assms walk_resolve by (auto simp: find_inode_def path_tokens_def ramfs_consts)

lemma resolve_alive:
  "tree_ok s \<Longrightarrow> (\<And>d. c = Some d \<Longrightarrow> alive s d) \<Longrightarrow> resolve (dir_map s) c ts = Some x \<Longrightarrow> alive s x"
proof (induction ts arbitrary: c)
  case (Cons t ts)
  then obtain d where d: "c = Some d" by (cases c) auto
  show ?case
    using Cons.prems(3) unfolding d
    by (intro Cons.IH [of "dir_map s d t"]) (use Cons.prems(1) dir_map_alive in auto)
qed simp

lemma find_inode_alive:
  assumes "tree_ok s" and "find_inode s path = Some (Some x)"
  shows "alive s x"
proof -
  have r: "root s = Some d \<Longrightarrow> alive s d" for d using assms(1) by (auto simp: tree_ok_def)
  show ?thesis
    using assms(2) r resolve_alive [OF assms(1), of "root s"]
    by (auto simp: find_inode_def walk_resolve [OF assms(1)] split: if_splits)
qed

section \<open>Creating refines an update of the tree\<close>

lemma alloc_inode_SomeD:
  assumes "tree_ok s" and "alloc_inode name type perm s = (Some p, s')"
  shows "p = h_ptr (r_heap s) \<and> heap_ok (r_heap s') \<and> (\<forall>q. alive s q \<longrightarrow> alive s' q) \<and> alive s' p
    \<and> \<not> alive s p \<and> h_mem (r_heap s') = h_mem (r_heap s) \<and> root s' = root s
    \<and> inodes s' = (inodes s)(p := zero_inode\<lparr>i_id := next_inode_id s,
         i_name := take 255 name, i_type := type, i_permissions := perm\<rparr>)"
proof -
  obtain h where m: "malloc SIZEOF_INODE (r_heap s) = (Some p, h)"
      and s': "s' = s\<lparr>r_heap := h, next_inode_id := next_inode_id s + 1,
        inodes := (inodes s)(p := zero_inode\<lparr>i_id := next_inode_id s,
         i_name := take 255 name, i_type := type, i_permissions := perm\<rparr>)\<rparr>"
    using assms(2) by (auto simp: alloc_inode_def ramfs_consts Let_def split: prod.splits option.splits)
  have "heap_ok (r_heap s)" "size_ok SIZEOF_INODE"
    using assms(1) by (simp_all add: tree_ok_def size_ok_def SIZEOF_INODE_def)
  note mm = malloc_SomeD [OF this m]
  then have "unat (h_ptr (r_heap s)) < unat (h_ptr h)" by (auto simp: SIZEOF_INODE_def)
  then have "h_ptr (r_heap s) < h_ptr h" by (simp add: word_less_nat_alt)
  with mm s' show ?thesis by (auto simp: alive_def)
qed

text \<open>The children of one directory as the invariant wants them.\<close>

abbreviation row_ok :: "ramfs \<Rightarrow> inode_ptr \<Rightarrow> inode_ptr list \<Rightarrow> bool" where
  "row_ok s p xs \<equiv> kids s p xs \<and> distinct xs
     \<and> (\<forall>x \<in> set xs. alive s x \<and> i_parent (inodes s x) = Some p \<and> p < x)"

lemma tree_rows:
  assumes "heap_ok (r_heap s)" and "\<exists>r. root s = Some r \<and> alive s r \<and> i_parent (inodes s r) = None"
    and "\<And>r. \<exists>xs. row_ok s r xs \<and> dir_map s r = m r"
  shows "tree_ok s" and "dir_map s = m"
  using assms(1,2) assms(3) by (meson tree_ok_def) (use assms(3) in blast)

lemma row_keeps:
  assumes "kids s' r xs" and "row_ok s r xs"
    and "\<And>x. x \<in> set xs \<Longrightarrow> i_name (inodes s' x) = i_name (inodes s x) \<and> i_parent (inodes s' x) = i_parent (inodes s x)"
    and "\<And>x. alive s x \<Longrightarrow> alive s' x"
  shows "row_ok s' r xs \<and> dir_map s' r = dir_map s r"
proof -
  have "find (\<lambda>x. i_name (inodes s' x) = t) xs = find (\<lambda>x. i_name (inodes s x) = t) xs" for t
    by (rule find_cong) (simp_all add: assms(3))
  then have "dir_map s' r t = dir_map s r t" for t
    using dir_map_kids [OF assms(1)] dir_map_kids [of s r xs] assms(2) by simp
  with assms show ?thesis by auto
qed

text \<open>
  Linking a fresh node below \<open>q\<close>: the map of \<open>q\<close> gains the name, the new node is empty, the
  rest of the tree is as before.
\<close>

lemma link_fresh:
  assumes ok: "tree_ok s" and q: "alive s q" and p: "\<not> alive s p"
    and ino: "inodes s' = (inodes s)(p := node\<lparr>i_parent := Some q, i_next := i_children (inodes s q)\<rparr>,
        q := (inodes s q)\<lparr>i_children := Some p\<rparr>)"
    and node: "i_children node = None"
    and root: "root s' = root s" and heap: "heap_ok (r_heap s')"
    and mono: "\<And>x. alive s x \<Longrightarrow> alive s' x" and p': "alive s' p"
  shows "tree_ok s'"
    and "dir_map s' = (dir_map s)(p := (\<lambda>_. None), q := (dir_map s q)(i_name node \<mapsto> p))" (is "_ = ?m")
proof -
  have less: "q < p" using p q by (auto simp: alive_def)
  then have pq: "p \<noteq> q" by auto
  have rows: "\<exists>xs. row_ok s' r xs \<and> dir_map s' r = ?m r" for r
  proof -
    obtain xs where xs: "row_ok s r xs" using tree_okE [OF ok, of r] by metis
    then have px: "p \<notin> set xs" using p by auto
    have nx: "i_next (inodes s' x) = i_next (inodes s x) \<and> i_name (inodes s' x) = i_name (inodes s x)
        \<and> i_parent (inodes s' x) = i_parent (inodes s x)" if "x \<in> set xs" for x
      using that px by (auto simp: ino)
    have ch: "chain (inodes s') c xs = chain (inodes s) c xs" for c
      by (rule chain_cong) (simp add: nx)
    have nm: "find (\<lambda>x. i_name (inodes s' x) = t) xs = find (\<lambda>x. i_name (inodes s x) = t) xs" for t
      by (rule find_cong) (simp_all add: nx)
    consider "r = q" | "r = p" | "r \<noteq> q" "r \<noteq> p" by blast
    then show ?thesis
    proof cases
      case 1
      have k: "kids s' q (p # xs)" using xs 1 ch pq by (simp add: kids_def ino)
      have "row_ok s' q (p # xs)" using k xs px nx mono p' pq 1 less by (auto simp: ino)
      moreover have "dir_map s' q t = ((dir_map s q)(i_name node \<mapsto> p)) t" for t
        using nm pq xs 1 dir_map_kids [of s q xs] by (simp add: dir_map_kids [OF k] ino)
      ultimately show ?thesis using 1 by (intro exI [of _ "p # xs"]) auto
    next
      case 2
      have "row_ok s' p []" using pq node by (simp add: kids_def ino)
      then show ?thesis using 2 pq by (intro exI [of _ "[]"]) (auto simp: dir_map_kids)
    next
      case 3
      then have "kids s' r xs" using xs ch by (simp add: kids_def ino)
      from row_keeps [OF this xs] nx mono 3 show ?thesis by auto
    qed
  qed
  have top: "\<exists>r. root s' = Some r \<and> alive s' r \<and> i_parent (inodes s' r) = None"
    using ok mono p by (auto simp: tree_ok_def root ino)
  show "tree_ok s'" by (rule tree_rows(1) [OF heap top rows])
  show "dir_map s' = ?m" by (rule tree_rows(2) [OF heap top rows])
qed

lemma create_node_refines:
  assumes ok: "tree_ok s" and split: "split_path path = Some (pp, name)"
    and find: "find_inode s pp = Some (Some q)" and dir: "parent_ok (inodes s q)"
    and r: "create_node parent_ok type fill count path perm s = Some (Some p, s')"
    and fill: "\<And>n. i_children (fill n) = i_children n \<and> i_name (fill n) = i_name n"
    and count: "\<And>t. inodes (count t) = inodes t \<and> root (count t) = root t \<and> r_heap (count t) = r_heap t"
  shows "tree_ok s'" and "\<not> alive s p" and "alive s' p"
    and "dir_map s' = (dir_map s)(p := (\<lambda>_. None), q := (dir_map s q)(take 255 name \<mapsto> p))"
proof -
  obtain t where a: "alloc_inode name type perm s = (Some p, t)"
      and s': "s' = count (add_child q p (upd_inode p fill t))"
    using r split find dir by (auto simp: create_node_def split: prod.splits option.splits)
  note al = alloc_inode_SomeD [OF ok a]
  have q: "alive s q" by (rule find_inode_alive [OF ok find])
  with al have pq: "p \<noteq> q" by auto
  define node where "node = fill (zero_inode\<lparr>i_id := next_inode_id s,
      i_name := take 255 name, i_type := type, i_permissions := perm\<rparr>)"
  have "inodes s' = (inodes s)(p := node\<lparr>i_parent := Some q, i_next := i_children (inodes s q)\<rparr>,
        q := (inodes s q)\<lparr>i_children := Some p\<rparr>)"
    using al pq by (auto simp: s' count add_child_def upd_inode_def Let_def node_def)
  moreover have "i_children node = None" "i_name node = take 255 name"
    by (simp_all add: node_def fill zero_inode_def)
  moreover have "root s' = root s" "r_heap s' = r_heap t"
    using al by (simp_all add: s' count add_child_def upd_inode_def Let_def)
  moreover from this have "alive s' x = alive t x" for x by (simp add: alive_def)
  ultimately show "tree_ok s'" "dir_map s' = (dir_map s)(p := (\<lambda>_. None), q := (dir_map s q)(take 255 name \<mapsto> p))"
      "\<not> alive s p" "alive s' p"
    using link_fresh [OF ok q, of p s' node] al by auto
qed

section \<open>Paths through the tree\<close>

lemma dir_map_dead: "tree_ok s \<Longrightarrow> \<not> alive s p \<Longrightarrow> dir_map s p t = None"
  by (cases "dir_map s p t") (auto dest!: dir_map_alive simp: alive_def)

lemma resolve_mono:
  "(\<And>d t x. m d t = Some x \<Longrightarrow> m' d t = Some x) \<Longrightarrow> resolve m c ts = Some r \<Longrightarrow> resolve m' c ts = Some r"
proof (induction ts arbitrary: c)
  case (Cons t ts)
  then obtain d where "c = Some d" by (cases c) auto
  moreover from this Cons.prems obtain x where "m d t = Some x" by (cases "m d t") auto
  ultimately show ?case using Cons by auto
qed simp

text \<open>A path never comes back to an inode, since children are younger than their parents.\<close>

lemma resolve_same:
  assumes inc: "\<And>d t x. m d t = Some x \<Longrightarrow> d < x"
    and same: "\<And>d. d < q \<Longrightarrow> m' d = m d"
    and r: "resolve m (Some c) ts = Some q"
  shows "resolve m' (Some c) ts = Some q \<and> c \<le> q"
  using r
proof (induction ts arbitrary: c)
  case (Cons t ts)
  then obtain x where x: "m c t = Some x" by (cases "m c t") auto
  with Cons have "resolve m' (Some x) ts = Some q \<and> x \<le> q" by auto
  moreover from this inc [OF x] have "c < q" by (meson less_le_trans)
  ultimately show ?case using x same by auto
qed simp

lemma resolve_append: "resolve m c (ts @ us) = resolve m (resolve m c ts) us"
  by (induction m c ts rule: resolve.induct) auto


lemma last_slash_cases:
  obtains (none) "last_slash path = None" and "CHR ''/'' \<notin> set path"
  | (some) i where "last_slash path = Some i" and "i < length path" and "path ! i = CHR ''/''"
      and "CHR ''/'' \<notin> set (drop (i + 1) path)"
proof (cases "first_index (\<lambda>k. path ! (length path - 1 - k) = CHR ''/'') (length path)")
  case None
  then have no: "path ! (length path - 1 - k) \<noteq> CHR ''/''" if "k < length path" for k
    using that by (simp add: first_index_None_iff)
  have "CHR ''/'' \<notin> set path"
  proof
    assume "CHR ''/'' \<in> set path"
    then obtain j where "j < length path" "path ! j = CHR ''/''" by (auto simp: in_set_conv_nth)
    moreover from this have "length path - 1 - j < length path" by linarith
    ultimately show False using no [of "length path - 1 - j"] by simp
  qed
  with None show thesis by (intro none) (simp_all add: last_slash_def)
next
  case (Some k)
  note k = first_index_SomeD [OF Some]
  show thesis
  proof (rule some)
    show "last_slash path = Some (length path - 1 - k)" using Some by (simp add: last_slash_def)
    show "length path - 1 - k < length path" using k by linarith
    show "path ! (length path - 1 - k) = CHR ''/''" using k by simp
    show "CHR ''/'' \<notin> set (drop (length path - 1 - k + 1) path)"
    proof
      assume "CHR ''/'' \<in> set (drop (length path - 1 - k + 1) path)"
      then obtain j where j: "j < length path - (length path - 1 - k + 1)"
          "path ! (length path - 1 - k + 1 + j) = CHR ''/''"
        by (auto simp: in_set_conv_nth)
      with k have "length path - 1 - (k - 1 - j) = length path - 1 - k + 1 + j" "k - 1 - j < k"
        by auto
      with k j show False by metis
    qed
  qed
qed

lemma split_path_tokens:
  assumes "split_path path = Some (pp, name)" and "name \<noteq> []"
  shows "path_tokens path = path_tokens pp @ [name] \<and> length name \<le> 255 \<and> length pp \<le> length path"
proof -
  let ?P = "\<lambda>c. c = CHR ''/''"
  have ln: "length name \<le> 255"
    using assms(1) by (auto simp: split_path_def Let_def ramfs_consts split: option.splits if_splits)
  show ?thesis
  proof (cases path rule: last_slash_cases)
    case none
    then have "pp = ''/''" "name = path"
      using assms(1) by (auto simp: split_path_def Let_def split: if_splits)
    moreover have "CString.fields ?P name = [name]"
      by (rule fields_no_delim) (use none assms(2) \<open>name = path\<close> in auto)
    ultimately show ?thesis using ln assms(2) by (cases path) (auto simp: path_tokens_def)
  next
    case (some i)
    then have n: "name = drop (i + 1) path" and pp: "pp = (if i = 0 then ''/'' else take i path)"
      using assms(1) by (auto simp: split_path_def Let_def split: if_splits)
    have path: "path = take i path @ CHR ''/'' # name"
      using id_take_nth_drop [OF some(2)] some(3) n by simp
    have "CString.fields ?P path = CString.fields ?P (take i path) @ CString.fields ?P name"
      by (subst path) (rule fields_split, simp)
    moreover have "CString.fields ?P name = [name]"
      by (rule fields_no_delim) (use some(4) n assms(2) in auto)
    moreover have "CString.fields ?P (take i path) = CString.fields ?P pp" using pp by simp
    ultimately show ?thesis using ln some(2) pp by (simp add: path_tokens_def)
  qed
qed

section \<open>Creating, finding and deleting\<close>

lemma create_node_SomeE:
  assumes "create_node parent_ok type fill count path perm s = Some (Some p, s')"
  obtains pp name q where "split_path path = Some (pp, name)" and "find_inode s pp = Some (Some q)"
    and "parent_ok (inodes s q)"
  using assms unfolding create_node_def
  by (auto split: option.splits prod.splits if_splits)

lemma find_after_create:
  assumes ok: "tree_ok s" and split: "split_path path = Some (pp, name)" and n: "name \<noteq> []"
    and len: "length path < 1023" and find: "find_inode s pp = Some (Some q)"
    and ok': "tree_ok s'" and root: "root s' = root s" and p: "\<not> alive s p"
    and m: "dir_map s' = (dir_map s)(p := (\<lambda>_. None), q := (dir_map s q)(take 255 name \<mapsto> p))"
  shows "find_inode s' path = Some (Some p)"
    and "find_inode s path = Some (dir_map s q name)"
proof -
  note t = split_path_tokens [OF split n]
  have q: "alive s q" by (rule find_inode_alive [OF ok find])
  obtain r where r: "root s = Some r" using ok by (auto simp: tree_ok_def)
  have rs: "resolve (dir_map s) (Some r) (path_tokens pp) = Some q"
    using find find_inode_resolve [OF ok, of pp] len t r by simp
  have "resolve (dir_map s') (Some r) (path_tokens pp) = Some q \<and> r \<le> q"
  proof (rule resolve_same [OF _ _ rs])
    show "d < x" if "dir_map s d t = Some x" for d t x using dir_map_alive [OF ok that] by simp
    show "dir_map s' d = dir_map s d" if "d < q" for d
      using that p q by (auto simp: m alive_def)
  qed
  then have rs': "resolve (dir_map s') (Some r) (path_tokens pp) = Some q" ..
  have q_map: "dir_map s' q name = Some p" using t by (simp add: m)
  show "find_inode s' path = Some (Some p)"
    using find_inode_resolve [OF ok' len] t by (simp add: resolve_append root r rs' q_map)
  show "find_inode s path = Some (dir_map s q name)"
    using find_inode_resolve [OF ok len] t by (simp add: resolve_append r rs)
qed

lemma create_node_root:
  assumes "tree_ok s" and "create_node parent_ok type fill count path perm s = Some (Some p, s')"
    and "\<And>t. root (count t) = root t"
  shows "root s' = root s"
  using assms(2,3)
  by (auto simp: create_node_def add_child_def upd_inode_def Let_def
      split: option.splits prod.splits if_splits dest: alloc_inode_SomeD [OF assms(1)])

text \<open>What a creation that succeeds has done, in one place.\<close>

lemma create_node_made:
  assumes ok: "tree_ok s" and len: "length path < 1023"
    and split: "split_path path = Some (pp, name)" and n: "name \<noteq> []"
    and c: "create_node parent_ok type fill count path perm s = Some (Some p, s')"
    and fill: "\<And>n. i_children (fill n) = i_children n \<and> i_name (fill n) = i_name n"
    and count: "\<And>t. inodes (count t) = inodes t \<and> root (count t) = root t \<and> r_heap (count t) = r_heap t"
  obtains q t where "find_inode s pp = Some (Some q)" and "parent_ok (inodes s q)" and "alive s q" and "p \<noteq> q"
    and "tree_ok s'" and "\<not> alive s p" and "alive s' p" and "root s' = root s"
    and "dir_map s' = (dir_map s)(p := (\<lambda>_. None), q := (dir_map s q)(take 255 name \<mapsto> p))"
    and "find_inode s' path = Some (Some p)" and "find_inode s path = Some (dir_map s q name)"
    and "inodes s' = (inodes s)(p := (fill (zero_inode\<lparr>i_id := next_inode_id s, i_name := take 255 name,
           i_type := type, i_permissions := perm\<rparr>))\<lparr>i_parent := Some q, i_next := i_children (inodes s q)\<rparr>,
         q := (inodes s q)\<lparr>i_children := Some p\<rparr>)"
    and "malloc SIZEOF_INODE (r_heap s) = (Some p, r_heap s')"
    and "s' = count t" and "file_count t = file_count s"
proof -
  from create_node_SomeE [OF c] obtain q where f: "find_inode s pp = Some (Some q)"
      and q: "parent_ok (inodes s q)" using split by auto
  note cr = create_node_refines [OF ok split f q c fill count]
  have root: "root s' = root s" by (rule create_node_root [OF ok c]) (simp add: count)
  note fa = find_after_create [OF ok split n len f cr(1) root cr(2,4)]
  obtain t where a: "alloc_inode name type perm s = (Some p, t)"
      and s': "s' = count (add_child q p (upd_inode p fill t))"
    using c q unfolding create_node_def split option.case prod.case f
    by (cases "alloc_inode name type perm s") (auto split: option.splits)
  note al = alloc_inode_SomeD [OF ok a]
  have qa: "alive s q" by (rule find_inode_alive [OF ok f])
  have pq: "p \<noteq> q" using cr(2) qa by auto
  have ino: "inodes s' = (inodes s)(p := (fill (zero_inode\<lparr>i_id := next_inode_id s, i_name := take 255 name,
           i_type := type, i_permissions := perm\<rparr>))\<lparr>i_parent := Some q, i_next := i_children (inodes s q)\<rparr>,
         q := (inodes s q)\<lparr>i_children := Some p\<rparr>)"
    using al pq by (auto simp: s' count add_child_def upd_inode_def Let_def)
  have fc: "file_count (add_child q p (upd_inode p fill t)) = file_count s"
    and heap: "malloc SIZEOF_INODE (r_heap s) = (Some p, r_heap s')"
    using a by (auto simp: s' count add_child_def upd_inode_def alloc_inode_def Let_def split: prod.splits option.splits)
  show thesis by (rule that [OF f q qa pq cr(1-3) root cr(4) fa ino heap s' fc])
qed

lemma find_prev_chain:
  "chain ino c xs \<Longrightarrow> node \<in> set xs \<Longrightarrow> distinct xs \<Longrightarrow> c \<noteq> Some node \<Longrightarrow>
   \<exists>ys prev zs. xs = ys @ prev # node # zs \<and> find_prev ino node c = Some (Some prev)"
proof (induction xs arbitrary: c)
  case (Cons x xs)
  then have c: "c = Some x" "x \<noteq> node" "chain ino (i_next (ino x)) xs" by auto
  show ?case
  proof (cases "i_next (ino x) = Some node")
    case True
    then obtain zs where "xs = node # zs" using c(3) by (cases xs) auto
    then show ?thesis using c True by (intro exI [of _ "[]"]) (simp add: find_prev.simps)
  next
    case False
    then obtain ys prev zs where "xs = ys @ prev # node # zs"
        "find_prev ino node (i_next (ino x)) = Some (Some prev)"
      using Cons.IH [OF c(3)] Cons.prems c by auto
    then show ?thesis
      using c False by (intro exI [of _ "x # ys"]) (simp add: find_prev.simps)
  qed
qed simp

lemma chain_remove:
  "chain ino c (ys @ prev # node # zs) \<Longrightarrow> distinct (ys @ prev # node # zs) \<Longrightarrow>
   chain (ino(prev := (ino prev)\<lparr>i_next := i_next (ino node)\<rparr>)) c (ys @ prev # zs)"
proof (induction ys arbitrary: c)
  case Nil
  then have "chain (ino(prev := (ino prev)\<lparr>i_next := i_next (ino node)\<rparr>)) (i_next (ino node)) zs"
    by (subst chain_cong [where ino = ino]) auto
  with Nil show ?case by (auto simp del: fun_upd_apply) (simp add: fun_upd_same)
qed auto

text \<open>What unlinking a child does: the list of its parent loses it, all others stay.\<close>

lemma unlink_node_kids:
  assumes ok: "tree_ok s" and k: "kids s q xs" "distinct xs" "node \<in> set xs" "q \<noteq> node"
  shows "\<exists>s'. unlink_node q node s = Some s' \<and> kids s' q (remove1 node xs)
    \<and> (\<forall>r ys. r \<noteq> q \<longrightarrow> kids s r ys \<longrightarrow> kids s' r ys)
    \<and> (\<forall>x. i_name (inodes s' x) = i_name (inodes s x) \<and> i_parent (inodes s' x) = i_parent (inodes s x)
         \<and> i_data (inodes s' x) = i_data (inodes s x) \<and> i_data_size (inodes s' x) = i_data_size (inodes s x)
         \<and> i_type (inodes s' x) = i_type (inodes s x))
    \<and> r_heap s' = r_heap s \<and> root s' = root s \<and> used_size s' = used_size s
    \<and> file_count s' = file_count s \<and> dir_count s' = dir_count s"
proof (cases "i_children (inodes s q) = Some node")
  case True
  then obtain zs where zs: "xs = node # zs" using k by (cases xs) (auto simp: kids_def)
  have ch: "chain ((inodes s)(q := (inodes s q)\<lparr>i_children := i_next (inodes s node)\<rparr>)) c ys
      = chain (inodes s) c ys" for c ys
    by (rule chain_cong) auto
  show ?thesis
    using True k zs by (auto simp: unlink_node_def upd_inode_def kids_def ch)
next
  case False
  obtain ys prev zs where xs: "xs = ys @ prev # node # zs"
      and fp: "find_prev (inodes s) node (i_children (inodes s q)) = Some (Some prev)"
    using find_prev_chain [of "inodes s" "i_children (inodes s q)" xs node] k False
    by (auto simp: kids_def)
  let ?ino = "(inodes s)(prev := (inodes s prev)\<lparr>i_next := i_next (inodes s node)\<rparr>)"
  have par: "i_parent (inodes s prev) = Some q"
    using tree_okE [OF ok, of q] k(1) xs chain_unique unfolding kids_def
    by (metis in_set_conv_decomp)
  have "chain ?ino (i_children (inodes s q)) (ys @ prev # zs)"
    using k xs by (intro chain_remove) (auto simp: kids_def)
  moreover have "i_children (?ino r) = i_children (inodes s r)" for r by simp
  moreover have "remove1 node xs = ys @ prev # zs"
    using k(2) xs by (simp add: remove1_append)
  moreover have "chain ?ino (i_children (inodes s r)) us"
    if r: "r \<noteq> q" and us: "chain (inodes s) (i_children (inodes s r)) us" for r us
  proof -
    have "prev \<notin> set us"
      using tree_okE [OF ok, of r] us par r chain_unique unfolding kids_def
      by (metis option.inject)
    then show ?thesis using us by (subst chain_cong [where ino = "inodes s"]) auto
  qed
  ultimately show ?thesis
    using False fp by (auto simp: unlink_node_def upd_inode_def kids_def)
qed

lemma resolve_last:
  "resolve m (Some c) ts = Some x \<Longrightarrow> (ts = [] \<and> x = c) \<or> (\<exists>d t. m d t = Some x)"
proof (induction ts arbitrary: c)
  case (Cons t ts)
  then obtain d where "m c t = Some d" by (cases "m c t") auto
  with Cons show ?case by fastforce
qed simp

text \<open>A node with a parent that some path leads to is in the parent's list.\<close>

lemma found_in_kids:
  assumes ok: "tree_ok s" and f: "find_inode s path = Some (Some x)" and p: "i_parent (inodes s x) = Some q"
    and k: "kids s q xs"
  shows "x \<in> set xs \<and> q < x \<and> alive s x"
proof -
  obtain r where r: "root s = Some r" "i_parent (inodes s r) = None"
    using ok by (auto simp: tree_ok_def)
  then have "x \<noteq> r" using p by auto
  then obtain d t where d: "dir_map s d t = Some x"
    using f r resolve_last [of "dir_map s" r]
    by (fastforce simp: find_inode_def walk_resolve [OF ok] split: if_splits)
  note a = dir_map_alive [OF ok d]
  with p have "d = q" by simp
  with d k have "x \<in> set xs" by (auto simp: dir_map_kids find_Some_iff)
  with a \<open>d = q\<close> show ?thesis by blast
qed

lemma delete_refines:
  assumes ok: "tree_ok s" and f: "find_inode s path = Some (Some x)"
    and p: "i_parent (inodes s x) = Some q" and k: "kids s q xs"
  shows "\<exists>s'. ramfs_delete path s = Some (True, s') \<and> tree_ok s'
    \<and> dir_map s' = (dir_map s)(q := (\<lambda>t. find (\<lambda>y. i_name (inodes s y) = t) (remove1 x xs)))
    \<and> file_count s' = (if i_type (inodes s x) = RAMFS_TYPE_FILE then file_count s - 1 else file_count s)
    \<and> used_size s' = (if i_data (inodes s x) = None then used_size s
                        else used_size s - i_data_size (inodes s x))"
proof -
  have d: "distinct xs"
    using tree_okE [OF ok, of q] k chain_unique unfolding kids_def by metis
  note in_kids = found_in_kids [OF ok f p k]
  then have "q \<noteq> x" by auto
  obtain s1 where u: "unlink_node q x s = Some s1" and k1: "kids s1 q (remove1 x xs)"
      and other: "\<And>r ys. r \<noteq> q \<Longrightarrow> kids s r ys \<Longrightarrow> kids s1 r ys"
      and f1: "\<And>x. i_name (inodes s1 x) = i_name (inodes s x)" "\<And>x. i_parent (inodes s1 x) = i_parent (inodes s x)"
        "\<And>x. i_data (inodes s1 x) = i_data (inodes s x)" "\<And>x. i_data_size (inodes s1 x) = i_data_size (inodes s x)"
        "\<And>x. i_type (inodes s1 x) = i_type (inodes s x)"
      and e: "r_heap s1 = r_heap s" "root s1 = root s" "used_size s1 = used_size s"
        "file_count s1 = file_count s" "dir_count s1 = dir_count s"
    using unlink_node_kids [OF ok k d conjunct1 [OF in_kids] \<open>q \<noteq> x\<close>] by blast
  obtain s' where s': "ramfs_delete path s = Some (True, s')" and same: "inodes s' = inodes s1"
      "root s' = root s" "r_heap s' = r_heap s"
      "file_count s' = (if i_type (inodes s x) = RAMFS_TYPE_FILE then file_count s - 1 else file_count s)"
      "used_size s' = (if i_data (inodes s x) = None then used_size s else used_size s - i_data_size (inodes s x))"
    using f p u f1 e by (simp add: ramfs_delete_def Let_def free_def)
  have kids': "kids s' r ys = kids s1 r ys" for r ys by (simp add: kids_def same)
  have al: "alive s' y = alive s y" for y by (simp add: alive_def same)
  let ?m = "(dir_map s)(q := (\<lambda>t. find (\<lambda>y. i_name (inodes s y) = t) (remove1 x xs)))"
  have rows: "\<exists>ys. row_ok s' r ys \<and> dir_map s' r = ?m r" for r
  proof -
    obtain zs where zs: "row_ok s r zs" using tree_okE [OF ok, of r] by metis
    show ?thesis
    proof (cases "r = q")
      case True
      then have "zs = xs" using k zs chain_unique unfolding kids_def by metis
      have kq: "kids s' q (remove1 x xs)" using k1 by (simp add: kids')
      have "y \<in> set (remove1 x xs) \<Longrightarrow> y \<in> set zs" for y
        using \<open>zs = xs\<close> set_remove1_subset by fastforce
      with zs have all: "\<forall>y \<in> set (remove1 x xs). alive s' y \<and> i_parent (inodes s' y) = Some q \<and> q < y"
        using True by (simp add: al same f1)
      have "dir_map s' q t = find (\<lambda>y. i_name (inodes s y) = t) (remove1 x xs)" for t
        by (simp add: dir_map_kids [OF kq] same f1)
      with kq all d True show ?thesis by (intro exI [of _ "remove1 x xs"]) auto
    next
      case False
      then have "kids s' r zs" using other zs by (simp add: kids')
      from row_keeps [OF this zs] False show ?thesis by (auto simp: al same f1)
    qed
  qed
  have top: "\<exists>r. root s' = Some r \<and> alive s' r \<and> i_parent (inodes s' r) = None"
    using ok by (auto simp: tree_ok_def same al f1)
  have heap: "heap_ok (r_heap s')" using ok by (simp add: tree_ok_def same)
  from tree_rows(1) [OF heap top rows] tree_rows(2) [OF heap top rows]
  show ?thesis using s' same by blast
qed

section \<open>File contents\<close>

definition content :: "ramfs \<Rightarrow> inode_ptr \<Rightarrow> u8 list" where
  "content s p =
     (case i_data (inodes s p) of None \<Rightarrow> []
      | Some d \<Rightarrow> load_bytes (unat d) (unat (i_size (inodes s p))) (h_mem (r_heap s)))"

definition splice :: "nat \<Rightarrow> 'a list \<Rightarrow> 'a list \<Rightarrow> 'a list" where
  "splice pos xs c = take pos c @ xs @ drop (pos + length xs) c"

definition data_range :: "ramfs_inode \<Rightarrow> nat set" where
  "data_range n = (case i_data n of None \<Rightarrow> {} | Some d \<Rightarrow> {unat d ..< unat d + unat (i_data_size n)})"

definition data_ok :: "ramfs \<Rightarrow> bool" where
  "data_ok s \<longleftrightarrow> heap_ok (r_heap s)
     \<and> (\<forall>p. i_size (inodes s p) \<le> i_data_size (inodes s p)
          \<and> (i_data (inodes s p) = None \<longrightarrow> i_data_size (inodes s p) = 0)
          \<and> data_range (inodes s p) \<subseteq> {..< unat (h_ptr (r_heap s))})
     \<and> (\<forall>p q. p \<noteq> q \<longrightarrow> data_range (inodes s p) \<inter> data_range (inodes s q) = {})"

lemma range_below: "{a ..< b} \<subseteq> {..< c} \<longleftrightarrow> b \<le> a \<or> b \<le> (c :: nat)"
proof
  assume s: "{a ..< b} \<subseteq> {..< c}"
  show "b \<le> a \<or> b \<le> c"
  proof (rule disjCI)
    assume "\<not> b \<le> c"
    show "b \<le> a"
    proof (rule ccontr)
      assume "\<not> b \<le> a"
      then have "b - 1 \<in> {a ..< b}" by auto
      with s have "b - 1 < c" by blast
      with \<open>\<not> b \<le> c\<close> show False by simp
    qed
  qed
qed auto

lemma length_content: "data_ok s \<Longrightarrow> length (content s p) = unat (i_size (inodes s p))"
  by (auto simp: content_def data_ok_def split: option.splits) (metis unat_eq_zero word_le_0_iff)

lemma splice_nth:
  "i < max (length c) (pos + length xs) \<Longrightarrow> pos \<le> length c \<Longrightarrow>
   splice pos xs c ! i = (if i < pos then c ! i else if i < pos + length xs then xs ! (i - pos) else c ! i)"
  by (auto simp: splice_def nth_append min_def)

lemma length_splice: "pos \<le> length c \<Longrightarrow> length (splice pos xs c) = max (length c) (pos + length xs)"
  by (auto simp: splice_def)

lemma load_store_splice:
  assumes "pos \<le> n"
  shows "load_bytes d (max n (pos + length xs)) (store_bytes (d + pos) xs m)
         = splice pos xs (load_bytes d n m)"
proof (rule nth_equalityI)
  fix i
  assume "i < length (load_bytes d (max n (pos + length xs)) (store_bytes (d + pos) xs m))"
  then have i: "i < max n (pos + length xs)" by simp
  show "load_bytes d (max n (pos + length xs)) (store_bytes (d + pos) xs m) ! i
      = splice pos xs (load_bytes d n m) ! i"
    using assms i by (auto simp: splice_nth store_bytes_apply)
qed (simp add: assms length_splice)

lemma content_other:
  assumes "data_ok s" and "inodes s' q = inodes s q"
    and "\<And>k. k \<in> data_range (inodes s q) \<Longrightarrow> h_mem (r_heap s') k = h_mem (r_heap s) k"
  shows "content s' q = content s q"
proof (cases "i_data (inodes s q)")
  case (Some d)
  have "unat (i_size (inodes s q)) \<le> unat (i_data_size (inodes s q))"
    using assms(1) by (simp add: data_ok_def word_le_nat_alt)
  with Some assms(2,3) show ?thesis
    by (auto simp: content_def data_range_def intro!: load_bytes_cong)
qed (simp add: content_def assms)

text \<open>The growing step of a write: the new block holds the old contents.\<close>

lemma grow_block_ok:
  assumes ok: "data_ok s" and sz: "size_ok n" and big: "i_data_size (inodes s p) < n"
    and r: "realloc (i_data (inodes s p)) n (r_heap s) = (Some d, h)"
    and s': "inodes s' = (inodes s)(p := (inodes s p)\<lparr>i_data := Some d, i_data_size := n\<rparr>)" "r_heap s' = h"
  shows "data_ok s'"
proof -
  have "heap_ok (r_heap s)" using ok by (simp add: data_ok_def)
  note re = realloc_SomeD [OF this sz r]
  have below: "data_range (inodes s q) \<subseteq> {..< unat d}" for q
    using ok re by (simp add: data_ok_def)
  have fresh: "data_range (inodes s' p) = {unat d ..< unat d + unat n}"
    by (simp add: data_range_def s')
  have same: "q \<noteq> p \<Longrightarrow> data_range (inodes s' q) = data_range (inodes s q)" for q
    by (simp add: s')
  have up: "unat d + unat n \<le> unat (h_ptr h)" using re by blast
  have "i_size (inodes s' q) \<le> i_data_size (inodes s' q)
      \<and> (i_data (inodes s' q) = None \<longrightarrow> i_data_size (inodes s' q) = 0)
      \<and> data_range (inodes s' q) \<subseteq> {..< unat (h_ptr h)}" for q
  proof (cases "q = p")
    case True
    have "i_size (inodes s p) \<le> n"
      using ok big by (meson data_ok_def less_imp_le order_trans)
    then show ?thesis using True fresh up by (auto simp: s')
  next
    case False
    with ok below [of q] up show ?thesis by (fastforce simp: data_ok_def s' data_range_def)
  qed
  moreover have "data_range (inodes s' a) \<inter> data_range (inodes s' b) = {}" if "a \<noteq> b" for a b
  proof (cases "a = p \<or> b = p")
    case True
    then show ?thesis using that below [of a] below [of b] fresh same by fastforce
  next
    case False
    then show ?thesis using that ok same by (simp add: data_ok_def)
  qed
  ultimately show ?thesis using re by (simp add: data_ok_def s')
qed

lemma grow_block_content:
  assumes ok: "data_ok s" and sz: "size_ok n" and big: "i_data_size (inodes s p) < n"
    and r: "realloc (i_data (inodes s p)) n (r_heap s) = (Some d, h)"
    and s': "inodes s' = (inodes s)(p := (inodes s p)\<lparr>i_data := Some d, i_data_size := n\<rparr>)" "r_heap s' = h"
  shows "content s' q = content s q"
proof (cases "q = p")
  case False
  have "heap_ok (r_heap s)" using ok by (simp add: data_ok_def)
  note re = realloc_SomeD [OF this sz r]
  have "data_range (inodes s q) \<subseteq> {..< unat d}" using ok re by (simp add: data_ok_def)
  with re False show ?thesis by (intro content_other [OF ok]) (auto simp: s')
next
  case True
  have le: "unat (i_size (inodes s p)) \<le> unat (i_data_size (inodes s p))"
    using ok by (simp add: data_ok_def word_le_nat_alt)
  show ?thesis
  proof (cases "i_data (inodes s p)")
    case None
    then have "i_size (inodes s p) = 0"
      using le ok by (simp add: data_ok_def) (metis unat_0 le_zero_eq unat_eq_zero)
    with None True show ?thesis by (simp add: content_def s' load_bytes_def)
  next
    case (Some e)
    have "data_range (inodes s p) \<subseteq> {..< unat (h_ptr (r_heap s))}" using ok by (simp add: data_ok_def)
    then have "i_size (inodes s p) = 0 \<or> unat e + unat (i_size (inodes s p)) \<le> unat (h_ptr (r_heap s))"
      using le Some
      by (cases "unat (i_size (inodes s p)) = 0") (auto simp: data_range_def range_below unat_eq_zero)
    moreover have "unat (i_size (inodes s p)) \<le> unat n" using le big by (simp add: word_less_nat_alt)
    moreover have "heap_ok (r_heap s)" using ok by (simp add: data_ok_def)
    ultimately show ?thesis
      using realloc_contents [OF _ sz, of _ e d h "unat (i_size (inodes s p))"] r Some True
      by (auto simp: content_def s' load_bytes_def)
  qed
qed

text \<open>The storing step, inside the block.\<close>

lemma store_block:
  assumes ok: "data_ok s" and d: "i_data (inodes s p) = Some d"
    and fits: "unat pos + length buf \<le> unat (i_data_size (inodes s p))"
    and pos: "unat pos \<le> unat (i_size (inodes s p))"
    and s': "inodes s' = (inodes s)(p := (inodes s p)\<lparr>i_size := new\<rparr>)"
      "r_heap s' = (r_heap s)\<lparr>h_mem := store_bytes (unat d + unat pos) buf (h_mem (r_heap s))\<rparr>"
    and new: "unat new = max (unat (i_size (inodes s p))) (unat pos + length buf)"
  shows "data_ok s'" and "content s' p = splice (unat pos) buf (content s p)"
    and "q \<noteq> p \<Longrightarrow> content s' q = content s q"
proof -
  have "unat new \<le> unat (i_data_size (inodes s p))"
    using new fits ok by (simp add: data_ok_def word_le_nat_alt)
  moreover have "data_range (inodes s' q) = data_range (inodes s q)" for q
    by (cases "q = p") (simp_all add: s' data_range_def split: option.split)
  ultimately show "data_ok s'"
    using ok by (auto simp: data_ok_def s' heap_ok_def word_le_nat_alt)
  show "content s' p = splice (unat pos) buf (content s p)"
    using load_store_splice [OF pos, of "unat d" buf] d by (simp add: content_def s' new)
  show "content s' q = content s q" if "q \<noteq> p"
  proof (rule content_other [OF ok])
    show "inodes s' q = inodes s q" using that by (simp add: s')
    fix k
    assume "k \<in> data_range (inodes s q)"
    moreover have "data_range (inodes s p) \<inter> data_range (inodes s q) = {}"
      using ok that by (metis data_ok_def)
    ultimately have "k \<notin> {unat d ..< unat d + unat (i_data_size (inodes s p))}"
      using d by (auto simp: data_range_def)
    then show "h_mem (r_heap s') k = h_mem (r_heap s) k"
      using fits by (auto simp: s' store_bytes_apply)
  qed
qed

end
