(* ===== verification/Ramfs_Props.thy ===== *)
theory Ramfs_Props
  imports Ramfs
begin

text \<open>
  The correctness of the memory file system \<open>Ramfs\<close>: writes and reads refine operations on the
  contents of a file, creation and deletion refine updates of the directory map.
\<close>

text \<open>\<open>at_file\<close>: the handle is open on the inode \<open>p\<close>, positioned inside the file.\<close>

definition at_file :: "ramfs \<Rightarrow> u32 \<Rightarrow> inode_ptr \<Rightarrow> nat \<Rightarrow> bool" where
  "at_file s fp p pos \<longleftrightarrow> f_inode (r_files s fp) = Some p \<and> unat (f_position (r_files s fp)) = pos
     \<and> pos \<le> unat (i_size (inodes s p))"

lemma files_irrelevant [simp]:
  "content (s\<lparr>r_files := fs\<rparr>) p = content s p" "data_ok (s\<lparr>r_files := fs\<rparr>) = data_ok s"
  by (simp_all add: content_def data_ok_def cong: option.case_cong)

text \<open>What \<open>ramfs_write\<close> does once the block is large enough.\<close>

definition store_step :: "u32 \<Rightarrow> u8 list \<Rightarrow> inode_ptr \<Rightarrow> ramfs \<Rightarrow> (u32 \<times> ramfs) option" where
  "store_step fp buf p t =
     (let f = r_files t fp; n = f_position f + of_nat (length buf) in
      if buf \<noteq> [] \<and> i_data (inodes t p) = None then None
      else
        let s = (case i_data (inodes t p) of
                   None \<Rightarrow> t
                 | Some d \<Rightarrow> t\<lparr>r_heap := (r_heap t)\<lparr>h_mem :=
                     store_bytes (unat d + unat (f_position f)) buf (h_mem (r_heap t))\<rparr>\<rparr>);
            s = s\<lparr>r_files := (r_files s)(fp := f\<lparr>f_position := n\<rparr>)\<rparr>;
            s = (if n > i_size (inodes s p) then upd_inode p (\<lambda>i. i\<lparr>i_size := n\<rparr>) s else s) in
        Some (of_nat (length buf), s))"

lemma ramfs_write_split:
  assumes "f_inode (r_files s fp) = Some p" and "n = f_position (r_files s fp) + of_nat (length buf)"
  shows "ramfs_write (Some fp) buf s =
    (if n > i_data_size (inodes s p)
     then (case realloc (i_data (inodes s p)) n (r_heap s) of
             (None, h) \<Rightarrow> Some (0, s\<lparr>r_heap := h\<rparr>)
           | (Some d, h) \<Rightarrow> store_step fp buf p (upd_inode p (\<lambda>i. i\<lparr>i_data := Some d, i_data_size := n\<rparr>)
                (s\<lparr>r_heap := h, used_size := used_size s + of_nat (length buf)\<rparr>)))
     else store_step fp buf p s)"
proof (cases "n > i_data_size (inodes s p)")
  case True
  obtain r h where re: "realloc (i_data (inodes s p)) n (r_heap s) = (r, h)" by fastforce
  show ?thesis
  proof (cases r)
    case None
    with True re assms show ?thesis by (simp add: ramfs_write_def)
  next
    case (Some d)
    have files: "r_files (upd_inode p g (s\<lparr>r_heap := h, used_size := u\<rparr>)) = r_files s" for g u
      by (simp add: upd_inode_def)
    show ?thesis
      by (simp only: ramfs_write_def store_step_def Let_def option.case prod.case if_True if_False
          True [unfolded assms(2)] re [unfolded assms(2)] Some assms files not_True_eq_False)
  qed
next
  case False
  then show ?thesis
    by (simp only: ramfs_write_def store_step_def Let_def option.case prod.case if_True if_False
        False [unfolded assms(2)] assms not_True_eq_False)
qed

lemma store_step_spec:
  assumes ok: "data_ok t" and f: "at_file t fp p pos" and len: "pos + length buf < 2 ^ 32"
    and fits: "pos + length buf \<le> unat (i_data_size (inodes t p))"
  shows "\<exists>s'. store_step fp buf p t = Some (of_nat (length buf), s') \<and> data_ok s'
    \<and> content s' p = splice pos buf (content t p) \<and> (\<forall>q. q \<noteq> p \<longrightarrow> content s' q = content t q)
    \<and> at_file s' fp p (pos + length buf) \<and> used_size s' = used_size t \<and> root s' = root t
    \<and> (\<forall>q. q \<noteq> p \<longrightarrow> inodes s' q = inodes t q) \<and> i_data_size (inodes s' p) = i_data_size (inodes t p)"
proof -
  let ?f = "r_files t fp"
  let ?n = "f_position ?f + of_nat (length buf) :: u32"
  have fi: "f_inode ?f = Some p" and fpos: "unat (f_position ?f) = pos"
    and pos: "pos \<le> unat (i_size (inodes t p))" using f by (auto simp: at_file_def)
  have "unat (of_nat (length buf) :: u32) = length buf" using len by (simp add: unat_of_nat)
  then have n: "unat ?n = pos + length buf" using len fpos by (simp add: unat_word_ariths)
  show ?thesis
  proof (cases "i_data (inodes t p)")
    case None
    then have z: "i_data_size (inodes t p) = 0" "i_size (inodes t p) = 0"
      using ok by (auto simp: data_ok_def) (metis word_le_0_iff)
    with fits have b: "buf = []" "pos = 0" by auto
    then have "f_position ?f = 0" using fpos unat_eq_zero by blast
    with b None z fi ok show ?thesis by (simp add: store_step_def splice_def at_file_def)
  next
    case (Some d)
    let ?new = "if ?n > i_size (inodes t p) then ?n else i_size (inodes t p)"
    define s' where "s' = t\<lparr>r_heap := (r_heap t)\<lparr>h_mem :=
          store_bytes (unat d + unat (f_position ?f)) buf (h_mem (r_heap t))\<rparr>,
        r_files := (r_files t)(fp := ?f\<lparr>f_position := ?n\<rparr>),
        inodes := (inodes t)(p := (inodes t p)\<lparr>i_size := ?new\<rparr>)\<rparr>"
    have w: "store_step fp buf p t = Some (of_nat (length buf), s')"
      using Some by (auto simp: store_step_def s'_def upd_inode_def Let_def)
    have new: "unat ?new = max (unat (i_size (inodes t p))) (unat (f_position ?f) + length buf)"
      using n fpos by (auto simp: word_less_nat_alt max_def)
    note st = store_block [OF ok Some, where pos = "f_position ?f" and buf = buf and s' = s' and new = ?new]
    have "data_ok s'" "content s' p = splice pos buf (content t p)" "\<And>q. q \<noteq> p \<Longrightarrow> content s' q = content t q"
      using st fits pos new fpos by (simp_all add: s'_def)
    moreover have "at_file s' fp p (pos + length buf)" using fi n new by (simp add: at_file_def s'_def fpos)
    ultimately show ?thesis using w by (simp add: s'_def)
  qed
qed

lemma ramfs_write_cases:
  assumes ok: "data_ok s" and f: "at_file s fp p pos" and len: "pos + length buf < 2 ^ 32 - 8388608"
  obtains (full) "ramfs_write (Some fp) buf s = Some (0, s)"
      and "unat (i_data_size (inodes s p)) < pos + length buf"
      and "fst (realloc (i_data (inodes s p)) (of_nat (pos + length buf)) (r_heap s)) = None"
  | (written) s' where "ramfs_write (Some fp) buf s = Some (of_nat (length buf), s')" and "data_ok s'"
      and "content s' p = splice pos buf (content s p)" and "\<And>q. q \<noteq> p \<Longrightarrow> content s' q = content s q"
      and "at_file s' fp p (pos + length buf)"
      and "used_size s' = used_size s + (if unat (i_data_size (inodes s p)) < pos + length buf
             then of_nat (length buf) else 0)"
      and "root s' = root s" and "\<And>q. q \<noteq> p \<Longrightarrow> inodes s' q = inodes s q"
      and "i_data_size (inodes s' p) = (if unat (i_data_size (inodes s p)) < pos + length buf
             then of_nat (pos + length buf) else i_data_size (inodes s p))"
proof -
  let ?n = "f_position (r_files s fp) + of_nat (length buf) :: u32"
  have fi: "f_inode (r_files s fp) = Some p" and fpos: "unat (f_position (r_files s fp)) = pos" using f by (auto simp: at_file_def)
  have len': "pos + length buf < 2 ^ 32" using len by simp
  then have "unat (of_nat (length buf) :: u32) = length buf" by (simp add: unat_of_nat)
  then have n: "unat ?n = pos + length buf" using len' fpos by (simp add: unat_word_ariths)
  then have nn: "?n = of_nat (pos + length buf)" by (simp only: n [symmetric] unsigned_of_nat of_nat_unat ucast_id)
  have big: "i_data_size (inodes s p) < ?n \<longleftrightarrow> unat (i_data_size (inodes s p)) < pos + length buf"
    by (simp add: word_less_nat_alt n)
  note split = ramfs_write_split [OF fi refl, of buf]
  show thesis
  proof (cases "i_data_size (inodes s p) < ?n")
    case False
    then have fits: "pos + length buf \<le> unat (i_data_size (inodes s p))" using big by simp
    from store_step_spec [OF ok f len' fits] show thesis
      using written False big by (auto simp: split)
  next
    case True
    obtain r h where re: "realloc (i_data (inodes s p)) ?n (r_heap s) = (r, h)" by fastforce
    show thesis
    proof (cases r)
      case None
      with re have "h = r_heap s" using realloc_NoneD by blast
      then show thesis by (intro full) (use re None True big nn in \<open>simp_all add: split\<close>)
    next
      case (Some d)
      define t where "t = upd_inode p (\<lambda>i. i\<lparr>i_data := Some d, i_data_size := ?n\<rparr>)
          (s\<lparr>r_heap := h, used_size := used_size s + of_nat (length buf)\<rparr>)"
      have sz: "size_ok ?n" using len n by (simp add: size_ok_def)
      have g: "data_ok t" "content t q = content s q" for q
        using grow_block_ok [OF ok sz True re [unfolded Some], of t] grow_block_content [OF ok sz True re [unfolded Some], of t]
        by (simp_all add: t_def upd_inode_def)
      have f': "at_file t fp p pos" and fits: "pos + length buf \<le> unat (i_data_size (inodes t p))"
        using f n by (simp_all add: at_file_def t_def upd_inode_def)
      have "ramfs_write (Some fp) buf s = store_step fp buf p t" using True re Some by (simp add: split t_def)
      with store_step_spec [OF g(1) f' len' fits] show thesis
        using written True big g(2) nn by (auto simp: t_def upd_inode_def)
    qed
  qed
qed

lemma ramfs_read_at:
  assumes ok: "data_ok s" and f: "at_file s fp p pos"
  shows "\<exists>s'. ramfs_read (Some fp) n s = Some (take (unat n) (drop pos (content s p)), s')
    \<and> at_file s' fp p (pos + length (take (unat n) (drop pos (content s p))))
    \<and> data_ok s' \<and> inodes s' = inodes s \<and> content s' = content s"
proof -
  let ?f = "r_files s fp"
  have fi: "f_inode ?f = Some p" and fpos: "unat (f_position ?f) = pos"
      and pos: "pos \<le> unat (i_size (inodes s p))" using f by (auto simp: at_file_def)
  have le: "f_position ?f \<le> i_size (inodes s p)" using fpos pos by (simp add: word_le_nat_alt)
  have av: "unat (i_size (inodes s p) - f_position ?f) = unat (i_size (inodes s p)) - pos"
    using unat_sub [OF le] fpos by simp
  show ?thesis
  proof (cases "i_size (inodes s p) - f_position ?f = 0")
    case True
    then have "unat (i_size (inodes s p)) = pos" using av pos by simp
    then have "drop pos (content s p) = []" using length_content [OF ok, of p] by simp
    then show ?thesis using True fi f ok by (simp add: ramfs_read_def Let_def)
  next
    case False
    define sz where "sz = (if n > i_size (inodes s p) - f_position ?f
        then i_size (inodes s p) - f_position ?f else n)"
    have sz: "unat sz = min (unat n) (unat (i_size (inodes s p)) - pos)"
      using av by (auto simp: sz_def word_less_nat_alt min_def)
    have "i_size (inodes s p) \<noteq> 0" using False le by auto
    then obtain d where d: "i_data (inodes s p) = Some d"
      using ok by (cases "i_data (inodes s p)") (auto simp: data_ok_def, metis word_le_0_iff)
    let ?s = "s\<lparr>r_files := (r_files s)(fp := ?f\<lparr>f_position := f_position ?f + sz\<rparr>)\<rparr>"
    have out: "load_bytes (unat d + pos) (unat sz) (h_mem (r_heap s))
        = take (unat n) (drop pos (content s p))"
      using d pos sz by (intro nth_equalityI) (auto simp: content_def add.assoc)
    have r: "ramfs_read (Some fp) n s = Some (take (unat n) (drop pos (content s p)), ?s)"
      using fi False d by (simp add: ramfs_read_def Let_def fpos out [symmetric] sz_def)
    have len: "length (take (unat n) (drop pos (content s p))) = unat sz"
      using out by (metis length_load_bytes)
    have "unat (f_position ?f + sz) = pos + unat sz"
      using sz pos fpos unat_u32_less [of "i_size (inodes s p)"] by (simp add: unat_word_ariths)
    moreover have "pos + unat sz \<le> unat (i_size (inodes s p))" using sz pos by simp
    ultimately have "at_file ?s fp p (pos + unat sz)" using fi by (simp add: at_file_def)
    with r ok len show ?thesis by (intro exI [of _ ?s]) (simp add: fun_eq_iff)
  qed
qed

section \<open>Properties\<close>

text \<open>A small file system with an empty file \<^verbatim>\<open>/a\<close>, for the witnesses.\<close>

definition example_fs :: ramfs where
  "example_fs = snd (ramfs_init \<lparr>mounted = False, root = None, total_size = 0, used_size = 0,
     file_count = 0, dir_count = 0, mount_point = [], next_inode_id = 1,
     inodes = (\<lambda>_. zero_inode), r_files = (\<lambda>_. \<lparr>f_inode = None, f_position = 0, f_flags = 0\<rparr>),
     r_heap = \<lparr>h_mem = (\<lambda>_. 0), h_ptr = 0\<rparr>\<rparr>)"

definition example_file :: ramfs where
  "example_file = (example_fs\<lparr>r_files := (r_files example_fs)(9 := \<lparr>f_inode = Some 0, f_position = 0, f_flags = 0\<rparr>)\<rparr>)"

lemma example_fs_eq:
  "example_fs = \<lparr>mounted = False, root = Some 0, total_size = 33554432, used_size = 0,
     file_count = 0, dir_count = 1, mount_point = [], next_inode_id = 2,
     inodes = (\<lambda>_. zero_inode)(0 := zero_inode\<lparr>i_id := 1, i_name := ''/'', i_type := 1, i_permissions := 493\<rparr>),
     r_files = (\<lambda>_. \<lparr>f_inode = None, f_position = 0, f_flags = 0\<rparr>),
     r_heap = \<lparr>h_mem = (\<lambda>_. 0), h_ptr = 1340\<rparr>\<rparr>"
  by (simp add: example_fs_def ramfs_init_def alloc_inode_def malloc_def HEAP_SIZE_def SIZEOF_INODE_def
      ramfs_consts Let_def)

lemma example_fs_ok: "tree_ok example_fs" "data_ok example_fs"
proof -
  have "kids example_fs p []" for p
    by (simp add: kids_def example_fs_eq zero_inode_def)
  then show "tree_ok example_fs"
    unfolding tree_ok_def
    by (auto simp: example_fs_eq heap_ok_def alive_def zero_inode_def intro!: exI [of _ "[]"])
  show "data_ok example_fs"
    by (auto simp: data_ok_def example_fs_eq heap_ok_def zero_inode_def data_range_def)
qed

text \<open>
  C26. Creating a file refines the update of the directory map: the path, which led nowhere or
  to an older inode, afterwards leads to the new, empty, regular file, and when the name was
  free every other path leads where it led before. The tree invariant is kept.
\<close>

theorem ramfs_create_then_find:
  assumes "tree_ok s" and "length path < 1023"
    and "split_path path = Some (pp, name)" and "name \<noteq> []"
    and "ramfs_create_file path perm s = Some (Some p, s')"
  shows "tree_ok s' \<and> ramfs_find s' path = Some (Some p)
    \<and> i_type (inodes s' p) = RAMFS_TYPE_FILE \<and> content s' p = []
    \<and> file_count s' = file_count s + 1
    \<and> (ramfs_find s path = Some None \<longrightarrow>
         (\<forall>other r. length other < 1023 \<and> ramfs_find s other = Some (Some r)
            \<longrightarrow> ramfs_find s' other = Some (Some r)))"
proof -
  let ?c = "\<lambda>s. s\<lparr>file_count := file_count s + 1\<rparr>"
  have c: "create_node (\<lambda>p. i_type p = RAMFS_TYPE_DIR) RAMFS_TYPE_FILE (\<lambda>n. n) ?c path perm s = Some (Some p, s')"
    using assms(5) by (simp add: ramfs_create_file_def)
  obtain q t where made: "p \<noteq> q" "tree_ok s'" "\<not> alive s p" "root s' = root s"
      "dir_map s' = (dir_map s)(p := (\<lambda>_. None), q := (dir_map s q)(take 255 name \<mapsto> p))"
      "find_inode s' path = Some (Some p)" "find_inode s path = Some (dir_map s q name)"
      "inodes s' = (inodes s)(p := (zero_inode\<lparr>i_id := next_inode_id s, i_name := take 255 name,
           i_type := RAMFS_TYPE_FILE, i_permissions := perm\<rparr>)\<lparr>i_parent := Some q, i_next := i_children (inodes s q)\<rparr>,
         q := (inodes s q)\<lparr>i_children := Some p\<rparr>)"
      "s' = ?c t" "file_count t = file_count s"
    by (rule create_node_made [OF assms(1,2,3,4) c]) simp_all
  have len: "length name \<le> 255" using split_path_tokens [OF assms(3,4)] by blast
  have others: "ramfs_find s' other = Some (Some r)"
    if none: "dir_map s q name = None" and o: "length other < 1023" "ramfs_find s other = Some (Some r)"
    for other r
  proof -
    have mono: "dir_map s' d u = Some x" if "dir_map s d u = Some x" for d u x
      using that none len dir_map_dead [OF assms(1) made(3), of u] by (auto simp: made(5))
    have "resolve (dir_map s) (root s) (path_tokens other) = Some r"
      using o(2) find_inode_resolve [OF assms(1) o(1)] by (simp add: ramfs_find_def)
    then have "resolve (dir_map s') (root s) (path_tokens other) = Some r"
      by (rule resolve_mono [rotated]) (rule mono)
    then show ?thesis
      using find_inode_resolve [OF made(2) o(1)] by (simp add: ramfs_find_def made(4))
  qed
  have "i_type (inodes s' p) = RAMFS_TYPE_FILE" "content s' p = []"
    unfolding content_def made(8) using made(1) by (simp_all add: zero_inode_def)
  with others made(2,6,7,9,10) show ?thesis by (simp add: ramfs_find_def)
qed

theorem ramfs_create_then_find_witness:
  "\<exists>p s'. ramfs_create_file ''/a'' 420 example_fs = Some (Some p, s') \<and> ramfs_find s' ''/a'' = Some (Some p)"
proof -
  have sp: "split_path ''/a'' = Some (''/'', ''a'')"
    by (simp add: split_path_def last_slash_def first_index_def ramfs_consts)
  have f: "find_inode example_fs ''/'' = Some (Some 0)" by (simp add: find_inode_def example_fs_eq)
  obtain p s' where c: "ramfs_create_file ''/a'' 420 example_fs = Some (Some p, s')"
    using sp f by (simp add: ramfs_create_file_def create_node_def alloc_inode_def malloc_def
        example_fs_eq HEAP_SIZE_def SIZEOF_INODE_def ramfs_consts Let_def)
  from ramfs_create_then_find [OF example_fs_ok(1) _ sp _ c] c show ?thesis by auto
qed

text \<open>
  C27. Deleting a file that was just created succeeds and gives back the directory map there was
  before, so that an older inode the creation had hidden under the same name is found again.
\<close>

theorem ramfs_delete_undoes_create:
  assumes "tree_ok s" and "length path < 1023"
    and "split_path path = Some (pp, name)" and "name \<noteq> []"
    and "ramfs_create_file path perm s = Some (Some p, s1)"
  shows "\<exists>s2. ramfs_delete path s1 = Some (True, s2) \<and> tree_ok s2
    \<and> dir_map s2 = dir_map s \<and> file_count s2 = file_count s"
proof -
  let ?c = "\<lambda>s. s\<lparr>file_count := file_count s + 1\<rparr>"
  have c: "create_node (\<lambda>p. i_type p = RAMFS_TYPE_DIR) RAMFS_TYPE_FILE (\<lambda>n. n) ?c path perm s = Some (Some p, s1)"
    using assms(5) by (simp add: ramfs_create_file_def)
  obtain q t where made: "p \<noteq> q" "tree_ok s1" "\<not> alive s p" "find_inode s1 path = Some (Some p)"
      "dir_map s1 = (dir_map s)(p := (\<lambda>_. None), q := (dir_map s q)(take 255 name \<mapsto> p))"
      "inodes s1 = (inodes s)(p := (zero_inode\<lparr>i_id := next_inode_id s, i_name := take 255 name,
           i_type := RAMFS_TYPE_FILE, i_permissions := perm\<rparr>)\<lparr>i_parent := Some q, i_next := i_children (inodes s q)\<rparr>,
         q := (inodes s q)\<lparr>i_children := Some p\<rparr>)"
      "s1 = ?c t" "file_count t = file_count s"
    by (rule create_node_made [OF assms(1,2,3,4) c]) simp_all
  have ino: "i_parent (inodes s1 p) = Some q" "i_type (inodes s1 p) = RAMFS_TYPE_FILE" "i_data (inodes s1 p) = None"
      "i_children (inodes s1 q) = Some p" "i_next (inodes s1 p) = i_children (inodes s q)"
    unfolding made(6) using made(1) by (simp_all add: zero_inode_def)
  obtain xs where xs: "kids s q xs" "\<And>x. x \<in> set xs \<Longrightarrow> alive s x"
    using tree_okE [OF assms(1), of q] by metis
  have old: "i_next (inodes s1 x) = i_next (inodes s x) \<and> i_name (inodes s1 x) = i_name (inodes s x)"
    if "x \<in> set xs" for x
    using xs(2) [OF that] made(3) by (auto simp: made(6))
  have "chain (inodes s1) k xs = chain (inodes s) k xs" for k by (rule chain_cong) (simp add: old)
  then have k1: "kids s1 q (p # xs)" using xs(1) ino by (simp add: kids_def)
  obtain s2 where s2: "ramfs_delete path s1 = Some (True, s2)" "tree_ok s2"
      and m2: "dir_map s2 = (dir_map s1)(q := (\<lambda>t. find (\<lambda>y. i_name (inodes s1 y) = t) xs))"
      and fc2: "file_count s2 = file_count s1 - 1"
    using delete_refines [OF made(2,4) ino(1) k1] ino(2) by auto
  have "find (\<lambda>y. i_name (inodes s1 y) = t) xs = find (\<lambda>y. i_name (inodes s y) = t) xs" for t
    by (rule find_cong) (simp_all add: old)
  then have "dir_map s2 q = dir_map s q" by (intro ext) (simp add: m2 dir_map_kids [OF xs(1)])
  moreover have "dir_map s2 r = dir_map s r" if "r \<noteq> q" for r
    using that dir_map_dead [OF assms(1) made(3)] by (intro ext) (simp add: m2 made(5))
  ultimately have "dir_map s2 = dir_map s" by (intro ext) metis
  then show ?thesis using s2 fc2 made(7,8) by simp
qed

theorem ramfs_delete_undoes_create_witness:
  "\<exists>p s1 s2. ramfs_create_file ''/a'' 420 example_fs = Some (Some p, s1)
     \<and> ramfs_delete ''/a'' s1 = Some (True, s2) \<and> dir_map s2 = dir_map example_fs"
proof -
  have sp: "split_path ''/a'' = Some (''/'', ''a'')"
    by (simp add: split_path_def last_slash_def first_index_def ramfs_consts)
  have f: "find_inode example_fs ''/'' = Some (Some 0)" by (simp add: find_inode_def example_fs_eq)
  obtain p s' where c: "ramfs_create_file ''/a'' 420 example_fs = Some (Some p, s')"
    using sp f by (simp add: ramfs_create_file_def create_node_def alloc_inode_def malloc_def
        example_fs_eq HEAP_SIZE_def SIZEOF_INODE_def ramfs_consts Let_def)
  from ramfs_delete_undoes_create [OF example_fs_ok(1) _ sp _ c] c show ?thesis by auto
qed

text \<open>
  C5. A write refines the splice of the written bytes into the contents of the file, isolates
  all other files, advances the position and keeps the invariant of the data blocks; it is
  refused, without any change, only when the heap has no room for the grown file.
\<close>

theorem ramfs_write_refines:
  assumes "data_ok s" and "at_file s fp p pos" and "pos + length buf < 2 ^ 32 - 8388608"
  shows "(\<exists>s'. ramfs_write (Some fp) buf s = Some (of_nat (length buf), s') \<and> data_ok s'
           \<and> content s' p = splice pos buf (content s p) \<and> (\<forall>q. q = p \<or> content s' q = content s q)
           \<and> at_file s' fp p (pos + length buf))
       \<or> ramfs_write (Some fp) buf s = Some (0, s)
           \<and> fst (realloc (i_data (inodes s p)) (of_nat (pos + length buf)) (r_heap s)) = None"
  using assms by (rule ramfs_write_cases) blast+

lemma example_file_ok:
  "data_ok example_file" "at_file example_file 9 0 0" "content example_file 0 = []"
  "i_data (inodes example_file 0) = None" "r_heap example_file = \<lparr>h_mem = (\<lambda>_. 0), h_ptr = 1340\<rparr>"
  using example_fs_ok(2)
  by (simp_all add: example_file_def at_file_def) (simp_all add: example_fs_eq content_def zero_inode_def)

theorem ramfs_write_refines_witness:
  "\<exists>s'. ramfs_write (Some 9) [1, 2, 3] example_file = Some (3, s') \<and> content s' 0 = [1, 2, 3]"
proof -
  have "fst (realloc (i_data (inodes example_file 0)) (of_nat (0 + length [1 :: u8, 2, 3])) (r_heap example_file)) \<noteq> None"
    by (simp add: example_file_ok realloc_def malloc_def HEAP_SIZE_def Let_def)
  with ramfs_write_refines [OF example_file_ok(1,2), of "[1, 2, 3]"] show ?thesis
    by (auto simp: example_file_ok(3) splice_def)
qed

text \<open>
  C28. What was written is read back: after a successful write of \<open>buf\<close> at a position of a file,
  seeking back to that position and reading as many bytes returns \<open>buf\<close>.
\<close>

theorem ramfs_write_seek_read:
  assumes "data_ok s" and "at_file s fp p pos" and "pos + length buf < 2 ^ 32 - 8388608"
    and "ramfs_write (Some fp) buf s = Some (n, s1)" and "n \<noteq> 0"
  shows "\<exists>s2 s3. ramfs_seek (Some fp) (of_nat pos) s1 = Some (True, s2)
    \<and> ramfs_read (Some fp) n s2 = Some (buf, s3)"
  using assms(1-3)
proof (cases rule: ramfs_write_cases)
  case full
  with assms(4,5) show ?thesis by simp
next
  case (written s')
  then have n: "n = of_nat (length buf)" and s1: "s1 = s'" using assms(4) by auto
  have pos: "pos \<le> length (content s p)"
    using assms(2) length_content [OF assms(1)] by (simp add: at_file_def)
  have un: "unat n = length buf" "unat (of_nat pos :: u32) = pos"
    using assms(3) n by (simp_all add: unat_of_nat)
  have size: "pos + length buf \<le> unat (i_size (inodes s' p))" and fi: "f_inode (r_files s' fp) = Some p"
    using written(5) by (auto simp: at_file_def)
  define s2 where "s2 = s'\<lparr>r_files := (r_files s')(fp := (r_files s' fp)\<lparr>f_position := of_nat pos\<rparr>)\<rparr>"
  have seek: "ramfs_seek (Some fp) (of_nat pos) s1 = Some (True, s2)"
    using fi size un(2) by (simp add: ramfs_seek_def s1 s2_def word_less_nat_alt)
  have "at_file s2 fp p pos" "data_ok s2"
    using size fi un(2) written(2) by (simp_all add: s2_def at_file_def)
  from ramfs_read_at [OF this(2,1), of n] obtain s3 where
    "ramfs_read (Some fp) n s2 = Some (take (length buf) (drop pos (content s2 p)), s3)"
    using un(1) by auto
  moreover have "take (length buf) (drop pos (content s2 p)) = buf"
    using written(3) pos by (simp add: s2_def splice_def)
  ultimately show ?thesis using seek by auto
qed

theorem ramfs_write_seek_read_witness:
  "\<exists>s1 s2 s3. ramfs_write (Some 9) [1, 2, 3] example_file = Some (3, s1)
    \<and> ramfs_seek (Some 9) 0 s1 = Some (True, s2) \<and> ramfs_read (Some 9) 3 s2 = Some ([1, 2, 3], s3)"
proof -
  obtain s1 where w: "ramfs_write (Some 9) [1, 2, 3] example_file = Some (3, s1)"
    using example_file_ok by (auto simp: ramfs_write_def at_file_def realloc_def malloc_def HEAP_SIZE_def
        upd_inode_def Let_def example_file_def example_fs_eq zero_inode_def)
  from ramfs_write_seek_read [OF example_file_ok(1,2) _ w] w show ?thesis by auto
qed

end
