(* ===== verification/Ramfs_Boot.thy ===== *)
theory Ramfs_Boot
  imports Ramfs_Props
begin

text \<open>
  The default tree \<open>ramfs_create_default_structure\<close> of \<^verbatim>\<open>fs/ramfs.c\<close> builds at the start of the kernel,
  against a specification that has no pointers: what the file system shows of it is a map from the names along a
  path to the kind, the permissions, the target and the contents found there.
\<close>

section \<open>What a file system shows\<close>

definition node_at :: "ramfs \<Rightarrow> string list \<Rightarrow> inode_ptr option" where
  "node_at s ts = resolve (dir_map s) (root s) ts"

definition shown :: "ramfs \<Rightarrow> inode_ptr \<Rightarrow> u8 \<times> u32 \<times> string \<times> u8 list" where
  "shown s p = (i_type (inodes s p), i_permissions (inodes s p), i_symlink_target (inodes s p), content s p)"

definition view :: "ramfs \<Rightarrow> string list \<Rightarrow> (u8 \<times> u32 \<times> string \<times> u8 list) option" where
  "view s ts = map_option (shown s) (node_at s ts)"

abbreviation fs_mark :: "ramfs \<Rightarrow> nat" where
  "fs_mark s \<equiv> unat (h_ptr (r_heap s))"

lemma node_at_snoc: "node_at s (ts @ [t]) = (case node_at s ts of None \<Rightarrow> None | Some d \<Rightarrow> dir_map s d t)"
  by (simp add: node_at_def resolve_append split: option.split)

lemma node_at_alive: "tree_ok s \<Longrightarrow> node_at s ts = Some x \<Longrightarrow> alive s x"
  unfolding node_at_def by (rule resolve_alive [where c = "root s"]) (auto simp: tree_ok_def)

text \<open>Every node has one path.\<close>

lemma node_at_unique:
  assumes "tree_ok s"
  shows "node_at s ts = Some x \<Longrightarrow> node_at s us = Some x \<Longrightarrow> ts = us"
proof (induction ts arbitrary: x us rule: rev_induct)
  case Nil
  then have no: "i_parent (inodes s x) = None" using assms by (auto simp: node_at_def tree_ok_def)
  show ?case
  proof (cases us rule: rev_cases)
    case (snoc vs u)
    with Nil(2) obtain d where "dir_map s d u = Some x" by (auto simp: node_at_snoc split: option.splits)
    with dir_map_alive [OF assms this] no show ?thesis by simp
  qed simp
next
  case (snoc t ts)
  then obtain d where d: "node_at s ts = Some d" "dir_map s d t = Some x" by (auto simp: node_at_snoc split: option.splits)
  note x = dir_map_alive [OF assms d(2)]
  show ?case
  proof (cases us rule: rev_cases)
    case Nil
    with snoc.prems x assms show ?thesis by (auto simp: node_at_def tree_ok_def)
  next
    case (snoc vs u)
    with snoc.prems obtain e where e: "node_at s vs = Some e" "dir_map s e u = Some x"
      by (auto simp: node_at_snoc split: option.splits)
    with dir_map_alive [OF assms e(2)] x have "e = d" "u = t" by auto
    with snoc.IH [OF d(1)] e(1) snoc show ?thesis by simp
  qed
qed

text \<open>A fresh node under a free name adds its path and nothing else.\<close>

lemma node_at_link:
  assumes ok: "tree_ok s" and q: "node_at s tq = Some q" and free: "dir_map s q name = None" and p: "\<not> alive s p"
    and m: "dir_map s' = (dir_map s)(p := (\<lambda>_. None), q := (dir_map s q)(name \<mapsto> p))" and r: "root s' = root s"
  shows "node_at s' = (node_at s)(tq @ [name] \<mapsto> p)"
proof
  fix ts
  have pq: "p \<noteq> q" using node_at_alive [OF ok q] p by auto
  have none: "node_at s (tq @ [name]) = None" using q free by (simp add: node_at_snoc)
  show "node_at s' ts = ((node_at s)(tq @ [name] \<mapsto> p)) ts"
  proof (induction ts rule: rev_induct)
    case Nil
    then show ?case by (simp add: node_at_def r)
  next
    case (snoc t ts)
    consider "ts = tq @ [name]" | "node_at s ts = None" "ts \<noteq> tq @ [name]" | d where "node_at s ts = Some d" by auto
    then show ?case
    proof cases
      case 1
      then have "node_at s' ts = Some p" "node_at s ts = None" using snoc none by simp_all
      then have "node_at s' (ts @ [t]) = None" "node_at s (ts @ [t]) = None"
        unfolding node_at_snoc using pq by (simp_all add: m)
      moreover have "ts @ [t] \<noteq> tq @ [name]" using 1 by simp
      ultimately show ?thesis by (simp only: fun_upd_other simp_thms)
    next
      case 2
      then have "node_at s' ts = None" using snoc by simp
      then have "node_at s' (ts @ [t]) = None" "node_at s (ts @ [t]) = None"
        unfolding node_at_snoc using 2 by simp_all
      moreover have "ts @ [t] \<noteq> tq @ [name]" using 2 q by auto
      ultimately show ?thesis by (simp only: fun_upd_other simp_thms)
    next
      case (3 d)
      then have "ts \<noteq> tq @ [name]" using none by auto
      with 3 snoc have s': "node_at s' ts = Some d" by simp
      have "d \<noteq> p" using node_at_alive [OF ok 3] p by auto
      moreover have "d = q \<longleftrightarrow> ts = tq" using node_at_unique [OF ok 3, of tq] q 3 by (metis option.inject)
      moreover have "node_at s' (ts @ [t]) = dir_map s' d t" "node_at s (ts @ [t]) = dir_map s d t"
        unfolding node_at_snoc by (simp_all add: 3 s')
      ultimately show ?thesis by (cases "ts = tq") (simp_all add: m)
    qed
  qed
qed

section \<open>Creating a node\<close>

definition fs_ok :: "ramfs \<Rightarrow> bool" where
  "fs_ok s \<longleftrightarrow> tree_ok s \<and> data_ok s"

lemma malloc_room:
  assumes "heap_ok h" and "unat (h_ptr h) + unat sz \<le> 8388608"
  shows "\<exists>h'. malloc sz h = (Some (h_ptr h), h') \<and> heap_ok h' \<and> h_mem h' = h_mem h
    \<and> unat (h_ptr h') = unat (h_ptr h) + (unat sz + 3) div 4 * 4"
proof -
  have sz: "size_ok sz" using assms(2) by (simp add: size_ok_def)
  then obtain h' where m: "malloc sz h = (Some (h_ptr h), h')" using malloc_cases [OF assms(1) sz] assms(2) by simp
  note h' = malloc_SomeD [OF assms(1) sz m]
  have up: "b = a + (c + 3) div 4 * 4" if "4 dvd a" "4 dvd b" "a + c \<le> b" "b < a + c + 4" for a b c :: nat
    using that by presburger
  have "unat (h_ptr h') = unat (h_ptr h) + (unat sz + 3) div 4 * 4"
    by (rule up) (use assms(1) h' in \<open>simp_all add: heap_ok_def\<close>)
  with m h' show ?thesis by auto
qed

lemma create_node_shown:
  assumes ok: "fs_ok s" and len: "length path < 1023"
    and split: "split_path path = Some (pp, name)" and n: "name \<noteq> []"
    and q: "node_at s (path_tokens pp) = Some q" and dir: "parent_ok (inodes s q)"
    and free: "node_at s (path_tokens path) = None" and room: "fs_mark s + 1340 \<le> 8388608"
    and fill: "\<And>n. fill n = n\<lparr>i_symlink_target := tgt n\<rparr>"
    and count: "\<And>t. inodes (count t) = inodes t \<and> root (count t) = root t \<and> r_heap (count t) = r_heap t"
  shows "\<exists>p s'. create_node parent_ok type fill count path perm s = Some (Some p, s') \<and> fs_ok s'
    \<and> fs_mark s' = fs_mark s + 1340 \<and> node_at s' (path_tokens path) = Some p
    \<and> view s' = (view s)(path_tokens path \<mapsto> (type, perm, tgt (zero_inode\<lparr>i_id := next_inode_id s, i_name := name,
         i_type := type, i_permissions := perm\<rparr>), []))"
proof -
  have tok: "tree_ok s" and dok: "data_ok s" and hok: "heap_ok (r_heap s)" using ok by (auto simp: fs_ok_def tree_ok_def)
  note tp = split_path_tokens [OF split n]
  have f: "find_inode s pp = Some (Some q)"
    using find_inode_resolve [OF tok, of pp] tp len q by (simp add: node_at_def)
  obtain h where h: "malloc SIZEOF_INODE (r_heap s) = (Some (h_ptr (r_heap s)), h)" "heap_ok h" "h_mem h = h_mem (r_heap s)"
      "unat (h_ptr h) = fs_mark s + 1340"
    using malloc_room [OF hok, of SIZEOF_INODE] room by (auto simp: SIZEOF_INODE_def)
  then obtain p s' where c: "create_node parent_ok type fill count path perm s = Some (Some p, s')"
    using split f dir by (auto simp: create_node_def alloc_inode_def Let_def split: prod.splits option.splits)
  obtain t where made: "find_inode s pp = Some (Some q)" "p \<noteq> q" "tree_ok s'" "\<not> alive s p" "root s' = root s"
      "dir_map s' = (dir_map s)(p := (\<lambda>_. None), q := (dir_map s q)(take 255 name \<mapsto> p))"
      "inodes s' = (inodes s)(p := (fill (zero_inode\<lparr>i_id := next_inode_id s, i_name := take 255 name,
           i_type := type, i_permissions := perm\<rparr>))\<lparr>i_parent := Some q, i_next := i_children (inodes s q)\<rparr>,
         q := (inodes s q)\<lparr>i_children := Some p\<rparr>)"
      "malloc SIZEOF_INODE (r_heap s) = (Some p, r_heap s')"
    using create_node_made [OF tok len split n c _ count] f by (auto simp: fill)
  then have heap: "r_heap s' = h" using h by simp
  have name: "take 255 name = name" using tp by simp
  have fr: "dir_map s q name = None" using free q tp by (simp add: node_at_snoc)
  have at: "node_at s' = (node_at s)(path_tokens path \<mapsto> p)"
    using node_at_link [OF tok q fr made(4) made(6) [unfolded name] made(5)] tp by simp
  have data: "i_data (inodes s' x) = (if x = p then None else i_data (inodes s x))"
      "i_data_size (inodes s' x) = (if x = p then 0 else i_data_size (inodes s x))"
      "i_size (inodes s' x) = (if x = p then 0 else i_size (inodes s x))" for x
    using made(2) by (simp_all add: made(7) fill zero_inode_def)
  have range: "data_range (inodes s' x) = (if x = p then {} else data_range (inodes s x))" for x
    by (cases "x = p") (simp_all add: data_range_def data cong: option.case_cong)
  have sub: "data_range (inodes s x) \<subseteq> {..<unat (h_ptr h)}" for x
    using dok h(4) by (fastforce simp: data_ok_def)
  have "data_ok s'"
    using dok h sub by (auto simp: data_ok_def heap range data)
  moreover have "shown s' x = shown s x" if "x \<noteq> p" for x
    using that made(2) data h by (auto simp: shown_def content_def made(7) heap split: option.split)
  moreover have "shown s' p = (type, perm, tgt (zero_inode\<lparr>i_id := next_inode_id s, i_name := name,
         i_type := type, i_permissions := perm\<rparr>), [])"
    using made(2) by (simp add: shown_def content_def made(7) fill name zero_inode_def)
  moreover have "node_at s ts \<noteq> Some p" for ts using node_at_alive [OF tok] made(4) by auto
  ultimately have "view s' = (view s)(path_tokens path \<mapsto> (type, perm, tgt (zero_inode\<lparr>i_id := next_inode_id s, i_name := name,
         i_type := type, i_permissions := perm\<rparr>), []))"
    by (intro ext) (simp add: view_def at, metis option.map_cong0 option.set_cases)
  with c made(3) \<open>data_ok s'\<close> h heap at show ?thesis by (auto simp: fs_ok_def)
qed


section \<open>Filling a file\<close>

lemma links_same:
  assumes ok: "tree_ok s" and heap: "heap_ok (r_heap s')" and mono: "\<And>x. alive s x \<Longrightarrow> alive s' x" and r: "root s' = root s"
    and same: "\<And>x. i_next (inodes s' x) = i_next (inodes s x) \<and> i_name (inodes s' x) = i_name (inodes s x)
      \<and> i_parent (inodes s' x) = i_parent (inodes s x) \<and> i_children (inodes s' x) = i_children (inodes s x)"
  shows "tree_ok s'" and "dir_map s' = dir_map s"
proof -
  have kids: "kids s' p xs = kids s p xs" for p xs
    unfolding kids_def using same by (simp add: chain_cong [of xs "inodes s'" "inodes s"])
  show "tree_ok s'" using ok heap mono unfolding tree_ok_def kids by (simp add: r same) blast
  show "dir_map s' = dir_map s"
  proof (intro ext)
    fix p t
    obtain xs where xs: "kids s p xs" by (rule tree_okE [OF ok])
    then have "kids s' p xs" by (simp add: kids)
    with xs show "dir_map s' p t = dir_map s p t" by (simp add: dir_map_kids same)
  qed
qed

lemma set_text_shown:
  assumes ok: "fs_ok s" and p: "node_at s ts = Some p" and room: "fs_mark s + (length txt + 4) div 4 * 4 \<le> 8388608"
  shows "fs_ok (set_text txt (Some p, s)) \<and> fs_mark (set_text txt (Some p, s)) = fs_mark s + (length txt + 4) div 4 * 4
    \<and> view (set_text txt (Some p, s))
      = (view s)(ts \<mapsto> (i_type (inodes s p), i_permissions (inodes s p), i_symlink_target (inodes s p), map byte_of txt))"
proof -
  let ?a = "h_ptr (r_heap s)" and ?s' = "set_text txt (Some p, s)" and ?n = "of_nat (length txt) :: u32"
  have tok: "tree_ok s" and dok: "data_ok s" and hok: "heap_ok (r_heap s)" using ok by (auto simp: fs_ok_def tree_ok_def)
  have up: "length txt + 1 \<le> (length txt + 4) div 4 * 4" by presburger
  then have short: "length txt + 1 < 4294967296" using room by linarith
  then have len: "unat (of_nat (Suc (length txt)) :: u32) = Suc (length txt)" "unat ?n = length txt"
    by (simp_all add: unsigned_of_nat take_bit_nat_eq_self del: of_nat_Suc)
  have "fs_mark s + unat (of_nat (Suc (length txt)) :: u32) \<le> 8388608" unfolding len using room up by linarith
  from malloc_room [OF hok this] obtain h where h: "malloc (of_nat (Suc (length txt))) (r_heap s) = (Some ?a, h)" "heap_ok h"
      "h_mem h = h_mem (r_heap s)" "unat (h_ptr h) = fs_mark s + (length txt + 4) div 4 * 4"
    by (auto simp: len add.commute simp del: of_nat_Suc)
  let ?m = "store_bytes (unat ?a) (map byte_of (txt @ [NUL])) (h_mem h)"
  have s': "?s' = upd_inode p (\<lambda>n. n\<lparr>i_data := Some ?a, i_size := ?n, i_data_size := ?n\<rparr>) (s\<lparr>r_heap := h\<lparr>h_mem := ?m\<rparr>\<rparr>)"
    using h(1) by (simp add: set_text_def strdup_def Let_def del: of_nat_Suc)
  have heap: "heap_ok (r_heap ?s')" "fs_mark ?s' = unat (h_ptr h)" using h(2) by (simp_all add: s' upd_inode_def heap_ok_def)
  have tree: "tree_ok ?s'" "dir_map ?s' = dir_map s"
    by (rule links_same [OF tok heap(1)]; use h(4) in \<open>simp add: s' upd_inode_def alive_def word_less_nat_alt\<close>)+
  have range: "data_range (inodes ?s' x) = (if x = p then {unat ?a..<unat ?a + length txt} else data_range (inodes s x))" for x
    by (simp add: s' upd_inode_def data_range_def len)
  have old: "data_range (inodes s x) \<subseteq> {..<unat ?a}" for x using dok by (simp add: data_ok_def)
  have dis: "data_range (inodes s x) \<inter> {unat ?a..<unat ?a + length txt} = {}" for x using old [of x] by auto
  have sub: "{unat ?a..<unat ?a + length txt} \<subseteq> {..<unat (h_ptr h)}" "data_range (inodes s x) \<subseteq> {..<unat (h_ptr h)}" for x
    using h(4) up old [of x] by auto
  have "data_ok ?s'"
    unfolding data_ok_def range heap(2)
    using dok dis sub heap(1) by (auto simp: data_ok_def s' upd_inode_def Int_commute)
  moreover have "content ?s' x = content s x" if "x \<noteq> p" for x
  proof (rule content_other [OF dok])
    show "h_mem (r_heap ?s') k = h_mem (r_heap s) k" if "k \<in> data_range (inodes s x)" for k
      using old [of x] that h(3) by (auto simp: s' upd_inode_def store_bytes_apply)
  qed (use that in \<open>simp add: s' upd_inode_def\<close>)
  then have other: "shown ?s' x = shown s x" if "x \<noteq> p" for x using that by (simp add: shown_def s' upd_inode_def)
  moreover have shown: "shown ?s' p = (i_type (inodes s p), i_permissions (inodes s p), i_symlink_target (inodes s p), map byte_of txt)"
  proof -
    have "load_bytes (unat ?a) (length txt) ?m = map byte_of txt"
      by (rule nth_equalityI) (simp_all add: store_bytes_apply nth_append)
    then show ?thesis by (simp add: shown_def content_def s' upd_inode_def len)
  qed
  moreover have at: "node_at ?s' = node_at s" unfolding node_at_def tree(2) by (simp add: s' upd_inode_def)
  moreover have "view ?s' us = ((view s)(ts \<mapsto> (i_type (inodes s p), i_permissions (inodes s p),
      i_symlink_target (inodes s p), map byte_of txt))) us" for us
  proof (cases "us = ts")
    case True
    with p shown show ?thesis by (simp add: view_def at)
  next
    case False
    then have "node_at s us \<noteq> Some p" using node_at_unique [OF tok p] by metis
    with False other show ?thesis by (cases "node_at s us") (auto simp: view_def at)
  qed
  ultimately show ?thesis using tree(1) h(4) heap(2) by (simp add: fs_ok_def fun_eq_iff)
qed


section \<open>The default tree\<close>

type_synonym shown_tree = "string list \<Rightarrow> (u8 \<times> u32 \<times> string \<times> u8 list) option"

text \<open>What the creation of a list of directories needs, one after the other, and the tree it makes.\<close>

definition dir_fits :: "string \<Rightarrow> shown_tree \<Rightarrow> bool" where
  "dir_fits path v \<longleftrightarrow> length path < 1023 \<and> v (path_tokens path) = None
     \<and> (case split_path path of None \<Rightarrow> False
        | Some (pp, name) \<Rightarrow> name \<noteq> [] \<and> (case v (path_tokens pp) of None \<Rightarrow> False | Some (k, _) \<Rightarrow> k = RAMFS_TYPE_DIR))"

fun dirs_fit :: "(string \<times> u32) list \<Rightarrow> shown_tree \<Rightarrow> bool" where
  "dirs_fit [] v = True"
| "dirs_fit ((path, perm) # ds) v =
     (dir_fits path v \<and> dirs_fit ds (v(path_tokens path \<mapsto> (RAMFS_TYPE_DIR, perm, [], []))))"

fun dirs_tree :: "(string \<times> u32) list \<Rightarrow> shown_tree \<Rightarrow> shown_tree" where
  "dirs_tree [] v = v"
| "dirs_tree ((path, perm) # ds) v = dirs_tree ds (v(path_tokens path \<mapsto> (RAMFS_TYPE_DIR, perm, [], [])))"

lemma dir_fitsE:
  assumes "dir_fits path (view s)" and "fs_ok s"
  obtains pp name q where "split_path path = Some (pp, name)" and "name \<noteq> []" and "length path < 1023"
    and "node_at s (path_tokens path) = None" and "node_at s (path_tokens pp) = Some q"
    and "i_type (inodes s q) = RAMFS_TYPE_DIR"
  using assms by (fastforce simp: dir_fits_def view_def shown_def split: option.splits prod.splits)

lemma make_dirs_shown:
  assumes "dirs_fit ds (view s)" and "fs_ok s" and "fs_mark s + 1340 * length ds \<le> 8388608"
  shows "\<exists>s'. make_dirs ds s = Some s' \<and> fs_ok s' \<and> fs_mark s' = fs_mark s + 1340 * length ds
    \<and> view s' = dirs_tree ds (view s)"
  using assms
proof (induction ds "view s" arbitrary: s rule: dirs_fit.induct)
  case (2 path perm ds)
  then obtain pp name q where f: "split_path path = Some (pp, name)" "name \<noteq> []" "length path < 1023"
      "node_at s (path_tokens path) = None" "node_at s (path_tokens pp) = Some q" "i_type (inodes s q) = RAMFS_TYPE_DIR"
    by (auto elim: dir_fitsE)
  have room: "fs_mark s + 1340 \<le> 8388608" using 2 by simp
  have "\<exists>p t. ramfs_create_dir path perm s = Some (Some p, t) \<and> fs_ok t \<and> fs_mark t = fs_mark s + 1340
      \<and> view t = (view s)(path_tokens path \<mapsto> (RAMFS_TYPE_DIR, perm, [], []))"
    unfolding ramfs_create_dir_def
    using create_node_shown [OF \<open>fs_ok s\<close> f(3,1,2,5) _ f(4) room, where fill = "\<lambda>n. n" and tgt = i_symlink_target
        and parent_ok = "\<lambda>p. i_type p = RAMFS_TYPE_DIR" and type = RAMFS_TYPE_DIR and perm = perm
        and count = "\<lambda>s. s\<lparr>dir_count := dir_count s + 1\<rparr>"] f(6)
    by (force simp: zero_inode_def)
  then obtain p t where t: "ramfs_create_dir path perm s = Some (Some p, t)" "fs_ok t" "fs_mark t = fs_mark s + 1340"
      "view t = (view s)(path_tokens path \<mapsto> (RAMFS_TYPE_DIR, perm, [], []))" by blast
  from 2 t have "\<exists>s'. make_dirs ds t = Some s' \<and> fs_ok s' \<and> fs_mark s' = fs_mark t + 1340 * length ds
    \<and> view s' = dirs_tree ds (view t)" by (intro 2) simp_all
  with t show ?case by auto
qed auto

lemma default_dirs_fit: "dirs_fit default_dirs [[] \<mapsto> (RAMFS_TYPE_DIR, 493, [], [])]"
  by code_simp


definition default_tree :: shown_tree where
  "default_tree = (dirs_tree default_dirs [[] \<mapsto> (RAMFS_TYPE_DIR, 493, [], [])])
     ([''etc'', ''hostname''] \<mapsto> (RAMFS_TYPE_FILE, 420, [], map byte_of hostname_text),
      [''etc'', ''os-release''] \<mapsto> (RAMFS_TYPE_FILE, 420, [], map byte_of os_release_text),
      [''bin'', ''sh''] \<mapsto> (RAMFS_TYPE_SYMLINK, 511, ''/bin/blocksh'', []),
      [''usr'', ''bin'', ''cc''] \<mapsto> (RAMFS_TYPE_SYMLINK, 511, ''/usr/bin/gcc'', []))"

lemma default_files_fit:
  "split_path ''/etc/hostname'' = Some (''/etc'', ''hostname'')" "path_tokens ''/etc'' = [''etc'']"
  "path_tokens ''/etc/hostname'' = [''etc'', ''hostname'']"
  "split_path ''/etc/os-release'' = Some (''/etc'', ''os-release'')"
  "path_tokens ''/etc/os-release'' = [''etc'', ''os-release'']"
  "split_path ''/bin/sh'' = Some (''/bin'', ''sh'')" "path_tokens ''/bin'' = [''bin'']"
  "path_tokens ''/bin/sh'' = [''bin'', ''sh'']"
  "split_path ''/usr/bin/cc'' = Some (''/usr/bin'', ''cc'')" "path_tokens ''/usr/bin'' = [''usr'', ''bin'']"
  "path_tokens ''/usr/bin/cc'' = [''usr'', ''bin'', ''cc'']"
  by code_simp+

lemma default_dirs_at:
  "dirs_tree default_dirs [[] \<mapsto> (RAMFS_TYPE_DIR, 493, [], [])] [''etc''] = Some (RAMFS_TYPE_DIR, 493, [], [])"
  "dirs_tree default_dirs [[] \<mapsto> (RAMFS_TYPE_DIR, 493, [], [])] [''bin''] = Some (RAMFS_TYPE_DIR, 493, [], [])"
  "dirs_tree default_dirs [[] \<mapsto> (RAMFS_TYPE_DIR, 493, [], [])] [''usr'', ''bin''] = Some (RAMFS_TYPE_DIR, 493, [], [])"
  "dirs_tree default_dirs [[] \<mapsto> (RAMFS_TYPE_DIR, 493, [], [])] [''etc'', ''hostname''] = None"
  "dirs_tree default_dirs [[] \<mapsto> (RAMFS_TYPE_DIR, 493, [], [])] [''etc'', ''os-release''] = None"
  "dirs_tree default_dirs [[] \<mapsto> (RAMFS_TYPE_DIR, 493, [], [])] [''bin'', ''sh''] = None"
  "dirs_tree default_dirs [[] \<mapsto> (RAMFS_TYPE_DIR, 493, [], [])] [''usr'', ''bin'', ''cc''] = None"
  by code_simp+


lemma create_text_shown:
  assumes fit: "dir_fits path (view s)" and ok: "fs_ok s" and room: "fs_mark s + 1340 + (length txt + 4) div 4 * 4 \<le> 8388608"
  shows "\<exists>r. ramfs_create_file path perm s = Some r \<and> fs_ok (set_text txt r)
    \<and> fs_mark (set_text txt r) = fs_mark s + 1340 + (length txt + 4) div 4 * 4
    \<and> view (set_text txt r) = (view s)(path_tokens path \<mapsto> (RAMFS_TYPE_FILE, perm, [], map byte_of txt))"
proof -
  obtain pp name q where f: "split_path path = Some (pp, name)" "name \<noteq> []" "length path < 1023"
      "node_at s (path_tokens path) = None" "node_at s (path_tokens pp) = Some q" "i_type (inodes s q) = RAMFS_TYPE_DIR"
    using fit ok by (rule dir_fitsE)
  have room1: "fs_mark s + 1340 \<le> 8388608" using room by simp
  obtain p t where t: "ramfs_create_file path perm s = Some (Some p, t)" "fs_ok t" "fs_mark t = fs_mark s + 1340"
      "node_at t (path_tokens path) = Some p" "view t = (view s)(path_tokens path \<mapsto> (RAMFS_TYPE_FILE, perm, [], []))"
    unfolding ramfs_create_file_def
    using create_node_shown [OF ok f(3,1,2,5) _ f(4) room1, where fill = "\<lambda>n. n" and tgt = i_symlink_target
        and parent_ok = "\<lambda>p. i_type p = RAMFS_TYPE_DIR" and type = RAMFS_TYPE_FILE and perm = perm
        and count = "\<lambda>s. s\<lparr>file_count := file_count s + 1\<rparr>"] f(6)
    by (force simp: zero_inode_def)
  have "view t (path_tokens path) = Some (RAMFS_TYPE_FILE, perm, [], [])" using t(5) by simp
  then have "shown t p = (RAMFS_TYPE_FILE, perm, [], [])" using t(4) by (simp add: view_def)
  moreover have "fs_mark t + (length txt + 4) div 4 * 4 \<le> 8388608" using room t(3) by simp
  note set_text_shown [OF t(2,4) this]
  ultimately show ?thesis using t(1,3,5) by (intro exI [of _ "(Some p, t)"]) (simp add: shown_def)
qed

lemma create_link_shown:
  assumes fit: "dir_fits path (view s)" and ok: "fs_ok s" and room: "fs_mark s + 1340 \<le> 8388608"
  shows "\<exists>p s'. ramfs_create_symlink path target s = Some (Some p, s') \<and> fs_ok s' \<and> fs_mark s' = fs_mark s + 1340
    \<and> view s' = (view s)(path_tokens path \<mapsto> (RAMFS_TYPE_SYMLINK, 511, take 1023 target, []))"
proof -
  obtain pp name q where f: "split_path path = Some (pp, name)" "name \<noteq> []" "length path < 1023"
      "node_at s (path_tokens path) = None" "node_at s (path_tokens pp) = Some q" "i_type (inodes s q) = RAMFS_TYPE_DIR"
    using fit ok by (rule dir_fitsE)
  show ?thesis
    unfolding ramfs_create_symlink_def
    using create_node_shown [OF ok f(3,1,2,5) _ f(4) room, where tgt = "\<lambda>_. take (RAMFS_MAX_PATH - 1) target"
        and fill = "\<lambda>n. n\<lparr>i_symlink_target := take (RAMFS_MAX_PATH - 1) target\<rparr>"
        and parent_ok = "\<lambda>_. True" and type = RAMFS_TYPE_SYMLINK and perm = 511 and count = "\<lambda>s. s"]
    by (force simp: ramfs_consts)
qed

section \<open>The start of the file system\<close>

lemma ramfs_init_shown:
  assumes "heap_ok (r_heap s)" and "inodes s = (\<lambda>_. zero_inode)" and "fs_mark s + 1340 \<le> 8388608"
  shows "fs_ok (snd (ramfs_init s)) \<and> fs_mark (snd (ramfs_init s)) = fs_mark s + 1340
    \<and> view (snd (ramfs_init s)) = [[] \<mapsto> (RAMFS_TYPE_DIR, 493, [], [])]"
proof -
  let ?r = "h_ptr (r_heap s)" and ?s' = "snd (ramfs_init s)"
  obtain h where h: "malloc SIZEOF_INODE (r_heap s) = (Some ?r, h)" "heap_ok h" "unat (h_ptr h) = fs_mark s + 1340"
    using malloc_room [OF assms(1), of SIZEOF_INODE] assms(3) by (auto simp: SIZEOF_INODE_def)
  have s': "inodes ?s' = (\<lambda>_. zero_inode)(?r := zero_inode\<lparr>i_id := next_inode_id s, i_name := ''/'',
      i_type := RAMFS_TYPE_DIR, i_permissions := 493\<rparr>)" "root ?s' = Some ?r" "r_heap ?s' = h"
    using h(1) assms(2) by (simp_all add: ramfs_init_def alloc_inode_def Let_def ramfs_consts)
  have none: "kids ?s' p []" for p by (simp add: kids_def s' zero_inode_def)
  have "tree_ok ?s'"
    unfolding tree_ok_def using none h
    by (auto simp: s' alive_def zero_inode_def word_less_nat_alt intro!: exI [of _ "[]"])
  moreover have "data_ok ?s'" using h(2) by (auto simp: data_ok_def s' zero_inode_def data_range_def)
  moreover have "view ?s' ts = [[] \<mapsto> (RAMFS_TYPE_DIR, 493, [], [])] ts" for ts
  proof (cases ts)
    case Nil
    then show ?thesis by (simp add: view_def node_at_def s' shown_def content_def zero_inode_def)
  next
    case (Cons t us)
    then show ?thesis by (simp add: view_def node_at_def s'(2) dir_map_kids [OF none])
  qed
  ultimately show ?thesis using h(3) s'(3) by (simp add: fs_ok_def fun_eq_iff)
qed

lemma mount_shown [simp]:
  "fs_ok (snd (ramfs_mount mp s)) = fs_ok s" "view (snd (ramfs_mount mp s)) = view s" "r_heap (snd (ramfs_mount mp s)) = r_heap s"
proof -
  let ?s' = "snd (ramfs_mount mp s)"
  have e: "inodes ?s' = inodes s" "r_heap ?s' = r_heap s" "root ?s' = root s" by (simp_all add: ramfs_mount_def)
  have d: "dir_map ?s' = dir_map s" "kids ?s' = kids s" by (simp_all add: dir_map_def kids_def fun_eq_iff e)
  show "fs_ok ?s' = fs_ok s" by (simp add: fs_ok_def tree_ok_def data_ok_def alive_def d e)
  show "view ?s' = view s"
    by (simp add: fun_eq_iff view_def node_at_def d e shown_def content_def cong: option.case_cong map_option_cong)
  show "r_heap ?s' = r_heap s" by (rule e)
qed

lemma default_structure_shown:
  assumes ok: "fs_ok s" and v: "view s = [[] \<mapsto> (RAMFS_TYPE_DIR, 493, [], [])]" and room: "fs_mark s + 32292 \<le> 8388608"
  shows "\<exists>s'. ramfs_create_default_structure s = Some s' \<and> fs_ok s' \<and> view s' = default_tree
    \<and> fs_mark s' = fs_mark s + 32292"
proof -
  have len: "length hostname_text = 8" "length os_release_text = 118" by (simp_all add: hostname_text_def os_release_text_def)
  obtain a where a: "make_dirs default_dirs s = Some a" "fs_ok a" "fs_mark a = fs_mark s + 26800"
      "view a = dirs_tree default_dirs [[] \<mapsto> (RAMFS_TYPE_DIR, 493, [], [])]"
    using make_dirs_shown [of default_dirs s] default_dirs_fit ok room by (auto simp: v default_dirs_def)
  have "dir_fits ''/etc/hostname'' (view a)" by (simp add: dir_fits_def default_files_fit default_dirs_at a)
  from create_text_shown [OF this a(2), of hostname_text 420] obtain b
    where b: "ramfs_create_file ''/etc/hostname'' 420 a = Some b" "fs_ok (set_text hostname_text b)"
      "fs_mark (set_text hostname_text b) = fs_mark s + 28152"
      "view (set_text hostname_text b) = (view a)([''etc'', ''hostname''] \<mapsto> (RAMFS_TYPE_FILE, 420, [], map byte_of hostname_text))"
    using a(3) room by (auto simp: len default_files_fit)
  have "dir_fits ''/etc/os-release'' (view (set_text hostname_text b))"
    by (simp add: dir_fits_def default_files_fit default_dirs_at a b(4))
  from create_text_shown [OF this b(2), of os_release_text 420] obtain c
    where c: "ramfs_create_file ''/etc/os-release'' 420 (set_text hostname_text b) = Some c" "fs_ok (set_text os_release_text c)"
      "fs_mark (set_text os_release_text c) = fs_mark s + 29612"
      "view (set_text os_release_text c)
        = (view (set_text hostname_text b))([''etc'', ''os-release''] \<mapsto> (RAMFS_TYPE_FILE, 420, [], map byte_of os_release_text))"
    using b(3) room by (auto simp: len default_files_fit)
  have "dir_fits ''/bin/sh'' (view (set_text os_release_text c))"
    by (simp add: dir_fits_def default_files_fit default_dirs_at a b(4) c(4))
  from create_link_shown [OF this c(2), of "''/bin/blocksh''"] obtain p d
    where d: "ramfs_create_symlink ''/bin/sh'' ''/bin/blocksh'' (set_text os_release_text c) = Some (Some p, d)" "fs_ok d"
      "fs_mark d = fs_mark s + 30952"
      "view d = (view (set_text os_release_text c))([''bin'', ''sh''] \<mapsto> (RAMFS_TYPE_SYMLINK, 511, ''/bin/blocksh'', []))"
    using c(3) room by (auto simp: default_files_fit)
  have "dir_fits ''/usr/bin/cc'' (view d)"
    by (simp add: dir_fits_def default_files_fit default_dirs_at a b(4) c(4) d(4))
  from create_link_shown [OF this d(2), of "''/usr/bin/gcc''"] obtain q e
    where e: "ramfs_create_symlink ''/usr/bin/cc'' ''/usr/bin/gcc'' d = Some (Some q, e)" "fs_ok e"
      "fs_mark e = fs_mark s + 32292"
      "view e = (view d)([''usr'', ''bin'', ''cc''] \<mapsto> (RAMFS_TYPE_SYMLINK, 511, ''/usr/bin/gcc'', []))"
    using d(3) room by (auto simp: default_files_fit)
  have "ramfs_create_default_structure s = Some e"
    by (simp add: ramfs_create_default_structure_def a(1) b(1) c(1) d(1) e(1))
  moreover have "view e = default_tree" by (simp add: e(4) d(4) c(4) b(4) a(4) default_tree_def)
  ultimately show ?thesis using e(2,3) by auto
qed


lemma ramfs_start:
  assumes "heap_ok (r_heap s)" and "inodes s = (\<lambda>_. zero_inode)" and "fs_mark s + 33632 \<le> 8388608"
  shows "\<exists>s'. ramfs_create_default_structure (snd (ramfs_mount mp (snd (ramfs_init s)))) = Some s'
    \<and> fs_ok s' \<and> view s' = default_tree \<and> fs_mark s' = fs_mark s + 33632"
proof -
  have "fs_mark s + 1340 \<le> 8388608" using assms(3) by simp
  note init = ramfs_init_shown [OF assms(1,2) this]
  from default_structure_shown [of "snd (ramfs_mount mp (snd (ramfs_init s)))"] init assms(3)
  show ?thesis by auto
qed

text \<open>
  C7. A file system that is started on an empty table of inodes gets exactly the default tree: every default directory
  with its permissions, the two text files with their contents and the two links with their targets are found
  under their paths, and nothing else is.
\<close>

theorem ramfs_starts_with_default_tree:
  assumes "heap_ok (r_heap s)" and "inodes s = (\<lambda>_. zero_inode)" and "fs_mark s + 33632 \<le> 8388608"
  shows "\<exists>s'. ramfs_create_default_structure (snd (ramfs_mount mp (snd (ramfs_init s)))) = Some s'
    \<and> tree_ok s' \<and> data_ok s' \<and> view s' = default_tree"
  using ramfs_start [OF assms, of mp] by (auto simp: fs_ok_def)

theorem ramfs_starts_with_default_tree_witness:
  "\<exists>s'. ramfs_create_default_structure (snd (ramfs_mount ''/'' (snd (ramfs_init
        (example_fs\<lparr>inodes := (\<lambda>_. zero_inode), r_heap := \<lparr>h_mem = (\<lambda>_. 0), h_ptr = 0\<rparr>\<rparr>))))) = Some s'
    \<and> view s' [''usr'', ''bin'', ''cc''] = Some (RAMFS_TYPE_SYMLINK, 511, ''/usr/bin/gcc'', [])
    \<and> view s' [''no''] = None"
proof -
  have "dirs_tree default_dirs [[] \<mapsto> (RAMFS_TYPE_DIR, 493, [], [])] [''no''] = None" by code_simp
  then show ?thesis
    using ramfs_starts_with_default_tree [of "example_fs\<lparr>inodes := (\<lambda>_. zero_inode), r_heap := \<lparr>h_mem = (\<lambda>_. 0), h_ptr = 0\<rparr>\<rparr>" "''/''"]
    by (auto simp: heap_ok_def default_tree_def)
qed

end
