(* ===== verification/Vfs.thy ===== *)
theory Vfs
  imports Ramfs_Props
begin

text \<open>
  The virtual file system switch \<^verbatim>\<open>vfs.c\<close>: the table of mount points, the table of file
  descriptors and the dispatch to the file system of a mount. The file systems are reached
  through \<open>fs_ops\<close>, one field per call of \<^verbatim>\<open>vfs.c\<close> into \<^verbatim>\<open>ext4.c\<close>, \<^verbatim>\<open>ramfs.c\<close>, \<^verbatim>\<open>procfs.c\<close> and
  the FAT32 driver (which is not in the repository), over a state \<open>'b\<close> of all file systems; what
  a call returns is reduced to what the switch looks at. The last section plugs in the model of
  the memory file system. A pointer to the data of a mounted file system is a number.
\<close>

section \<open>State\<close>

definition VFS_MAX_MOUNTS :: nat where "VFS_MAX_MOUNTS = 16"

definition VFS_MAX_FDS :: nat where "VFS_MAX_FDS = 256"

definition VFS_MAX_PATH :: nat where "VFS_MAX_PATH = 1024"

definition VFS_MAX_NAME :: nat where "VFS_MAX_NAME = 256"

definition VFS_FS_RAMFS :: u8 where "VFS_FS_RAMFS = 0"

definition VFS_FS_FAT32 :: u8 where "VFS_FS_FAT32 = 1"

definition VFS_FS_EXT4 :: u8 where "VFS_FS_EXT4 = 2"

definition VFS_FS_PROCFS :: u8 where "VFS_FS_PROCFS = 3"

definition VFS_O_RDONLY :: u32 where "VFS_O_RDONLY = 0"

definition VFS_O_WRONLY :: u32 where "VFS_O_WRONLY = 1"

definition VFS_O_CREAT :: u32 where "VFS_O_CREAT = 4"

lemmas vfs_consts = VFS_MAX_MOUNTS_def VFS_MAX_FDS_def VFS_MAX_PATH_def VFS_MAX_NAME_def
  VFS_FS_RAMFS_def VFS_FS_FAT32_def VFS_FS_EXT4_def VFS_FS_PROCFS_def VFS_O_RDONLY_def
  VFS_O_WRONLY_def VFS_O_CREAT_def

type_synonym fs_ptr = nat

record vfs_mount_t =
  m_path :: string
  m_fs_type :: u8
  m_fs_data :: fs_ptr
  m_active :: bool

record vfs_fd =
  fd_position :: u32
  fd_flags :: u32
  fd_active :: bool

record 'b fs_ops =
  ext4_open_op :: "fs_ptr \<Rightarrow> string \<Rightarrow> u32 \<Rightarrow> 'b \<Rightarrow> bool \<times> 'b"
  fat32_open_op :: "fs_ptr \<Rightarrow> string \<Rightarrow> 'b \<Rightarrow> bool \<times> 'b"
  ramfs_open_op :: "fs_ptr \<Rightarrow> string \<Rightarrow> u32 \<Rightarrow> 'b \<Rightarrow> bool \<times> 'b"
  procfs_open_op :: "fs_ptr \<Rightarrow> string \<Rightarrow> 'b \<Rightarrow> bool \<times> 'b"
  ext4_mkdir_op :: "fs_ptr \<Rightarrow> string \<Rightarrow> u32 \<Rightarrow> 'b \<Rightarrow> bool \<times> 'b"
  ramfs_mkdir_op :: "fs_ptr \<Rightarrow> string \<Rightarrow> u32 \<Rightarrow> 'b \<Rightarrow> bool \<times> 'b"
  ext4_unlink_op :: "fs_ptr \<Rightarrow> string \<Rightarrow> 'b \<Rightarrow> bool \<times> 'b"
  ramfs_unlink_op :: "fs_ptr \<Rightarrow> string \<Rightarrow> 'b \<Rightarrow> bool \<times> 'b"
  ext4_exists_op :: "fs_ptr \<Rightarrow> string \<Rightarrow> 'b \<Rightarrow> bool"
  ramfs_exists_op :: "fs_ptr \<Rightarrow> string \<Rightarrow> 'b \<Rightarrow> bool"
  ext4_rename_op :: "fs_ptr \<Rightarrow> string \<Rightarrow> string \<Rightarrow> 'b \<Rightarrow> bool \<times> 'b"
  fat32_new_op :: "'b \<Rightarrow> fs_ptr option \<times> 'b"
  ext4_new_op :: "string \<Rightarrow> 'b \<Rightarrow> fs_ptr option \<times> 'b"
  ramfs_new_op :: "string \<Rightarrow> 'b \<Rightarrow> fs_ptr option \<times> 'b"
  procfs_new_op :: "string \<Rightarrow> 'b \<Rightarrow> fs_ptr option \<times> 'b"

record 'b vfs =
  mounts :: "nat \<Rightarrow> vfs_mount_t"
  mount_count :: u32
  fds :: "nat \<Rightarrow> vfs_fd"
  backend :: 'b

definition vfs_init :: "'b vfs \<Rightarrow> 'b vfs" where
  "vfs_init v = v\<lparr>mounts := (\<lambda>_. \<lparr>m_path = [], m_fs_type = 0, m_fs_data = 0, m_active = False\<rparr>),
     mount_count := 0, fds := (\<lambda>_. \<lparr>fd_position = 0, fd_flags = 0, fd_active = False\<rparr>)\<rparr>"

section \<open>Mount points\<close>

text \<open>\<open>strncmp(path, m, strlen(m)) == 0\<close>: the mount path is a prefix, at any character.\<close>

definition is_prefix :: "string \<Rightarrow> string \<Rightarrow> bool" where
  "is_prefix m path \<longleftrightarrow> take (length m) path = m"

fun best_mount :: "'b vfs \<Rightarrow> string \<Rightarrow> nat list \<Rightarrow> nat option \<Rightarrow> int \<Rightarrow> nat option" where
  "best_mount v path [] best best_len = best"
| "best_mount v path (i # is) best best_len =
     (if \<not> m_active (mounts v i) then best_mount v path is best best_len
      else let len = int (length (m_path (mounts v i))) in
           if is_prefix (m_path (mounts v i)) path \<and> len > best_len
           then best_mount v path is (Some i) len
           else best_mount v path is best best_len)"

definition vfs_find_mount :: "string \<Rightarrow> 'b vfs \<Rightarrow> nat option" where
  "vfs_find_mount path v = best_mount v path [0..<VFS_MAX_MOUNTS] None (- 1)"

definition vfs_mount :: "string \<Rightarrow> u8 \<Rightarrow> fs_ptr \<Rightarrow> 'b vfs \<Rightarrow> bool \<times> 'b vfs" where
  "vfs_mount path fs_type fs_data v =
     (case first_index (\<lambda>i. \<not> m_active (mounts v i)) VFS_MAX_MOUNTS of
        Some i \<Rightarrow> (True, v\<lparr>mounts := (mounts v)(i := (mounts v i)\<lparr>m_path := take (VFS_MAX_PATH - 1) path,
                      m_fs_type := fs_type, m_fs_data := fs_data, m_active := True\<rparr>),
                    mount_count := mount_count v + 1\<rparr>)
      | None \<Rightarrow> (False, v))"

definition vfs_umount :: "string \<Rightarrow> 'b vfs \<Rightarrow> bool \<times> 'b vfs" where
  "vfs_umount path v =
     (case first_index (\<lambda>i. m_active (mounts v i) \<and> m_path (mounts v i) = path) VFS_MAX_MOUNTS of
        Some i \<Rightarrow> (True, v\<lparr>mounts := (mounts v)(i := (mounts v i)\<lparr>m_active := False\<rparr>),
                         mount_count := mount_count v - 1\<rparr>)
      | None \<Rightarrow> (False, v))"

section \<open>File descriptors\<close>

definition vfs_alloc_fd :: "'b vfs \<Rightarrow> nat option" where
  "vfs_alloc_fd v = first_index (\<lambda>i. \<not> fd_active (fds v i)) VFS_MAX_FDS"

definition rel_path :: "vfs_mount_t \<Rightarrow> string \<Rightarrow> string" where
  "rel_path m path = drop (length (m_path m)) path"

definition fs_open :: "'b fs_ops \<Rightarrow> vfs_mount_t \<Rightarrow> string \<Rightarrow> u32 \<Rightarrow> 'b \<Rightarrow> bool \<times> 'b" where
  "fs_open ops m rel flags b =
     (if m_fs_type m = VFS_FS_EXT4 then ext4_open_op ops (m_fs_data m) rel flags b
      else if m_fs_type m = VFS_FS_FAT32 then fat32_open_op ops (m_fs_data m) rel b
      else if m_fs_type m = VFS_FS_RAMFS then ramfs_open_op ops (m_fs_data m) rel flags b
      else if m_fs_type m = VFS_FS_PROCFS then procfs_open_op ops (m_fs_data m) rel b
      else (True, b))"

text \<open>The handle the file system returns is dropped: the descriptor keeps no reference to it.\<close>

definition vfs_open :: "'b fs_ops \<Rightarrow> string \<Rightarrow> u32 \<Rightarrow> 'b vfs \<Rightarrow> int \<times> 'b vfs" where
  "vfs_open ops path flags v =
     (case vfs_find_mount path v of
        None \<Rightarrow> (- 1, v)
      | Some m \<Rightarrow>
          (case vfs_alloc_fd v of
             None \<Rightarrow> (- 1, v)
           | Some fd \<Rightarrow>
               let mount = mounts v m;
                   rel = rel_path mount path;
                   rel = (if rel = [] then ''/'' else rel);
                   v = v\<lparr>fds := (fds v)(fd := \<lparr>fd_position = 0, fd_flags = flags, fd_active = True\<rparr>)\<rparr>;
                   (ok, b) = fs_open ops mount rel flags (backend v);
                   v = v\<lparr>backend := b\<rparr> in
               if \<not> ok then (- 1, v\<lparr>fds := (fds v)(fd := (fds v fd)\<lparr>fd_active := False\<rparr>)\<rparr>)
               else (int fd, v)))"

definition vfs_close :: "int \<Rightarrow> 'b vfs \<Rightarrow> bool \<times> 'b vfs" where
  "vfs_close fd v =
     (if fd < 0 \<or> fd \<ge> int VFS_MAX_FDS \<or> \<not> fd_active (fds v (nat fd)) then (False, v)
      else (True, v\<lparr>fds := (fds v)(nat fd := (fds v (nat fd))\<lparr>fd_active := False\<rparr>)\<rparr>))"

definition vfs_read :: "int \<Rightarrow> u32 \<Rightarrow> 'b vfs \<Rightarrow> u32" where
  "vfs_read fd sz v =
     (if fd < 0 \<or> fd \<ge> int VFS_MAX_FDS \<or> \<not> fd_active (fds v (nat fd)) then 0 else 0)"

definition vfs_write :: "int \<Rightarrow> u8 list \<Rightarrow> 'b vfs \<Rightarrow> u32" where
  "vfs_write fd buf v =
     (if fd < 0 \<or> fd \<ge> int VFS_MAX_FDS \<or> \<not> fd_active (fds v (nat fd)) then 0 else 0)"

definition vfs_seek :: "int \<Rightarrow> u32 \<Rightarrow> 'b vfs \<Rightarrow> bool \<times> 'b vfs" where
  "vfs_seek fd offset v =
     (if fd < 0 \<or> fd \<ge> int VFS_MAX_FDS then (False, v)
      else (True, v\<lparr>fds := (fds v)(nat fd := (fds v (nat fd))\<lparr>fd_position := offset\<rparr>)\<rparr>))"

definition vfs_tell :: "int \<Rightarrow> 'b vfs \<Rightarrow> u32" where
  "vfs_tell fd v =
     (if fd < 0 \<or> fd \<ge> int VFS_MAX_FDS then 0 else fd_position (fds v (nat fd)))"

section \<open>Operations on paths\<close>

definition vfs_mkdir :: "'b fs_ops \<Rightarrow> string \<Rightarrow> u32 \<Rightarrow> 'b vfs \<Rightarrow> bool \<times> 'b vfs" where
  "vfs_mkdir ops path mode v =
     (case vfs_find_mount path v of
        None \<Rightarrow> (False, v)
      | Some i \<Rightarrow>
          let m = mounts v i; rel = rel_path m path in
          if m_fs_type m = VFS_FS_EXT4 then
            (let (r, b) = ext4_mkdir_op ops (m_fs_data m) rel mode (backend v) in (r, v\<lparr>backend := b\<rparr>))
          else if m_fs_type m = VFS_FS_RAMFS then
            (let (r, b) = ramfs_mkdir_op ops (m_fs_data m) rel mode (backend v) in (r, v\<lparr>backend := b\<rparr>))
          else (False, v))"

definition vfs_unlink :: "'b fs_ops \<Rightarrow> string \<Rightarrow> 'b vfs \<Rightarrow> bool \<times> 'b vfs" where
  "vfs_unlink ops path v =
     (case vfs_find_mount path v of
        None \<Rightarrow> (False, v)
      | Some i \<Rightarrow>
          let m = mounts v i; rel = rel_path m path in
          if m_fs_type m = VFS_FS_EXT4 then
            (let (r, b) = ext4_unlink_op ops (m_fs_data m) rel (backend v) in (r, v\<lparr>backend := b\<rparr>))
          else if m_fs_type m = VFS_FS_RAMFS then
            (let (r, b) = ramfs_unlink_op ops (m_fs_data m) rel (backend v) in (r, v\<lparr>backend := b\<rparr>))
          else (False, v))"

definition vfs_exists :: "'b fs_ops \<Rightarrow> string \<Rightarrow> 'b vfs \<Rightarrow> bool" where
  "vfs_exists ops path v =
     (case vfs_find_mount path v of
        None \<Rightarrow> False
      | Some i \<Rightarrow>
          let m = mounts v i; rel = rel_path m path in
          if m_fs_type m = VFS_FS_EXT4 then ext4_exists_op ops (m_fs_data m) rel (backend v)
          else if m_fs_type m = VFS_FS_RAMFS then ramfs_exists_op ops (m_fs_data m) rel (backend v)
          else False)"

text \<open>
  \<open>newp + strlen(m->path)\<close> is inside \<open>newp\<close> only when \<open>newp\<close> is as long as the mount path;
  \<^term>\<open>None\<close> is a pointer past its end.
\<close>

definition vfs_rename :: "'b fs_ops \<Rightarrow> string \<Rightarrow> string \<Rightarrow> 'b vfs \<Rightarrow> (bool \<times> 'b vfs) option" where
  "vfs_rename ops old newp v =
     (case vfs_find_mount old v of
        None \<Rightarrow> Some (False, v)
      | Some i \<Rightarrow>
          let m = mounts v i in
          if m_fs_type m = VFS_FS_EXT4 then
            if length newp < length (m_path m) then None
            else let (r, b) = ext4_rename_op ops (m_fs_data m) (rel_path m old) (rel_path m newp) (backend v)
                 in Some (r, v\<lparr>backend := b\<rparr>)
          else Some (False, v))"

text \<open>What \<open>vfs_stat\<close> stores in the caller's node, which is otherwise zeroed.\<close>

definition vfs_stat :: "string \<Rightarrow> 'b vfs \<Rightarrow> (string \<times> u8) option" where
  "vfs_stat path v =
     (case vfs_find_mount path v of
        None \<Rightarrow> None
      | Some i \<Rightarrow> Some (take (VFS_MAX_NAME - 1) path, m_fs_type (mounts v i)))"

definition vfs_resolve :: "string \<Rightarrow> fs_ptr option" where
  "vfs_resolve path = None"

section \<open>Mounting a new file system\<close>

definition mount_new :: "fs_ptr option \<times> 'b \<Rightarrow> string \<Rightarrow> u8 \<Rightarrow> 'b vfs \<Rightarrow> bool \<times> 'b vfs" where
  "mount_new r path fs_type v =
     (case r of
        (None, b) \<Rightarrow> (False, v\<lparr>backend := b\<rparr>)
      | (Some fs, b) \<Rightarrow> vfs_mount path fs_type fs (v\<lparr>backend := b\<rparr>))"

definition vfs_mount_fat32 :: "'b fs_ops \<Rightarrow> 'b vfs \<Rightarrow> bool \<times> 'b vfs" where
  "vfs_mount_fat32 ops v = mount_new (fat32_new_op ops (backend v)) ''/mnt'' VFS_FS_FAT32 v"

definition vfs_mount_ext4 :: "'b fs_ops \<Rightarrow> string \<Rightarrow> 'b vfs \<Rightarrow> bool \<times> 'b vfs" where
  "vfs_mount_ext4 ops point v = mount_new (ext4_new_op ops point (backend v)) point VFS_FS_EXT4 v"

definition vfs_mount_ramfs :: "'b fs_ops \<Rightarrow> string \<Rightarrow> 'b vfs \<Rightarrow> bool \<times> 'b vfs" where
  "vfs_mount_ramfs ops point v = mount_new (ramfs_new_op ops point (backend v)) point VFS_FS_RAMFS v"

definition vfs_mount_procfs :: "'b fs_ops \<Rightarrow> string \<Rightarrow> 'b vfs \<Rightarrow> bool \<times> 'b vfs" where
  "vfs_mount_procfs ops point v = mount_new (procfs_new_op ops point (backend v)) point VFS_FS_PROCFS v"

section \<open>The longest prefix wins\<close>

definition covers :: "'b vfs \<Rightarrow> string \<Rightarrow> nat \<Rightarrow> bool" where
  "covers v path i \<longleftrightarrow> m_active (mounts v i) \<and> is_prefix (m_path (mounts v i)) path"

definition mount_len :: "'b vfs \<Rightarrow> nat \<Rightarrow> int" where
  "mount_len v i = int (length (m_path (mounts v i)))"

lemma best_mount_spec:
  fixes v :: "'b vfs"
  assumes "best_mount v path idxs b bl = r"
    and "\<And>j. b = Some j \<Longrightarrow> bl = mount_len v j \<and> covers v path j"
  shows "(case r of None \<Rightarrow> b = None
      | Some j \<Rightarrow> covers v path j \<and> (b = Some j \<or> j \<in> set idxs) \<and> bl \<le> mount_len v j)
    \<and> (\<forall>i \<in> set idxs. covers v path i \<longrightarrow> mount_len v i \<le> (case r of None \<Rightarrow> bl | Some j \<Rightarrow> mount_len v j))"
  using assms
proof (induction idxs arbitrary: b bl)
  case Nil
  then show ?case by (auto split: option.splits)
next
  case (Cons i idxs)
  show ?case
  proof (cases "covers v path i \<and> mount_len v i > bl")
    case True
    then have r: "best_mount v path idxs (Some i) (mount_len v i) = r"
      using Cons.prems(1) by (simp add: covers_def mount_len_def)
    from Cons.IH [OF r] True show ?thesis by (force split: option.splits)
  next
    case False
    then have r: "best_mount v path idxs b bl = r"
      using Cons.prems(1) by (auto simp: covers_def mount_len_def Let_def split: if_splits)
    from Cons.IH [OF r Cons.prems(2)] False show ?thesis by (fastforce split: option.splits)
  qed
qed

lemma vfs_find_mount_spec:
  "case vfs_find_mount path v of
     None \<Rightarrow> \<forall>i < 16. \<not> covers v path i
   | Some j \<Rightarrow> j < 16 \<and> covers v path j
       \<and> (\<forall>i < 16. covers v path i \<longrightarrow> mount_len v i \<le> mount_len v j)"
  using best_mount_spec [OF refl, where b = None and v = v and path = path and idxs = "[0..<16]" and bl = "- 1"]
  by (auto simp: vfs_find_mount_def vfs_consts mount_len_def split: option.splits)

section \<open>The descriptor table\<close>

definition fd_alloc :: "u32 \<Rightarrow> 'b vfs \<Rightarrow> (nat \<times> 'b vfs) option" where
  "fd_alloc flags v =
     map_option (\<lambda>fd. (fd, v\<lparr>fds := (fds v)(fd := \<lparr>fd_position = 0, fd_flags = flags, fd_active = True\<rparr>)\<rparr>))
       (vfs_alloc_fd v)"

interpretation fd_slots: slot_table "\<lambda>v i. fd_active (fds v i)" VFS_MAX_FDS "fd_alloc flags"
    "\<lambda>i v. snd (vfs_close (int i) v)" for flags
proof
  show "fd_active (fds s i)" if "fd_alloc flags s = None" "i < VFS_MAX_FDS" for s :: "'a vfs" and i
    using that by (auto simp: fd_alloc_def vfs_alloc_fd_def first_index_None_iff)
  show "i < VFS_MAX_FDS \<and> \<not> fd_active (fds s i) \<and> (\<forall>j < i. fd_active (fds s j))
      \<and> (\<lambda>k. fd_active (fds s' k)) = (\<lambda>k. fd_active (fds s k))(i := True)"
    if "fd_alloc flags s = Some (i, s')" for s :: "'a vfs" and i s'
    using that by (auto simp: fd_alloc_def vfs_alloc_fd_def fun_eq_iff dest!: first_index_SomeD)
  show "(\<lambda>k. fd_active (fds (snd (vfs_close (int i) s)) k)) = (\<lambda>k. fd_active (fds s k))(i := False)"
    if "i < VFS_MAX_FDS" for i and s :: "'a vfs"
    using that by (auto simp: vfs_close_def vfs_consts fun_eq_iff)
qed

section \<open>The memory file system behind the switch\<close>

text \<open>
  The one memory file system as the back end; a state \<^term>\<open>None\<close> says that one of its calls
  had no defined outcome. The calls of the other file systems stay those of \<open>ops\<close>.
\<close>

definition lift_ramfs :: "(ramfs \<Rightarrow> ('r \<times> ramfs) option) \<Rightarrow> ('r \<Rightarrow> bool) \<Rightarrow> ramfs option \<Rightarrow> bool \<times> ramfs option" where
  "lift_ramfs f ok b =
     (case b of None \<Rightarrow> (False, None)
      | Some s \<Rightarrow> (case f s of None \<Rightarrow> (False, None) | Some (r, s') \<Rightarrow> (ok r, Some s')))"

definition SIZEOF_RAMFS :: u32 where "SIZEOF_RAMFS = 1048"

definition ramfs_new :: "string \<Rightarrow> ramfs option \<Rightarrow> fs_ptr option \<times> ramfs option" where
  "ramfs_new point b =
     (case b of None \<Rightarrow> (None, None)
      | Some s \<Rightarrow>
          (case malloc SIZEOF_RAMFS (r_heap s) of
             (None, h) \<Rightarrow> (None, Some (s\<lparr>r_heap := h\<rparr>))
           | (Some a, h) \<Rightarrow>
               let s = snd (ramfs_init (s\<lparr>r_heap := h\<rparr>));
                   s = snd (ramfs_mount point s) in
               (case ramfs_create_default_structure s of
                  None \<Rightarrow> (None, None)
                | Some s \<Rightarrow> (Some (unat a), Some s))))"

definition ramfs_ops :: "ramfs option fs_ops \<Rightarrow> ramfs option fs_ops" where
  "ramfs_ops ops = ops\<lparr>
     ramfs_open_op := (\<lambda>fs path flags. lift_ramfs (ramfs_open path flags) (\<lambda>f. f \<noteq> None)),
     ramfs_mkdir_op := (\<lambda>fs path mode. lift_ramfs (ramfs_create_dir path mode) (\<lambda>d. d \<noteq> None)),
     ramfs_unlink_op := (\<lambda>fs path. lift_ramfs (ramfs_delete path) (\<lambda>r. r)),
     ramfs_exists_op := (\<lambda>fs path b. case b of None \<Rightarrow> False | Some s \<Rightarrow>
        (case ramfs_find s path of Some (Some _) \<Rightarrow> True | _ \<Rightarrow> False)),
     ramfs_new_op := ramfs_new\<rparr>"

lemma ramfs_opsI:
  assumes "vfs_find_mount path v = Some m" and "m_fs_type (mounts v m) = VFS_FS_RAMFS"
    and "backend v = Some s"
  shows "vfs_mkdir (ramfs_ops ops) path mode v =
       (case ramfs_create_dir (rel_path (mounts v m) path) mode s of
          None \<Rightarrow> (False, v\<lparr>backend := None\<rparr>) | Some (d, s') \<Rightarrow> (d \<noteq> None, v\<lparr>backend := Some s'\<rparr>))"
    and "vfs_unlink (ramfs_ops ops) path v =
       (case ramfs_delete (rel_path (mounts v m) path) s of
          None \<Rightarrow> (False, v\<lparr>backend := None\<rparr>) | Some (r, s') \<Rightarrow> (r, v\<lparr>backend := Some s'\<rparr>))"
    and "vfs_exists (ramfs_ops ops) path v \<longleftrightarrow> (\<exists>p. ramfs_find s (rel_path (mounts v m) path) = Some (Some p))"
  using assms
  by (auto simp: vfs_mkdir_def vfs_unlink_def vfs_exists_def ramfs_ops_def lift_ramfs_def Let_def vfs_consts
      split: option.splits)

section \<open>Properties\<close>

text \<open>
  C32. A path is served by an active mount whose path is a prefix of it, and no active mount
  with a longer matching path exists; the lookup fails only when no active mount matches.
\<close>

theorem vfs_longest_prefix:
  "case vfs_find_mount path v of
     None \<Rightarrow> \<not> (\<exists>i < 16. covers v path i)
   | Some j \<Rightarrow> j < 16 \<and> covers v path j
       \<and> \<not> (\<exists>i < 16. covers v path i \<and> length (m_path (mounts v j)) < length (m_path (mounts v i)))"
  using vfs_find_mount_spec [where path = path and v = v] by (auto simp: mount_len_def split: option.splits)

text \<open>
  C33. \<open>vfs_open\<close> hands out the lowest free descriptor, with position 0 and the flags given,
  when a mount covers the path, a descriptor is free and the file system opens the file; on
  every failure it returns -1 and no descriptor changes its state between free and used.
\<close>

theorem vfs_open_result:
  assumes "vfs_open ops path flags v = (r, v')"
  shows "if r = - 1 then (\<forall>i. fd_active (fds v' i) = fd_active (fds v i))
    else \<exists>fd. r = int fd \<and> fd < 256 \<and> \<not> fd_active (fds v fd)
       \<and> \<not> (\<exists>j < fd. \<not> fd_active (fds v j))
       \<and> fds v' = (fds v)(fd := \<lparr>fd_position = 0, fd_flags = flags, fd_active = True\<rparr>)
       \<and> (\<exists>m. vfs_find_mount path v = Some m)"
proof (cases "vfs_find_mount path v")
  case None
  then show ?thesis using assms by (simp add: vfs_open_def)
next
  case (Some m)
  show ?thesis
  proof (cases "vfs_alloc_fd v")
    case None
    then show ?thesis using assms Some by (simp add: vfs_open_def)
  next
    case fd: (Some fd)
    then have f: "fd < 256 \<and> \<not> fd_active (fds v fd) \<and> (\<forall>j < fd. fd_active (fds v j))"
      unfolding vfs_alloc_fd_def vfs_consts by (auto dest: first_index_SomeD)
    let ?rel = "if rel_path (mounts v m) path = [] then ''/'' else rel_path (mounts v m) path"
    obtain ok b where o: "fs_open ops (mounts v m) ?rel flags (backend v) = (ok, b)" by fastforce
    have "(r, v') = (if \<not> ok then (- 1, v\<lparr>fds := (fds v)(fd := \<lparr>fd_position = 0, fd_flags = flags, fd_active = False\<rparr>), backend := b\<rparr>)
        else (int fd, v\<lparr>fds := (fds v)(fd := \<lparr>fd_position = 0, fd_flags = flags, fd_active = True\<rparr>), backend := b\<rparr>))"
      using assms Some fd o by (auto simp: vfs_open_def Let_def)
    with f Some show ?thesis by (cases ok) auto
  qed
qed

definition example_vfs :: "ramfs option vfs" where
  "example_vfs = \<lparr>mounts = (\<lambda>i. \<lparr>m_path = ''/'', m_fs_type = 0, m_fs_data = 0, m_active = (i = 0)\<rparr>),
     mount_count = 1, fds = (\<lambda>_. \<lparr>fd_position = 0, fd_flags = 0, fd_active = False\<rparr>),
     backend = Some example_fs\<rparr>"

lemma example_vfs_find: "vfs_find_mount ''/a'' example_vfs = Some 0"
proof -
  have c: "covers example_vfs ''/a'' i \<longleftrightarrow> i = 0" for i
    by (simp add: covers_def example_vfs_def is_prefix_def)
  note spec = vfs_find_mount_spec [where path = "''/a''" and v = example_vfs]
  show ?thesis
  proof (cases "vfs_find_mount ''/a'' example_vfs")
    case None
    with spec have "\<not> covers example_vfs ''/a'' 0" by simp
    with c show ?thesis by simp
  qed (use spec c in simp)
qed

definition example_ops :: "ramfs option fs_ops" where
  "example_ops = ramfs_ops \<lparr>
     ext4_open_op = (\<lambda>_ _ _ b. (False, b)), fat32_open_op = (\<lambda>_ _ b. (False, b)),
     ramfs_open_op = (\<lambda>_ _ _ b. (False, b)), procfs_open_op = (\<lambda>_ _ b. (False, b)),
     ext4_mkdir_op = (\<lambda>_ _ _ b. (False, b)), ramfs_mkdir_op = (\<lambda>_ _ _ b. (False, b)),
     ext4_unlink_op = (\<lambda>_ _ b. (False, b)), ramfs_unlink_op = (\<lambda>_ _ b. (False, b)),
     ext4_exists_op = (\<lambda>_ _ b. False), ramfs_exists_op = (\<lambda>_ _ b. False),
     ext4_rename_op = (\<lambda>_ _ _ b. (False, b)), fat32_new_op = (\<lambda>b. (None, b)),
     ext4_new_op = (\<lambda>_ b. (None, b)), ramfs_new_op = (\<lambda>_ b. (None, b)),
     procfs_new_op = (\<lambda>_ b. (None, b))\<rparr>"

theorem vfs_open_result_witness:
  "\<exists>r v'. vfs_open example_ops ''/a'' VFS_O_CREAT example_vfs = (r, v')
     \<and> (if r = - 1 then \<not> (\<exists>i. fd_active (fds v' i)) else r = 0)"
proof -
  obtain r v' where o: "vfs_open example_ops ''/a'' VFS_O_CREAT example_vfs = (r, v')" by fastforce
  have f: "\<not> fd_active (fds example_vfs i)" for i by (simp add: example_vfs_def)
  then have "fd = 0" if "\<not> (\<exists>j < fd. \<not> fd_active (fds example_vfs j))" for fd
    using that by (cases fd) auto
  with f vfs_open_result [OF o] o show ?thesis
    by (cases "r = - 1") auto
qed

text \<open>
  The creation flag of the switch does not reach the memory file system, which tests bit 0
  (\<open>VFS_O_WRONLY\<close>) where the switch defines \<open>VFS_O_CREAT\<close> as bit 2: opening a missing file for
  creation fails and creates nothing, opening it for writing tries to create it.
\<close>

theorem vfs_creat_ignored_by_ramfs:
  assumes "vfs_find_mount path v = Some m" and "m_fs_type (mounts v m) = VFS_FS_RAMFS"
    and "backend v = Some s" and "rel_path (mounts v m) path \<noteq> []"
    and "ramfs_find s (rel_path (mounts v m) path) = Some None"
    and "vfs_alloc_fd v = Some fd"
    and "ramfs_create_file (rel_path (mounts v m) path) 420 s = Some (Some p, s')"
    and "fst (malloc SIZEOF_FILE (r_heap s')) \<noteq> None"
  shows "fst (vfs_open (ramfs_ops ops) path VFS_O_CREAT v) = - 1
    \<and> backend (snd (vfs_open (ramfs_ops ops) path VFS_O_CREAT v)) = Some s
    \<and> fst (vfs_open (ramfs_ops ops) path VFS_O_WRONLY v) = int fd"
proof -
  have c: "(4 :: u32) AND 1 = 0" "(1 :: u32) AND 1 \<noteq> 0" by simp_all
  have open_c: "ramfs_open (rel_path (mounts v m) path) VFS_O_CREAT s = Some (None, s)"
    using assms(5) c by (simp add: ramfs_open_def ramfs_find_def vfs_consts)
  have "fs_open (ramfs_ops ops) (mounts v m) (rel_path (mounts v m) path) VFS_O_CREAT (Some s) = (False, Some s)"
    using assms(2) open_c by (simp add: fs_open_def ramfs_ops_def lift_ramfs_def vfs_consts)
  then have 1: "fst (vfs_open (ramfs_ops ops) path VFS_O_CREAT v) = - 1
    \<and> backend (snd (vfs_open (ramfs_ops ops) path VFS_O_CREAT v)) = Some s"
    using assms by (simp add: vfs_open_def Let_def)
  obtain f h where "malloc SIZEOF_FILE (r_heap s') = (Some f, h)"
    using assms(8) by (cases "malloc SIZEOF_FILE (r_heap s')") auto
  then have "\<exists>t. ramfs_open (rel_path (mounts v m) path) VFS_O_WRONLY s = Some (Some f, t)"
    using assms(5,7) c by (simp add: ramfs_open_def ramfs_find_def vfs_consts)
  then obtain t where "fs_open (ramfs_ops ops) (mounts v m) (rel_path (mounts v m) path) VFS_O_WRONLY (Some s)
      = (True, Some t)"
    using assms(2) by (auto simp: fs_open_def ramfs_ops_def lift_ramfs_def vfs_consts)
  then have "fst (vfs_open (ramfs_ops ops) path VFS_O_WRONLY v) = int fd"
    using assms by (simp add: vfs_open_def Let_def)
  with 1 show ?thesis by blast
qed

theorem vfs_creat_ignored_by_ramfs_witness:
  "fst (vfs_open example_ops ''/a'' VFS_O_CREAT example_vfs) = - 1
   \<and> fst (vfs_open example_ops ''/a'' VFS_O_WRONLY example_vfs) = 0"
proof -
  have m: "m_fs_type (mounts example_vfs 0) = VFS_FS_RAMFS" "backend example_vfs = Some example_fs"
      "rel_path (mounts example_vfs 0) ''/a'' = ''a''"
    by (simp_all add: example_vfs_def VFS_FS_RAMFS_def rel_path_def)
  have fd: "vfs_alloc_fd example_vfs = Some 0"
    by (simp add: vfs_alloc_fd_def first_index_Some_iff example_vfs_def VFS_MAX_FDS_def)
  have sp: "split_path ''a'' = Some (''/'', ''a'')"
    by (simp add: split_path_def last_slash_def first_index_def ramfs_consts)
  have f: "find_inode example_fs ''/'' = Some (Some 0)" by (simp add: find_inode_def example_fs_eq)
  have n: "ramfs_find example_fs ''a'' = Some None"
    by (simp add: ramfs_find_def find_inode_def example_fs_eq path_tokens_def zero_inode_def ramfs_consts
        find_child.simps [of _ None])
  obtain p s' where c: "ramfs_create_file ''a'' 420 example_fs = Some (Some p, s')"
      "fst (malloc SIZEOF_FILE (r_heap s')) \<noteq> None"
    using sp f by (simp add: ramfs_create_file_def create_node_def alloc_inode_def malloc_def
        example_fs_eq HEAP_SIZE_def SIZEOF_INODE_def SIZEOF_FILE_def ramfs_consts Let_def
        add_child_def upd_inode_def)
  from vfs_creat_ignored_by_ramfs [OF example_vfs_find m(1,2) _ _ fd, of p s'] m(3) n c
  show ?thesis by (simp add: example_ops_def)
qed

end
