(* ===== verification/Printing.thy ===== *)
theory Printing
  imports Format_Print
begin

text \<open>
  Calls of \<open>snprintf\<close> as the components write them: a format and a list of typed arguments. The
  arguments are laid out on the stack the way the calling convention does (a 64-bit argument as
  two words, low word first; a string as a non-null pointer, numbered here by its position), and
  the routine is the model of \<^verbatim>\<open>kernel/generic.c\<close> in \<^verbatim>\<open>Format_Print\<close>. \<open>sprint_text\<close> gives the
  stored text in closed form.
\<close>

abbreviation LF :: char where "LF \<equiv> CHR 0x0A"

abbreviation TAB :: char where "TAB \<equiv> CHR 0x09"

text \<open>A text of lines, each ended by a line feed.\<close>

definition text_lines :: "string list \<Rightarrow> string" where
  "text_lines ls = concat (map (\<lambda>l. l @ [LF]) ls)"

datatype arg = Str string | U32 u32 | U64 u64

fun arg_words :: "nat \<Rightarrow> arg list \<Rightarrow> u32 list" where
  "arg_words i [] = []"
| "arg_words i (Str s # as) = of_nat (Suc i) # arg_words (Suc i) as"
| "arg_words i (U32 w # as) = w # arg_words (Suc i) as"
| "arg_words i (U64 w # as) = ucast w # ucast (drop_bit 32 w) # arg_words (Suc i) as"

definition arg_string :: "arg list \<Rightarrow> u32 \<Rightarrow> string" where
  "arg_string as p =
     (if p \<noteq> 0 \<and> unat p \<le> length as then (case as ! (unat p - 1) of Str s \<Rightarrow> s | _ \<Rightarrow> []) else [])"

text \<open>The empty text stands for a call that reads past its arguments, which no component makes.\<close>

definition sprint :: "u32 \<Rightarrow> string \<Rightarrow> arg list \<Rightarrow> string" where
  "sprint sz fmt as =
     (case snprintf (arg_string as) sz fmt (arg_words 0 as) of None \<Rightarrow> [] | Some t \<Rightarrow> t)"

section \<open>The text of a call\<close>

fun args_text :: "directive list \<Rightarrow> arg list \<Rightarrow> string option" where
  "args_text [] as = Some []"
| "args_text (Lit c # ds) as = map_option ((#) c) (args_text ds as)"
| "args_text (Dec # ds) (U32 v # as) = map_option ((@) (int_to_str (scast v) 10)) (args_text ds as)"
| "args_text (Unsigned # ds) (U32 v # as) = map_option ((@) (uint_to_str (ucast v) 10)) (args_text ds as)"
| "args_text (Hex # ds) (U32 v # as) = map_option ((@) (uint_to_str (ucast v) 16)) (args_text ds as)"
| "args_text (Long_Unsigned # ds) (U64 v # as) = map_option ((@) (uint_to_str v 10)) (args_text ds as)"
| "args_text (Text # ds) (Str s # as) = map_option ((@) s) (args_text ds as)"
| "args_text (Chr # ds) (U32 v # as) = map_option ((#) (char_of (unat v))) (args_text ds as)"
| "args_text _ _ = None"

lemma u64_of_halves: "u64_of (ucast v) (ucast (drop_bit 32 v)) = v"
proof (rule bit_word_eqI)
  fix n assume "n < LENGTH(64)"
  then show "bit (u64_of (ucast v) (ucast (drop_bit 32 v))) n = bit v n"
    by (auto simp: u64_of_def bit_or_iff bit_push_bit_iff bit_unsigned_iff bit_drop_bit_eq
        dest: bit_imp_le_length)
qed

lemma render_args:
  assumes "args_text ds as = Some s" and "length (pre @ as) < 2 ^ 32"
  shows "render (arg_string (pre @ as)) ds (arg_words (length pre) as) = Some s"
  using assms
proof (induction ds as arbitrary: pre s rule: args_text.induct)
  case (3 ds v as)
  then show ?case using "3.IH" [of _ "pre @ [U32 v]"] by auto
next
  case (4 ds v as)
  then show ?case using "4.IH" [of _ "pre @ [U32 v]"] by auto
next
  case (5 ds v as)
  then show ?case using "5.IH" [of _ "pre @ [U32 v]"] by auto
next
  case (6 ds v as)
  then show ?case using "6.IH" [of _ "pre @ [U64 v]"] by (auto simp: u64_of_halves)
next
  case (7 ds t as)
  have "Suc (length pre) < 2 ^ 32" using "7.prems"(2) by simp
  then have p: "unat (of_nat (Suc (length pre)) :: u32) = Suc (length pre)"
    by (simp only: unat_of_nat) simp
  then have "of_nat (Suc (length pre)) \<noteq> (0 :: u32)" by (metis unat_0 nat.simps(3))
  with p have "arg_string (pre @ Str t # as) (of_nat (Suc (length pre))) = t"
    unfolding arg_string_def by (simp only: p) simp
  with \<open>of_nat (Suc (length pre)) \<noteq> (0 :: u32)\<close> "7.prems" "7.IH" [of _ "pre @ [Str t]"]
  show ?case by (auto simp del: of_nat_Suc)
next
  case (8 ds v as)
  then show ?case using "8.IH" [of _ "pre @ [U32 v]"] by auto
qed auto

lemma sprint_text:
  assumes "parse_fmt fmt = Some ds" and "args_text ds as = Some s" and "length as < 2 ^ 32"
  shows "sprint sz fmt as = take (unat (sz - 1)) s"
  using snprintf_loop_render [OF assms(1) render_args [OF assms(2), of "[]"], of "unat (sz - 1)" "[]"]
    assms(3) by (simp add: sprint_def snprintf_def)

end
