(* ===== verification/Blocksec.thy ===== *)
theory Blocksec
  imports Vfs Printing
begin

text \<open>
  BlockSEC, the mandatory access control of \<^verbatim>\<open>blocksec.c\<close>: the policy (domains and rules), the
  security labels of processes, the access check and the audit log. The operations are those on
  an existing object, after the test for a null pointer; the label table of the file
  (\<open>g_proc_labels\<close>, \<open>g_proc_pids\<close>, \<open>g_proc_label_count\<close>) is a state of its own. The tick counter
  that the log reads is an argument.
\<close>

section \<open>State\<close>

definition BLOCKSEC_MAX_RULES :: nat where "BLOCKSEC_MAX_RULES = 1024"

definition BLOCKSEC_MAX_DOMAINS :: nat where "BLOCKSEC_MAX_DOMAINS = 64"

definition BLOCKSEC_LOG_SIZE :: nat where "BLOCKSEC_LOG_SIZE = 512"

definition BLOCKSEC_MODE_DISABLED :: u8 where "BLOCKSEC_MODE_DISABLED = 0"

definition BLOCKSEC_MODE_PERMISSIVE :: u8 where "BLOCKSEC_MODE_PERMISSIVE = 1"

definition BLOCKSEC_MODE_ENFORCING :: u8 where "BLOCKSEC_MODE_ENFORCING = 2"

definition BLOCKSEC_PERM_READ :: u32 where "BLOCKSEC_PERM_READ = 1"

definition BLOCKSEC_PERM_WRITE :: u32 where "BLOCKSEC_PERM_WRITE = 2"

definition BLOCKSEC_PERM_EXEC :: u32 where "BLOCKSEC_PERM_EXEC = 4"

definition BLOCKSEC_PERM_CREATE :: u32 where "BLOCKSEC_PERM_CREATE = 8"

definition BLOCKSEC_PERM_DELETE :: u32 where "BLOCKSEC_PERM_DELETE = 16"

definition BLOCKSEC_PERM_CONNECT :: u32 where "BLOCKSEC_PERM_CONNECT = 128"

definition BLOCKSEC_PERM_SEND :: u32 where "BLOCKSEC_PERM_SEND = 512"

definition BLOCKSEC_PERM_RECV :: u32 where "BLOCKSEC_PERM_RECV = 1024"

definition BLOCKSEC_PERM_FORK :: u32 where "BLOCKSEC_PERM_FORK = 2048"

definition BLOCKSEC_PERM_KILL :: u32 where "BLOCKSEC_PERM_KILL = 4096"

definition BLOCKSEC_PERM_ALL :: u32 where "BLOCKSEC_PERM_ALL = 0xFFFFFFFF"

definition BLOCKSEC_CLASS_FILE :: u8 where "BLOCKSEC_CLASS_FILE = 0"

definition BLOCKSEC_CLASS_PROCESS :: u8 where "BLOCKSEC_CLASS_PROCESS = 2"

definition BLOCKSEC_CLASS_SOCKET :: u8 where "BLOCKSEC_CLASS_SOCKET = 3"

lemmas sec_sizes = BLOCKSEC_MAX_RULES_def BLOCKSEC_MAX_DOMAINS_def BLOCKSEC_LOG_SIZE_def

lemmas sec_modes = BLOCKSEC_MODE_DISABLED_def BLOCKSEC_MODE_PERMISSIVE_def
  BLOCKSEC_MODE_ENFORCING_def

lemmas sec_perms = BLOCKSEC_PERM_READ_def BLOCKSEC_PERM_WRITE_def BLOCKSEC_PERM_EXEC_def
  BLOCKSEC_PERM_CREATE_def BLOCKSEC_PERM_DELETE_def BLOCKSEC_PERM_CONNECT_def
  BLOCKSEC_PERM_SEND_def BLOCKSEC_PERM_RECV_def BLOCKSEC_PERM_FORK_def BLOCKSEC_PERM_KILL_def
  BLOCKSEC_PERM_ALL_def

lemmas sec_classes = BLOCKSEC_CLASS_FILE_def BLOCKSEC_CLASS_PROCESS_def BLOCKSEC_CLASS_SOCKET_def

record sec_label =
  l_user :: string
  l_role :: string
  l_type :: string
  l_level :: u32

record sec_rule =
  source_type :: string
  target_type :: string
  object_class :: u8
  permissions :: u32
  allow :: bool
  rule_name :: string

record sec_domain =
  domain_name :: string
  domain_label :: sec_label
  allowed_perms :: u32
  privileged :: bool
  confined :: bool

record sec_log =
  log_timestamp :: u64
  log_pid :: u32
  log_source :: string
  log_target :: string
  log_class :: u8
  log_perm :: u32
  log_allowed :: bool
  log_message :: string

record blocksec =
  sec_mode :: u8
  rules :: "nat \<Rightarrow> sec_rule"
  rule_count :: u32
  domains :: "nat \<Rightarrow> sec_domain"
  domain_count :: u32
  audit :: "nat \<Rightarrow> sec_log"
  log_head :: u32
  log_count :: u32
  denied_count :: u32
  allowed_count :: u32

record label_table =
  proc_labels :: "nat \<Rightarrow> sec_label"
  proc_pids :: "nat \<Rightarrow> u32"
  proc_label_count :: u32

definition zero_label :: sec_label where
  "zero_label = \<lparr>l_user = [], l_role = [], l_type = [], l_level = 0\<rparr>"

definition zero_blocksec :: blocksec where
  "zero_blocksec = \<lparr>sec_mode = 0,
     rules = (\<lambda>_. \<lparr>source_type = [], target_type = [], object_class = 0, permissions = 0,
                   allow = False, rule_name = []\<rparr>),
     rule_count = 0,
     domains = (\<lambda>_. \<lparr>domain_name = [], domain_label = zero_label, allowed_perms = 0,
                     privileged = False, confined = False\<rparr>),
     domain_count = 0,
     audit = (\<lambda>_. \<lparr>log_timestamp = 0, log_pid = 0, log_source = [], log_target = [], log_class = 0,
                   log_perm = 0, log_allowed = False, log_message = []\<rparr>),
     log_head = 0, log_count = 0, denied_count = 0, allowed_count = 0\<rparr>"

definition no_labels :: label_table where
  "no_labels = \<lparr>proc_labels = (\<lambda>_. zero_label), proc_pids = (\<lambda>_. 0), proc_label_count = 0\<rparr>"

definition blocksec_set_mode :: "u8 \<Rightarrow> blocksec \<Rightarrow> blocksec" where
  "blocksec_set_mode mode sec = sec\<lparr>sec_mode := mode\<rparr>"

text \<open>
  The texts \<^verbatim>\<open>blocksec_set_mode\<close> and \<^verbatim>\<open>blocksec_print_stats\<close> write into a buffer of their own, accented
  letters as their UTF-8 bytes; the buffer is dropped.
\<close>

definition mode_name :: "u8 \<Rightarrow> string" where
  "mode_name mode = [''disabled'', ''permissive'', ''enforcing''] ! (if mode < 3 then unat mode else 0)"

definition mode_text :: "u8 \<Rightarrow> string" where
  "mode_text mode =
     sprint 64 (text_lines [''BlockSEC: m'' @ [CHR 0xC3, CHR 0xB3] @ ''d v'' @ [CHR 0xC3, CHR 0xA1]
       @ ''lt'' @ [CHR 0xC3, CHR 0xA1] @ ''s -> %s'']) [Str (mode_name mode)]"

definition stats_text :: "blocksec \<Rightarrow> string" where
  "stats_text sec =
     sprint 256 (text_lines
       [''BlockSEC Statisztika:'',
        ''  M'' @ [CHR 0xC3, CHR 0xB3] @ ''d:      %s'',
        ''  Szab'' @ [CHR 0xC3, CHR 0xA1] @ ''lyok:%u'',
        ''  Dom'' @ [CHR 0xC3, CHR 0xA9] @ ''nek:  %u'',
        ''  Engedve:  %u'',
        ''  Tiltva:   %u''])
       [Str (mode_name (sec_mode sec)), U32 (rule_count sec), U32 (domain_count sec),
        U32 (allowed_count sec), U32 (denied_count sec)]"

definition blocksec_get_mode :: "blocksec option \<Rightarrow> u8" where
  "blocksec_get_mode sec = (case sec of None \<Rightarrow> BLOCKSEC_MODE_DISABLED | Some sec \<Rightarrow> sec_mode sec)"

section \<open>Rules\<close>

definition blocksec_add_rule ::
  "string \<Rightarrow> string \<Rightarrow> u8 \<Rightarrow> u32 \<Rightarrow> bool \<Rightarrow> string \<Rightarrow> blocksec \<Rightarrow> bool \<times> blocksec" where
  "blocksec_add_rule src tgt cls perms alw name sec =
     (if unat (rule_count sec) \<ge> BLOCKSEC_MAX_RULES then (False, sec)
      else (True, sec\<lparr>rules := (rules sec)(unat (rule_count sec) :=
                        \<lparr>source_type = take 31 src, target_type = take 31 tgt, object_class = cls,
                         permissions = perms, allow = alw, rule_name = take 63 name\<rparr>),
                     rule_count := rule_count sec + 1\<rparr>))"

definition blocksec_remove_rule :: "string \<Rightarrow> blocksec \<Rightarrow> bool \<times> blocksec" where
  "blocksec_remove_rule name sec =
     (case first_index (\<lambda>i. rule_name (rules sec i) = name) (unat (rule_count sec)) of
        None \<Rightarrow> (False, sec)
      | Some i \<Rightarrow> (True, sec\<lparr>rules := shift_down i (unat (rule_count sec - 1)) (rules sec),
                            rule_count := rule_count sec - 1\<rparr>))"

section \<open>Domains\<close>

text \<open>
  The fields of the entry are assigned, the level of its label is kept. The result is the index
  of the new domain; the counter is converted to \<open>int\<close>.
\<close>

definition blocksec_add_domain :: "string \<Rightarrow> bool \<Rightarrow> bool \<Rightarrow> blocksec \<Rightarrow> int \<times> blocksec" where
  "blocksec_add_domain name priv conf sec =
     (if unat (domain_count sec) \<ge> BLOCKSEC_MAX_DOMAINS then (- 1, sec)
      else let i = unat (domain_count sec); d = domains sec i;
               d = d\<lparr>domain_name := take 31 name,
                     domain_label := (domain_label d)\<lparr>l_type := take 31 name, l_user := ''blocksec_u'',
                        l_role := (if priv then ''system_r'' else ''user_r'')\<rparr>,
                     privileged := priv, confined := conf,
                     allowed_perms := (if priv then BLOCKSEC_PERM_ALL else 0)\<rparr> in
           (int i, sec\<lparr>domains := (domains sec)(i := d), domain_count := domain_count sec + 1\<rparr>))"

definition blocksec_get_domain :: "string \<Rightarrow> blocksec \<Rightarrow> nat option" where
  "blocksec_get_domain name sec =
     first_index (\<lambda>i. domain_name (domains sec i) = name) (unat (domain_count sec))"

section \<open>Process labels\<close>

definition blocksec_set_process_label :: "u32 \<Rightarrow> sec_label \<Rightarrow> label_table \<Rightarrow> bool \<times> label_table" where
  "blocksec_set_process_label pid label t =
     (case first_index (\<lambda>i. proc_pids t i = pid) (unat (proc_label_count t)) of
        Some i \<Rightarrow> (True, t\<lparr>proc_labels := (proc_labels t)(i := label)\<rparr>)
      | None \<Rightarrow>
          if unat (proc_label_count t) \<ge> 256 then (False, t)
          else let n = unat (proc_label_count t) in
               (True, t\<lparr>proc_pids := (proc_pids t)(n := pid), proc_labels := (proc_labels t)(n := label),
                       proc_label_count := proc_label_count t + 1\<rparr>))"

definition blocksec_get_process_label :: "u32 \<Rightarrow> label_table \<Rightarrow> sec_label option" where
  "blocksec_get_process_label pid t =
     map_option (proc_labels t) (first_index (\<lambda>i. proc_pids t i = pid) (unat (proc_label_count t)))"

definition blocksec_transition :: "u32 \<Rightarrow> string \<Rightarrow> blocksec \<Rightarrow> label_table \<Rightarrow> bool \<times> label_table" where
  "blocksec_transition pid new_domain sec t =
     (case blocksec_get_domain new_domain sec of
        None \<Rightarrow> (False, t)
      | Some d \<Rightarrow> blocksec_set_process_label pid (domain_label (domains sec d)) t)"

section \<open>Audit log\<close>

definition class_name :: "u8 \<Rightarrow> string" where
  "class_name cls =
     (if unat cls < 8
      then [''file'', ''dir'', ''process'', ''socket'', ''device'', ''pipe'', ''shm'', ''kernel''] ! unat cls
      else ''unknown'')"

definition avc_message :: "u32 \<Rightarrow> string \<Rightarrow> string \<Rightarrow> u8 \<Rightarrow> u32 \<Rightarrow> bool \<Rightarrow> string" where
  "avc_message pid src tgt cls perm allowed =
     sprint 127 ''%s: avc: %s { %s%s%s%s } pid=%u scontext=%s tcontext=%s tclass=%s''
       [Str (if allowed then ''ALLOW'' else ''DENY''), Str (if allowed then ''allowed'' else ''denied''),
        Str (if perm AND BLOCKSEC_PERM_READ \<noteq> 0 then ''read '' else []),
        Str (if perm AND BLOCKSEC_PERM_WRITE \<noteq> 0 then ''write '' else []),
        Str (if perm AND BLOCKSEC_PERM_EXEC \<noteq> 0 then ''exec '' else []),
        Str (if perm AND BLOCKSEC_PERM_CREATE \<noteq> 0 then ''create '' else []),
        U32 pid, Str src, Str tgt, Str (class_name cls)]"

definition log_entry :: "u64 \<Rightarrow> u32 \<Rightarrow> string \<Rightarrow> string \<Rightarrow> u8 \<Rightarrow> u32 \<Rightarrow> bool \<Rightarrow> sec_log" where
  "log_entry ticks pid src tgt cls perm allowed =
     \<lparr>log_timestamp = ticks, log_pid = pid, log_source = take 31 src, log_target = take 31 tgt,
      log_class = cls, log_perm = perm, log_allowed = allowed,
      log_message = avc_message pid src tgt cls perm allowed\<rparr>"

definition blocksec_log ::
  "u64 \<Rightarrow> u32 \<Rightarrow> string \<Rightarrow> string \<Rightarrow> u8 \<Rightarrow> u32 \<Rightarrow> bool \<Rightarrow> blocksec \<Rightarrow> blocksec" where
  "blocksec_log ticks pid src tgt cls perm allowed sec =
     sec\<lparr>audit := (audit sec)(unat (log_head sec) mod BLOCKSEC_LOG_SIZE :=
                    log_entry ticks pid src tgt cls perm allowed),
         log_head := log_head sec + 1,
         log_count := (if unat (log_count sec) < BLOCKSEC_LOG_SIZE then log_count sec + 1
                       else log_count sec)\<rparr>"

definition blocksec_get_log :: "u32 \<Rightarrow> blocksec \<Rightarrow> sec_log list" where
  "blocksec_get_log max_n sec =
     (let n = (if log_count sec < max_n then log_count sec else max_n) in
      map (\<lambda>i. audit sec (unat (log_head sec - n + of_nat i) mod BLOCKSEC_LOG_SIZE)) [0..<unat n])"

section \<open>The access check\<close>

definition rule_matches :: "string \<Rightarrow> string \<Rightarrow> u8 \<Rightarrow> u32 \<Rightarrow> sec_rule \<Rightarrow> bool" where
  "rule_matches type target cls perm r \<longleftrightarrow>
     (source_type r = type \<or> source_type r = ''any_t'')
     \<and> (target_type r = target \<or> target_type r = ''any_t'')
     \<and> object_class r = cls \<and> permissions r AND perm \<noteq> 0"

fun scan_rules :: "string \<Rightarrow> string \<Rightarrow> u8 \<Rightarrow> u32 \<Rightarrow> sec_rule list \<Rightarrow> bool \<times> bool \<Rightarrow> bool \<times> bool" where
  "scan_rules type target cls perm [] found = found"
| "scan_rules type target cls perm (r # rs) (found_allow, found_deny) =
     (if \<not> rule_matches type target cls perm r
      then scan_rules type target cls perm rs (found_allow, found_deny)
      else if allow r then scan_rules type target cls perm rs (True, found_deny)
      else scan_rules type target cls perm rs (found_allow, True))"

definition blocksec_check ::
  "u64 \<Rightarrow> label_table \<Rightarrow> u32 \<Rightarrow> string \<Rightarrow> u8 \<Rightarrow> u32 \<Rightarrow> blocksec \<Rightarrow> bool \<times> blocksec" where
  "blocksec_check ticks t pid target cls perm sec =
     (if sec_mode sec = BLOCKSEC_MODE_DISABLED then (True, sec)
      else case blocksec_get_process_label pid t of
        None \<Rightarrow> (sec_mode sec \<noteq> BLOCKSEC_MODE_ENFORCING, sec)
      | Some label \<Rightarrow>
          let (found_allow, found_deny) = scan_rules (l_type label) target cls perm
                (arr_list (rules sec) (unat (rule_count sec))) (False, False);
              allowed = (if found_deny then False else found_allow);
              sec = blocksec_log ticks pid (l_type label) target cls perm allowed sec in
          if \<not> allowed then
            (sec_mode sec = BLOCKSEC_MODE_PERMISSIVE, sec\<lparr>denied_count := denied_count sec + 1\<rparr>)
          else (True, sec\<lparr>allowed_count := allowed_count sec + 1\<rparr>))"

definition path_type :: "string \<Rightarrow> string" where
  "path_type path =
     (let type = ''any_t'';
          type = (if take 5 path = ''/home'' then ''user_home_t'' else type);
          type = (if take 4 path = ''/sys'' then ''system_file_t'' else type);
          type = (if take 5 path = ''/proc'' then ''proc_t'' else type);
          type = (if take 4 path = ''/dev'' then ''device_t'' else type);
          type = (if take 4 path = ''/etc'' then ''config_file_t'' else type) in
      if take 4 path = ''/bin'' then ''system_file_t'' else type)"

definition blocksec_check_file ::
  "u64 \<Rightarrow> label_table \<Rightarrow> u32 \<Rightarrow> string \<Rightarrow> u32 \<Rightarrow> blocksec \<Rightarrow> bool \<times> blocksec" where
  "blocksec_check_file ticks t pid path perm sec =
     blocksec_check ticks t pid (path_type path) BLOCKSEC_CLASS_FILE perm sec"

definition blocksec_check_process ::
  "u64 \<Rightarrow> label_table \<Rightarrow> u32 \<Rightarrow> u32 \<Rightarrow> u32 \<Rightarrow> blocksec \<Rightarrow> bool \<times> blocksec" where
  "blocksec_check_process ticks t src dst perm sec =
     blocksec_check ticks t src (sprint 16 ''pid_%u'' [U32 dst]) BLOCKSEC_CLASS_PROCESS perm sec"

definition blocksec_check_network ::
  "u64 \<Rightarrow> label_table \<Rightarrow> u32 \<Rightarrow> u32 \<Rightarrow> blocksec \<Rightarrow> bool \<times> blocksec" where
  "blocksec_check_network ticks t pid perm sec =
     blocksec_check ticks t pid ''network_t'' BLOCKSEC_CLASS_SOCKET perm sec"

section \<open>Policies\<close>

definition default_domains :: "(string \<times> bool \<times> bool) list" where
  "default_domains =
     [(''kernel_t'', True, False), (''init_t'', True, False), (''user_t'', False, True),
      (''shell_t'', False, True), (''gui_t'', False, True), (''network_t'', False, True),
      (''untrusted_t'', False, True)]"

definition default_rules :: "(string \<times> string \<times> u8 \<times> u32 \<times> bool \<times> string) list" where
  "default_rules =
     [(''kernel_t'', ''any_t'', BLOCKSEC_CLASS_FILE, BLOCKSEC_PERM_ALL, True, ''kernel_all''),
      (''init_t'', ''system_file_t'', BLOCKSEC_CLASS_FILE, BLOCKSEC_PERM_READ OR BLOCKSEC_PERM_EXEC,
        True, ''init_read_sys''),
      (''user_t'', ''user_home_t'', BLOCKSEC_CLASS_FILE,
        BLOCKSEC_PERM_READ OR BLOCKSEC_PERM_WRITE OR BLOCKSEC_PERM_CREATE, True, ''user_home_rw''),
      (''user_t'', ''system_file_t'', BLOCKSEC_CLASS_FILE, BLOCKSEC_PERM_WRITE OR BLOCKSEC_PERM_DELETE,
        False, ''user_no_sys_write''),
      (''shell_t'', ''user_home_t'', BLOCKSEC_CLASS_FILE, BLOCKSEC_PERM_READ OR BLOCKSEC_PERM_EXEC,
        True, ''shell_exec''),
      (''gui_t'', ''any_t'', BLOCKSEC_CLASS_FILE, BLOCKSEC_PERM_READ, True, ''gui_read_all''),
      (''network_t'', ''any_t'', BLOCKSEC_CLASS_SOCKET,
        BLOCKSEC_PERM_CONNECT OR BLOCKSEC_PERM_SEND OR BLOCKSEC_PERM_RECV, True, ''net_socket''),
      (''untrusted_t'', ''user_home_t'', BLOCKSEC_CLASS_FILE, BLOCKSEC_PERM_READ, True,
        ''untrusted_read_home''),
      (''untrusted_t'', ''system_file_t'', BLOCKSEC_CLASS_FILE, BLOCKSEC_PERM_ALL, False,
        ''untrusted_no_sys''),
      (''untrusted_t'', ''any_t'', BLOCKSEC_CLASS_PROCESS, BLOCKSEC_PERM_FORK OR BLOCKSEC_PERM_KILL,
        False, ''untrusted_no_proc'')]"

definition blocksec_load_default_policy :: "blocksec \<Rightarrow> blocksec" where
  "blocksec_load_default_policy sec =
     fold (\<lambda>(src, tgt, cls, perms, alw, name) sec. snd (blocksec_add_rule src tgt cls perms alw name sec))
       default_rules
       (fold (\<lambda>(name, priv, conf) sec. snd (blocksec_add_domain name priv conf sec)) default_domains sec)"

definition blocksec_init :: "blocksec \<Rightarrow> bool \<times> blocksec" where
  "blocksec_init sec =
     (True, blocksec_load_default_policy (zero_blocksec\<lparr>sec_mode := BLOCKSEC_MODE_PERMISSIVE\<rparr>))"

text \<open>
  The read loop of the policy loader; its body looks for \<^verbatim>\<open><allow\<close> in the buffer and changes
  nothing else. It might not end, so the number of turns it takes is a fuel.
\<close>

fun read_policy :: "nat \<Rightarrow> int \<Rightarrow> 'b vfs \<Rightarrow> blocksec \<Rightarrow> blocksec option" where
  "read_policy 0 fd v sec = None"
| "read_policy (Suc fuel) fd v sec =
     (if vfs_read fd 4095 v > 0 then read_policy fuel fd v sec else Some sec)"

definition blocksec_load_xml_policy ::
  "nat \<Rightarrow> 'b fs_ops \<Rightarrow> string option \<Rightarrow> 'b vfs \<Rightarrow> blocksec \<Rightarrow> (bool \<times> blocksec \<times> 'b vfs) option" where
  "blocksec_load_xml_policy fuel ops xml_path v sec =
     (case xml_path of
        None \<Rightarrow> Some (False, sec, v)
      | Some path \<Rightarrow>
          (case vfs_open ops path VFS_O_RDONLY v of
             (fd, v) \<Rightarrow>
               if fd < 0 then Some (False, sec, v)
               else map_option (\<lambda>sec. (True, sec, snd (vfs_close fd v))) (read_policy fuel fd v sec)))"

definition blocksec_load_policy_file ::
  "nat \<Rightarrow> 'b fs_ops \<Rightarrow> string option \<Rightarrow> 'b vfs \<Rightarrow> blocksec \<Rightarrow> (bool \<times> blocksec \<times> 'b vfs) option" where
  "blocksec_load_policy_file fuel ops path v sec = blocksec_load_xml_policy fuel ops path v sec"

section \<open>Rule lists\<close>

definition rule_list :: "blocksec \<Rightarrow> sec_rule list" where
  "rule_list sec = arr_list (rules sec) (unat (rule_count sec))"

definition policy_allows :: "sec_rule list \<Rightarrow> string \<Rightarrow> string \<Rightarrow> u8 \<Rightarrow> u32 \<Rightarrow> bool" where
  "policy_allows rs type target cls perm \<longleftrightarrow>
     (\<exists>r \<in> set rs. rule_matches type target cls perm r \<and> allow r)
     \<and> (\<forall>r \<in> set rs. rule_matches type target cls perm r \<longrightarrow> allow r)"

lemma scan_rules_eq:
  "scan_rules type target cls perm rs (a, d) =
     (a \<or> (\<exists>r \<in> set rs. rule_matches type target cls perm r \<and> allow r),
      d \<or> (\<exists>r \<in> set rs. rule_matches type target cls perm r \<and> \<not> allow r))"
  by (induction rs arbitrary: a d) auto

lemma policy_allows_append:
  "policy_allows (rs @ [r]) type target cls perm \<longleftrightarrow>
     (if rule_matches type target cls perm r
      then allow r \<and> (\<forall>r' \<in> set rs. rule_matches type target cls perm r' \<longrightarrow> allow r')
      else policy_allows rs type target cls perm)"
  by (auto simp: policy_allows_def)

lemma policy_allows_deny:
  "policy_allows (rs @ [r\<lparr>allow := False\<rparr>]) type target cls perm \<longleftrightarrow>
     policy_allows rs type target cls perm \<and> \<not> rule_matches type target cls perm (r\<lparr>allow := False\<rparr>)"
  unfolding policy_allows_append by (auto simp: policy_allows_def)

lemma add_rule_list:
  assumes "blocksec_add_rule src tgt cls perms alw name sec = (True, sec')"
  shows "rule_list sec' = rule_list sec @ [\<lparr>source_type = take 31 src, target_type = take 31 tgt,
      object_class = cls, permissions = perms, allow = alw, rule_name = take 63 name\<rparr>]"
proof -
  have n: "unat (rule_count sec) < 1024"
    using assms by (auto simp: blocksec_add_rule_def sec_sizes split: if_splits)
  then have "unat (rule_count sec + 1) = Suc (unat (rule_count sec))" by (rule unat_Suc) simp
  with assms n show ?thesis
    by (auto simp: blocksec_add_rule_def sec_sizes rule_list_def array_simps split: if_splits)
qed

lemma remove_rule_list:
  assumes "blocksec_remove_rule name sec = (True, sec')"
  obtains i where "i < length (rule_list sec)" "rule_name (rule_list sec ! i) = name"
    "\<And>j. j < i \<Longrightarrow> rule_name (rule_list sec ! j) \<noteq> name"
    "rule_list sec' = take i (rule_list sec) @ drop (Suc i) (rule_list sec)"
proof -
  obtain i where f: "first_index (\<lambda>i. rule_name (rules sec i) = name) (unat (rule_count sec)) = Some i"
    using assms by (auto simp: blocksec_remove_rule_def split: option.splits)
  note i = first_index_SomeD [OF f]
  then have "rule_count sec \<noteq> 0" by auto
  then have c: "unat (rule_count sec - 1) = unat (rule_count sec) - 1" by (rule unat_pred)
  from assms f have "sec' = sec\<lparr>rules := shift_down i (unat (rule_count sec - 1)) (rules sec),
      rule_count := rule_count sec - 1\<rparr>"
    by (auto simp: blocksec_remove_rule_def)
  then have "rule_list sec' = take i (rule_list sec) @ drop (Suc i) (rule_list sec)"
    using i by (simp add: rule_list_def c arr_list_shift_down [unfolded One_nat_def])
  with i show thesis by (intro that [of i]) (auto simp: rule_list_def)
qed

section \<open>The audit trail\<close>

definition audit_trail :: "blocksec \<Rightarrow> sec_log list" where
  "audit_trail sec =
     ring_list 512 (audit sec) (unat (log_head sec - log_count sec)) (unat (log_count sec))"

lemma length_audit_trail [simp]: "length (audit_trail sec) = unat (log_count sec)"
  by (simp add: audit_trail_def)

lemma ring_list_slide:
  assumes "0 < sz"
  shows "ring_list sz (a(h mod sz := x)) (Suc h) sz = tl (ring_list sz a h sz) @ [x]"
proof -
  obtain c where c: "sz = Suc c" using assms by (cases sz) auto
  have "Suc h + c = h + sz" by (simp add: c)
  then have slot: "(Suc h + c) mod sz = h mod sz" by (metis mod_add_self2)
  have "ring_list sz (a((Suc h + c) mod sz := x)) (Suc h) (Suc c) = ring_list sz a (Suc h) c @ [x]"
    by (rule ring_list_enq) (simp add: c)
  moreover have "tl (ring_list sz a h (Suc c)) = ring_list sz a (Suc h) c"
    by (simp add: ring_list_deq)
  ultimately show ?thesis unfolding slot by (simp only: c)
qed

lemma blocksec_log_trail:
  assumes "unat (log_count sec) \<le> 512"
  shows "audit_trail (blocksec_log ticks pid src tgt cls perm allowed sec) =
    (if unat (log_count sec) < 512 then audit_trail sec else tl (audit_trail sec))
      @ [log_entry ticks pid src tgt cls perm allowed]"
proof (cases "unat (log_count sec) < 512")
  case True
  let ?start = "unat (log_head sec - log_count sec)"
  have "unat (log_head sec) mod 512 = unat ((log_head sec - log_count sec) + log_count sec) mod 512"
    by simp
  also have "\<dots> = (?start + unat (log_count sec)) mod 512" by (rule unat_add_mod) simp
  finally have slot: "unat (log_head sec) mod 512 = (?start + unat (log_count sec)) mod 512" .
  have "unat (log_count sec + 1) = Suc (unat (log_count sec))" by (rule unat_Suc [OF True]) simp
  with True show ?thesis
    by (simp add: audit_trail_def blocksec_log_def sec_sizes slot ring_list_enq)
next
  case False
  with assms have n: "unat (log_count sec) = 512" by simp
  then have c: "log_count sec = 512" by (simp add: word_unat_eq_iff)
  have slot: "unat (log_head sec) mod 512 = unat (log_head sec - 512) mod 512"
    using unat_add_mod [of 512 "log_head sec - 512" 512] by simp
  have "unat (log_head sec - 512 + 1) mod 512 = Suc (unat (log_head sec - 512)) mod 512"
    by (rule unat_Suc_mod) simp
  then have start: "ring_list 512 a (unat (log_head sec - 511)) 512
      = ring_list 512 a (Suc (unat (log_head sec - 512))) 512" for a :: "nat \<Rightarrow> sec_log"
    by (intro ring_list_cong_mod) (simp add: algebra_simps)
  have "ring_list 512 ((audit sec)(unat (log_head sec - 512) mod 512 := x)) (Suc (unat (log_head sec - 512))) 512
      = tl (ring_list 512 (audit sec) (unat (log_head sec - 512)) 512) @ [x]" for x
    by (rule ring_list_slide) simp
  then show ?thesis
    by (simp add: audit_trail_def blocksec_log_def sec_sizes c slot start)
qed

lemma blocksec_get_log_eq:
  assumes "unat (log_count sec) \<le> 512"
  shows "blocksec_get_log max_n sec = drop (length (audit_trail sec) - unat max_n) (audit_trail sec)"
proof -
  let ?n = "if log_count sec < max_n then log_count sec else max_n"
  have n: "unat ?n = min (unat (log_count sec)) (unat max_n)"
    by (simp add: word_less_nat_alt min_def)
  have dv: "512 dvd (2 :: nat) ^ 32" by simp
  have slot: "unat (log_head sec - ?n + of_nat i) mod 512
      = (unat (log_head sec - log_count sec) + (unat (log_count sec) - unat ?n + i)) mod 512"
    if "i < unat ?n" for i
  proof -
    have le: "unat ?n \<le> unat (log_count sec)" using n by simp
    have "unat (log_count sec - ?n + of_nat i) = unat (log_count sec) - unat ?n + i"
    proof -
      have d: "unat (log_count sec - ?n) = unat (log_count sec) - unat ?n"
        using le by (rule unat_sub [unfolded word_le_nat_alt [symmetric], OF word_le_nat_alt [THEN iffD2]])
      have i: "unat (of_nat i :: u32) = i" using that le assms by (simp add: unat_of_nat)
      have "unat (log_count sec - ?n) + unat (of_nat i :: u32) < 2 ^ 32"
        using d i that le assms by simp
      then show ?thesis using d i by (simp add: unat_word_ariths)
    qed
    moreover have "log_head sec - ?n + of_nat i
        = (log_head sec - log_count sec) + (log_count sec - ?n + of_nat i)" by simp
    ultimately show ?thesis
      using unat_add_mod [OF dv, of "log_head sec - log_count sec" "log_count sec - ?n + of_nat i"]
      by (simp only:)
  qed
  show ?thesis
  proof (rule nth_equalityI)
    show "length (blocksec_get_log max_n sec) = length (drop (length (audit_trail sec) - unat max_n) (audit_trail sec))"
      using n by (simp add: blocksec_get_log_def Let_def)
  next
    fix i assume "i < length (blocksec_get_log max_n sec)"
    then have i: "i < unat ?n" by (simp add: blocksec_get_log_def Let_def)
    have "i < unat (log_count sec)" "i < unat max_n" using i n by simp_all
    then have "unat (log_count sec) - unat max_n + i < unat (log_count sec)" by arith
    moreover have "unat (log_count sec) - unat max_n = unat (log_count sec) - unat ?n" using n by simp
    ultimately have "drop (length (audit_trail sec) - unat max_n) (audit_trail sec) ! i
        = audit sec ((unat (log_head sec - log_count sec) + (unat (log_count sec) - unat ?n + i)) mod 512)"
      by (simp only: length_audit_trail nth_drop less_imp_le audit_trail_def ring_list_def length_map
          length_upt nth_map nth_upt diff_zero add_0)
    moreover have "blocksec_get_log max_n sec ! i = audit sec (unat (log_head sec - ?n + of_nat i) mod 512)"
      using i by (simp only: blocksec_get_log_def Let_def sec_sizes nth_map nth_upt length_upt diff_zero add_0)
    ultimately show "blocksec_get_log max_n sec ! i
        = drop (length (audit_trail sec) - unat max_n) (audit_trail sec) ! i"
      by (simp only: slot [OF i])
  qed
qed

lemma check_decision:
  "fst (blocksec_check ticks t pid target cls perm sec) \<longleftrightarrow>
     sec_mode sec = BLOCKSEC_MODE_DISABLED \<or> sec_mode sec = BLOCKSEC_MODE_PERMISSIVE
     \<or> (case blocksec_get_process_label pid t of
          None \<Rightarrow> sec_mode sec \<noteq> BLOCKSEC_MODE_ENFORCING
        | Some l \<Rightarrow> policy_allows (rule_list sec) (l_type l) target cls perm)"
  by (auto simp: blocksec_check_def Let_def scan_rules_eq policy_allows_def rule_list_def sec_modes
      blocksec_log_def split: option.splits)

section \<open>The default policy\<close>

lemma default_policy_rules:
  "rule_list (snd (blocksec_init s)) =
     map (\<lambda>(src, tgt, cls, perms, alw, name). \<lparr>source_type = src, target_type = tgt, object_class = cls,
       permissions = perms, allow = alw, rule_name = name\<rparr>) default_rules"
  by (simp add: blocksec_init_def blocksec_load_default_policy_def default_domains_def default_rules_def
      blocksec_add_domain_def blocksec_add_rule_def zero_blocksec_def sec_sizes Let_def rule_list_def
      arr_list_def upt_rec)

lemma default_policy_untrusted:
  "blocksec_get_domain ''untrusted_t'' (snd (blocksec_init s)) = Some 6"
  "l_type (domain_label (domains (snd (blocksec_init s)) 6)) = ''untrusted_t''"
  by (simp_all add: blocksec_init_def blocksec_load_default_policy_def default_domains_def default_rules_def
      blocksec_add_domain_def blocksec_add_rule_def zero_blocksec_def sec_sizes Let_def
      blocksec_get_domain_def first_index_def upt_rec)

section \<open>Process labels as a map\<close>

lemma set_label_cases:
  "blocksec_set_process_label pid l t =
     (if blocksec_get_process_label pid t = None \<and> 256 \<le> unat (proc_label_count t) then (False, t)
      else (True, snd (blocksec_set_process_label pid l t)))"
  by (auto simp: blocksec_set_process_label_def blocksec_get_process_label_def Let_def split: option.splits)

lemma set_label_map:
  assumes "blocksec_set_process_label pid l t = (True, t')"
  shows "blocksec_get_process_label q t' = (if q = pid then Some l else blocksec_get_process_label q t)"
proof (cases "first_index (\<lambda>i. proc_pids t i = pid) (unat (proc_label_count t))")
  case (Some i)
  then have t': "t' = t\<lparr>proc_labels := (proc_labels t)(i := l)\<rparr>" and i: "proc_pids t i = pid"
    using assms first_index_SomeD [OF Some] by (simp_all add: blocksec_set_process_label_def)
  show ?thesis
  proof (cases "q = pid")
    case True
    with Some t' show ?thesis by (simp add: blocksec_get_process_label_def)
  next
    case False
    with i t' show ?thesis
      by (auto simp: blocksec_get_process_label_def dest: first_index_SomeD
          split: option.split intro!: option.map_cong)
  qed
next
  case None
  let ?n = "unat (proc_label_count t)"
  have n: "?n < 256" and t': "t' = t\<lparr>proc_pids := (proc_pids t)(?n := pid),
      proc_labels := (proc_labels t)(?n := l), proc_label_count := proc_label_count t + 1\<rparr>"
    using assms None by (auto simp: blocksec_set_process_label_def Let_def split: if_splits)
  then have c: "unat (proc_label_count t') = Suc ?n" by (simp add: unat_Suc [OF n])
  have old: "first_index (\<lambda>i. proc_pids t' i = q) ?n = first_index (\<lambda>i. proc_pids t i = q) ?n"
    by (rule first_index_cong) (simp add: t')
  show ?thesis
    using c old None
    by (auto simp: blocksec_get_process_label_def first_index_Suc t' dest: first_index_SomeD split: option.splits)
qed

section \<open>Properties\<close>

text \<open>
  C9. The decision of the access check: access is granted when the system is off or permissive,
  and in every other mode exactly when the label of the process has an allowing rule for the
  target and no denying one (a process without a label passes unless the mode is enforcing).
\<close>

theorem blocksec_check_decision:
  "fst (blocksec_check ticks t pid target cls perm sec) \<longleftrightarrow>
     sec_mode sec = BLOCKSEC_MODE_DISABLED \<or> sec_mode sec = BLOCKSEC_MODE_PERMISSIVE
     \<or> (case blocksec_get_process_label pid t of
          None \<Rightarrow> sec_mode sec \<noteq> BLOCKSEC_MODE_ENFORCING
        | Some l \<Rightarrow> policy_allows (rule_list sec) (l_type l) target cls perm)"
  by (rule check_decision)

text \<open>
  C31. The audit trail, for every process, label and mode. A check on a process without a label, and any check while
  the system is switched off, leaves no trace: nothing is logged or counted, and in enforcing mode the
  process without a label is denied all the same. Every other check appends one entry with the verdict of the policy to the trail of the last
  512 (also when the permissive mode overrules it), increments exactly one of the two counters, and leaves policy and mode as they are.
\<close>

theorem blocksec_check_audits:
  assumes "unat (log_count sec) \<le> 512" and "blocksec_check ticks t pid target cls perm sec = (r, sec')"
  shows "unat (log_count sec') \<le> 512 \<and>
    (case blocksec_get_process_label pid t of
      None \<Rightarrow> sec' = sec \<and> (r \<longleftrightarrow> sec_mode sec \<noteq> BLOCKSEC_MODE_ENFORCING)
    | Some l \<Rightarrow>
        if sec_mode sec = BLOCKSEC_MODE_DISABLED then sec' = sec \<and> r
        else let ok = policy_allows (rule_list sec) (l_type l) target cls perm in
          (r \<longleftrightarrow> ok \<or> sec_mode sec = BLOCKSEC_MODE_PERMISSIVE)
          \<and> audit_trail sec' = (if unat (log_count sec) < 512 then audit_trail sec else tl (audit_trail sec))
              @ [log_entry ticks pid (l_type l) target cls perm ok]
          \<and> denied_count sec' = denied_count sec + (if ok then 0 else 1)
          \<and> allowed_count sec' = allowed_count sec + (if ok then 1 else 0)
          \<and> rule_list sec' = rule_list sec \<and> sec_mode sec' = sec_mode sec)"
proof (cases "blocksec_get_process_label pid t = None \<or> sec_mode sec = BLOCKSEC_MODE_DISABLED")
  case True
  with assms show ?thesis by (auto simp: blocksec_check_def sec_modes split: option.splits if_splits)
next
  case False
  then obtain l where l: "blocksec_get_process_label pid t = Some l" and mode: "sec_mode sec \<noteq> BLOCKSEC_MODE_DISABLED"
    by auto
  let ?ok = "policy_allows (rule_list sec) (l_type l) target cls perm"
  let ?log = "blocksec_log ticks pid (l_type l) target cls perm ?ok sec"
  have "scan_rules (l_type l) target cls perm (rule_list sec) (False, False) = (a, d)
      \<Longrightarrow> (if d then False else a) = ?ok" for a d
    by (auto simp: scan_rules_eq policy_allows_def)
  then have s: "sec' = (if \<not> ?ok then ?log\<lparr>denied_count := denied_count ?log + 1\<rparr>
      else ?log\<lparr>allowed_count := allowed_count ?log + 1\<rparr>)"
    and r: "r \<longleftrightarrow> ?ok \<or> sec_mode sec = BLOCKSEC_MODE_PERMISSIVE"
    using l mode assms(2)
    by (auto simp: blocksec_check_def Let_def rule_list_def blocksec_log_def split: prod.splits if_splits)
  have "audit_trail sec' = audit_trail ?log \<and> denied_count sec' = denied_count sec + (if ?ok then 0 else 1)
      \<and> allowed_count sec' = allowed_count sec + (if ?ok then 1 else 0)
      \<and> rule_list sec' = rule_list sec \<and> sec_mode sec' = sec_mode sec" unfolding s
    by (simp add: audit_trail_def rule_list_def blocksec_log_def)
  moreover have "unat (log_count sec + 1) \<le> 512" if "unat (log_count sec) < 512" using that by unat_arith
  then have "unat (log_count sec') \<le> 512" using assms(1) unfolding s by (simp add: blocksec_log_def sec_sizes)
  ultimately show ?thesis using l mode r by (simp add: Let_def blocksec_log_trail [OF assms(1)])
qed

definition user_label :: sec_label where
  "user_label = \<lparr>l_user = ''blocksec_u'', l_role = ''user_r'', l_type = ''user_t'', l_level = 0\<rparr>"

definition example_labels :: label_table where
  "example_labels = snd (blocksec_set_process_label 7 user_label no_labels)"

lemma example_labels_get: "blocksec_get_process_label 7 example_labels = Some user_label"
  by (simp add: example_labels_def blocksec_set_process_label_def blocksec_get_process_label_def
      no_labels_def first_index_def)

theorem blocksec_check_audits_witness:
  "length (audit_trail (snd (blocksec_check 5 example_labels 7 ''proc_t'' 0 1
       (zero_blocksec\<lparr>sec_mode := 1\<rparr>)))) = 1"
proof -
  let ?sec = "zero_blocksec\<lparr>sec_mode := 1\<rparr>"
  obtain r sec' where c: "blocksec_check 5 example_labels 7 ''proc_t'' 0 1 ?sec = (r, sec')" by fastforce
  from blocksec_check_audits [OF _ c]
  have "length (audit_trail sec') = Suc (length (audit_trail ?sec))"
    by (simp add: example_labels_get zero_blocksec_def Let_def sec_modes)
  with c show ?thesis by (simp add: zero_blocksec_def)
qed

text \<open>The audit log hands out the last \<open>max\<close> decisions, the oldest of them first.\<close>

theorem blocksec_get_log_last:
  assumes "unat (log_count sec) \<le> 512"
  shows "blocksec_get_log max_n sec = drop (unat (log_count sec) - unat max_n) (audit_trail sec)"
  using blocksec_get_log_eq [OF assms] by simp

theorem blocksec_get_log_last_witness:
  "blocksec_get_log 9 zero_blocksec = []"
  using blocksec_get_log_last [of zero_blocksec 9] by (simp add: zero_blocksec_def audit_trail_def)

text \<open>
  A denying rule only takes away: after adding one, exactly those accesses remain allowed that
  were allowed before and that it does not match; removing it by its (fresh) name gives the old
  list of rules back.
\<close>

theorem deny_rule_takes_away:
  assumes "blocksec_add_rule src tgt cls perms False name sec = (True, sec1)"
    and "length name \<le> 63" and "\<not> (\<exists>r \<in> set (rule_list sec). rule_name r = name)"
  shows "(policy_allows (rule_list sec1) type target c p \<longleftrightarrow>
       policy_allows (rule_list sec) type target c p
       \<and> \<not> ((take 31 src = type \<or> take 31 src = ''any_t'')
            \<and> (take 31 tgt = target \<or> take 31 tgt = ''any_t'') \<and> cls = c \<and> perms AND p \<noteq> 0))
    \<and> (\<exists>sec2. blocksec_remove_rule name sec1 = (True, sec2) \<and> rule_list sec2 = rule_list sec)"
proof
  note add = add_rule_list [OF assms(1)]
  show "policy_allows (rule_list sec1) type target c p \<longleftrightarrow>
       policy_allows (rule_list sec) type target c p
       \<and> \<not> ((take 31 src = type \<or> take 31 src = ''any_t'')
            \<and> (take 31 tgt = target \<or> take 31 tgt = ''any_t'') \<and> cls = c \<and> perms AND p \<noteq> 0)"
    using policy_allows_deny [of "rule_list sec" "\<lparr>source_type = take 31 src, target_type = take 31 tgt,
      object_class = cls, permissions = perms, allow = False, rule_name = take 63 name\<rparr>" type target c p]
    unfolding add rule_matches_def sec_rule.simps by (simp only: simp_thms)
  have "rule_name (rule_list sec1 ! length (rule_list sec)) = name"
    using assms(2) by (simp add: add)
  moreover have len: "unat (rule_count sec1) = Suc (length (rule_list sec))"
    using arg_cong [OF add, of length] by (simp add: rule_list_def)
  ultimately have "rule_name (rules sec1 (length (rule_list sec))) = name"
    by (simp add: rule_list_def)
  moreover have "length (rule_list sec) < unat (rule_count sec1)" by (simp add: len)
  ultimately obtain i where
    "first_index (\<lambda>i. rule_name (rules sec1 i) = name) (unat (rule_count sec1)) = Some i"
    by (rule first_index_exists [where P = "\<lambda>i. rule_name (rules sec1 i) = name"])
  then obtain sec2 where rm: "blocksec_remove_rule name sec1 = (True, sec2)"
    by (simp add: blocksec_remove_rule_def)
  then obtain i where i: "i < length (rule_list sec1)" "rule_name (rule_list sec1 ! i) = name"
    "rule_list sec2 = take i (rule_list sec1) @ drop (Suc i) (rule_list sec1)"
    by (rule remove_rule_list)
  have "i = length (rule_list sec)"
  proof (rule ccontr)
    assume "i \<noteq> length (rule_list sec)"
    then have "i < length (rule_list sec)" using i(1) by (simp add: add)
    then have "rule_list sec1 ! i \<in> set (rule_list sec)" by (simp add: add nth_append)
    with i(2) assms(3) show False by blast
  qed
  then have "rule_list sec2 = rule_list sec" using i(3) by (simp add: add)
  with rm show "\<exists>sec2. blocksec_remove_rule name sec1 = (True, sec2) \<and> rule_list sec2 = rule_list sec"
    by blast
qed

theorem deny_rule_takes_away_witness:
  "\<exists>sec1. blocksec_add_rule ''a'' ''b'' 0 2 False ''no'' zero_blocksec = (True, sec1)
     \<and> \<not> policy_allows (rule_list sec1) ''a'' ''b'' 0 2"
proof -
  obtain sec1 where a: "blocksec_add_rule ''a'' ''b'' 0 2 False ''no'' zero_blocksec = (True, sec1)"
    by (simp add: blocksec_add_rule_def zero_blocksec_def sec_sizes)
  have "rule_list zero_blocksec = []" by (simp add: rule_list_def zero_blocksec_def)
  with deny_rule_takes_away [OF a, of "''a''" "''b''" 0 2] a show ?thesis by auto
qed

lemma path_type_home: "path_type path = ''user_home_t'' \<longleftrightarrow> take 5 path = ''/home''"
proof -
  have "take 4 path = ''/hom''" if "take 5 path = ''/home''"
    using arg_cong [OF that, of "take 4"] by (simp add: min_def)
  then show ?thesis by (auto simp: path_type_def Let_def)
qed

text \<open>
  C4. What a process moved to \<open>untrusted_t\<close> may do under the default policy in enforcing mode. A request on a file is
  granted exactly when its path starts with the five characters \<^verbatim>\<open>/home\<close> and the requested permissions contain the reading
  bit, whatever other bits they contain: since a rule applies as soon as it shares one bit with the request,
  asking for reading and writing is granted, although the only rule grants reading; and \<^verbatim>\<open>/homeX\<close> counts
  as a home directory. No request on a process and none on a socket is granted.
\<close>

theorem untrusted_confined:
  assumes "blocksec_transition pid ''untrusted_t'' (snd (blocksec_init s)) t = (True, t')"
  shows "let sec = blocksec_set_mode BLOCKSEC_MODE_ENFORCING (snd (blocksec_init s)) in
    (fst (blocksec_check_file ticks t' pid path perm sec) \<longleftrightarrow>
       take 5 path = ''/home'' \<and> perm AND BLOCKSEC_PERM_READ \<noteq> 0)
    \<and> \<not> fst (blocksec_check_process ticks t' pid dst perm sec)
    \<and> \<not> fst (blocksec_check_network ticks t' pid perm sec)"
proof -
  obtain l where l: "blocksec_get_process_label pid t' = Some l" and ty: "l_type l = ''untrusted_t''"
    using assms set_label_map [of pid _ t t' pid]
    by (auto simp: blocksec_transition_def default_policy_untrusted)
  have rl: "rule_list (blocksec_set_mode m sec) = rule_list sec" for m sec
    by (simp add: blocksec_set_mode_def rule_list_def)
  have "path_type path \<in> {''any_t'', ''user_home_t'', ''system_file_t'', ''proc_t'', ''device_t'', ''config_file_t''}"
    by (simp add: path_type_def Let_def)
  then have "policy_allows (rule_list (snd (blocksec_init s))) ''untrusted_t'' (path_type path) BLOCKSEC_CLASS_FILE perm
      \<longleftrightarrow> path_type path = ''user_home_t'' \<and> perm AND BLOCKSEC_PERM_READ \<noteq> 0"
    by (auto simp: default_policy_rules default_rules_def policy_allows_def rule_matches_def sec_classes
        and.commute [of perm])
  moreover have "\<not> policy_allows (rule_list (snd (blocksec_init s))) ''untrusted_t'' x c perm"
    if "c = BLOCKSEC_CLASS_PROCESS \<or> c = BLOCKSEC_CLASS_SOCKET" for x c
    using that by (auto simp: default_policy_rules default_rules_def policy_allows_def rule_matches_def sec_classes)
  ultimately show ?thesis
    using l ty by (simp add: Let_def blocksec_check_file_def blocksec_check_process_def
        blocksec_check_network_def check_decision rl path_type_home)
       (simp add: blocksec_set_mode_def sec_modes)
qed

theorem untrusted_confined_witness:
  "\<exists>t'. blocksec_transition 7 ''untrusted_t'' (snd (blocksec_init zero_blocksec)) no_labels = (True, t')
     \<and> (let sec = blocksec_set_mode BLOCKSEC_MODE_ENFORCING (snd (blocksec_init zero_blocksec)) in
        \<not> fst (blocksec_check_file 0 t' 7 ''/bin/sh'' BLOCKSEC_PERM_READ sec)
        \<and> fst (blocksec_check_file 0 t' 7 ''/homeX'' (BLOCKSEC_PERM_READ OR BLOCKSEC_PERM_WRITE) sec)
        \<and> \<not> fst (blocksec_check_file 0 t' 7 ''/home/a'' BLOCKSEC_PERM_WRITE sec))"
proof -
  obtain t' where tr: "blocksec_transition 7 ''untrusted_t'' (snd (blocksec_init zero_blocksec)) no_labels = (True, t')"
    by (simp add: blocksec_transition_def default_policy_untrusted blocksec_set_process_label_def
        no_labels_def first_index_def)
  from untrusted_confined [OF tr, of 0 "''/bin/sh''" BLOCKSEC_PERM_READ]
    untrusted_confined [OF tr, of 0 "''/homeX''" "BLOCKSEC_PERM_READ OR BLOCKSEC_PERM_WRITE"]
    untrusted_confined [OF tr, of 0 "''/home/a''" BLOCKSEC_PERM_WRITE] tr
  show ?thesis by (simp add: Let_def sec_perms)
qed

text \<open>
  The label table is a finite map: setting a label changes the label of that process only, and
  it is refused exactly for a process without a label when all 256 entries are in use.
\<close>

theorem set_process_label_updates_map:
  "(case blocksec_set_process_label pid l t of
     (True, t') \<Rightarrow> (\<lambda>q. blocksec_get_process_label q t') = (\<lambda>q. blocksec_get_process_label q t)(pid := Some l)
   | (False, t') \<Rightarrow> t' = t)
   \<and> (fst (blocksec_set_process_label pid l t) \<longleftrightarrow>
        \<not> (blocksec_get_process_label pid t = None \<and> 256 \<le> unat (proc_label_count t)))"
proof -
  obtain ok t' where s: "blocksec_set_process_label pid l t = (ok, t')" by fastforce
  have "ok \<longleftrightarrow> \<not> (blocksec_get_process_label pid t = None \<and> 256 \<le> unat (proc_label_count t))"
    and "\<not> ok \<Longrightarrow> t' = t"
    using set_label_cases [of pid l t] unfolding s by (simp_all split: if_splits)
  moreover have "(\<lambda>q. blocksec_get_process_label q t') = (\<lambda>q. blocksec_get_process_label q t)(pid := Some l)" if ok
    using s that by (intro ext) (simp add: set_label_map)
  ultimately show ?thesis using s by (cases ok) simp_all
qed

text \<open>The text of the statistics is whole: whatever the counters, it fits the 256 bytes of the buffer.\<close>

lemma mode_name_length: "length (mode_name m) \<le> 10"
proof (cases "m < 3")
  case True
  then have "unat m < 3" by (simp add: word_less_nat_alt)
  then have "unat m = 0 \<or> unat m = 1 \<or> unat m = 2" by arith
  with True show ?thesis by (auto simp: mode_name_def)
qed (simp add: mode_name_def)

lemma stats_text_whole:
  "stats_text sec = text_lines
     [''BlockSEC Statisztika:'',
      ''  M'' @ [CHR 0xC3, CHR 0xB3] @ ''d:      '' @ mode_name (sec_mode sec),
      ''  Szab'' @ [CHR 0xC3, CHR 0xA1] @ ''lyok:'' @ uint_to_str (ucast (rule_count sec)) 10,
      ''  Dom'' @ [CHR 0xC3, CHR 0xA9] @ ''nek:  '' @ uint_to_str (ucast (domain_count sec)) 10,
      ''  Engedve:  '' @ uint_to_str (ucast (allowed_count sec)) 10,
      ''  Tiltva:   '' @ uint_to_str (ucast (denied_count sec)) 10]" (is "_ = ?t")
proof -
  have "stats_text sec = take (unat ((256 :: u32) - 1)) ?t"
    unfolding stats_text_def by (rule sprint_text, simp add: conversion_def text_lines_def) (simp_all add: text_lines_def)
  moreover have "length ?t \<le> 255"
    using mode_name_length [of "sec_mode sec"] snprintf_tmp_fits(1) [of "ucast (rule_count sec)"]
      snprintf_tmp_fits(1) [of "ucast (domain_count sec)"] snprintf_tmp_fits(1) [of "ucast (allowed_count sec)"]
      snprintf_tmp_fits(1) [of "ucast (denied_count sec)"]
    by (simp add: text_lines_def)
  ultimately show ?thesis by simp
qed

text \<open>
  Loading a policy file never changes the policy: the reads through the file system switch
  return nothing, so the loop ends at once and the file is reported as loaded whenever it can be
  opened.
\<close>

theorem policy_file_ignored:
  "\<exists>v'. blocksec_load_policy_file (Suc fuel) ops (Some path) v sec
     = Some (fst (vfs_open ops path VFS_O_RDONLY v) \<ge> 0, sec, v')"
  by (auto simp: blocksec_load_policy_file_def blocksec_load_xml_policy_def vfs_read_def split: prod.splits)

end
