(* ===== verification/Network.thy ===== *)
theory Network
  imports Interfaces CString Printing
begin

text \<open>
  The network stack \<^verbatim>\<open>network/network.c\<close> (interface state, checksum, address printing, the socket
  table) and the device layer \<^verbatim>\<open>network/ethernet.c\<close>. The sockets live in \<open>g_net\<close>, of which
  \<open>network_init\<close> makes a copy of the caller's object; \<open>network_send\<close> and \<open>network_recv\<close> work on the
  caller's object. The Ethernet driver behind the function pointers is not in the repository: its
  calls are fields of the device record, over a device state \<open>'d\<close> and frames \<open>'f\<close>.
\<close>

section \<open>State\<close>

definition NET_MAX_SOCKETS :: nat where "NET_MAX_SOCKETS = 32"

definition SOCK_TCP :: u32 where "SOCK_TCP = 0"

definition SOCK_UDP :: u32 where "SOCK_UDP = 1"

definition SOCK_RAW :: u32 where "SOCK_RAW = 2"

record socket =
  so_active :: bool
  so_id :: u32
  so_type :: u32
  local_ip :: u32
  local_port :: u16
  remote_ip :: u32
  remote_port :: u16
  so_connected :: bool

record network =
  mac :: "u8 list"
  own_ip :: u32
  netmask :: u32
  gateway :: u32
  dns :: u32
  net_connected :: bool
  packet_count :: u32
  packets_sent :: u32
  packets_recv :: u32
  bytes_sent :: u32
  bytes_recv :: u32
  sockets :: "nat \<Rightarrow> socket"

definition zero_socket :: socket where
  "zero_socket = \<lparr>so_active = False, so_id = 0, so_type = 0, local_ip = 0, local_port = 0,
     remote_ip = 0, remote_port = 0, so_connected = False\<rparr>"

text \<open>The result of \<open>network_init\<close> is the object and, as its copy, the new \<open>g_net\<close>.\<close>

definition network_init :: "network \<Rightarrow> bool \<times> network \<times> network" where
  "network_init net =
     (let net = \<lparr>mac = [0x52, 0x54, 0, 0x12, 0x34, 0x56],
                 own_ip = push_bit 24 192 OR push_bit 16 168 OR push_bit 8 1 OR 100,
                 netmask = push_bit 24 255 OR push_bit 16 255 OR push_bit 8 255 OR 0,
                 gateway = push_bit 24 192 OR push_bit 16 168 OR push_bit 8 1 OR 1,
                 dns = push_bit 24 8 OR push_bit 16 8 OR push_bit 8 8 OR 8,
                 net_connected = False, packet_count = 0, packets_sent = 0, packets_recv = 0,
                 bytes_sent = 0, bytes_recv = 0, sockets = (\<lambda>_. zero_socket)\<rparr>
      in (True, net, net))"

section \<open>Checksum\<close>

text \<open>The loop over 16-bit words, stored low byte first; the last byte of odd data counts as is.\<close>

fun sum_words :: "u8 list \<Rightarrow> u32 \<Rightarrow> u32" where
  "sum_words [] s = s"
| "sum_words [x] s = s + ucast x"
| "sum_words (x # y # d) s = sum_words d (s + (ucast x + 256 * ucast y))"

text \<open>\<open>while (sum >> 16) sum = (sum & 0xFFFF) + (sum >> 16);\<close>\<close>

lemma unat_drop_16: "unat (drop_bit 16 s) = unat s div 65536" for s :: u32
  unfolding unat_drop_bit_eq by (simp add: drop_bit_eq_div)

lemma unat_low_16: "unat (s AND 0xFFFF) = unat s mod 65536" for s :: u32
proof -
  have "mask 16 = (0xFFFF :: u32)" by (simp add: mask_eq_exp_minus_1)
  with unat_and_mask [of s 16] show ?thesis by simp
qed

lemma unat_fold_step:
  fixes s :: u32
  shows "unat ((s AND 0xFFFF) + drop_bit 16 s) = unat s mod 65536 + unat s div 65536"
proof -
  have "unat s div 65536 < 65536" using unat_u32_less [of s] by simp
  then have "unat (s AND 0xFFFF) + unat (drop_bit 16 s) < 2 ^ 32"
    by (simp only: unat_low_16 unat_drop_16) (simp add: add_less_mono [of _ 65536 _ 65536, THEN less_trans])
  then show ?thesis by (simp add: unat_word_ariths unat_low_16 unat_drop_16)
qed

function fold_sum :: "u32 \<Rightarrow> u32" where
  "fold_sum s = (if drop_bit 16 s \<noteq> 0 then fold_sum ((s AND 0xFFFF) + drop_bit 16 s) else s)"
  by pat_completeness auto
termination
proof (relation "measure unat")
  fix s :: u32
  assume "drop_bit 16 s \<noteq> 0"
  then have "0 < unat s div 65536" by (metis gr0I unat_drop_16 unat_eq_zero)
  then have "unat s mod 65536 + unat s div 65536 < unat s"
    using div_mult_mod_eq [of "unat s" 65536] by linarith
  then show "((s AND 0xFFFF) + drop_bit 16 s, s) \<in> measure unat" by (simp add: unat_fold_step)
qed simp

declare fold_sum.simps [simp del]

definition net_checksum :: "u8 list \<Rightarrow> u16" where
  "net_checksum d = ucast (NOT (fold_sum (sum_words d 0)))"

section \<open>Addresses\<close>

definition net_ip_to_str :: "u32 \<Rightarrow> string" where
  "net_ip_to_str ip = sprint 16 ''%u.%u.%u.%u''
     [U32 (drop_bit 24 ip AND 0xFF), U32 (drop_bit 16 ip AND 0xFF),
      U32 (drop_bit 8 ip AND 0xFF), U32 (ip AND 0xFF)]"

section \<open>Packets\<close>

text \<open>A null pointer for the data or the buffer is \<^term>\<open>None\<close>.\<close>

definition network_send :: "u8 list option \<Rightarrow> u32 \<Rightarrow> network \<Rightarrow> bool \<times> network" where
  "network_send data sz net =
     (if data = None \<or> sz = 0 then (False, net)
      else if \<not> net_connected net then (False, net)
      else (True, net\<lparr>packets_sent := packets_sent net + 1, bytes_sent := bytes_sent net + sz\<rparr>))"

definition network_recv :: "u32 option \<Rightarrow> u32 option \<Rightarrow> network \<Rightarrow> bool \<times> network" where
  "network_recv buffer sz net =
     (if buffer = None \<or> sz = None then (False, net)
      else if \<not> net_connected net then (False, net)
      else (False, net\<lparr>packets_recv := packets_recv net + 1\<rparr>))"

section \<open>Sockets\<close>

abbreviation sock_ok :: "int \<Rightarrow> bool" where
  "sock_ok sock \<equiv> \<not> (sock < 0 \<or> sock \<ge> int NET_MAX_SOCKETS)"

definition upd_socket :: "int \<Rightarrow> (socket \<Rightarrow> socket) \<Rightarrow> network \<Rightarrow> network" where
  "upd_socket i f net = net\<lparr>sockets := (sockets net)(nat i := f (sockets net (nat i)))\<rparr>"

definition socket_create :: "u32 \<Rightarrow> network \<Rightarrow> int \<times> network" where
  "socket_create type g =
     (case first_index (\<lambda>i. \<not> so_active (sockets g i)) NET_MAX_SOCKETS of
        Some i \<Rightarrow> (int i, upd_socket (int i) (\<lambda>s. s\<lparr>so_active := True, so_type := type, so_id := of_nat i\<rparr>) g)
      | None \<Rightarrow> (- 1, g))"

definition socket_bind :: "int \<Rightarrow> u32 \<Rightarrow> u16 \<Rightarrow> network \<Rightarrow> bool \<times> network" where
  "socket_bind sock ip port g =
     (if \<not> sock_ok sock then (False, g)
      else (True, upd_socket sock (\<lambda>s. s\<lparr>local_ip := ip, local_port := port\<rparr>) g))"

definition socket_connect :: "int \<Rightarrow> u32 \<Rightarrow> u16 \<Rightarrow> network \<Rightarrow> bool \<times> network" where
  "socket_connect sock ip port g =
     (if \<not> sock_ok sock then (False, g)
      else (True, upd_socket sock (\<lambda>s. s\<lparr>remote_ip := ip, remote_port := port, so_connected := True\<rparr>) g))"

definition socket_close :: "int \<Rightarrow> network \<Rightarrow> bool \<times> network" where
  "socket_close sock g =
     (if \<not> sock_ok sock then (False, g) else (True, upd_socket sock (\<lambda>_. zero_socket) g))"

text \<open>\<open>(int)size\<close>: sizes from \<open>2^31\<close> on come back negative.\<close>

definition socket_send :: "int \<Rightarrow> u8 list option \<Rightarrow> u32 \<Rightarrow> network \<Rightarrow> int" where
  "socket_send sock data sz g =
     (if \<not> sock_ok sock then - 1
      else if \<not> so_connected (sockets g (nat sock)) then - 1 else sint sz)"

definition socket_recv :: "int \<Rightarrow> u8 list option \<Rightarrow> u32 \<Rightarrow> network \<Rightarrow> int" where
  "socket_recv sock buffer sz g = (if \<not> sock_ok sock then - 1 else 0)"

section \<open>The Ethernet device\<close>

record ('f, 'd) ethernet_device =
  send_frame :: "('f \<Rightarrow> 'd \<Rightarrow> 'd) option"
  receive_frame :: "('d \<Rightarrow> 'f option \<times> 'd) option"
  mac_address :: "u8 list"
  dev_state :: 'd

definition ethernet_register_device ::
  "('f, 'd) ethernet_device option \<Rightarrow> ('f, 'd) ethernet_device option \<Rightarrow> ('f, 'd) ethernet_device option" where
  "ethernet_register_device dev eth_device = dev"

definition ethernet_send_frame ::
  "'f \<Rightarrow> ('f, 'd) ethernet_device option \<Rightarrow> ('f, 'd) ethernet_device option" where
  "ethernet_send_frame frame eth_device =
     (case eth_device of None \<Rightarrow> None
      | Some dev \<Rightarrow>
          (case send_frame dev of None \<Rightarrow> Some dev
           | Some f \<Rightarrow> Some (dev\<lparr>dev_state := f frame (dev_state dev)\<rparr>)))"

definition ethernet_receive_frame ::
  "('f, 'd) ethernet_device option \<Rightarrow> 'f option \<times> ('f, 'd) ethernet_device option" where
  "ethernet_receive_frame eth_device =
     (case eth_device of None \<Rightarrow> (None, None)
      | Some dev \<Rightarrow>
          (case receive_frame dev of None \<Rightarrow> (None, Some dev)
           | Some f \<Rightarrow> (let (r, d) = f (dev_state dev) in (r, Some (dev\<lparr>dev_state := d\<rparr>)))))"

text \<open>Both loops copy six bytes; the caller's array has at least six.\<close>

definition ethernet_set_mac_address ::
  "u8 list \<Rightarrow> ('f, 'd) ethernet_device option \<Rightarrow> ('f, 'd) ethernet_device option" where
  "ethernet_set_mac_address m eth_device = map_option (\<lambda>dev. dev\<lparr>mac_address := take 6 m\<rparr>) eth_device"

definition ethernet_get_mac_address ::
  "u8 list \<Rightarrow> ('f, 'd) ethernet_device option \<Rightarrow> u8 list" where
  "ethernet_get_mac_address m eth_device =
     (case eth_device of None \<Rightarrow> m | Some dev \<Rightarrow> take 6 (mac_address dev) @ drop 6 m)"

section \<open>The one's complement sum\<close>

fun total :: "u8 list \<Rightarrow> nat" where
  "total [] = 0"
| "total [x] = unat x"
| "total (x # y # d) = unat x + 256 * unat y + total d"

lemma unat_u8_less: "unat (x :: u8) < 256"
proof -
  have "unat x < 2 ^ LENGTH(8)" by (rule unsigned_less)
  then show ?thesis by simp
qed

lemma unat_byte: "unat (ucast (x :: u8) :: u32) = unat x"
  using unat_u8_less [of x] by (simp add: unsigned_ucast_eq take_bit_nat_eq_self_iff)

lemma total_bound: "total d \<le> 65535 * ((length d + 1) div 2)"
proof (induction d rule: total.induct)
  case (2 x)
  then show ?case using unat_u8_less [of x] by simp
next
  case (3 x y d)
  have "unat x + 256 * unat y \<le> 65535" using unat_u8_less [of x] unat_u8_less [of y] by simp
  with 3 show ?case by simp
qed simp

lemma sum_words_total:
  "unat s + total d < 2 ^ 32 \<Longrightarrow> unat (sum_words d s) = unat s + total d"
proof (induction d s rule: sum_words.induct)
  case (2 x s)
  then show ?case by (simp add: unat_word_ariths unat_byte)
next
  case (3 x y d s)
  have w: "unat (ucast x + 256 * ucast y :: u32) = unat x + 256 * unat y"
    using unat_u8_less [of x] unat_u8_less [of y] by (simp add: unat_word_ariths unat_byte)
  with "3.prems" have "unat (s + (ucast x + 256 * ucast y)) = unat s + (unat x + 256 * unat y)"
    by (simp add: unat_word_ariths)
  with "3.IH" "3.prems" show ?case by simp
qed simp

lemma total_append: "even (length a) \<Longrightarrow> total (a @ b) = total a + total b"
  by (induction a rule: total.induct) auto

lemma fold_sum_mod:
  "unat (fold_sum s) = (if unat s = 0 then 0 else (unat s - 1) mod 65535 + 1)"
proof (induction s rule: fold_sum.induct)
  case (1 s)
  let ?n = "unat s"
  show ?case
  proof (cases "drop_bit 16 s \<noteq> 0")
    case True
    then have q: "0 < ?n div 65536" by (metis gr0I unat_drop_16 unat_eq_zero)
    let ?m = "?n mod 65536 + ?n div 65536"
    have "?n = 65535 * (?n div 65536) + ?m" using div_mult_mod_eq [of ?n 65536] by linarith
    then have "?n - 1 = 65535 * (?n div 65536) + (?m - 1)" using q by linarith
    then have "(?n - 1) mod 65535 = (?m - 1) mod 65535" by (metis mod_mult_self4 mult.commute)
    moreover have "0 < ?n" using q by (cases "?n = 0") simp_all
    ultimately show ?thesis
      using "1.IH" [OF True] q by (simp add: fold_sum.simps [of s] True unat_fold_step)
  next
    case False
    then have "?n div 65536 = 0" using unat_drop_16 [of s] by simp
    then have "?n < 65536" by (simp add: div_eq_0_iff)
    with False show ?thesis by (auto simp: fold_sum.simps [of s])
  qed
qed

lemma fold_sum_less: "unat (fold_sum s) < 65536"
  by (simp add: fold_sum_mod)

lemma net_checksum_value: "unat (net_checksum d) = 65535 - unat (fold_sum (sum_words d 0))"
proof -
  let ?f = "fold_sum (sum_words d 0)"
  have "ucast (NOT ?f) = NOT (ucast ?f :: u16)" by (rule bit_word_eqI) (auto simp: bit_simps)
  moreover have "unat (ucast ?f :: u16) = unat ?f"
    using fold_sum_less [of "sum_words d 0"] by (simp add: unsigned_ucast_eq take_bit_nat_eq_self_iff)
  moreover have "unat (NOT w) = 65535 - unat w" for w :: u16
  proof -
    have "NOT w = - 1 - w" by (simp add: not_eq_complement)
    moreover have "unat (- 1 - w) = unat (- 1 :: u16) - unat w" by (rule unat_sub) simp
    ultimately show ?thesis by (simp add: unsigned_minus_1_eq_mask mask_eq_exp_minus_1)
  qed
  ultimately show ?thesis by (simp add: net_checksum_def)
qed

definition le_bytes :: "u16 \<Rightarrow> u8 list" where
  "le_bytes w = [ucast w, ucast (drop_bit 8 w)]"

lemma total_le_bytes: "total (le_bytes w) = unat w"
proof -
  have "unat (ucast w :: u8) = unat w mod 256" by (simp add: unsigned_ucast_eq take_bit_eq_mod)
  moreover have "unat (ucast (drop_bit 8 w) :: u8) = unat w div 256"
  proof -
    have "unat w < 2 ^ LENGTH(16)" by (rule unsigned_less)
    then have "unat w div 256 < 256" by simp
    moreover have "unat (drop_bit 8 w) = unat w div 256"
      unfolding unat_drop_bit_eq by (simp add: drop_bit_eq_div)
    ultimately show ?thesis by (simp add: unsigned_ucast_eq take_bit_eq_mod)
  qed
  ultimately show ?thesis by (simp add: le_bytes_def)
qed

section \<open>Printed octets\<close>

lemma printed_octet:
  fixes w :: u32
  assumes "unat w < 256"
  shows "uint_to_str (ucast w) 10 \<noteq> []" and "length (uint_to_str (ucast w) 10) \<le> 3"
    and "\<forall>c \<in> set (uint_to_str (ucast w) 10). isdigit c" and "atoi (uint_to_str (ucast w) 10) = w"
proof -
  have u: "unat (ucast w :: u64) = unat w"
    using assms by (simp add: unsigned_ucast_eq take_bit_nat_eq_self_iff)
  have "uint_to_str (ucast w) 10 \<noteq> [] \<and> length (uint_to_str (ucast w) 10) \<le> 3
      \<and> (\<forall>c \<in> set (uint_to_str (ucast w) 10). isdigit c) \<and> atoi (uint_to_str (ucast w) 10) = w"
  proof (cases "w = 0")
    case True
    then show ?thesis by (simp add: uint_to_str_def isdigit_def)
  next
    case False
    then have pos: "0 < unat w" by (simp add: unat_gt_0)
    then have nz: "(ucast w :: u64) \<noteq> 0" using u by (metis unat_0 less_irrefl)
    have str: "uint_to_str (ucast w) 10 = rev (tmp_digits 10 (unat w))"
      using nz by (simp add: uint_to_str_def u)
    have "length (tmp_digits 10 (unat w)) \<le> 3" using assms by (intro tmp_digits_length) simp
    moreover have "tmp_digits 10 (unat w) \<noteq> []" using pos by (simp add: tmp_digits_step)
    ultimately show ?thesis
      using atoi_digits [OF pos] tmp_digits_isdigit [of _ "unat w"] by (auto simp: str)
  qed
  then show "uint_to_str (ucast w) 10 \<noteq> []" "length (uint_to_str (ucast w) 10) \<le> 3"
    "\<forall>c \<in> set (uint_to_str (ucast w) 10). isdigit c" "atoi (uint_to_str (ucast w) 10) = w" by blast+
qed

lemma octet_less: "unat ((w :: u32) AND 0xFF) < 256"
proof -
  have "mask 8 = (0xFF :: u32)" by (simp add: mask_eq_exp_minus_1)
  with unat_and_mask [of w 8] show ?thesis by simp
qed

lemma fields_octets:
  assumes "\<forall>s \<in> {a, b, c, d}. s \<noteq> [] \<and> (\<forall>x \<in> set s. isdigit x)"
  shows "CString.fields (\<lambda>c. c = CHR ''.'') (a @ CHR ''.'' # b @ CHR ''.'' # c @ CHR ''.'' # d) = [a, b, c, d]"
proof -
  have "CString.fields (\<lambda>c. c = CHR ''.'') s = [s]" if "s \<in> {a, b, c, d}" for s
    using assms that by (intro fields_no_delim) (auto simp: isdigit_def)
  then show ?thesis by (simp add: fields_split)
qed

section \<open>Sockets as a slot table\<close>

definition socket_alloc :: "u32 \<Rightarrow> network \<Rightarrow> (nat \<times> network) option" where
  "socket_alloc type g =
     (case socket_create type g of (i, g') \<Rightarrow> if i = - 1 then None else Some (nat i, g'))"

interpretation sock: slot_table "\<lambda>g i. so_active (sockets g i)" NET_MAX_SOCKETS "socket_alloc type"
    "\<lambda>i g. snd (socket_close (int i) g)" for type
proof
  show "so_active (sockets g i)" if "socket_alloc type g = None" "i < NET_MAX_SOCKETS" for g i
    using that by (auto simp: socket_alloc_def socket_create_def first_index_None_iff split: option.splits)
  show "i < NET_MAX_SOCKETS \<and> \<not> so_active (sockets g i) \<and> (\<forall>j < i. so_active (sockets g j))
      \<and> (\<lambda>k. so_active (sockets g' k)) = (\<lambda>k. so_active (sockets g k))(i := True)"
    if "socket_alloc type g = Some (i, g')" for g i g'
    using that by (auto simp: socket_alloc_def socket_create_def upd_socket_def fun_eq_iff
        split: option.splits dest!: first_index_SomeD)
  show "(\<lambda>k. so_active (sockets (snd (socket_close (int i) g)) k)) = (\<lambda>k. so_active (sockets g k))(i := False)"
    if "i < NET_MAX_SOCKETS" for i g
    using that by (auto simp: socket_close_def upd_socket_def zero_socket_def fun_eq_iff)
qed

section \<open>Properties\<close>

lemma checksum_verifies_even:
  assumes "even (length d)" and "length d \<le> 131068"
  shows "net_checksum (d @ le_bytes (net_checksum d)) = 0"
proof -
  let ?T = "total d" and ?c = "net_checksum d"
  have T: "?T \<le> 65535 * 65534" using total_bound [of d] assms by (rule_tac order_trans) (auto elim!: evenE)
  have f: "unat (fold_sum (sum_words d 0)) = (if ?T = 0 then 0 else (?T - 1) mod 65535 + 1)"
    using T by (simp add: fold_sum_mod sum_words_total)
  then have c: "unat ?c = 65535 - (if ?T = 0 then 0 else (?T - 1) mod 65535 + 1)"
    by (simp add: net_checksum_value)
  have sum: "?T + unat ?c = 65535 * ((?T + unat ?c) div 65535) \<and> 0 < ?T + unat ?c"
  proof (cases "?T = 0")
    case False
    then obtain t where t: "?T = Suc t" by (cases ?T) auto
    define q r where "q = t div 65535" and "r = t mod 65535"
    then have "t = 65535 * q + r" and "r < 65535" by simp_all
    moreover have "unat ?c = 65534 - r" using c t r_def by simp
    ultimately have "?T + unat ?c = 65535 * Suc q" using t by simp
    then show ?thesis using False by simp
  qed (simp add: c)
  have "unat (sum_words (d @ le_bytes ?c) 0) = ?T + unat ?c"
    using T c by (simp add: sum_words_total total_append assms(1) total_le_bytes)
  moreover have "(?T + unat ?c - 1) mod 65535 = 65534"
  proof -
    obtain k where "?T + unat ?c = 65535 * Suc k" using sum
      by (cases "(?T + unat ?c) div 65535") auto
    then have "?T + unat ?c - 1 = 65534 + 65535 * k" by simp
    then show ?thesis by (simp only: mod_mult_self2) simp
  qed
  ultimately have "unat (fold_sum (sum_words (d @ le_bytes ?c) 0)) = 65535"
    using sum by (simp add: fold_sum_mod)
  then have "unat (net_checksum (d @ le_bytes ?c)) = 0"
    using net_checksum_value [of "d @ le_bytes ?c"] by simp
  then show ?thesis by (simp add: unat_eq_zero)
qed

text \<open>The last byte of data of odd length counts as if a zero byte followed it.\<close>

lemma sum_words_pad: "odd (length d) \<Longrightarrow> sum_words (d @ [0]) s = sum_words d s"
  by (induction d s rule: sum_words.induct) simp_all

text \<open>
  C20. A receiver that runs the checksum over data followed by its checksum gets 0, for data of
  up to 131068 bytes (with more the 32-bit sum could overflow): data of an odd length is followed by a
  zero byte and then the checksum, as the code's own branch for the last byte has it.
\<close>

theorem net_checksum_verifies:
  assumes "length d \<le> 131068"
  shows "net_checksum (d @ (if even (length d) then [] else [0]) @ le_bytes (net_checksum d)) = 0"
proof (cases "even (length d)")
  case False
  then have "length d \<noteq> 131068" by (metis even_numeral)
  then have "even (length (d @ [0 :: u8]))" and "length (d @ [0 :: u8]) \<le> 131068" using False assms by auto
  then have "net_checksum ((d @ [0]) @ le_bytes (net_checksum (d @ [0]))) = 0" by (rule checksum_verifies_even)
  then show ?thesis using False by (simp add: net_checksum_def sum_words_pad)
qed (use checksum_verifies_even [OF _ assms] in simp)

theorem net_checksum_verifies_witness:
  "net_checksum ([0x45, 0, 0, 0x1C] @ le_bytes (net_checksum [0x45, 0, 0, 0x1C])) = 0
   \<and> net_checksum ([0x45, 0, 0x1C] @ [0] @ le_bytes (net_checksum [0x45, 0, 0x1C])) = 0"
  using net_checksum_verifies [of "[0x45, 0, 0, 0x1C]"] net_checksum_verifies [of "[0x45, 0, 0x1C]"] by simp

text \<open>
  An address is printed in full as four decimal fields, and reading the fields back with
  \<open>atoi\<close> gives the address.
\<close>

theorem ip_print_read:
  "let fs = map atoi (CString.fields (\<lambda>c. c = CHR ''.'') (net_ip_to_str a)) in
     length fs = 4 \<and> push_bit 24 (fs ! 0) OR push_bit 16 (fs ! 1) OR push_bit 8 (fs ! 2) OR fs ! 3 = a"
proof -
  let ?oct = "\<lambda>k. drop_bit k a AND 0xFF"
  let ?s = "\<lambda>k. uint_to_str (ucast (?oct k)) 10"
  note p = printed_octet [OF octet_less]
  have len: "length (?s k) \<le> 3" for k by (rule p(2))
  have "parse_fmt ''%u.%u.%u.%u'' = Some [Unsigned, Lit (CHR ''.''), Unsigned, Lit (CHR ''.''),
      Unsigned, Lit (CHR ''.''), Unsigned]"
    by (simp add: conversion_def)
  then have "net_ip_to_str a = take (unat ((16 :: u32) - 1))
      (?s 24 @ CHR ''.'' # ?s 16 @ CHR ''.'' # ?s 8 @ CHR ''.'' # ?s 0)"
    unfolding net_ip_to_str_def by (rule sprint_text) simp_all
  then have str: "net_ip_to_str a = ?s 24 @ CHR ''.'' # ?s 16 @ CHR ''.'' # ?s 8 @ CHR ''.'' # ?s 0"
    using len [of 24] len [of 16] len [of 8] len [of 0] by simp
  have fs: "map atoi (CString.fields (\<lambda>c. c = CHR ''.'') (net_ip_to_str a)) = [?oct 24, ?oct 16, ?oct 8, ?oct 0]"
    unfolding str by (subst fields_octets) (use p in auto)
  have "push_bit 24 (?oct 24) OR push_bit 16 (?oct 16) OR push_bit 8 (?oct 8) OR ?oct 0 = a"
  proof (rule bit_word_eqI)
    fix n assume "n < LENGTH(32)"
    have m: "0xFF = (mask 8 :: u32)" by (simp add: mask_eq_exp_minus_1)
    have "n < 8 \<or> 8 \<le> n \<and> n < 16 \<or> 16 \<le> n \<and> n < 24 \<or> 24 \<le> n \<and> n < 32"
      using \<open>n < LENGTH(32)\<close> by auto
    then show "bit (push_bit 24 (?oct 24) OR push_bit 16 (?oct 16) OR push_bit 8 (?oct 8) OR ?oct 0) n = bit a n"
      unfolding m by (elim disjE) (auto simp: bit_simps)
  qed
  then show ?thesis by (simp add: fs Let_def)
qed

text \<open>
  Creating sockets until the table refuses gives distinct numbers below 32 of sockets that
  were free, as many as there are free ones; closing one makes it free again.
\<close>

theorem sockets_distinct:
  assumes "take_slots (socket_alloc type) k g = (socks, g')"
  shows "distinct socks \<and> length socks = min k (card {i. i < 32 \<and> \<not> so_active (sockets g i)})
    \<and> set socks \<subseteq> {i. i < 32 \<and> \<not> so_active (sockets g i)}
    \<and> \<not> (\<exists>i < 32. so_active (sockets (snd (socket_close (int i) g')) i))"
proof -
  have "\<not> so_active (sockets (snd (socket_close (int i) g')) i)" if "i < 32" for i
    using sock.release_busy [of i g'] that by (simp add: NET_MAX_SOCKETS_def fun_eq_iff)
  with sock.take_slots_distinct [OF assms] sock.take_slots_count [OF assms] show ?thesis
    by (auto simp: NET_MAX_SOCKETS_def)
qed

theorem sockets_distinct_witness:
  "\<exists>g socks g'. take_slots (socket_alloc SOCK_TCP) 40 (snd (snd (network_init g))) = (socks, g') \<and> length socks = 32"
proof -
  fix g
  obtain socks g' where t: "take_slots (socket_alloc SOCK_TCP) 40 (snd (snd (network_init g))) = (socks, g')"
    by fastforce
  have "{i. i < 32 \<and> \<not> so_active (sockets (snd (snd (network_init g))) i)} = {..<32}"
    by (auto simp: network_init_def Let_def zero_socket_def)
  with sockets_distinct [OF t] t show ?thesis by auto
qed

text \<open>
  Binding, connecting and sending do not look at the active flag: on a freshly initialised
  stack a socket that was never created connects and ``sends'', while the interface itself never
  becomes connected and refuses every packet.
\<close>

theorem send_on_uncreated_socket:
  assumes "0 \<le> s" and "s < 32"
  shows "let net = fst (snd (network_init g)); stack = snd (snd (network_init g)) in
      \<not> so_active (sockets stack (nat s))
      \<and> socket_send s data sz (snd (socket_connect s addr port stack)) = sint sz
      \<and> network_send data sz net = (False, net)"
  using assms
  by (simp add: network_init_def Let_def zero_socket_def socket_send_def socket_connect_def
      upd_socket_def network_send_def NET_MAX_SOCKETS_def)

theorem send_on_uncreated_socket_witness:
  "\<exists>g. socket_send 3 None 7 (snd (socket_connect 3 0 80 (snd (snd (network_init g))))) = 7"
  using send_on_uncreated_socket [of 3 _ None 7 0 80] by (simp add: Let_def)

end
