(* ===== verification/Bubble_Sort.thy ===== *)
theory Bubble_Sort
  imports Prelude "HOL-Library.Multiset"
begin

text \<open>
  The bubble sort two components contain (the compositor of \<^verbatim>\<open>wm/blockwm.c\<close> sorts windows, the tool
  \<^verbatim>\<open>tools/sort.c\<close> sorts lines): pass \<open>i\<close> compares the neighbours at \<open>0 .. n - i - 2\<close> of an array and
  swaps those out of order. The order is a parameter, and the results are proved once in a locale
  for total preorders; the components interpret it on their comparisons.
\<close>

definition swap_step :: "('a \<Rightarrow> 'a \<Rightarrow> bool) \<Rightarrow> nat \<Rightarrow> (nat \<Rightarrow> 'a) \<Rightarrow> nat \<Rightarrow> 'a" where
  "swap_step le j a = (if \<not> le (a j) (a (j + 1)) then a(j := a (j + 1), j + 1 := a j) else a)"

definition bubble_passes :: "('a \<Rightarrow> 'a \<Rightarrow> bool) \<Rightarrow> nat \<Rightarrow> (nat \<Rightarrow> 'a) \<Rightarrow> nat \<Rightarrow> 'a" where
  "bubble_passes le n a = fold (\<lambda>i a. fold (swap_step le) [0..<n - i - 1] a) [0..<n - 1] a"

lemma mset_prefix:
  fixes a b :: "nat \<Rightarrow> 'a"
  assumes "\<And>p. m \<le> p \<Longrightarrow> a p = b p" and "m \<le> n" and "mset (arr_list a n) = mset (arr_list b n)"
  shows "set (arr_list a m) = set (arr_list b m)"
proof -
  have s: "arr_list c n = arr_list c m @ map c [m..<n]" for c :: "nat \<Rightarrow> 'a"
  proof -
    have "[0..<n] = [0..<m] @ [m..<n]" using assms(2) upt_add_eq_append [of 0 m "n - m"] by simp
    then show ?thesis by (simp add: arr_list_def)
  qed
  have "map a [m..<n] = map b [m..<n]" using assms(1) by simp
  moreover have "mset (arr_list a m) + mset (map a [m..<n]) = mset (arr_list b m) + mset (map b [m..<n])"
    using assms(3) by (simp only: s [of a] s [of b] mset_append)
  ultimately have "mset (arr_list a m) = mset (arr_list b m)" by (simp only: add_right_cancel)
  then show ?thesis by (rule mset_eq_setD)
qed

locale total_preorder =
  fixes le :: "'a \<Rightarrow> 'a \<Rightarrow> bool"
  assumes total: "le x y \<or> le y x"
    and trans: "le x y \<Longrightarrow> le y z \<Longrightarrow> le x z"
begin

lemma refl: "le x x"
  using total [of x x] by blast

lemma swap_beyond: "j + 1 < p \<Longrightarrow> swap_step le j a p = a p"
  by (simp add: swap_step_def)

lemma pass_beyond: "m < p \<Longrightarrow> fold (swap_step le) [0..<m] a p = a p"
  by (induction m arbitrary: a) (auto simp: swap_beyond)

lemma pass_max: "p \<le> m \<Longrightarrow> le (fold (swap_step le) [0..<m] a p) (fold (swap_step le) [0..<m] a m)"
proof (induction m arbitrary: p)
  case 0
  then show ?case by (simp add: refl)
next
  case (Suc m)
  define b where "b = fold (swap_step le) [0..<m] a"
  have "le (swap_step le m b p) (swap_step le m b (m + 1))"
  proof (cases "p \<le> m")
    case True
    with Suc.IH [of p] have "le (b p) (b m)" by (simp add: b_def)
    with True show ?thesis
      using trans [of "b p" "b m" "b (m + 1)"] total [of "b m" "b (m + 1)"] by (auto simp: swap_step_def)
  next
    case False
    with Suc.prems have "p = Suc m" by simp
    then show ?thesis by (simp add: refl)
  qed
  then show ?case by (simp add: b_def)
qed

text \<open>Elements among which the order does not tell a difference keep their sequence.\<close>

lemma filter_swap_step:
  assumes "j + 1 < n" and "\<And>x y. P x \<Longrightarrow> P y \<Longrightarrow> le x y"
  shows "filter P (arr_list (swap_step le j a) n) = filter P (arr_list a n)"
    and "mset (arr_list (swap_step le j a) n) = mset (arr_list a n)"
proof -
  have s: "arr_list b n = map b [0..<j] @ b j # b (j + 1) # map b [j + 2..<n]" for b :: "nat \<Rightarrow> 'a"
  proof -
    have "[0..<n] = [0..<j] @ j # (j + 1) # [j + 2..<n]"
      using assms(1) upt_add_eq_append [of 0 j "n - j"] by (simp add: upt_conv_Cons)
    then show ?thesis by (simp add: arr_list_def)
  qed
  have pre: "map (swap_step le j a) [0..<j] = map a [0..<j]"
    and post: "map (swap_step le j a) [j + 2..<n] = map a [j + 2..<n]"
    by (auto simp: swap_step_def)
  show "filter P (arr_list (swap_step le j a) n) = filter P (arr_list a n)"
    unfolding s pre post using assms(2) by (auto simp: swap_step_def)
  show "mset (arr_list (swap_step le j a) n) = mset (arr_list a n)"
    unfolding s pre post by (auto simp: swap_step_def)
qed

lemma pass_perm:
  assumes "m < n" and "\<And>x y. P x \<Longrightarrow> P y \<Longrightarrow> le x y"
  shows "filter P (arr_list (fold (swap_step le) [0..<m] a) n) = filter P (arr_list a n)
    \<and> mset (arr_list (fold (swap_step le) [0..<m] a) n) = mset (arr_list a n)"
  using assms(1)
proof (induction m)
  case (Suc m)
  then have "m + 1 < n" by simp
  from filter_swap_step [of m n P, OF this assms(2)] Suc show ?case by simp
qed simp

definition tail_sorted :: "nat \<Rightarrow> nat \<Rightarrow> (nat \<Rightarrow> 'a) \<Rightarrow> bool" where
  "tail_sorted n i a \<longleftrightarrow> (\<forall>p q. p < q \<and> q < n \<and> n - i \<le> q \<longrightarrow> le (a p) (a q))"

lemma tail_sorted_pass:
  assumes "tail_sorted n i a" and "i < n"
  shows "tail_sorted n (Suc i) (fold (swap_step le) [0..<n - i - 1] a)"
  unfolding tail_sorted_def
proof (intro allI impI)
  let ?m = "n - i - 1" let ?b = "fold (swap_step le) [0..<?m] a"
  fix p q assume pq: "p < q \<and> q < n \<and> n - Suc i \<le> q"
  show "le (?b p) (?b q)"
  proof (cases "q = ?m")
    case True
    with pq show ?thesis by (simp add: pass_max)
  next
    case False
    then have q: "n - i \<le> q" using pq assms(2) by linarith
    then have bq: "?b q = a q" using assms(2) by (intro pass_beyond) linarith
    show ?thesis
    proof (cases "n - i \<le> p")
      case True
      then have "?b p = a p" using assms(2) by (intro pass_beyond) linarith
      with True pq bq q assms(1) show ?thesis by (simp add: tail_sorted_def)
    next
      case False
      have "mset (arr_list ?b n) = mset (arr_list a n)"
        using pass_perm [of ?m n "\<lambda>_. False" a] assms(2) by simp
      then have "set (arr_list ?b (n - i)) = set (arr_list a (n - i))"
        using assms(2) by (intro mset_prefix [of _ _ _ n]) (auto intro: pass_beyond)
      moreover have "?b p \<in> set (arr_list ?b (n - i))" using False by (auto simp: in_set_arr_list intro!: exI [of _ p])
      ultimately obtain r where "r < n - i" "?b p = a r" by (auto simp: in_set_arr_list)
      with q pq bq assms(1) show ?thesis by (simp add: tail_sorted_def)
    qed
  qed
qed

lemma bubble_inv:
  fixes a :: "nat \<Rightarrow> 'a"
  assumes "k \<le> n - 1" and P: "\<And>x y. P x \<Longrightarrow> P y \<Longrightarrow> le x y"
  defines "b \<equiv> fold (\<lambda>i a. fold (swap_step le) [0..<n - i - 1] a) [0..<k] a"
  shows "tail_sorted n k b \<and> mset (arr_list b n) = mset (arr_list a n)
    \<and> filter P (arr_list b n) = filter P (arr_list a n)"
  using assms(1) unfolding b_def
proof (induction k)
  case 0
  then show ?case by (auto simp: tail_sorted_def)
next
  case (Suc k)
  let ?c = "fold (\<lambda>i a. fold (swap_step le) [0..<n - i - 1] a) [0..<k] a"
  have IH: "tail_sorted n k ?c" "mset (arr_list ?c n) = mset (arr_list a n)"
    "filter P (arr_list ?c n) = filter P (arr_list a n)"
    using Suc by simp_all
  have less: "k < n" "n - k - 1 < n" using Suc.prems by linarith+
  show ?case
    using tail_sorted_pass [OF IH(1) less(1)] pass_perm [of "n - k - 1" n P ?c, OF less(2) P] IH(2,3)
    by simp
qed

lemma bubble_sorted: "sorted_wrt le (arr_list (bubble_passes le n a) n)"
  using bubble_inv [of "n - 1" n "\<lambda>_. False" a]
  by (auto simp: sorted_wrt_iff_nth_less tail_sorted_def bubble_passes_def)

lemma bubble_mset: "mset (arr_list (bubble_passes le n a) n) = mset (arr_list a n)"
  using bubble_inv [of "n - 1" n "\<lambda>_. False" a] by (simp add: bubble_passes_def)

lemma bubble_stable:
  "(\<And>x y. P x \<Longrightarrow> P y \<Longrightarrow> le x y) \<Longrightarrow>
     filter P (arr_list (bubble_passes le n a) n) = filter P (arr_list a n)"
  using bubble_inv [of "n - 1" n P a] by (simp add: bubble_passes_def)

end

end
