(* ===== verification/Blockwm.thy ===== *)
theory Blockwm
  imports Heap_Alloc CString Bubble_Sort
begin

text \<open>
  The window manager \<^verbatim>\<open>wm/blockwm.c\<close>: the table of windows, focus, stacking order, dragging and
  the compositor. A window pointer is its index in the table. Coordinates are \<open>int\<close>, kept as
  32-bit words and compared with \<^term>\<open>sint\<close>; their sums with the unsigned sizes are unsigned, as
  in the code. The functions of \<^verbatim>\<open>gui/gui.h\<close> the compositor calls are recorded as the list of
  calls it makes, in order.
\<close>

section \<open>State\<close>

definition BLOCKWM_STATE_NORMAL :: u32 where "BLOCKWM_STATE_NORMAL = 0"

definition BLOCKWM_STATE_MINIMIZED :: u32 where "BLOCKWM_STATE_MINIMIZED = 1"

definition BLOCKWM_STATE_MAXIMIZED :: u32 where "BLOCKWM_STATE_MAXIMIZED = 2"

definition MAX_WINDOWS :: nat where "MAX_WINDOWS = 64"

definition BLOCKWM_FLAG_RESIZABLE :: u32 where "BLOCKWM_FLAG_RESIZABLE = 1"

definition BLOCKWM_FLAG_TITLEBAR :: u32 where "BLOCKWM_FLAG_TITLEBAR = 2"

definition BLOCKWM_FLAG_SHADOW :: u32 where "BLOCKWM_FLAG_SHADOW = 4"

definition TITLEBAR_HEIGHT :: u32 where "TITLEBAR_HEIGHT = 24"

definition BORDER_SIZE :: u32 where "BORDER_SIZE = 2"

definition MIN_WIDTH :: u32 where "MIN_WIDTH = 100"

definition MIN_HEIGHT :: u32 where "MIN_HEIGHT = 50"

definition COLOR_TITLEBAR_ACTIVE :: u32 where "COLOR_TITLEBAR_ACTIVE = 0x2563EB"

definition COLOR_TITLEBAR_INACTIVE :: u32 where "COLOR_TITLEBAR_INACTIVE = 0x1F2937"

definition COLOR_BORDER_ACTIVE :: u32 where "COLOR_BORDER_ACTIVE = 0x3B82F6"

definition COLOR_BORDER_INACTIVE :: u32 where "COLOR_BORDER_INACTIVE = 0x374151"

definition COLOR_CLOSE_BTN :: u32 where "COLOR_CLOSE_BTN = 0xEF4444"

definition COLOR_MIN_BTN :: u32 where "COLOR_MIN_BTN = 0xF59E0B"

definition COLOR_MAX_BTN :: u32 where "COLOR_MAX_BTN = 0x22C55E"

definition COLOR_TEXT :: u32 where "COLOR_TEXT = 0xFFFFFF"

lemmas wm_states = BLOCKWM_STATE_NORMAL_def BLOCKWM_STATE_MINIMIZED_def BLOCKWM_STATE_MAXIMIZED_def

lemmas wm_sizes = MAX_WINDOWS_def TITLEBAR_HEIGHT_def BORDER_SIZE_def MIN_WIDTH_def MIN_HEIGHT_def

record window =
  w_id :: u32
  w_title :: string
  w_x :: u32
  w_y :: u32
  w_width :: u32
  w_height :: u32
  w_flags :: u32
  w_state :: u32
  w_opacity :: u8
  z_order :: u32
  w_fb :: "u32 option"
  saved_x :: u32
  saved_y :: u32
  saved_width :: u32
  saved_height :: u32

record wm =
  windows :: "nat \<Rightarrow> window"
  window_count :: int
  focused_window :: int
  drag_window :: "nat option"
  resize_window :: "nat option"
  drag_offset_x :: u32
  drag_offset_y :: u32
  compositor_buffer :: "u32 option"
  screen_width :: u32
  screen_height :: u32
  wm_heap :: heap

definition zero_window :: window where
  "zero_window = \<lparr>w_id = 0, w_title = [], w_x = 0, w_y = 0, w_width = 0, w_height = 0, w_flags = 0,
     w_state = 0, w_opacity = 0, z_order = 0, w_fb = None, saved_x = 0, saved_y = 0,
     saved_width = 0, saved_height = 0\<rparr>"

definition upd_window :: "nat \<Rightarrow> (window \<Rightarrow> window) \<Rightarrow> wm \<Rightarrow> wm" where
  "upd_window i f s = s\<lparr>windows := (windows s)(i := f (windows s i))\<rparr>"

definition blockwm_init :: "u32 \<Rightarrow> u32 \<Rightarrow> wm \<Rightarrow> bool \<times> wm" where
  "blockwm_init width height s =
     (let (buf, h) = malloc (width * height * 4) (wm_heap s);
          s = s\<lparr>screen_width := width, screen_height := height, window_count := 0, focused_window := - 1,
                drag_window := None, resize_window := None, compositor_buffer := buf, wm_heap := h\<rparr> in
      if buf = None then (False, s) else (True, s\<lparr>windows := (\<lambda>_. zero_window)\<rparr>))"

text \<open>\<open>memset(p, 0, n)\<close> on a block of the heap.\<close>

definition clear_block :: "u32 \<Rightarrow> u32 \<Rightarrow> heap \<Rightarrow> heap" where
  "clear_block p n h = h\<lparr>h_mem := store_bytes (unat p) (replicate (unat n) 0) (h_mem h)\<rparr>"

section \<open>Window operations\<close>

text \<open>
  The entry is filled in before the frame buffer is allocated; when that fails the entry keeps the
  values but is not counted. The saved position is left as it is.
\<close>

definition blockwm_create_window ::
  "string \<Rightarrow> u32 \<Rightarrow> u32 \<Rightarrow> u32 \<Rightarrow> u32 \<Rightarrow> u32 \<Rightarrow> wm \<Rightarrow> nat option \<times> wm" where
  "blockwm_create_window title x y width height flags s =
     (if window_count s \<ge> int MAX_WINDOWS then (None, s)
      else let i = nat (window_count s); n = word_of_int (window_count s + 1);
               (fb, h) = malloc (width * height * 4) (wm_heap s);
               s = upd_window i (\<lambda>w. w\<lparr>w_id := n, w_x := x, w_y := y, w_width := width, w_height := height,
                      w_flags := flags, w_state := BLOCKWM_STATE_NORMAL, w_opacity := 255, z_order := n,
                      w_title := take 63 title, w_fb := fb\<rparr>) (s\<lparr>wm_heap := h\<rparr>) in
           (case fb of
              None \<Rightarrow> (None, s)
            | Some p \<Rightarrow> (Some i, s\<lparr>window_count := window_count s + 1,
                                wm_heap := clear_block p (width * height * 4) (wm_heap s),
                                focused_window := window_count s\<rparr>)))"

definition blockwm_destroy_window :: "nat option \<Rightarrow> wm \<Rightarrow> wm" where
  "blockwm_destroy_window win s =
     (case win of None \<Rightarrow> s
      | Some idx \<Rightarrow>
          let s = (if w_fb (windows s idx) \<noteq> None
                   then upd_window idx (\<lambda>w. w\<lparr>w_fb := None\<rparr>)
                          (s\<lparr>wm_heap := free (w_fb (windows s idx)) (wm_heap s)\<rparr>)
                   else s);
              s = s\<lparr>windows := shift_down idx (nat (window_count s - 1)) (windows s),
                    window_count := window_count s - 1\<rparr> in
          if focused_window s \<ge> window_count s then s\<lparr>focused_window := window_count s - 1\<rparr> else s)"

definition max_z :: "(nat \<Rightarrow> window) \<Rightarrow> nat \<Rightarrow> u32" where
  "max_z ws n = fold (\<lambda>i m. if sint (z_order (ws i)) > sint m then z_order (ws i) else m) [0..<n] 0"

definition blockwm_focus_window :: "nat option \<Rightarrow> wm \<Rightarrow> wm" where
  "blockwm_focus_window win s =
     (case win of None \<Rightarrow> s
      | Some i \<Rightarrow> upd_window i (\<lambda>w. w\<lparr>z_order := max_z (windows s) (nat (window_count s)) + 1\<rparr>)
                    (s\<lparr>focused_window := int i\<rparr>))"

definition clamp_pos :: "u32 \<Rightarrow> u32 \<Rightarrow> u32 \<Rightarrow> u32" where
  "clamp_pos x width screen =
     (let x = (if sint x < 0 then 0 else x) in if x + width > screen then screen - width else x)"

definition blockwm_move_window :: "nat option \<Rightarrow> u32 \<Rightarrow> u32 \<Rightarrow> wm \<Rightarrow> wm" where
  "blockwm_move_window win x y s =
     (case win of None \<Rightarrow> s
      | Some i \<Rightarrow> upd_window i (\<lambda>w. w\<lparr>w_x := clamp_pos x (w_width w) (screen_width s),
                                    w_y := clamp_pos y (w_height w) (screen_height s)\<rparr>) s)"

definition blockwm_resize_window :: "nat option \<Rightarrow> u32 \<Rightarrow> u32 \<Rightarrow> wm \<Rightarrow> wm" where
  "blockwm_resize_window win width height s =
     (case win of None \<Rightarrow> s
      | Some i \<Rightarrow>
          let width = (if width < MIN_WIDTH then MIN_WIDTH else width);
              height = (if height < MIN_HEIGHT then MIN_HEIGHT else height);
              h = (if w_fb (windows s i) \<noteq> None then free (w_fb (windows s i)) (wm_heap s) else wm_heap s);
              (fb, h) = malloc (width * height * 4) h;
              h = (case fb of None \<Rightarrow> h | Some p \<Rightarrow> clear_block p (width * height * 4) h) in
          upd_window i (\<lambda>w. w\<lparr>w_width := width, w_height := height, w_fb := fb\<rparr>) (s\<lparr>wm_heap := h\<rparr>))"

definition blockwm_minimize_window :: "nat option \<Rightarrow> wm \<Rightarrow> wm" where
  "blockwm_minimize_window win s =
     (case win of None \<Rightarrow> s | Some i \<Rightarrow> upd_window i (\<lambda>w. w\<lparr>w_state := BLOCKWM_STATE_MINIMIZED\<rparr>) s)"

definition blockwm_maximize_window :: "nat option \<Rightarrow> wm \<Rightarrow> wm" where
  "blockwm_maximize_window win s =
     (case win of None \<Rightarrow> s
      | Some i \<Rightarrow> upd_window i
          (\<lambda>w. if w_state w = BLOCKWM_STATE_MAXIMIZED
               then w\<lparr>w_x := saved_x w, w_y := saved_y w, w_width := saved_width w,
                      w_height := saved_height w, w_state := BLOCKWM_STATE_NORMAL\<rparr>
               else w\<lparr>saved_x := w_x w, saved_y := w_y w, saved_width := w_width w,
                      saved_height := w_height w, w_x := 0, w_y := TITLEBAR_HEIGHT,
                      w_width := screen_width s, w_height := screen_height s - TITLEBAR_HEIGHT,
                      w_state := BLOCKWM_STATE_MAXIMIZED\<rparr>) s)"

definition blockwm_get_window :: "u32 \<Rightarrow> wm \<Rightarrow> nat option" where
  "blockwm_get_window i s = first_index (\<lambda>k. w_id (windows s k) = i) (nat (window_count s))"

definition blockwm_get_window_count :: "wm \<Rightarrow> int" where
  "blockwm_get_window_count s = window_count s"

definition blockwm_get_focused :: "wm \<Rightarrow> nat option" where
  "blockwm_get_focused s =
     (if focused_window s < 0 \<or> focused_window s \<ge> window_count s then None
      else Some (nat (focused_window s)))"

section \<open>Compositor\<close>

datatype draw =
    Draw_Rect u32 u32 u32 u32 u32
  | Draw_Rect_Outline u32 u32 u32 u32 u32 u32
  | Draw_String u32 u32 string u32
  | Draw_Circle u32 u32 u32 u32
  | Blit u32 u32 u32 u32 u32 u8

definition draw_titlebar :: "bool \<Rightarrow> window \<Rightarrow> draw list" where
  "draw_titlebar is_focused w =
     [Draw_Rect (w_x w) (w_y w - TITLEBAR_HEIGHT) (w_width w) TITLEBAR_HEIGHT
        (if is_focused then COLOR_TITLEBAR_ACTIVE else COLOR_TITLEBAR_INACTIVE),
      Draw_Rect_Outline (w_x w - BORDER_SIZE) (w_y w - TITLEBAR_HEIGHT - BORDER_SIZE)
        (w_width w + BORDER_SIZE * 2) (w_height w + TITLEBAR_HEIGHT + BORDER_SIZE * 2) BORDER_SIZE
        (if is_focused then COLOR_BORDER_ACTIVE else COLOR_BORDER_INACTIVE),
      Draw_String (w_x w + 10) (w_y w - TITLEBAR_HEIGHT + 5) (w_title w) COLOR_TEXT,
      Draw_Circle (w_x w + w_width w - 12) (w_y w - TITLEBAR_HEIGHT + 12) 6 COLOR_CLOSE_BTN,
      Draw_Circle (w_x w + w_width w - 30) (w_y w - TITLEBAR_HEIGHT + 12) 6 COLOR_MIN_BTN,
      Draw_Circle (w_x w + w_width w - 48) (w_y w - TITLEBAR_HEIGHT + 12) 6 COLOR_MAX_BTN]"

definition draw_shadow :: "window \<Rightarrow> draw list" where
  "draw_shadow w = [Draw_Rect (w_x w + 6) (w_y w + 6) (w_width w) (w_height w + TITLEBAR_HEIGHT) 0x111111]"

definition draw_window :: "bool \<Rightarrow> window \<Rightarrow> draw list" where
  "draw_window is_focused w =
     (if w_state w = BLOCKWM_STATE_MINIMIZED then []
      else draw_shadow w @ draw_titlebar is_focused w
        @ (case w_fb w of None \<Rightarrow> []
           | Some fb \<Rightarrow> [Blit fb (w_x w) (w_y w) (w_width w) (w_height w) (w_opacity w)]))"

definition sort_step :: "nat \<Rightarrow> (nat \<Rightarrow> window) \<Rightarrow> (nat \<Rightarrow> window)" where
  "sort_step j a =
     (if sint (z_order (a j)) > sint (z_order (a (j + 1))) then a(j := a (j + 1), j + 1 := a j) else a)"

definition bubble_sort :: "nat \<Rightarrow> (nat \<Rightarrow> window) \<Rightarrow> (nat \<Rightarrow> window)" where
  "bubble_sort n a = fold (\<lambda>i a. fold sort_step [0..<n - i - 1] a) [0..<n - 1] a"

definition blockwm_composite :: "wm \<Rightarrow> draw list \<times> wm" where
  "blockwm_composite s =
     (if compositor_buffer s = None then ([], s)
      else let n = nat (window_count s); s = s\<lparr>windows := bubble_sort n (windows s)\<rparr> in
           (concat (map (\<lambda>i. draw_window (focused_window s = int i) (windows s i)) [0..<n]), s))"

section \<open>Mouse\<close>

definition title_hit :: "u32 \<Rightarrow> u32 \<Rightarrow> window \<Rightarrow> bool" where
  "title_hit x y w \<longleftrightarrow> sint x \<ge> sint (w_x w) \<and> sint x \<le> sint (w_x w + w_width w)
     \<and> sint y \<ge> sint (w_y w - TITLEBAR_HEIGHT) \<and> sint y \<le> sint (w_y w)"

definition content_hit :: "u32 \<Rightarrow> u32 \<Rightarrow> window \<Rightarrow> bool" where
  "content_hit x y w \<longleftrightarrow> sint x \<ge> sint (w_x w) \<and> sint x \<le> sint (w_x w + w_width w)
     \<and> sint y \<ge> sint (w_y w) \<and> sint y \<le> sint (w_y w + w_height w)"

definition button_hit :: "u32 \<Rightarrow> window \<Rightarrow> u32 \<Rightarrow> u32 \<Rightarrow> bool" where
  "button_hit x w a b \<longleftrightarrow> sint x \<ge> sint (w_x w + w_width w - a) \<and> sint x \<le> sint (w_x w + w_width w - b)"

definition title_click :: "nat \<Rightarrow> u32 \<Rightarrow> u32 \<Rightarrow> wm \<Rightarrow> wm" where
  "title_click i x y s =
     (let s = blockwm_focus_window (Some i) s; w = windows s i in
      if button_hit x w 18 6 then blockwm_destroy_window (Some i) s
      else if button_hit x w 36 24 then blockwm_minimize_window (Some i) s
      else if button_hit x w 54 42 then blockwm_maximize_window (Some i) s
      else s\<lparr>drag_window := Some i, drag_offset_x := x - w_x w,
             drag_offset_y := y - (w_y w - TITLEBAR_HEIGHT)\<rparr>)"

fun hit_windows :: "u32 \<Rightarrow> u32 \<Rightarrow> bool \<Rightarrow> nat list \<Rightarrow> wm \<Rightarrow> wm" where
  "hit_windows x y left [] s = s"
| "hit_windows x y left (i # is) s =
     (if w_state (windows s i) = BLOCKWM_STATE_MINIMIZED then hit_windows x y left is s
      else if title_hit x y (windows s i) then (if left then title_click i x y s else s)
      else if content_hit x y (windows s i) then (if left then blockwm_focus_window (Some i) s else s)
      else hit_windows x y left is s)"

definition blockwm_handle_mouse :: "u32 \<Rightarrow> u32 \<Rightarrow> bool \<Rightarrow> bool \<Rightarrow> wm \<Rightarrow> wm" where
  "blockwm_handle_mouse x y left right s =
     (if drag_window s \<noteq> None \<and> left
      then blockwm_move_window (drag_window s) (x - drag_offset_x s) (y - drag_offset_y s) s
      else hit_windows x y left (rev [0..<nat (window_count s)]) (s\<lparr>drag_window := None\<rparr>))"

text \<open>No mouse event and no redraw takes memory from the heap, and \<open>free\<close> gives none back.\<close>

lemma wm_heap_title_click: "wm_heap (title_click i x y s) = wm_heap s"
  by (auto simp: title_click_def Let_def blockwm_focus_window_def blockwm_destroy_window_def blockwm_minimize_window_def
      blockwm_maximize_window_def upd_window_def free_def)

lemma wm_heap_handle_mouse [simp]: "wm_heap (blockwm_handle_mouse x y left right s) = wm_heap s"
proof -
  have "wm_heap (hit_windows x y left is t) = wm_heap t" for "is" t
    by (induction x y left "is" t rule: hit_windows.induct)
       (auto simp: wm_heap_title_click blockwm_focus_window_def upd_window_def)
  then show ?thesis by (auto simp: blockwm_handle_mouse_def blockwm_move_window_def upd_window_def split: option.split)
qed

lemma wm_heap_composite [simp]: "wm_heap (snd (blockwm_composite s)) = wm_heap s"
  by (simp add: blockwm_composite_def Let_def)

section \<open>The sort\<close>

abbreviation z_key :: "window \<Rightarrow> int" where
  "z_key w \<equiv> sint (z_order w)"

interpretation by_z: total_preorder "\<lambda>v w. z_key v \<le> z_key w"
  by unfold_locales auto

lemma sort_step_swap: "sort_step = swap_step (\<lambda>v w. z_key v \<le> z_key w)"
  by (intro ext) (simp add: sort_step_def swap_step_def not_le)

lemma bubble_sort_passes: "bubble_sort = bubble_passes (\<lambda>v w. z_key v \<le> z_key w)"
  by (intro ext) (simp add: bubble_sort_def bubble_passes_def sort_step_swap)

lemma bubble_sort_mset: "mset (arr_list (bubble_sort n a) n) = mset (arr_list a n)"
  by (simp add: bubble_sort_passes by_z.bubble_mset)

lemma bubble_sort_sorts: "arr_list (bubble_sort n a) n = sort_key z_key (arr_list a n)"
proof -
  have "sorted (map z_key (arr_list (bubble_sort n a) n))"
    using by_z.bubble_sorted [of n a] by (simp add: bubble_sort_passes sorted_map)
  moreover have "filter (\<lambda>w. v = z_key w) (arr_list (bubble_sort n a) n) = filter (\<lambda>w. v = z_key w) (arr_list a n)" for v
    unfolding bubble_sort_passes by (rule by_z.bubble_stable) simp
  ultimately have "sort_key z_key (arr_list a n) = arr_list (bubble_sort n a) n"
    by (intro properties_for_sort_key) (simp_all add: bubble_sort_mset)
  then show ?thesis ..
qed

section \<open>Geometry\<close>

lemma clamp_pos_fits:
  assumes "width \<le> screen" and "unat screen < 2 ^ 31"
  shows "unat (clamp_pos x width screen) + unat width \<le> unat screen"
proof -
  let ?x = "if sint x < 0 then 0 else x"
  have "unat ?x < 2 ^ 31"
  proof (cases "sint x < 0")
    case False
    have b: "sint x < 2 ^ 31" using sint_lt [of x] by simp
    have "uint x = take_bit 32 (sint x)" using uint_sint [of x] by simp
    also have "\<dots> = sint x" using False b by (simp add: take_bit_int_eq_self)
    finally have "int (unat x) = sint x" by simp
    with b have "int (unat x) < int (2 ^ 31)" by simp
    then have "unat x < 2 ^ 31" by (simp only: of_nat_less_iff)
    then show ?thesis using False by (simp only: if_False)
  qed simp
  moreover have w: "unat width \<le> unat screen" using assms(1) by (simp add: word_le_nat_alt)
  ultimately have sum: "unat (?x + width) = unat ?x + unat width"
    using assms(2) by (simp add: unat_word_ariths)
  show ?thesis
  proof (cases "?x + width > screen")
    case True
    then have "clamp_pos x width screen = screen - width" by (simp only: clamp_pos_def Let_def if_True)
    moreover have "unat (screen - width) = unat screen - unat width" using assms(1) by (rule unat_sub)
    ultimately show ?thesis using w by simp
  next
    case False
    then have "clamp_pos x width screen = ?x" by (simp only: clamp_pos_def Let_def if_False)
    moreover have "unat ?x + unat width \<le> unat screen"
      using False sum by (simp add: word_less_nat_alt not_less)
    ultimately show ?thesis by simp
  qed
qed

lemma move_window_on_screen:
  assumes "w_width (windows s i) \<le> screen_width s" and "w_height (windows s i) \<le> screen_height s"
    and "unat (screen_width s) < 2 ^ 31" and "unat (screen_height s) < 2 ^ 31"
  shows "let w = windows (blockwm_move_window (Some i) x y s) i in
    unat (w_x w) + unat (w_width w) \<le> unat (screen_width s)
    \<and> unat (w_y w) + unat (w_height w) \<le> unat (screen_height s)"
  using assms clamp_pos_fits by (simp add: blockwm_move_window_def upd_window_def Let_def)

lemma maximize_restores:
  assumes "w_state (windows s i) \<noteq> BLOCKWM_STATE_MAXIMIZED"
  shows "windows (blockwm_maximize_window (Some i) (blockwm_maximize_window (Some i) s)) i
    = (windows s i)\<lparr>saved_x := w_x (windows s i), saved_y := w_y (windows s i),
        saved_width := w_width (windows s i), saved_height := w_height (windows s i),
        w_state := BLOCKWM_STATE_NORMAL\<rparr>"
  using assms by (simp add: blockwm_maximize_window_def upd_window_def wm_states)

section \<open>Properties\<close>

text \<open>
  C14. The compositor draws the windows in the order of a stable sort by \<open>z_order\<close>, minimised ones
  left out; it changes nothing but the order of the table.
\<close>

theorem composite_draws_sorted:
  assumes "compositor_buffer s \<noteq> None"
  shows "arr_list (windows (snd (blockwm_composite s))) (nat (window_count s))
       = sort_key z_key (arr_list (windows s) (nat (window_count s)))
    \<and> fst (blockwm_composite s) = concat (map2 (\<lambda>i. draw_window (focused_window s = int i))
        [0..<nat (window_count s)] (sort_key z_key (arr_list (windows s) (nat (window_count s)))))"
proof -
  let ?n = "nat (window_count s)" and ?b = "bubble_sort (nat (window_count s)) (windows s)"
  have m: "map (\<lambda>i. draw_window (focused_window s = int i) (?b i)) [0..<?n]
      = map2 (\<lambda>i. draw_window (focused_window s = int i)) [0..<?n] (arr_list ?b ?n)"
    by (rule nth_equalityI) auto
  obtain p where "compositor_buffer s = Some p" using assms by blast
  then show ?thesis
    using m by (simp add: blockwm_composite_def Let_def bubble_sort_sorts)
qed

definition example_window :: "u32 \<Rightarrow> u32 \<Rightarrow> window" where
  "example_window i z = zero_window\<lparr>w_id := i, z_order := z, w_width := 200, w_height := 100\<rparr>"

definition example_wm :: wm where
  "example_wm = \<lparr>windows = (\<lambda>i. example_window (of_nat i + 1) (of_nat i + 1)), window_count = 2,
     focused_window = 1, drag_window = None, resize_window = None, drag_offset_x = 0, drag_offset_y = 0,
     compositor_buffer = Some 0, screen_width = 1920, screen_height = 1080,
     wm_heap = \<lparr>h_mem = (\<lambda>_. 0), h_ptr = 0\<rparr>\<rparr>"

theorem composite_draws_sorted_witness:
  "map w_id (arr_list (windows (snd (blockwm_composite example_wm))) 2) = [1, 2]"
proof -
  have "arr_list (windows example_wm) 2 = [example_window 1 1, example_window 2 2]"
    by (simp add: arr_list_def example_wm_def upt_rec)
  then show ?thesis
    using composite_draws_sorted [of example_wm] by (simp add: example_wm_def example_window_def zero_window_def)
qed

lemma max_z_bound:
  "i < n \<Longrightarrow> sint (z_order (ws i)) \<le> sint (max_z ws n)" "0 \<le> sint (max_z ws n)"
proof -
  show "0 \<le> sint (max_z ws n)" by (induction n) (auto simp: max_z_def)
  show "i < n \<Longrightarrow> sint (z_order (ws i)) \<le> sint (max_z ws n)"
    by (induction n) (force simp: max_z_def less_Suc_eq)+
qed

text \<open>
  Focus does not survive the compositor: after a window below the top is focused, sorting moves
  it to the end of the table while \<open>focused_window\<close> keeps its old index, so that the focused window
  is then the one that was next above it.
\<close>

theorem focus_lost_by_composite:
  assumes "i + 1 < nat (window_count s)" and "compositor_buffer s \<noteq> None"
    and "sorted_wrt (\<lambda>v w. z_key v < z_key w) (arr_list (windows s) (nat (window_count s)))"
    and "sint (max_z (windows s) (nat (window_count s))) < 2 ^ 31 - 1"
  defines "s' \<equiv> snd (blockwm_composite (blockwm_focus_window (Some i) s))"
  shows "blockwm_get_focused s' = Some i \<and> windows s' i = windows s (i + 1)"
proof -
  let ?n = "nat (window_count s)" and ?z = "max_z (windows s) (nat (window_count s)) + 1"
  let ?l = "arr_list (windows s) ?n" and ?w = "(windows s i)\<lparr>z_order := ?z\<rparr>"
  let ?t = "take i ?l @ drop (Suc i) ?l @ [?w]"
  have z: "sint ?z = sint (max_z (windows s) ?n) + 1"
    using assms(4) max_z_bound(2) [of "windows s" ?n] by (simp add: sint_word_ariths signed_take_bit_int_eq_self_iff)
  have top: "z_key v < sint ?z" if v: "v \<in> set ?l" for v
  proof -
    obtain k where "k < ?n" "windows s k = v" using v unfolding in_set_arr_list by blast
    with max_z_bound(1) [of k ?n "windows s"] z show ?thesis by simp
  qed
  have f: "arr_list (windows (blockwm_focus_window (Some i) s)) ?n = take i ?l @ ?w # drop (Suc i) ?l"
    using assms(1) by (simp add: blockwm_focus_window_def upd_window_def array_simps upd_conv_take_nth_drop)
  have sub: "set (take i ?l) \<subseteq> set ?l" "set (drop (Suc i) ?l) \<subseteq> set ?l"
    by (auto dest: in_set_takeD in_set_dropD)
  have "sort_key z_key (take i ?l @ ?w # drop (Suc i) ?l) = ?t"
  proof (rule properties_for_sort_key)
    have "sorted_wrt (\<lambda>v w. z_key v < z_key w) (take i ?l @ drop i ?l)" using assms(3) by simp
    moreover have "drop i ?l = windows s i # drop (Suc i) ?l"
      using assms(1) by (simp add: Cons_nth_drop_Suc [symmetric])
    ultimately have "sorted_wrt (\<lambda>v w. z_key v < z_key w) (take i ?l @ drop (Suc i) ?l)"
      by (auto simp: sorted_wrt_append)
    then show "sorted (map z_key ?t)"
      using top sub by (fastforce simp: sorted_map sorted_wrt_append intro: less_imp_le
          elim!: sorted_wrt_mono_rel [rotated])
    show "filter (\<lambda>x. z_key v = z_key x) ?t
        = filter (\<lambda>x. z_key v = z_key x) (take i ?l @ ?w # drop (Suc i) ?l)" for v
    proof (cases "z_key v = sint ?z")
      case True
      with top sub have "filter (\<lambda>x. z_key v = z_key x) (drop (Suc i) ?l) = []"
        by (fastforce simp: filter_empty_conv)
      then show ?thesis using True by (simp only: filter_append filter.simps append_Nil append_Nil2 append_assoc)
    qed simp
  qed simp
  moreover obtain p where p: "compositor_buffer s = Some p" using assms(2) by blast
  ultimately have "arr_list (windows s') ?n = ?t"
    using f by (simp add: s'_def blockwm_composite_def Let_def bubble_sort_sorts
        blockwm_focus_window_def upd_window_def)
  moreover have "windows s' i = arr_list (windows s') ?n ! i" using assms(1) by simp
  ultimately have "windows s' i = windows s (i + 1)" using assms(1) by (simp add: nth_append)
  moreover have "blockwm_get_focused s' = Some i"
  proof -
    have "int i < window_count s" using assms(1) by linarith
    then show ?thesis by (simp add: s'_def blockwm_composite_def Let_def blockwm_focus_window_def
        upd_window_def blockwm_get_focused_def p)
  qed
  ultimately show ?thesis by blast
qed

theorem focus_lost_by_composite_witness:
  "map_option (\<lambda>i. w_id (windows (snd (blockwm_composite (blockwm_focus_window (Some 0) example_wm))) i))
     (blockwm_get_focused (snd (blockwm_composite (blockwm_focus_window (Some 0) example_wm)))) = Some 2"
proof -
  have "arr_list (windows example_wm) 2 = [example_window 1 1, example_window 2 2]"
    by (simp add: arr_list_def example_wm_def upt_rec)
  then show ?thesis
    using focus_lost_by_composite [of 0 example_wm]
    by (simp add: example_wm_def example_window_def zero_window_def max_z_def upt_rec)
qed

text \<open>
  A click on the close button of the uppermost window under the pointer removes exactly that
  window from the table; the others keep their order and contents.
\<close>

theorem close_click_removes:
  assumes "i < nat (window_count s)" and "drag_window s = None"
    and "w_state (windows s i) \<noteq> BLOCKWM_STATE_MINIMIZED" and "title_hit x y (windows s i)"
    and "button_hit x (windows s i) 18 6"
    and "\<not> (\<exists>j. i < j \<and> j < nat (window_count s) \<and> w_state (windows s j) \<noteq> BLOCKWM_STATE_MINIMIZED
            \<and> (title_hit x y (windows s j) \<or> content_hit x y (windows s j)))"
  shows "let l = arr_list (windows s) (nat (window_count s)); s' = blockwm_handle_mouse x y True right s in
    window_count s' = window_count s - 1
    \<and> arr_list (windows s') (nat (window_count s')) = take i l @ drop (Suc i) l"
proof -
  let ?n = "nat (window_count s)"
  have skip: "hit_windows x y True (js @ ks) t = hit_windows x y True ks t"
    if "\<forall>j \<in> set js. w_state (windows t j) = BLOCKWM_STATE_MINIMIZED
        \<or> \<not> title_hit x y (windows t j) \<and> \<not> content_hit x y (windows t j)" for js ks t
    using that by (induction js) auto
  have "rev [0..<?n] = rev [Suc i..<?n] @ i # rev [0..<i]"
    using assms(1) upt_add_eq_append [of 0 i "?n - i"] by (simp add: upt_conv_Cons)
  then have h: "blockwm_handle_mouse x y True right s = title_click i x y s"
  proof -
    have "hit_windows x y True (rev [Suc i..<?n] @ i # rev [0..<i]) (s\<lparr>drag_window := None\<rparr>)
        = hit_windows x y True (i # rev [0..<i]) (s\<lparr>drag_window := None\<rparr>)"
      by (rule skip) (use assms(6) in auto)
    moreover have st: "s\<lparr>drag_window := None\<rparr> = s" using assms(2) by simp
    moreover have "hit_windows x y True (i # rev [0..<i]) s = title_click i x y s"
      using assms(3,4) by simp
    ultimately show ?thesis
      unfolding blockwm_handle_mouse_def \<open>rev [0..<?n] = _\<close> using assms(2) by (simp only:) simp
  qed
  let ?f = "blockwm_focus_window (Some i) s"
  have foc: "window_count ?f = window_count s" "\<And>k. k \<noteq> i \<Longrightarrow> windows ?f k = windows s k"
    "button_hit x (windows ?f i) 18 6"
    using assms(5) by (simp_all add: blockwm_focus_window_def upd_window_def button_hit_def)
  have d: "window_count (blockwm_destroy_window (Some i) t) = window_count t - 1"
    "windows (blockwm_destroy_window (Some i) t)
       = shift_down i (nat (window_count t - 1)) ((windows t)(i := (windows t i)\<lparr>w_fb := None\<rparr>))" for t
  proof -
    have "(windows t)(i := (windows t i)\<lparr>w_fb := None\<rparr>) = windows t" if "w_fb (windows t i) = None"
      using that by (intro fun_upd_idem) simp
    then show "windows (blockwm_destroy_window (Some i) t)
       = shift_down i (nat (window_count t - 1)) ((windows t)(i := (windows t i)\<lparr>w_fb := None\<rparr>))"
      by (cases "w_fb (windows t i) = None") (simp_all add: blockwm_destroy_window_def upd_window_def Let_def)
  qed (simp add: blockwm_destroy_window_def upd_window_def Let_def)
  have cut: "arr_list (shift_down i (nat (window_count s - 1)) a) (nat (window_count s - 1))
      = take i (arr_list (windows s) ?n) @ drop (Suc i) (arr_list (windows s) ?n)"
    if "\<And>k. k \<noteq> i \<Longrightarrow> a k = windows s k" for a
    using assms(1) that by (intro nth_equalityI) (auto simp: shift_down_apply nth_append nat_diff_distrib)
  have "title_click i x y s = blockwm_destroy_window (Some i) ?f"
    using foc(3) by (simp add: title_click_def Let_def)
  then show ?thesis using foc(1,2) by (simp add: h Let_def d cut)
qed

theorem close_click_removes_witness:
  "window_count (blockwm_handle_mouse 190 0 True False example_wm) = 1"
proof -
  have 1: "title_hit 190 0 (windows example_wm 1)" "button_hit 190 (windows example_wm 1) 18 6"
    by (simp_all add: title_hit_def button_hit_def example_wm_def example_window_def zero_window_def wm_sizes)
  have 2: "drag_window example_wm = None" "window_count example_wm = 2"
    "w_state (windows example_wm 1) \<noteq> BLOCKWM_STATE_MINIMIZED"
    by (simp_all add: example_wm_def example_window_def zero_window_def wm_states)
  from close_click_removes [OF _ 2(1,3) 1, of False] show ?thesis by (simp add: 2(2) Let_def)
qed

end
