(* ===== verification/Gui.thy ===== *)
theory Gui
  imports Prelude CString "HOL-Library.Monad_Syntax"
begin

text \<open>
  The drawing routines and widgets of \<^verbatim>\<open>gui/gui.c\<close>, on the back buffer of one byte per pixel. The
  type \<open>Color\<close> the file uses is not declared in the repository; all that is done with a colour is to
  store it in a byte, so a colour is that byte here. Coordinates are 16-bit words where the code
  declares \<open>uint16_t\<close> (arguments wrap when they are passed) and integers inside the loops, where
  the code computes in \<open>int\<close>; the largest values there are below \<open>2^31\<close> (for filled circles as long
  as the radius is at most 46340).
  A loop with no bound of its own is a \<open>partial_function\<close>; its result \<^term>\<open>None\<close> would be a loop
  that does not end.
\<close>

section \<open>Pixels\<close>

definition SCREEN_WIDTH :: nat where "SCREEN_WIDTH = 1920"

definition SCREEN_HEIGHT :: nat where "SCREEN_HEIGHT = 1080"

definition COLOR_BLACK :: u8 where "COLOR_BLACK = 0"

definition COLOR_WHITE :: u8 where "COLOR_WHITE = 0xFF"

definition COLOR_DARKGRAY :: u8 where "COLOR_DARKGRAY = 0x40"

definition COLOR_LIGHTGRAY :: u8 where "COLOR_LIGHTGRAY = 0xC0"

type_synonym pixels = "nat \<Rightarrow> u8"

definition gui_clear :: "u8 \<Rightarrow> pixels \<Rightarrow> pixels" where
  "gui_clear bg b = (\<lambda>i. if i < SCREEN_WIDTH * SCREEN_HEIGHT then bg else b i)"

definition gui_init :: "pixels \<Rightarrow> pixels" where
  "gui_init b = gui_clear COLOR_BLACK b"

definition gui_set_pixel :: "u16 \<Rightarrow> u16 \<Rightarrow> u8 \<Rightarrow> pixels \<Rightarrow> pixels" where
  "gui_set_pixel x y color b =
     (if unat x \<ge> SCREEN_WIDTH \<or> unat y \<ge> SCREEN_HEIGHT then b
      else b(unat y * SCREEN_WIDTH + unat x := color))"

text \<open>A pixel at coordinates computed in \<open>int\<close>.\<close>

abbreviation plot :: "int \<Rightarrow> int \<Rightarrow> u8 \<Rightarrow> pixels \<Rightarrow> pixels" where
  "plot x y c b \<equiv> gui_set_pixel (word_of_int x) (word_of_int y) c b"

section \<open>Lines and rectangles\<close>

partial_function (option) line_loop ::
  "int \<Rightarrow> int \<Rightarrow> int \<Rightarrow> int \<Rightarrow> int \<Rightarrow> int \<Rightarrow> u8 \<Rightarrow> int \<Rightarrow> int \<Rightarrow> int \<Rightarrow> pixels \<Rightarrow> pixels option" where
  "line_loop dx dy sx sy x2 y2 color err x y b =
     (let b = plot x y color b in
      if x = x2 \<and> y = y2 then Some b
      else let e2 = 2 * err;
               (err1, x1) = (if e2 > - dy then (err - dy, x + sx) else (err, x));
               (err2, y1) = (if e2 < dx then (err1 + dx, y + sy) else (err1, y)) in
           line_loop dx dy sx sy x2 y2 color err2 x1 y1 b)"

definition gui_draw_line :: "u16 \<Rightarrow> u16 \<Rightarrow> u16 \<Rightarrow> u16 \<Rightarrow> u8 \<Rightarrow> pixels \<Rightarrow> pixels option" where
  "gui_draw_line x1 y1 x2 y2 color b =
     (let dx = (if x2 > x1 then uint x2 - uint x1 else uint x1 - uint x2);
          dy = (if y2 > y1 then uint y2 - uint y1 else uint y1 - uint y2);
          sx = (if x1 < x2 then 1 else - 1); sy = (if y1 < y2 then 1 else - 1) in
      line_loop dx dy sx sy (uint x2) (uint y2) color (dx - dy) (uint x1) (uint y1) b)"

definition gui_draw_rect :: "u16 \<Rightarrow> u16 \<Rightarrow> u16 \<Rightarrow> u16 \<Rightarrow> u8 \<Rightarrow> pixels \<Rightarrow> pixels option" where
  "gui_draw_rect x y w h color b =
     do {
       b \<leftarrow> gui_draw_line x y (x + w) y color b;
       b \<leftarrow> gui_draw_line (x + w) y (x + w) (y + h) color b;
       b \<leftarrow> gui_draw_line (x + w) (y + h) x (y + h) color b;
       gui_draw_line x (y + h) x y color b
     }"

text \<open>
  The counters are \<open>uint16_t\<close>; they stop at the screen edge, so they never wrap. The right and lower
  end are computed in \<open>int\<close>.
\<close>

definition fill_row :: "nat \<Rightarrow> nat \<Rightarrow> u8 \<Rightarrow> nat \<Rightarrow> pixels \<Rightarrow> pixels" where
  "fill_row x xe color yy b =
     fold (\<lambda>xx b. gui_set_pixel (of_nat xx) (of_nat yy) color b) [x..<min xe SCREEN_WIDTH] b"

definition gui_fill_rect :: "u16 \<Rightarrow> u16 \<Rightarrow> u16 \<Rightarrow> u16 \<Rightarrow> u8 \<Rightarrow> pixels \<Rightarrow> pixels" where
  "gui_fill_rect x y w h color b =
     fold (\<lambda>yy b. fill_row (unat x) (unat x + unat w) color yy b)
       [unat y..<min (unat y + unat h) SCREEN_HEIGHT] b"

section \<open>Circles\<close>

function circle_loop :: "int \<Rightarrow> int \<Rightarrow> u8 \<Rightarrow> int \<Rightarrow> int \<Rightarrow> int \<Rightarrow> pixels \<Rightarrow> pixels" where
  "circle_loop x y color p px py b =
     (if px \<le> py then
        let b = plot (x + px) (y + py) color b; b = plot (x - px) (y + py) color b;
            b = plot (x + px) (y - py) color b; b = plot (x - px) (y - py) color b;
            b = plot (x + py) (y + px) color b; b = plot (x - py) (y + px) color b;
            b = plot (x + py) (y - px) color b; b = plot (x - py) (y - px) color b in
        if p < 0 then circle_loop x y color (p + (2 * px + 1)) (px + 1) py b
        else circle_loop x y color (p + (2 * (px - py) + 1)) (px + 1) (py - 1) b
      else b)"
  by pat_completeness auto
termination
  by (relation "measure (\<lambda>(x, y, color, p, px, py, b). nat (py - px + 1))") auto

declare circle_loop.simps [simp del]

definition gui_draw_circle :: "u16 \<Rightarrow> u16 \<Rightarrow> u16 \<Rightarrow> u8 \<Rightarrow> pixels \<Rightarrow> pixels" where
  "gui_draw_circle x y r color b = circle_loop (uint x) (uint y) color (1 - uint r) 0 (uint r) b"

lemma le_square: "px \<le> px * px" for px :: int
proof (cases "px \<le> 0")
  case False
  then show ?thesis using mult_left_mono [of 1 px px] by simp
qed (simp add: order_trans [of _ 0])

function disc_row :: "int \<Rightarrow> int \<Rightarrow> u8 \<Rightarrow> int \<Rightarrow> int \<Rightarrow> pixels \<Rightarrow> pixels" where
  "disc_row x yy color d px b =
     (if px * px \<le> d
      then disc_row x yy color d (px + 1) (plot (x - px) yy color (plot (x + px) yy color b))
      else b)"
  by pat_completeness auto
termination
proof (relation "measure (\<lambda>(x, yy, color, d, px, b). nat (d - px + 1))")
  fix x yy d px :: int and color :: u8 and b :: pixels
  assume "px * px \<le> d"
  then have "px \<le> d" using le_square [of px] by linarith
  then show "((x, yy, color, d, px + 1, plot (x - px) yy color (plot (x + px) yy color b)),
      x, yy, color, d, px, b) \<in> measure (\<lambda>(x, yy, color, d, px, b). nat (d - px + 1))" by simp
qed simp

declare disc_row.simps [simp del]

definition gui_fill_circle :: "u16 \<Rightarrow> u16 \<Rightarrow> u16 \<Rightarrow> u8 \<Rightarrow> pixels \<Rightarrow> pixels" where
  "gui_fill_circle x y r color b =
     fold (\<lambda>py b. let d = uint r * uint r - py * py in
                  if d < 0 then b else disc_row (uint x) (uint y + py) color d 0 b)
       [- uint r..uint r] b"

section \<open>Text\<close>

text \<open>
  The table has 256 rows, of which the file initialises the first 59: 33 empty ones and the letters
  A to Z, so that the rows of the letters are 33 to 58.
\<close>

definition letter_rows :: "u8 list list" where
  "letter_rows =
     [[0x18, 0x3C, 0x66, 0x7E, 0x66, 0x66, 0x00, 0x00],
      [0x7C, 0x66, 0x66, 0x7C, 0x66, 0x7C, 0x00, 0x00],
      [0x3C, 0x66, 0x60, 0x60, 0x66, 0x3C, 0x00, 0x00],
      [0x78, 0x6C, 0x66, 0x66, 0x6C, 0x78, 0x00, 0x00],
      [0x7E, 0x60, 0x7C, 0x60, 0x60, 0x7E, 0x00, 0x00],
      [0x7E, 0x60, 0x7C, 0x60, 0x60, 0x60, 0x00, 0x00],
      [0x3C, 0x66, 0x60, 0x6E, 0x66, 0x3C, 0x00, 0x00],
      [0x66, 0x66, 0x7E, 0x66, 0x66, 0x66, 0x00, 0x00],
      [0x7E, 0x18, 0x18, 0x18, 0x18, 0x7E, 0x00, 0x00],
      [0x7E, 0x06, 0x06, 0x06, 0x66, 0x3C, 0x00, 0x00],
      [0x66, 0x6C, 0x78, 0x78, 0x6C, 0x66, 0x00, 0x00],
      [0x60, 0x60, 0x60, 0x60, 0x60, 0x7E, 0x00, 0x00],
      [0x63, 0x77, 0x7F, 0x6B, 0x63, 0x63, 0x00, 0x00],
      [0x66, 0x76, 0x7E, 0x6E, 0x66, 0x66, 0x00, 0x00],
      [0x3C, 0x66, 0x66, 0x66, 0x66, 0x3C, 0x00, 0x00],
      [0x7C, 0x66, 0x66, 0x7C, 0x60, 0x60, 0x00, 0x00],
      [0x3C, 0x66, 0x66, 0x6E, 0x3C, 0x0E, 0x00, 0x00],
      [0x7C, 0x66, 0x66, 0x7C, 0x6C, 0x66, 0x00, 0x00],
      [0x3C, 0x60, 0x3C, 0x06, 0x06, 0x3C, 0x00, 0x00],
      [0x7E, 0x18, 0x18, 0x18, 0x18, 0x18, 0x00, 0x00],
      [0x66, 0x66, 0x66, 0x66, 0x66, 0x3C, 0x00, 0x00],
      [0x66, 0x66, 0x66, 0x66, 0x3C, 0x18, 0x00, 0x00],
      [0x63, 0x63, 0x6B, 0x7F, 0x77, 0x63, 0x00, 0x00],
      [0x66, 0x66, 0x3C, 0x3C, 0x66, 0x66, 0x00, 0x00],
      [0x66, 0x66, 0x3C, 0x18, 0x18, 0x18, 0x00, 0x00],
      [0x7E, 0x06, 0x0C, 0x18, 0x30, 0x7E, 0x00, 0x00]]"

definition font_data :: "nat \<Rightarrow> u8 list" where
  "font_data c = (if 33 \<le> c \<and> c < 59 then letter_rows ! (c - 33) else replicate 8 0)"

definition gui_draw_char :: "u16 \<Rightarrow> u16 \<Rightarrow> char \<Rightarrow> u8 \<Rightarrow> pixels \<Rightarrow> pixels" where
  "gui_draw_char x y c color b =
     (let g = font_data (of_char c) in
      fold (\<lambda>yy b. fold (\<lambda>xx b. if bit (g ! yy) (7 - xx)
                              then plot (uint x + int xx) (uint y + int yy) color b else b) [0..<8] b)
        [0..<8] b)"

fun draw_string_from :: "nat \<Rightarrow> u16 \<Rightarrow> u16 \<Rightarrow> string \<Rightarrow> u8 \<Rightarrow> pixels \<Rightarrow> pixels" where
  "draw_string_from i x y [] color b = b"
| "draw_string_from i x y (c # str) color b =
     draw_string_from (Suc i) x y str color (gui_draw_char (word_of_int (uint x + int i * 8)) y c color b)"

definition gui_draw_string :: "u16 \<Rightarrow> u16 \<Rightarrow> string \<Rightarrow> u8 \<Rightarrow> pixels \<Rightarrow> pixels" where
  "gui_draw_string x y str color b = draw_string_from 0 x y str color b"

definition gui_draw_cursor :: "u16 \<Rightarrow> u16 \<Rightarrow> u8 \<Rightarrow> pixels \<Rightarrow> pixels option" where
  "gui_draw_cursor x y c b =
     do {
       b \<leftarrow> gui_draw_line x y (x + 8) (y + 8) c b;
       b \<leftarrow> gui_draw_line x y (x + 4) (y + 4) c b;
       gui_draw_line (x + 4) (y + 4) (x + 8) y c b
     }"

text \<open>\<open>gui_update\<close> copies the back buffer over the frame buffer.\<close>

definition gui_update :: "pixels \<Rightarrow> pixels \<Rightarrow> pixels" where
  "gui_update back fb = (\<lambda>i. if i < SCREEN_WIDTH * SCREEN_HEIGHT then back i else fb i)"

section \<open>Widgets\<close>

text \<open>
  The widgets of one kind live in a static array with a counter; a widget is never given back. A
  pointer to a widget is its index, and the functions on an existing widget take and return it.
  A callback is a value of a type \<open>'k\<close>; a click returns the callback to be run.
\<close>

record 'w pool =
  widgets :: "nat \<Rightarrow> 'w"
  used :: nat

definition new_widget :: "nat \<Rightarrow> 'w \<Rightarrow> 'w pool \<Rightarrow> nat option \<times> 'w pool" where
  "new_widget cap w p =
     (if used p \<ge> cap then (None, p)
      else (Some (used p), p\<lparr>widgets := (widgets p)(used p := w), used := used p + 1\<rparr>))"

record 'k button =
  b_x :: u16
  b_y :: u16
  b_width :: u16
  b_height :: u16
  b_label :: "string option"
  b_color :: u8
  b_text_color :: u8
  b_on_click :: "'k option"
  b_pressed :: bool
  b_enabled :: bool

definition gui_create_button ::
  "u16 \<Rightarrow> u16 \<Rightarrow> u16 \<Rightarrow> u16 \<Rightarrow> string option \<Rightarrow> u8 \<Rightarrow> 'k option \<Rightarrow> 'k button pool \<Rightarrow> nat option \<times> 'k button pool"
where
  "gui_create_button x y w h label color on_click p =
     new_widget 16 \<lparr>b_x = x, b_y = y, b_width = w, b_height = h, b_label = label, b_color = color,
       b_text_color = COLOR_WHITE, b_on_click = on_click, b_pressed = False, b_enabled = True\<rparr> p"

text \<open>\<open>COLOR_LIGHTBLUE\<close> is not declared in the repository; it is the argument \<open>lightblue\<close>.\<close>

definition gui_draw_button :: "u8 \<Rightarrow> 'k button \<Rightarrow> pixels \<Rightarrow> pixels option" where
  "gui_draw_button lightblue b px =
     (let c = (if b_pressed b then lightblue else b_color b);
          c = (if \<not> b_enabled b then COLOR_DARKGRAY else c);
          px = gui_fill_rect (b_x b) (b_y b) (b_width b) (b_height b) c px in
      do {
        px \<leftarrow> gui_draw_rect (b_x b) (b_y b) (b_width b) (b_height b) COLOR_DARKGRAY px;
        Some (case b_label b of None \<Rightarrow> px
          | Some s \<Rightarrow> gui_draw_string (b_x b + 5) (b_y b + b_height b div 2 - 4) s (b_text_color b) px)
      })"

definition gui_handle_button_click :: "'k button \<Rightarrow> u16 \<Rightarrow> u16 \<Rightarrow> 'k button \<times> 'k option" where
  "gui_handle_button_click b cx cy =
     (if \<not> b_enabled b then (b, None)
      else if cx \<ge> b_x b \<and> uint cx < uint (b_x b) + uint (b_width b)
            \<and> cy \<ge> b_y b \<and> uint cy < uint (b_y b) + uint (b_height b)
      then (b\<lparr>b_pressed := True\<rparr>, b_on_click b)
      else (b\<lparr>b_pressed := False\<rparr>, None))"

definition gui_button_set_enabled :: "bool \<Rightarrow> 'k button \<Rightarrow> 'k button" where
  "gui_button_set_enabled e b = b\<lparr>b_enabled := e\<rparr>"

record textbox =
  t_x :: u16
  t_y :: u16
  t_width :: u16
  t_height :: u16
  t_bg_color :: u8
  t_text_color :: u8
  t_cursor :: u16
  t_max :: u16
  t_focused :: bool
  t_buffer :: "char list"

definition gui_create_textbox ::
  "u16 \<Rightarrow> u16 \<Rightarrow> u16 \<Rightarrow> u16 \<Rightarrow> u16 \<Rightarrow> textbox pool \<Rightarrow> nat option \<times> textbox pool" where
  "gui_create_textbox x y w h max_n p =
     new_widget 8 \<lparr>t_x = x, t_y = y, t_width = w, t_height = h, t_bg_color = COLOR_WHITE,
       t_text_color = COLOR_BLACK, t_cursor = 0, t_max = max_n, t_focused = False,
       t_buffer = replicate 256 NUL\<rparr> p"

definition gui_draw_textbox :: "u8 \<Rightarrow> textbox \<Rightarrow> pixels \<Rightarrow> pixels option" where
  "gui_draw_textbox lightblue b px =
     (let bc = (if t_focused b then lightblue else COLOR_DARKGRAY);
          px = gui_fill_rect (t_x b) (t_y b) (t_width b) (t_height b) (t_bg_color b) px in
      do {
        px \<leftarrow> gui_draw_rect (t_x b) (t_y b) (t_width b) (t_height b) bc px;
        let px = gui_draw_string (t_x b + 2) (t_y b + t_height b div 2 - 4) (cstr (t_buffer b)) (t_text_color b) px;
        if t_focused b then
          let cx = t_x b + 2 + t_cursor b * 8 in
          gui_draw_line cx (t_y b + 2) cx (t_y b + t_height b - 2) COLOR_BLACK px
        else Some px
      })"

text \<open>Writing behind the 256 bytes of the buffer has no defined outcome: \<^term>\<open>None\<close>.\<close>

definition gui_textbox_input_char :: "char \<Rightarrow> textbox \<Rightarrow> textbox option" where
  "gui_textbox_input_char c b =
     (if t_cursor b < t_max b then
        let n = unat (t_cursor b); m = unat (t_cursor b + 1) in
        if n < length (t_buffer b) \<and> m < length (t_buffer b)
        then Some (b\<lparr>t_buffer := (t_buffer b)[n := c, m := NUL], t_cursor := t_cursor b + 1\<rparr>)
        else None
      else Some b)"

definition gui_textbox_backspace :: "textbox \<Rightarrow> textbox option" where
  "gui_textbox_backspace b =
     (if t_cursor b > 0 then
        let n = unat (t_cursor b - 1) in
        if n < length (t_buffer b)
        then Some (b\<lparr>t_cursor := t_cursor b - 1, t_buffer := (t_buffer b)[n := NUL]\<rparr>) else None
      else Some b)"

definition gui_textbox_set_focused :: "bool \<Rightarrow> textbox \<Rightarrow> textbox" where
  "gui_textbox_set_focused f b = b\<lparr>t_focused := f\<rparr>"

record label =
  lb_x :: u16
  lb_y :: u16
  lb_text :: string
  lb_color :: u8

definition gui_create_label :: "u16 \<Rightarrow> u16 \<Rightarrow> string \<Rightarrow> u8 \<Rightarrow> label pool \<Rightarrow> nat option \<times> label pool" where
  "gui_create_label x y s color p =
     new_widget 32 \<lparr>lb_x = x, lb_y = y, lb_text = s, lb_color = color\<rparr> p"

definition gui_draw_label :: "label \<Rightarrow> pixels \<Rightarrow> pixels" where
  "gui_draw_label l px = gui_draw_string (lb_x l) (lb_y l) (lb_text l) (lb_color l) px"

definition gui_label_set_text :: "string \<Rightarrow> label \<Rightarrow> label" where
  "gui_label_set_text s l = l\<lparr>lb_text := s\<rparr>"

record checkbox =
  c_x :: u16
  c_y :: u16
  c_label :: "string option"
  c_color :: u8
  c_text_color :: u8
  c_checked :: bool

definition gui_create_checkbox ::
  "u16 \<Rightarrow> u16 \<Rightarrow> string option \<Rightarrow> u8 \<Rightarrow> checkbox pool \<Rightarrow> nat option \<times> checkbox pool" where
  "gui_create_checkbox x y label color p =
     new_widget 16 \<lparr>c_x = x, c_y = y, c_label = label, c_color = color, c_text_color = COLOR_WHITE,
       c_checked = False\<rparr> p"

definition gui_draw_checkbox :: "checkbox \<Rightarrow> pixels \<Rightarrow> pixels option" where
  "gui_draw_checkbox c px =
     do {
       px \<leftarrow> gui_draw_rect (c_x c) (c_y c) 12 12 (c_color c) px;
       let px = (if c_checked c then gui_fill_rect (c_x c + 2) (c_y c + 2) 8 8 (c_color c) px else px);
       Some (case c_label c of None \<Rightarrow> px
         | Some s \<Rightarrow> gui_draw_string (c_x c + 16) (c_y c + 2) s (c_text_color c) px)
     }"

definition gui_checkbox_toggle :: "checkbox \<Rightarrow> checkbox" where
  "gui_checkbox_toggle c = c\<lparr>c_checked := \<not> c_checked c\<rparr>"

definition gui_handle_checkbox_click :: "checkbox \<Rightarrow> u16 \<Rightarrow> u16 \<Rightarrow> checkbox" where
  "gui_handle_checkbox_click c cx cy =
     (if cx \<ge> c_x c \<and> uint cx < uint (c_x c) + 12 \<and> cy \<ge> c_y c \<and> uint cy < uint (c_y c) + 12
      then gui_checkbox_toggle c else c)"

record progressbar =
  p_x :: u16
  p_y :: u16
  p_width :: u16
  p_height :: u16
  p_bg_color :: u8
  p_fill_color :: u8
  p_percentage :: u8

definition gui_create_progressbar ::
  "u16 \<Rightarrow> u16 \<Rightarrow> u16 \<Rightarrow> u16 \<Rightarrow> u8 \<Rightarrow> u8 \<Rightarrow> progressbar pool \<Rightarrow> nat option \<times> progressbar pool" where
  "gui_create_progressbar x y w h bg fill p =
     new_widget 8 \<lparr>p_x = x, p_y = y, p_width = w, p_height = h, p_bg_color = bg, p_fill_color = fill,
       p_percentage = 0\<rparr> p"

definition gui_draw_progressbar :: "progressbar \<Rightarrow> pixels \<Rightarrow> pixels option" where
  "gui_draw_progressbar p px =
     (let px = gui_fill_rect (p_x p) (p_y p) (p_width p) (p_height p) (p_bg_color p) px;
          px = gui_fill_rect (p_x p) (p_y p) (of_nat (unat (p_width p) * unat (p_percentage p) div 100))
                 (p_height p) (p_fill_color p) px in
      gui_draw_rect (p_x p) (p_y p) (p_width p) (p_height p) COLOR_BLACK px)"

definition gui_progressbar_set_value :: "u8 \<Rightarrow> progressbar \<Rightarrow> progressbar" where
  "gui_progressbar_set_value v p = (if v \<le> 100 then p\<lparr>p_percentage := v\<rparr> else p)"

record gui_window =
  gw_x :: u16
  gw_y :: u16
  gw_width :: u16
  gw_height :: u16
  gw_title :: "string option"
  gw_title_color :: u8
  gw_bg_color :: u8
  gw_visible :: bool
  gw_draggable :: bool

definition gui_create_window ::
  "u16 \<Rightarrow> u16 \<Rightarrow> u16 \<Rightarrow> u16 \<Rightarrow> string option \<Rightarrow> u8 \<Rightarrow> gui_window pool \<Rightarrow> nat option \<times> gui_window pool" where
  "gui_create_window x y w h title tc p =
     new_widget 4 \<lparr>gw_x = x, gw_y = y, gw_width = w, gw_height = h, gw_title = title,
       gw_title_color = tc, gw_bg_color = COLOR_LIGHTGRAY, gw_visible = True, gw_draggable = True\<rparr> p"

definition gui_draw_window :: "gui_window \<Rightarrow> pixels \<Rightarrow> pixels option" where
  "gui_draw_window w px =
     (if \<not> gw_visible w then Some px
      else let px = gui_fill_rect (gw_x w) (gw_y w) (gw_width w) 20 (gw_title_color w) px;
               px = gui_fill_rect (gw_x w) (gw_y w + 20) (gw_width w) (gw_height w - 20) (gw_bg_color w) px in
           do {
             px \<leftarrow> gui_draw_rect (gw_x w) (gw_y w) (gw_width w) (gw_height w) COLOR_BLACK px;
             Some (case gw_title w of None \<Rightarrow> px
               | Some s \<Rightarrow> gui_draw_string (gw_x w + 4) (gw_y w + 6) s COLOR_WHITE px)
           })"

definition gui_window_set_visible :: "bool \<Rightarrow> gui_window \<Rightarrow> gui_window" where
  "gui_window_set_visible v w = w\<lparr>gw_visible := v\<rparr>"

definition gui_window_move :: "u16 \<Rightarrow> u16 \<Rightarrow> gui_window \<Rightarrow> gui_window" where
  "gui_window_move x y w = w\<lparr>gw_x := x, gw_y := y\<rparr>"

section \<open>Bresenham's line\<close>

definition close :: "int \<Rightarrow> int \<Rightarrow> int \<Rightarrow> int \<Rightarrow> bool" where
  "close dx dy i j \<longleftrightarrow> 0 \<le> i \<and> i \<le> dx \<and> 0 \<le> j \<and> j \<le> dy \<and> 2 * \<bar>dx * j - dy * i\<bar> \<le> max dx dy"

definition line_next :: "int \<Rightarrow> int \<Rightarrow> int \<times> int \<Rightarrow> int \<times> int" where
  "line_next dx dy = (\<lambda>(i, j). let e2 = 2 * (dx * (1 + j) - dy * (1 + i)) in
     (if e2 > - dy then i + 1 else i, if e2 < dx then j + 1 else j))"

lemma two_abs_le: "2 * \<bar>a\<bar> \<le> m \<longleftrightarrow> 2 * a \<le> m \<and> - (2 * a) \<le> m" for a m :: int
  by (cases "0 \<le> a") auto

lemma line_next_close:
  assumes "close dx dy i j" and "(i, j) \<noteq> (dx, dy)" and "line_next dx dy (i, j) = (i', j')"
  shows "close dx dy i' j' \<and> i \<le> i' \<and> i' \<le> i + 1 \<and> j \<le> j' \<and> j' \<le> j + 1 \<and> i + j < i' + j'"
proof -
  define e where "e = dx * j - dy * i"
  have e2: "2 * (dx * (1 + j) - dy * (1 + i)) = 2 * e + 2 * dx - 2 * dy"
    by (simp add: e_def algebra_simps)
  have b: "0 \<le> i" "i \<le> dx" "0 \<le> j" "j \<le> dy" "2 * \<bar>e\<bar> \<le> max dx dy"
    using assms(1) by (auto simp: close_def e_def)
  let ?X = "2 * e + 2 * dx - 2 * dy > - dy" and ?Y = "2 * e + 2 * dx - 2 * dy < dx"
  have n: "i' = (if ?X then i + 1 else i)" "j' = (if ?Y then j + 1 else j)"
  proof -
    have "line_next dx dy (i, j) = (if ?X then i + 1 else i, if ?Y then j + 1 else j)"
      unfolding line_next_def Let_def prod.case e2 ..
    with assms(3) show "i' = (if ?X then i + 1 else i)" "j' = (if ?Y then j + 1 else j)" by simp_all
  qed
  have i_end: "\<not> ?X" if "i = dx" "j < dy"
  proof -
    have "e = dx * (j - dy)" using that by (simp add: e_def algebra_simps)
    also have "\<dots> \<le> dx * (- 1)" using that b by (intro mult_left_mono) auto
    finally show ?thesis using that b by auto
  qed
  have j_end: "\<not> ?Y" if "j = dy" "i < dx"
  proof -
    have "e = dy * (dx - i)" using that by (simp add: e_def algebra_simps)
    also have "\<dots> \<ge> dy * 1" using that b by (intro mult_left_mono) auto
    finally show ?thesis using that b by auto
  qed
  have less: "i < dx \<or> j < dy" using assms(2) b by auto
  have e': "dx * j' - dy * i' = e + (if ?Y then dx else 0) - (if ?X then dy else 0)"
    by (simp add: n e_def algebra_simps)
  have move: "?X \<or> ?Y" using less b by linarith
  have "2 * \<bar>dx * j' - dy * i'\<bar> \<le> max dx dy"
    unfolding e' two_abs_le using b(1-4) b(5) [unfolded two_abs_le] by (cases "dx \<le> dy") (simp_all add: max_def)
  moreover have "i' \<le> dx" using n(1) b(2) less i_end by (cases "i = dx") auto
  moreover have "j' \<le> dy" using n(2) b(4) less j_end by (cases "j = dy") auto
  ultimately show ?thesis using b n move by (auto simp: close_def)
qed

lemma line_loop_points:
  assumes "close dx dy i j" and sx: "sx = 1 \<or> sx = - 1" and sy: "sy = 1 \<or> sy = - 1"
  shows "\<exists>pts. line_loop dx dy sx sy (x1 + sx * dx) (y1 + sy * dy) c (dx * (1 + j) - dy * (1 + i))
        (x1 + sx * i) (y1 + sy * j) b = Some (fold (\<lambda>(i, j). plot (x1 + sx * i) (y1 + sy * j) c) pts b)
    \<and> pts \<noteq> [] \<and> hd pts = (i, j) \<and> last pts = (dx, dy) \<and> (\<forall>(i, j) \<in> set pts. close dx dy i j)
    \<and> successively (\<lambda>(i, j) (i', j'). i \<le> i' \<and> i' \<le> i + 1 \<and> j \<le> j' \<and> j' \<le> j + 1) pts"
  using assms(1)
proof (induction "nat ((dx - i) + (dy - j))" arbitrary: i j b rule: less_induct)
  case less
  let ?p = "\<lambda>(i, j). plot (x1 + sx * i) (y1 + sy * j) c"
  let ?adj = "\<lambda>(i, j) (i' :: int, j' :: int). i \<le> i' \<and> i' \<le> i + 1 \<and> j \<le> j' \<and> j' \<le> j + 1"
  let ?err = "dx * (1 + j) - dy * (1 + i)"
  define ends where "ends \<longleftrightarrow> x1 + sx * i = x1 + sx * dx \<and> y1 + sy * j = y1 + sy * dy"
  have ends: "ends \<longleftrightarrow> (i, j) = (dx, dy)" using sx sy by (auto simp: ends_def)
  show ?case
  proof (cases "(i, j) = (dx, dy)")
    case True
    then show ?thesis using less.prems
      by (intro exI [of _ "[(i, j)]"]) (simp add: line_loop.simps Let_def)
  next
    case False
    obtain i' j' where nx: "line_next dx dy (i, j) = (i', j')" by fastforce
    note s = line_next_close [OF less.prems False nx]
    then have "nat ((dx - i') + (dy - j')) < nat ((dx - i) + (dy - j))"
      using less.prems by (auto simp: close_def)
    from less.hyps [OF this conjunct1 [OF s], of "?p (i, j) b"] obtain pts where pts:
      "line_loop dx dy sx sy (x1 + sx * dx) (y1 + sy * dy) c (dx * (1 + j') - dy * (1 + i'))
        (x1 + sx * i') (y1 + sy * j') (?p (i, j) b) = Some (fold ?p pts (?p (i, j) b))"
      "pts \<noteq> []" "hd pts = (i', j')" "last pts = (dx, dy)" "\<forall>(i, j) \<in> set pts. close dx dy i j"
      "successively ?adj pts" by auto
    have n: "i' = (if 2 * ?err > - dy then i + 1 else i)" "j' = (if 2 * ?err < dx then j + 1 else j)"
      using nx by (simp_all add: line_next_def Let_def)
    have "line_loop dx dy sx sy (x1 + sx * dx) (y1 + sy * dy) c ?err (x1 + sx * i) (y1 + sy * j) b
      = line_loop dx dy sx sy (x1 + sx * dx) (y1 + sy * dy) c (dx * (1 + j') - dy * (1 + i'))
        (x1 + sx * i') (y1 + sy * j') (?p (i, j) b)"
    proof -
      have e: "dx * (1 + j') - dy * (1 + i')
          = (if 2 * ?err < dx then (if 2 * ?err > - dy then ?err - dy else ?err) + dx
             else (if 2 * ?err > - dy then ?err - dy else ?err))"
        "x1 + sx * i' = (if 2 * ?err > - dy then x1 + sx * i + sx else x1 + sx * i)"
        "y1 + sy * j' = (if 2 * ?err < dx then y1 + sy * j + sy else y1 + sy * j)"
        unfolding n by (simp_all add: algebra_simps)
      have ne: "\<not> (x1 + sx * i = x1 + sx * dx \<and> y1 + sy * j = y1 + sy * dy)"
        using False ends by (simp add: ends_def)
      show ?thesis
        unfolding e by (subst line_loop.simps) (simp only: Let_def ne if_False prod.case split: if_split, simp)
    qed
    then show ?thesis using pts less.prems s
      by (intro exI [of _ "(i, j) # pts"]) (auto simp: successively_Cons)
  qed
qed
section \<open>Filled rectangles\<close>

lemma fold_set_pixels:
  assumes "yy < 1080" and "\<forall>xx \<in> set xs. xx < 1920"
  shows "fold (\<lambda>xx b. gui_set_pixel (of_nat xx) (of_nat yy) c b) xs b
    = (\<lambda>p. if p div 1920 = yy \<and> p mod 1920 \<in> set xs then c else b p)"
  using assms(2)
proof (induction xs arbitrary: b)
  case (Cons xx xs)
  have u: "unat (of_nat xx :: u16) = xx" "unat (of_nat yy :: u16) = yy"
    using Cons.prems assms(1) by (simp_all add: unat_of_nat)
  have "p = yy * 1920 + xx \<longleftrightarrow> p div 1920 = yy \<and> p mod 1920 = xx" for p
    using Cons.prems by auto
  with Cons u assms(1) show ?case
    by (auto simp: gui_set_pixel_def SCREEN_WIDTH_def SCREEN_HEIGHT_def fun_eq_iff)
qed simp

lemma fold_fill_rows:
  assumes "\<forall>yy \<in> set ys. yy < 1080"
  shows "fold (\<lambda>yy b. fill_row x xe c yy b) ys b
    = (\<lambda>p. if p div 1920 \<in> set ys \<and> x \<le> p mod 1920 \<and> p mod 1920 < xe then c else b p)"
  using assms
proof (induction ys arbitrary: b)
  case (Cons yy ys)
  have "fill_row x xe c yy b = (\<lambda>p. if p div 1920 = yy \<and> p mod 1920 \<in> set [x..<min xe 1920] then c else b p)" for b
    unfolding fill_row_def SCREEN_WIDTH_def using Cons.prems by (intro fold_set_pixels) auto
  then have "fill_row x xe c yy b = (\<lambda>p. if p div 1920 = yy \<and> x \<le> p mod 1920 \<and> p mod 1920 < xe then c else b p)" for b
    by (simp add: fun_eq_iff)
  with Cons show ?case by (auto simp: fun_eq_iff)
qed simp

section \<open>Properties\<close>

definition near_line :: "u16 \<Rightarrow> u16 \<Rightarrow> u16 \<Rightarrow> u16 \<Rightarrow> int \<times> int \<Rightarrow> bool" where
  "near_line x1 y1 x2 y2 = (\<lambda>(x, y).
     let dx = \<bar>uint x2 - uint x1\<bar>; dy = \<bar>uint y2 - uint y1\<bar> in
     min (uint x1) (uint x2) \<le> x \<and> x \<le> max (uint x1) (uint x2)
     \<and> min (uint y1) (uint y2) \<le> y \<and> y \<le> max (uint y1) (uint y2)
     \<and> 2 * \<bar>dx * \<bar>y - uint y1\<bar> - dy * \<bar>x - uint x1\<bar>\<bar> \<le> max dx dy)"

definition adjacent :: "int \<times> int \<Rightarrow> int \<times> int \<Rightarrow> bool" where
  "adjacent = (\<lambda>(x, y) (x', y'). \<bar>x' - x\<bar> \<le> 1 \<and> \<bar>y' - y\<bar> \<le> 1)"

text \<open>
  C8. Drawing a line always ends. It sets the pixels of a connected path from the first to the
  second end point, all of them inside the rectangle of the end points and at most half a pixel
  off the ideal line, measured along the shorter axis.
\<close>

theorem line_is_nearest_path:
  "\<exists>pts. gui_draw_line x1 y1 x2 y2 c b = Some (fold (\<lambda>(x, y). plot x y c) pts b)
     \<and> pts \<noteq> [] \<and> hd pts = (uint x1, uint y1) \<and> last pts = (uint x2, uint y2)
     \<and> list_all (near_line x1 y1 x2 y2) pts \<and> successively adjacent pts"
proof -
  define dx dy sx sy where "dx = \<bar>uint x2 - uint x1\<bar>" and "dy = \<bar>uint y2 - uint y1\<bar>"
    and "sx = (if x1 < x2 then 1 else - 1 :: int)" and "sy = (if y1 < y2 then 1 else - 1 :: int)"
  have ends: "uint x2 = uint x1 + sx * dx" "uint y2 = uint y1 + sy * dy"
    by (auto simp: dx_def dy_def sx_def sy_def word_less_def)
  have s: "sx = 1 \<or> sx = - 1" "sy = 1 \<or> sy = - 1" by (simp_all add: sx_def sy_def)
  have "close dx dy 0 0" by (simp add: close_def dx_def dy_def)
  from line_loop_points [OF this s, of "uint x1" "uint y1" c b] obtain pts where pts:
    "line_loop dx dy sx sy (uint x2) (uint y2) c (dx - dy) (uint x1) (uint y1) b
      = Some (fold (\<lambda>(i, j). plot (uint x1 + sx * i) (uint y1 + sy * j) c) pts b)"
    "pts \<noteq> []" "hd pts = (0, 0)" "last pts = (dx, dy)" "\<forall>(i, j) \<in> set pts. close dx dy i j"
    "successively (\<lambda>(i, j) (i', j'). i \<le> i' \<and> i' \<le> i + 1 \<and> j \<le> j' \<and> j' \<le> j + 1) pts"
    by (auto simp: ends)
  define at where "at = (\<lambda>(i, j). (uint x1 + sx * i, uint y1 + sy * j))"
  have "gui_draw_line x1 y1 x2 y2 c b = line_loop dx dy sx sy (uint x2) (uint y2) c (dx - dy) (uint x1) (uint y1) b"
    by (simp add: gui_draw_line_def dx_def dy_def sx_def sy_def word_less_def abs_if Let_def)
  also have "\<dots> = Some (fold (\<lambda>(x, y). plot x y c) (map at pts) b)"
    by (simp add: pts(1) fold_map comp_def at_def case_prod_unfold)
  finally have run: "gui_draw_line x1 y1 x2 y2 c b = Some (fold (\<lambda>(x, y). plot x y c) (map at pts) b)" .
  have "near_line x1 y1 x2 y2 (at p)" if "p \<in> set pts" for p
  proof -
    obtain i j where p: "p = (i, j)" "close dx dy i j" using pts(5) \<open>p \<in> set pts\<close> by (cases p) auto
    then have "\<bar>sx * i\<bar> = i" "\<bar>sy * j\<bar> = j" using s by (auto simp: close_def)
    moreover have "min (uint x1) (uint x2) \<le> uint x1 + sx * i \<and> uint x1 + sx * i \<le> max (uint x1) (uint x2)"
      using p(2) s(1) by (auto simp: close_def ends(1))
    moreover have "min (uint y1) (uint y2) \<le> uint y1 + sy * j \<and> uint y1 + sy * j \<le> max (uint y1) (uint y2)"
      using p(2) s(2) by (auto simp: close_def ends(2))
    ultimately show ?thesis using p(2)
      by (simp add: near_line_def at_def p(1) close_def Let_def dx_def [symmetric] dy_def [symmetric])
  qed
  then have "list_all (near_line x1 y1 x2 y2) (map at pts)" by (auto simp: list_all_iff)
  moreover have "successively adjacent (map at pts)"
    unfolding successively_map using pts(6)
    by (rule successively_mono) (use s in \<open>auto simp: adjacent_def at_def\<close>)
  moreover have "hd (map at pts) = (uint x1, uint y1)" "last (map at pts) = (uint x2, uint y2)"
    using pts(2-4) by (simp_all add: hd_map last_map at_def ends)
  ultimately show ?thesis using run pts(2) by (intro exI [of _ "map at pts"]) simp
qed

text \<open>
  Filling a rectangle sets exactly the pixels of the screen inside it, also when it crosses the
  right or lower edge: the loops agree with the set of its pixels.
\<close>

theorem fill_rect_exact:
  "gui_fill_rect x y w h c b = (\<lambda>p.
     if p < 1920 * 1080 \<and> unat x \<le> p mod 1920 \<and> p mod 1920 < unat x + unat w
        \<and> unat y \<le> p div 1920 \<and> p div 1920 < unat y + unat h
     then c else b p)"
proof -
  have "p < 1920 * 1080 \<longleftrightarrow> p div 1920 < 1080" for p :: nat
    by (simp add: less_mult_imp_div_less div_less_iff_less_mult)
  then show ?thesis
    by (auto simp: gui_fill_rect_def SCREEN_HEIGHT_def fold_fill_rows fun_eq_iff)
qed

text \<open>
  The font table is filled by position and not by character code, so that the letters lie in
  the rows of the characters from \<open>!\<close> to \<open>:\<close>: a text without these characters, such as any text of
  letters, draws nothing.
\<close>

theorem letters_draw_nothing:
  assumes "\<not> (\<exists>c \<in> set str. 33 \<le> (of_char c :: nat) \<and> (of_char c :: nat) < 59)"
  shows "gui_draw_string x y str color b = b"
proof -
  have "gui_draw_char u v ch color b = b" if "\<not> (33 \<le> (of_char ch :: nat) \<and> (of_char ch :: nat) < 59)" for u v ch b
  proof -
    have "font_data (of_char ch) = replicate 8 0" using that by (auto simp: font_data_def)
    moreover have "fold (\<lambda>xx b. b) xs b = b" for xs :: "nat list" and b :: pixels by (induction xs) auto
    moreover have "fold (\<lambda>yy. if P yy then f yy else (\<lambda>b. b)) ys b = b" if "\<forall>yy \<in> set ys. \<not> P yy"
      for P f and ys :: "nat list" and b :: pixels using that by (induction ys) auto
    ultimately show ?thesis unfolding gui_draw_char_def Let_def by (simp add: upt_rec)
  qed
  then have "draw_string_from i x y str color b = b" for i b
    using assms
  proof (induction str arbitrary: i b)
    case (Cons ch str)
    then show ?case by simp
  qed simp
  then show ?thesis by (simp add: gui_draw_string_def)
qed

theorem letters_draw_nothing_witness:
  "gui_draw_string 10 10 ''BlockOS'' COLOR_WHITE (\<lambda>_. 0) = (\<lambda>_. 0)"
  by (rule letters_draw_nothing) simp

section \<open>Text boxes\<close>

definition textbox_ok :: "textbox \<Rightarrow> bool" where
  "textbox_ok b \<longleftrightarrow> length (t_buffer b) = 256 \<and> unat (t_max b) \<le> 255 \<and> t_cursor b \<le> t_max b
     \<and> NUL \<notin> set (take (unat (t_cursor b)) (t_buffer b)) \<and> t_buffer b ! unat (t_cursor b) = NUL"

lemma textbox_text:
  assumes "textbox_ok b"
  shows "cstr (t_buffer b) = take (unat (t_cursor b)) (t_buffer b)" and "unat (t_cursor b) \<le> 255"
proof -
  show n: "unat (t_cursor b) \<le> 255" using assms by (simp add: textbox_ok_def word_le_nat_alt)
  let ?n = "unat (t_cursor b)"
  have "t_buffer b = take ?n (t_buffer b) @ NUL # drop (Suc ?n) (t_buffer b)"
    using assms n id_take_nth_drop [of ?n "t_buffer b"] by (simp add: textbox_ok_def)
  then have "cstr (t_buffer b) = cstr (take ?n (t_buffer b) @ NUL # drop (Suc ?n) (t_buffer b))" by simp
  also have "\<dots> = take ?n (t_buffer b)" using assms by (intro cstr_append_NUL) (simp add: textbox_ok_def)
  finally show "cstr (t_buffer b) = take ?n (t_buffer b)" .
qed

lemma textbox_input:
  assumes "textbox_ok b" and "c \<noteq> NUL"
  shows "\<exists>b'. gui_textbox_input_char c b = Some b' \<and> textbox_ok b' \<and> t_max b' = t_max b
    \<and> cstr (t_buffer b') = (if length (cstr (t_buffer b)) < unat (t_max b) then cstr (t_buffer b) @ [c]
                            else cstr (t_buffer b))"
proof (cases "t_cursor b < t_max b")
  case False
  with assms textbox_text [OF assms(1)] show ?thesis
    by (auto simp: gui_textbox_input_char_def textbox_ok_def word_less_nat_alt)
next
  case True
  let ?n = "unat (t_cursor b)"
  define b' where "b' = b\<lparr>t_buffer := (t_buffer b)[?n := c, Suc ?n := NUL], t_cursor := t_cursor b + 1\<rparr>"
  have n: "?n < 255" "unat (t_cursor b + 1) = Suc ?n"
  proof -
    show l: "?n < 255" using True assms(1) by (simp add: textbox_ok_def word_less_nat_alt)
    then show "unat (t_cursor b + 1) = Suc ?n" by (simp add: unat_word_ariths)
  qed
  have len: "length (t_buffer b) = 256" using assms(1) by (simp add: textbox_ok_def)
  have run: "gui_textbox_input_char c b = Some b'"
    using True n len by (simp add: gui_textbox_input_char_def b'_def Let_def)
  have tk: "take (Suc ?n) (t_buffer b') = take ?n (t_buffer b) @ [c]"
    using n len by (intro nth_equalityI) (auto simp: b'_def nth_append nth_list_update less_Suc_eq)
  have ok: "textbox_ok b'"
    using assms True n len tk by (auto simp: textbox_ok_def b'_def word_less_nat_alt word_le_nat_alt)
  have "cstr (t_buffer b') = take ?n (t_buffer b) @ [c]"
    using textbox_text(1) [OF ok] tk n by (simp add: b'_def)
  with run ok True n len textbox_text(1) [OF assms(1)] show ?thesis
    by (intro exI [of _ b']) (simp add: word_less_nat_alt, simp add: b'_def)
qed

lemma textbox_backspace:
  assumes "textbox_ok b"
  shows "\<exists>b'. gui_textbox_backspace b = Some b' \<and> textbox_ok b' \<and> t_max b' = t_max b
    \<and> cstr (t_buffer b') = butlast (cstr (t_buffer b))"
proof (cases "t_cursor b = 0")
  case True
  with assms textbox_text [OF assms] show ?thesis by (auto simp: gui_textbox_backspace_def)
next
  case False
  then obtain n where n: "unat (t_cursor b) = Suc n" by (metis not0_implies_Suc unat_eq_zero)
  then have n': "unat (t_cursor b - 1) = n" using False by (simp add: unat_minus_one)
  define b' where "b' = b\<lparr>t_cursor := t_cursor b - 1, t_buffer := (t_buffer b)[n := NUL]\<rparr>"
  have len: "length (t_buffer b) = 256" "n < 255" using assms textbox_text(2) [OF assms] n by (simp_all add: textbox_ok_def)
  have run: "gui_textbox_backspace b = Some b'"
    using False n' len by (simp add: gui_textbox_backspace_def b'_def Let_def word_neq_0_conv)
  have tk: "take n (t_buffer b') = take n (t_buffer b)" by (simp add: b'_def)
  have "set (take n (t_buffer b)) \<subseteq> set (take (Suc n) (t_buffer b))" by (rule set_take_subset_set_take) simp
  then have ok: "textbox_ok b'"
    using assms n n' len by (auto simp: textbox_ok_def b'_def word_le_nat_alt)
  have "cstr (t_buffer b') = take n (t_buffer b)" using textbox_text(1) [OF ok] tk n' by (simp add: b'_def)
  also have "\<dots> = butlast (cstr (t_buffer b))"
    using textbox_text(1) [OF assms] n len by (simp add: butlast_take)
  finally show ?thesis using run ok by (intro exI [of _ b']) (simp, simp add: b'_def)
qed

text \<open>
  In a text box for at most 255 characters, typing appends a character until the box is full
  and a backspace takes the last one back; with a larger limit the 256th character writes behind
  the buffer.
\<close>

theorem textbox_edits:
  assumes "textbox_ok b" and "c \<noteq> NUL"
  shows "(\<exists>b' b''. gui_textbox_input_char c b = Some b' \<and> gui_textbox_backspace b' = Some b''
      \<and> textbox_ok b' \<and> textbox_ok b''
      \<and> cstr (t_buffer b') = (if length (cstr (t_buffer b)) < unat (t_max b) then cstr (t_buffer b) @ [c]
                              else cstr (t_buffer b))
      \<and> cstr (t_buffer b'') = butlast (cstr (t_buffer b')))
    \<and> gui_textbox_input_char c (b\<lparr>t_max := 300, t_cursor := 255\<rparr>) = None"
proof
  from textbox_input [OF assms] obtain b' where i: "gui_textbox_input_char c b = Some b'" "textbox_ok b'"
    "cstr (t_buffer b') = (if length (cstr (t_buffer b)) < unat (t_max b) then cstr (t_buffer b) @ [c]
                            else cstr (t_buffer b))" by blast
  from textbox_backspace [OF i(2)] i show "\<exists>b' b''. gui_textbox_input_char c b = Some b' \<and> gui_textbox_backspace b' = Some b''
      \<and> textbox_ok b' \<and> textbox_ok b''
      \<and> cstr (t_buffer b') = (if length (cstr (t_buffer b)) < unat (t_max b) then cstr (t_buffer b) @ [c]
                              else cstr (t_buffer b))
      \<and> cstr (t_buffer b'') = butlast (cstr (t_buffer b'))" by blast
  show "gui_textbox_input_char c (b\<lparr>t_max := 300, t_cursor := 255\<rparr>) = None"
    using assms(1) by (simp add: gui_textbox_input_char_def textbox_ok_def)
qed

definition example_textbox :: textbox where
  "example_textbox = \<lparr>t_x = 0, t_y = 0, t_width = 80, t_height = 16, t_bg_color = 0, t_text_color = 0,
     t_cursor = 0, t_max = 10, t_focused = False, t_buffer = replicate 256 NUL\<rparr>"

theorem textbox_edits_witness:
  "\<exists>b'. gui_textbox_input_char (CHR ''x'') example_textbox = Some b' \<and> cstr (t_buffer b') = ''x''"
proof -
  have ok: "textbox_ok example_textbox" by (simp add: textbox_ok_def example_textbox_def)
  have e: "cstr (t_buffer example_textbox) = []" "unat (t_max example_textbox) = 10"
    using textbox_text(1) [OF ok] by (simp_all add: example_textbox_def)
  from textbox_edits [OF ok, of "CHR ''x''"] show ?thesis unfolding e by auto
qed

end
