(* ===== verification/Procfs.thy ===== *)
theory Procfs
  imports Heap_Alloc CString Printing
begin

text \<open>
  The process file system \<^verbatim>\<open>fs/procfs.c\<close>: the tree of entries, linked by pointers, the texts of its
  files, and reading them. An entry is found under its heap address in \<open>entries\<close>; \<^term>\<open>None\<close> as
  the result of an operation says that it has no defined outcome (a loop over a cyclic list, the
  null root). The text of an open file is kept with the file instead of in the heap block that holds
  it. The process table, its constants and the memory statistics come from files that are not in
  the repository (\<^verbatim>\<open>kernel/process.h\<close>): they are the fields of the parameter \<open>sys\<close>.
\<close>

section \<open>State\<close>

definition PROCFS_MAX_NAME :: nat where "PROCFS_MAX_NAME = 64"

definition PROCFS_MAX_PATH :: nat where "PROCFS_MAX_PATH = 256"

definition PROCFS_BUFFER_SIZE :: u32 where "PROCFS_BUFFER_SIZE = 4096"

definition PROCFS_TYPE_DIR :: u8 where "PROCFS_TYPE_DIR = 0"

definition PROCFS_TYPE_FILE :: u8 where "PROCFS_TYPE_FILE = 1"

definition PROCFS_TYPE_LINK :: u8 where "PROCFS_TYPE_LINK = 2"

lemmas procfs_consts = PROCFS_MAX_NAME_def PROCFS_MAX_PATH_def PROCFS_BUFFER_SIZE_def
  PROCFS_TYPE_DIR_def PROCFS_TYPE_FILE_def PROCFS_TYPE_LINK_def

text \<open>The fields of a process the file system reads.\<close>

record proc_info =
  pi_name :: string
  pi_state :: u32
  pi_pid :: u32
  pi_ppid :: u32
  pi_uid :: u32
  pi_gid :: u32
  pi_priority :: u32
  pi_jiffies :: u32
  code_start :: u32
  code_end :: u32
  data_start :: u32
  data_end :: u32
  heap_start :: u32
  heap_end :: u32
  stack_top :: u32
  stack_bottom :: u32
  fd_used :: "nat \<Rightarrow> bool"

record sys =
  process_table :: "nat \<Rightarrow> proc_info"
  process_count :: u32
  process_get_by_pid :: "u32 \<Rightarrow> proc_info option"
  kernel_ticks :: u64
  mem_total :: u32
  mem_free :: u32
  build_date :: string
  PROCESS_STATE_READY :: u32
  PROCESS_STATE_BLOCKED :: u32
  PROCESS_STATE_ZOMBIE :: u32
  PROCESS_STATE_DEAD :: u32
  PROCESS_STATE_NEW :: u32

datatype reader =
    Read_Version | Read_Uptime | Read_Cpuinfo | Read_Meminfo | Read_Stat | Read_Mounts
  | Read_Filesystems | Read_Interrupts | Read_Loadavg | Read_Cmdline
  | Read_Pid_Status | Read_Pid_Stat | Read_Pid_Cmdline | Read_Pid_Maps | Read_Pid_Fd

type_synonym entry_ptr = u32

record procfs_entry =
  e_name :: string
  e_type :: u8
  e_pid :: u32
  e_read :: "reader option"
  e_write :: "(u32 \<Rightarrow> u8 list \<Rightarrow> bool) option"
  e_children :: "entry_ptr option"
  e_next :: "entry_ptr option"

record procfs_file =
  pf_entry :: "entry_ptr option"
  pf_pid :: u32
  pf_position :: u32
  pf_buffer :: "string option"
  pf_size :: u32

record procfs =
  p_mounted :: bool
  p_root :: "entry_ptr option"
  p_mount_point :: string
  entries :: "entry_ptr \<Rightarrow> procfs_entry"
  p_files :: "u32 \<Rightarrow> procfs_file"
  p_heap :: heap

text \<open>The sizes of the two structures on the 32-bit target.\<close>

definition SIZEOF_ENTRY :: u32 where "SIZEOF_ENTRY = 88"

definition SIZEOF_PFILE :: u32 where "SIZEOF_PFILE = 20"

section \<open>Texts of the global files\<close>

definition version_text :: "sys \<Rightarrow> string" where
  "version_text y = sprint PROCFS_BUFFER_SIZE
     (text_lines
       [''BlockOS 1.0 (blockos@localhost) (gcc 12.0) #1 SMP %s''])
     [Str (build_date y)]"

definition uptime_text :: "sys \<Rightarrow> string" where
  "uptime_text y =
     (let ticks = kernel_ticks y; seconds = ticks div 100; idle = seconds div 2 in
      sprint PROCFS_BUFFER_SIZE (text_lines
       [''%llu.%02llu %llu.%02llu''])
        [U64 seconds, U64 (ticks mod 100), U64 idle, U64 ((ticks div 2) mod 100)])"

definition cpuinfo_text :: string where
  "cpuinfo_text = sprint PROCFS_BUFFER_SIZE
     (text_lines
       [''processor'' @ [TAB] @ '': 0'',
        ''vendor_id'' @ [TAB] @ '': BlockOS CPU'',
        ''cpu family'' @ [TAB] @ '': 6'',
        ''model name'' @ [TAB] @ '': BlockOS Virtual CPU'',
        ''stepping'' @ [TAB] @ '': 1'',
        ''cpu MHz'' @ [TAB, TAB] @ '': 1000.000'',
        ''cache size'' @ [TAB] @ '': 256 KB'',
        ''flags'' @ [TAB, TAB] @ '': fpu vme de pse tsc msr pae mce'',
        ''bogomips'' @ [TAB] @ '': 2000.00'',
        ''clflush size'' @ [TAB] @ '': 64'',
        ''cache_alignment'' @ [TAB] @ '': 64'',
        ''address sizes'' @ [TAB] @ '': 32 bits physical, 32 bits virtual''])
     []"

definition meminfo_text :: "sys \<Rightarrow> string" where
  "meminfo_text y =
     (let total = mem_total y; free_mem = mem_free y; used = total - free_mem in
      sprint PROCFS_BUFFER_SIZE (text_lines
       [''MemTotal:'' @ [TAB] @ ''%8u kB'',
        ''MemFree:'' @ [TAB] @ ''%8u kB'',
        ''MemAvailable:'' @ [TAB] @ ''%8u kB'',
        ''MemUsed:'' @ [TAB] @ ''%8u kB'',
        ''Buffers:'' @ [TAB] @ ''%8u kB'',
        ''Cached:'' @ [TAB, TAB] @ ''%8u kB'',
        ''SwapTotal:'' @ [TAB] @ ''%8u kB'',
        ''SwapFree:'' @ [TAB] @ ''%8u kB''])
       [U32 (total div 1024), U32 (free_mem div 1024), U32 (free_mem div 1024), U32 (used div 1024),
        U32 0, U32 0, U32 0, U32 0])"

definition stat_text :: "sys \<Rightarrow> string" where
  "stat_text y =
     (let ticks = kernel_ticks y in
      sprint PROCFS_BUFFER_SIZE (text_lines
       [''cpu  %llu %llu %llu %llu 0 0 0 0 0 0'',
        ''cpu0 %llu %llu %llu %llu 0 0 0 0 0 0'',
        ''intr 0'',
        ''ctxt %llu'',
        ''btime 0'',
        ''processes %u'',
        ''procs_running 1'',
        ''procs_blocked 0''])
       [U64 (ticks div 4), U64 (ticks div 8), U64 (ticks div 8), U64 (ticks div 2),
        U64 (ticks div 4), U64 (ticks div 8), U64 (ticks div 8), U64 (ticks div 2),
        U64 ticks, U32 (process_count y)])"

definition mounts_text :: string where
  "mounts_text = sprint PROCFS_BUFFER_SIZE
     (text_lines
       [''ramfs / ramfs rw,relatime 0 0'',
        ''procfs /proc procfs rw,relatime 0 0'',
        ''devfs /dev devfs rw,relatime 0 0'',
        ''fat32 /mnt/disk fat32 rw,relatime 0 0''])
     []"

definition filesystems_text :: string where
  "filesystems_text = sprint PROCFS_BUFFER_SIZE
     (text_lines
       [''nodev'' @ [TAB] @ ''ramfs'',
        ''nodev'' @ [TAB] @ ''procfs'',
        ''nodev'' @ [TAB] @ ''devfs'',
        [TAB] @ ''fat32''])
     []"

definition interrupts_text :: string where
  "interrupts_text = sprint PROCFS_BUFFER_SIZE
     (text_lines
       [''           CPU0'',
        ''  0:    1000000   Timer'',
        ''  1:      50000   PS/2 Keyboard'',
        '' 12:      25000   PS/2 Mouse'',
        '' 14:       1000   ATA Primary'',
        '' 15:        500   ATA Secondary''])
     []"

definition loadavg_text :: "sys \<Rightarrow> string" where
  "loadavg_text y = sprint 256 (text_lines
       [''0.10 0.08 0.05 1/%u %u''])
     [U32 (process_count y), U32 (process_count y)]"

definition cmdline_text :: string where
  "cmdline_text = sprint 256 (text_lines
       [''blockos root=/dev/sda1 quiet splash'']) []"

section \<open>Texts of a process\<close>

definition state_text :: "sys \<Rightarrow> u32 \<Rightarrow> string" where
  "state_text y st =
     (if st = PROCESS_STATE_READY y then ''R (running)''
      else if st = PROCESS_STATE_BLOCKED y then ''S (sleeping)''
      else if st = PROCESS_STATE_ZOMBIE y then ''Z (zombie)''
      else if st = PROCESS_STATE_DEAD y then ''X (dead)''
      else if st = PROCESS_STATE_NEW y then ''N (new)''
      else ''unknown'')"

definition pid_status_text :: "sys \<Rightarrow> u32 \<Rightarrow> string" where
  "pid_status_text y pid =
     (case process_get_by_pid y pid of
        None \<Rightarrow> sprint PROCFS_BUFFER_SIZE (text_lines [''Process not found'']) []
      | Some p \<Rightarrow> sprint PROCFS_BUFFER_SIZE (text_lines
       [''Name:'' @ [TAB] @ ''%s'',
        ''State:'' @ [TAB] @ ''%s'',
        ''Pid:'' @ [TAB] @ ''%u'',
        ''PPid:'' @ [TAB] @ ''%u'',
        ''Uid:'' @ [TAB] @ ''%u'' @ [TAB] @ ''%u'' @ [TAB] @ ''%u'' @ [TAB] @ ''%u'',
        ''Gid:'' @ [TAB] @ ''%u'' @ [TAB] @ ''%u'' @ [TAB] @ ''%u'' @ [TAB] @ ''%u'',
        ''VmSize:'' @ [TAB] @ ''%u kB'',
        ''VmRSS:'' @ [TAB] @ ''%u kB'',
        ''Threads:'' @ [TAB] @ ''1'',
        ''Priority:'' @ [TAB] @ ''%d'',
        ''Nice:'' @ [TAB] @ ''0''])
       [Str (pi_name p), Str (state_text y (pi_state p)), U32 (pi_pid p), U32 (pi_ppid p),
        U32 (pi_uid p), U32 (pi_uid p), U32 (pi_uid p), U32 (pi_uid p),
        U32 (pi_gid p), U32 (pi_gid p), U32 (pi_gid p), U32 (pi_gid p),
        U32 ((heap_end p - code_start p) div 1024), U32 ((heap_end p - code_start p) div 1024),
        U32 (pi_priority p)])"

definition pid_maps_text :: "sys \<Rightarrow> u32 \<Rightarrow> string" where
  "pid_maps_text y pid =
     (case process_get_by_pid y pid of
        None \<Rightarrow> sprint PROCFS_BUFFER_SIZE (text_lines [[]]) []
      | Some p \<Rightarrow> sprint PROCFS_BUFFER_SIZE (text_lines
       [''%08x-%08x r-xp 00000000 00:00 0    [code]'',
        ''%08x-%08x rw-p 00000000 00:00 0    [data]'',
        ''%08x-%08x rw-p 00000000 00:00 0    [heap]'',
        ''%08x-%08x rw-p 00000000 00:00 0    [stack]''])
       [U32 (code_start p), U32 (code_end p), U32 (data_start p), U32 (data_end p),
        U32 (heap_start p), U32 (heap_end p), U32 (stack_top p), U32 (stack_bottom p)])"

definition pid_cmdline_text :: "sys \<Rightarrow> u32 \<Rightarrow> string" where
  "pid_cmdline_text y pid =
     (case process_get_by_pid y pid of
        None \<Rightarrow> [] | Some p \<Rightarrow> sprint 256 (text_lines [''%s'']) [Str (pi_name p)])"

definition pid_stat_text :: "sys \<Rightarrow> u32 \<Rightarrow> string" where
  "pid_stat_text y pid =
     (case process_get_by_pid y pid of
        None \<Rightarrow> sprint PROCFS_BUFFER_SIZE (text_lines [[]]) []
      | Some p \<Rightarrow> sprint PROCFS_BUFFER_SIZE (text_lines
       [''%u (%s) R %u 0 0 0 -1 0 0 0 0 0 %u %u 0 0 %d 0 0 0 0 %u 0''])
       [U32 (pi_pid p), Str (pi_name p), U32 (pi_ppid p), U32 (pi_jiffies p), U32 (pi_jiffies p),
        U32 (pi_priority p), U32 (heap_end p - code_start p)])"

text \<open>One line for each open descriptor, printed at the position the lines before it end at.\<close>

definition fd_line :: "string \<Rightarrow> nat \<Rightarrow> string" where
  "fd_line buf i =
     buf @ sprint (PROCFS_BUFFER_SIZE - of_nat (length buf)) (text_lines [''%d -> fd[%d]''])
             [U32 (of_nat i), U32 (of_nat i)]"

definition pid_fd_text :: "sys \<Rightarrow> u32 \<Rightarrow> string" where
  "pid_fd_text y pid =
     (case process_get_by_pid y pid of
        None \<Rightarrow> sprint PROCFS_BUFFER_SIZE (text_lines [[]]) []
      | Some p \<Rightarrow>
          let buf = fold (\<lambda>i buf. if fd_used p i then fd_line buf i else buf) [0..<256] [] in
          if buf = [] then sprint PROCFS_BUFFER_SIZE (text_lines [''(no open files)'']) [] else buf)"

fun reader_text :: "sys \<Rightarrow> reader \<Rightarrow> u32 \<Rightarrow> string" where
  "reader_text y Read_Version pid = version_text y"
| "reader_text y Read_Uptime pid = uptime_text y"
| "reader_text y Read_Cpuinfo pid = cpuinfo_text"
| "reader_text y Read_Meminfo pid = meminfo_text y"
| "reader_text y Read_Stat pid = stat_text y"
| "reader_text y Read_Mounts pid = mounts_text"
| "reader_text y Read_Filesystems pid = filesystems_text"
| "reader_text y Read_Interrupts pid = interrupts_text"
| "reader_text y Read_Loadavg pid = loadavg_text y"
| "reader_text y Read_Cmdline pid = cmdline_text"
| "reader_text y Read_Pid_Status pid = pid_status_text y pid"
| "reader_text y Read_Pid_Stat pid = pid_stat_text y pid"
| "reader_text y Read_Pid_Cmdline pid = pid_cmdline_text y pid"
| "reader_text y Read_Pid_Maps pid = pid_maps_text y pid"
| "reader_text y Read_Pid_Fd pid = pid_fd_text y pid"

text \<open>The size of the buffer the callback allocates.\<close>

definition reader_buffer :: "reader \<Rightarrow> u32" where
  "reader_buffer r =
     (if r = Read_Loadavg \<or> r = Read_Cmdline \<or> r = Read_Pid_Cmdline then 256 else PROCFS_BUFFER_SIZE)"

definition run_reader :: "sys \<Rightarrow> reader \<Rightarrow> u32 \<Rightarrow> procfs \<Rightarrow> string option \<times> procfs" where
  "run_reader y r pid s =
     (case malloc (reader_buffer r) (p_heap s) of
        (None, h) \<Rightarrow> (None, s\<lparr>p_heap := h\<rparr>)
      | (Some b, h) \<Rightarrow> (Some (reader_text y r pid), s\<lparr>p_heap := h\<rparr>))"

section \<open>Building the tree\<close>

definition upd_entry :: "entry_ptr \<Rightarrow> (procfs_entry \<Rightarrow> procfs_entry) \<Rightarrow> procfs \<Rightarrow> procfs" where
  "upd_entry p f s = s\<lparr>entries := (entries s)(p := f (entries s p))\<rparr>"

definition alloc_entry :: "string \<Rightarrow> u8 \<Rightarrow> reader option \<Rightarrow> procfs \<Rightarrow> entry_ptr option \<times> procfs" where
  "alloc_entry name type read_fn s =
     (case malloc SIZEOF_ENTRY (p_heap s) of
        (None, h) \<Rightarrow> (None, s\<lparr>p_heap := h\<rparr>)
      | (Some p, h) \<Rightarrow> (Some p, upd_entry p (\<lambda>_. \<lparr>e_name = take (PROCFS_MAX_NAME - 1) name, e_type = type,
            e_pid = 0, e_read = read_fn, e_write = None, e_children = None, e_next = None\<rparr>) (s\<lparr>p_heap := h\<rparr>)))"

definition add_entry :: "entry_ptr option \<Rightarrow> entry_ptr option \<Rightarrow> procfs \<Rightarrow> procfs" where
  "add_entry parent child s =
     (case (parent, child) of
        (Some p, Some c) \<Rightarrow>
          let s = upd_entry c (\<lambda>e. e\<lparr>e_next := e_children (entries s p)\<rparr>) s in
          upd_entry p (\<lambda>e. e\<lparr>e_children := Some c\<rparr>) s
      | _ \<Rightarrow> s)"

definition add_pid_file :: "u32 \<Rightarrow> entry_ptr \<Rightarrow> string \<times> u8 \<times> reader \<Rightarrow> procfs \<Rightarrow> procfs" where
  "add_pid_file pid dir = (\<lambda>(name, type, r) s.
     case alloc_entry name type (Some r) s of
       (None, s) \<Rightarrow> s
     | (Some e, s) \<Rightarrow> add_entry (Some dir) (Some e) (upd_entry e (\<lambda>e. e\<lparr>e_pid := pid\<rparr>) s))"

definition pid_files :: "(string \<times> u8 \<times> reader) list" where
  "pid_files =
     [(''status'', PROCFS_TYPE_FILE, Read_Pid_Status), (''stat'', PROCFS_TYPE_FILE, Read_Pid_Stat),
      (''cmdline'', PROCFS_TYPE_FILE, Read_Pid_Cmdline), (''maps'', PROCFS_TYPE_FILE, Read_Pid_Maps),
      (''fd'', PROCFS_TYPE_DIR, Read_Pid_Fd)]"

definition create_pid_dir :: "u32 \<Rightarrow> procfs \<Rightarrow> entry_ptr option \<times> procfs" where
  "create_pid_dir pid s =
     (case alloc_entry (sprint 16 ''%u'' [U32 pid]) PROCFS_TYPE_DIR None s of
        (None, s) \<Rightarrow> (None, s)
      | (Some dir, s) \<Rightarrow>
          (Some dir, fold (add_pid_file pid dir) pid_files (upd_entry dir (\<lambda>e. e\<lparr>e_pid := pid\<rparr>) s)))"

definition global_files :: "(string \<times> reader) list" where
  "global_files =
     [(''version'', Read_Version), (''uptime'', Read_Uptime), (''cpuinfo'', Read_Cpuinfo),
      (''meminfo'', Read_Meminfo), (''stat'', Read_Stat), (''mounts'', Read_Mounts),
      (''filesystems'', Read_Filesystems), (''interrupts'', Read_Interrupts),
      (''loadavg'', Read_Loadavg), (''cmdline'', Read_Cmdline)]"

definition add_global :: "entry_ptr option \<Rightarrow> string \<times> u8 \<times> reader option \<Rightarrow> procfs \<Rightarrow> procfs" where
  "add_global dir = (\<lambda>(name, type, r) s.
     case alloc_entry name type r s of (e, s) \<Rightarrow> add_entry dir e s)"

definition procfs_init :: "procfs \<Rightarrow> bool \<times> procfs" where
  "procfs_init s =
     (case alloc_entry ''/'' PROCFS_TYPE_DIR None (s\<lparr>p_mounted := False, p_root := None, p_mount_point := []\<rparr>) of
        (None, s) \<Rightarrow> (False, s\<lparr>p_root := None\<rparr>)
      | (Some r, s) \<Rightarrow>
          let s = s\<lparr>p_root := Some r\<rparr>;
              s = fold (add_global (p_root s)) (map (\<lambda>(n, f). (n, PROCFS_TYPE_FILE, Some f)) global_files) s in
          (True, add_global (p_root s) (''self'', PROCFS_TYPE_LINK, None) s))"

section \<open>Process directories\<close>

text \<open>The loop that takes the entries of processes out of the list of the root.\<close>

partial_function (option) drop_pids ::
  "entry_ptr \<Rightarrow> entry_ptr option \<Rightarrow> entry_ptr option \<Rightarrow> procfs \<Rightarrow> procfs option" where
  "drop_pids root prev cur s =
     (case cur of
        None \<Rightarrow> Some s
      | Some c \<Rightarrow>
          let nxt = e_next (entries s c) in
          if e_pid (entries s c) > 0 then
            let s = (case prev of
                       Some q \<Rightarrow> upd_entry q (\<lambda>e. e\<lparr>e_next := nxt\<rparr>) s
                     | None \<Rightarrow> upd_entry root (\<lambda>e. e\<lparr>e_children := nxt\<rparr>) s);
                s = s\<lparr>p_heap := free (Some c) (p_heap s)\<rparr> in
            drop_pids root prev nxt s
          else drop_pids root (Some c) nxt s)"

definition live_pids :: "sys \<Rightarrow> u32 list" where
  "live_pids y = map pi_pid (filter (\<lambda>p. pi_pid p > 0 \<and> pi_state p \<noteq> PROCESS_STATE_DEAD y)
     (map (process_table y) [0..<unat (process_count y)]))"

definition add_pid_dir :: "entry_ptr \<Rightarrow> u32 \<Rightarrow> procfs \<Rightarrow> procfs" where
  "add_pid_dir root pid s =
     (case create_pid_dir pid s of (None, s) \<Rightarrow> s | (Some d, s) \<Rightarrow> add_entry (Some root) (Some d) s)"

definition procfs_update :: "sys \<Rightarrow> procfs \<Rightarrow> procfs option" where
  "procfs_update y s =
     (case p_root s of
        None \<Rightarrow> None
      | Some r \<Rightarrow> map_option (fold (add_pid_dir r) (live_pids y))
                   (drop_pids r None (e_children (entries s r)) s))"

definition procfs_mount :: "sys \<Rightarrow> string option \<Rightarrow> procfs \<Rightarrow> (bool \<times> procfs) option" where
  "procfs_mount y mount_point s =
     (case mount_point of None \<Rightarrow> Some (False, s)
      | Some m \<Rightarrow> map_option (Pair True)
          (procfs_update y (s\<lparr>p_mount_point := take (PROCFS_MAX_PATH - 1) m, p_mounted := True\<rparr>)))"

definition procfs_umount :: "procfs \<Rightarrow> bool \<times> procfs" where
  "procfs_umount s = (True, s\<lparr>p_mounted := False\<rparr>)"

section \<open>Looking up and reading\<close>

partial_function (option) find_sibling ::
  "(entry_ptr \<Rightarrow> procfs_entry) \<Rightarrow> entry_ptr option \<Rightarrow> string \<Rightarrow> entry_ptr option option" where
  "find_sibling es child token =
     (case child of
        None \<Rightarrow> Some None
      | Some c \<Rightarrow> if e_name (es c) = token then Some (Some c) else find_sibling es (e_next (es c)) token)"

fun walk_entries :: "(entry_ptr \<Rightarrow> procfs_entry) \<Rightarrow> entry_ptr option \<Rightarrow> u32 \<Rightarrow> string list
    \<Rightarrow> (entry_ptr option \<times> u32) option" where
  "walk_entries es current pid [] = Some (current, pid)"
| "walk_entries es None pid (t # ts) = Some (None, pid)"
| "walk_entries es (Some c) pid (t # ts) =
     (case find_sibling es (e_children (es c)) t of
        None \<Rightarrow> None
      | Some None \<Rightarrow> Some (None, pid)
      | Some (Some d) \<Rightarrow> walk_entries es (Some d) (if e_pid (es d) > 0 then e_pid (es d) else pid) ts)"

text \<open>
  The tokens are cut from the copy of the path after its first character, whatever that is. A path
  of 255 characters or more fills the copy up to its last byte, which is not initialised.
\<close>

definition find_entry :: "procfs \<Rightarrow> string \<Rightarrow> (entry_ptr option \<times> u32) option" where
  "find_entry s path =
     (if path = ''/'' then Some (p_root s, 0)
      else if length path < PROCFS_MAX_PATH - 1
      then walk_entries (entries s) (p_root s) 0 (CString.fields (\<lambda>c. c = CHR ''/'') (drop 1 path))
      else None)"

definition procfs_open :: "sys \<Rightarrow> string \<Rightarrow> procfs \<Rightarrow> (u32 option \<times> procfs) option" where
  "procfs_open y path s =
     (case find_entry s path of
        None \<Rightarrow> None
      | Some (None, pid) \<Rightarrow> Some (None, s)
      | Some (Some e, pid) \<Rightarrow>
          if e_type (entries s e) \<noteq> PROCFS_TYPE_FILE then Some (None, s)
          else (case malloc SIZEOF_PFILE (p_heap s) of
             (None, h) \<Rightarrow> Some (None, s\<lparr>p_heap := h\<rparr>)
           | (Some f, h) \<Rightarrow>
               let s = s\<lparr>p_heap := h\<rparr>; pid = (if pid > 0 then pid else e_pid (entries s e));
                   (buf, s) = (case e_read (entries s e) of
                                 None \<Rightarrow> (None, s) | Some r \<Rightarrow> run_reader y r pid s) in
               Some (Some f, s\<lparr>p_files := (p_files s)(f :=
                 \<lparr>pf_entry = Some e, pf_pid = pid, pf_position = 0, pf_buffer = buf,
                  pf_size = (case buf of None \<Rightarrow> 0 | Some t \<Rightarrow> of_nat (length t))\<rparr>)\<rparr>)))"

text \<open>The bytes copied to the caller, as characters.\<close>

definition procfs_read :: "u32 option \<Rightarrow> u32 \<Rightarrow> procfs \<Rightarrow> string \<times> procfs" where
  "procfs_read file sz s =
     (case file of None \<Rightarrow> ([], s)
      | Some f \<Rightarrow>
          (case pf_buffer (p_files s f) of
             None \<Rightarrow> ([], s)
           | Some buf \<Rightarrow>
               let available = pf_size (p_files s f) - pf_position (p_files s f) in
               if available = 0 then ([], s)
               else let sz = (if sz > available then available else sz) in
                    (take (unat sz) (drop (unat (pf_position (p_files s f))) buf),
                     s\<lparr>p_files := (p_files s)(f := (p_files s f)\<lparr>pf_position := pf_position (p_files s f) + sz\<rparr>)\<rparr>)))"

definition procfs_write :: "u32 option \<Rightarrow> u8 list \<Rightarrow> procfs \<Rightarrow> bool" where
  "procfs_write file buffer s =
     (case file of None \<Rightarrow> False
      | Some f \<Rightarrow>
          (case pf_entry (p_files s f) of
             None \<Rightarrow> False
           | Some e \<Rightarrow> (case e_write (entries s e) of
                None \<Rightarrow> False | Some w \<Rightarrow> w (pf_pid (p_files s f)) buffer)))"

definition procfs_close :: "u32 option \<Rightarrow> procfs \<Rightarrow> bool \<times> procfs" where
  "procfs_close file s =
     (case file of None \<Rightarrow> (False, s)
      | Some f \<Rightarrow>
          let s = (if pf_buffer (p_files s f) \<noteq> None then s\<lparr>p_heap := free None (p_heap s)\<rparr> else s) in
          (True, s\<lparr>p_heap := free (Some f) (p_heap s)\<rparr>))"

fun list_siblings :: "(entry_ptr \<Rightarrow> procfs_entry) \<Rightarrow> entry_ptr option \<Rightarrow> nat \<Rightarrow> string list" where
  "list_siblings es None n = []"
| "list_siblings es (Some c) 0 = []"
| "list_siblings es (Some c) (Suc n) = e_name (es c) # list_siblings es (e_next (es c)) n"

definition procfs_list_dir :: "string \<Rightarrow> nat \<Rightarrow> procfs \<Rightarrow> string list option option" where
  "procfs_list_dir path count s =
     (case find_entry s path of
        None \<Rightarrow> None
      | Some (None, pid) \<Rightarrow> Some None
      | Some (Some d, pid) \<Rightarrow>
          if e_type (entries s d) \<noteq> PROCFS_TYPE_DIR then Some None
          else Some (Some (list_siblings (entries s) (e_children (entries s d)) count)))"

section \<open>The list of children\<close>

abbreviation next_of :: "procfs \<Rightarrow> entry_ptr \<Rightarrow> entry_ptr option" where
  "next_of s x \<equiv> e_next (entries s x)"

definition kids :: "procfs \<Rightarrow> entry_ptr \<Rightarrow> entry_ptr list \<Rightarrow> bool" where
  "kids s r xs \<longleftrightarrow> linked_to (next_of s) (e_children (entries s r)) xs None \<and> distinct (r # xs)"

text \<open>Everything but the links of the entries is the same.\<close>

definition same_entry :: "procfs_entry \<Rightarrow> procfs_entry \<Rightarrow> bool" where
  "same_entry e e' \<longleftrightarrow> e\<lparr>e_children := None, e_next := None\<rparr> = e'\<lparr>e_children := None, e_next := None\<rparr>"

lemma same_entryD: "same_entry e e' \<Longrightarrow> e_name e' = e_name e \<and> e_pid e' = e_pid e \<and> e_type e' = e_type e"
  by (cases e; cases e') (simp add: same_entry_def)

text \<open>What the loop does to the predecessor of an entry it takes out.\<close>

definition take_out :: "entry_ptr \<Rightarrow> entry_ptr option \<Rightarrow> entry_ptr option \<Rightarrow> procfs \<Rightarrow> procfs" where
  "take_out r prev nxt s =
     (case prev of
        Some q \<Rightarrow> upd_entry q (\<lambda>e. e\<lparr>e_next := nxt\<rparr>) s
      | None \<Rightarrow> upd_entry r (\<lambda>e. e\<lparr>e_children := nxt\<rparr>) s)"

lemma take_out_same:
  "same_entry (entries s x) (entries (take_out r prev nxt s) x)"
  "p_heap (take_out r prev nxt s) = p_heap s" "p_root (take_out r prev nxt s) = p_root s"
  by (simp_all add: take_out_def upd_entry_def same_entry_def split: option.split)

lemma take_out_links:
  assumes "linked_to (next_of s) (e_children (entries s r)) ks cur" and "distinct (r # ks @ xs)"
    and "prev = (if ks = [] then None else Some (last ks))"
  shows "linked_to (next_of (take_out r prev nxt s)) (e_children (entries (take_out r prev nxt s) r)) ks nxt"
    and "x \<in> set xs \<Longrightarrow> next_of (take_out r prev nxt s) x = next_of s x"
proof -
  show "linked_to (next_of (take_out r prev nxt s)) (e_children (entries (take_out r prev nxt s) r)) ks nxt"
  proof (cases ks rule: rev_cases)
    case Nil
    with assms(3) show ?thesis by (simp add: take_out_def upd_entry_def)
  next
    case (snoc ks' q)
    then have "next_of (take_out r prev nxt s) = (next_of s)(q := nxt)"
      and "e_children (entries (take_out r prev nxt s) r) = e_children (entries s r)"
      using assms(2,3) by (auto simp: take_out_def upd_entry_def fun_eq_iff)
    with linked_to_relink [of "next_of s" _ ks' q cur] assms(1,2) snoc show ?thesis by simp
  qed
  show "next_of (take_out r prev nxt s) x = next_of s x" if "x \<in> set xs"
  proof -
    have "prev \<noteq> Some x" using that assms(2,3) by (auto dest: last_in_set split: if_splits)
    then show ?thesis by (auto simp: take_out_def upd_entry_def split: option.split)
  qed
qed

lemma drop_pids_spec:
  assumes "linked_to (next_of s) (e_children (entries s r)) ks cur"
    and "linked_to (next_of s) cur xs None" and "distinct (r # ks @ xs)"
    and "prev = (if ks = [] then None else Some (last ks))"
  shows "\<exists>s'. drop_pids r prev cur s = Some s'
    \<and> kids s' r (ks @ filter (\<lambda>x. e_pid (entries s x) = 0) xs)
    \<and> (\<forall>x. same_entry (entries s x) (entries s' x)) \<and> p_heap s' = p_heap s \<and> p_root s' = p_root s"
  using assms
proof (induction xs arbitrary: ks cur prev s)
  case Nil
  then show ?case by (simp add: drop_pids.simps kids_def same_entry_def)
next
  case (Cons c xs)
  have cur: "cur = Some c" and rest: "linked_to (next_of s) (next_of s c) xs None"
    using Cons.prems(2) by auto
  show ?case
  proof (cases "e_pid (entries s c) > 0")
    case True
    let ?t = "take_out r prev (next_of s c) s"
    have step: "drop_pids r prev cur s = drop_pids r prev (next_of s c) ?t"
      using True by (subst drop_pids.simps) (simp add: cur Let_def free_def take_out_def split: option.split)
    have "distinct (r # ks @ xs)" using Cons.prems(3) by auto
    note t = take_out_links [OF Cons.prems(1) this Cons.prems(4), where nxt = "next_of s c"]
    have "linked_to (next_of ?t) (next_of s c) xs None"
      using rest t(2) linked_to_cong [of xs "next_of ?t" "next_of s"] by blast
    with t(1) obtain s' where s': "drop_pids r prev (next_of s c) ?t = Some s'"
        "kids s' r (ks @ filter (\<lambda>x. e_pid (entries ?t x) = 0) xs)"
        "\<forall>x. same_entry (entries ?t x) (entries s' x)" "p_heap s' = p_heap ?t" "p_root s' = p_root ?t"
      using Cons.IH [of ?t ks "next_of s c" prev] Cons.prems(3,4) by auto
    have "e_pid (entries ?t x) = e_pid (entries s x)" for x using take_out_same(1) same_entryD by metis
    with s' step take_out_same True show ?thesis by (auto simp: same_entry_def)
  next
    case False
    have step: "drop_pids r prev cur s = drop_pids r (Some c) (next_of s c) s"
      using False by (subst drop_pids.simps) (simp add: cur Let_def)
    have "linked_to (next_of s) (e_children (entries s r)) (ks @ [c]) (next_of s c)"
      using Cons.prems(1) by (auto simp: linked_to_append cur)
    from Cons.IH [OF this rest] Cons.prems(3) False step show ?thesis
      by (auto simp: word_neq_0_conv [symmetric] simp del: word_neq_0_conv)
  qed
qed

section \<open>Room for new entries\<close>

abbreviation mark :: "procfs \<Rightarrow> nat" where
  "mark s \<equiv> unat (h_ptr (p_heap s))"

lemma alloc_entry_room:
  assumes "heap_ok (p_heap s)" and "mark s + 88 \<le> 8388608"
  obtains s' where "alloc_entry name type rd s = (Some (h_ptr (p_heap s)), s')" and "heap_ok (p_heap s')"
    and "mark s' = mark s + 88" and "p_root s' = p_root s"
    and "entries s' = (entries s)(h_ptr (p_heap s) := \<lparr>e_name = take 63 name, e_type = type, e_pid = 0,
           e_read = rd, e_write = None, e_children = None, e_next = None\<rparr>)"
proof -
  have sz: "size_ok SIZEOF_ENTRY" "unat SIZEOF_ENTRY = 88" by (simp_all add: size_ok_def SIZEOF_ENTRY_def)
  then obtain h where m: "malloc SIZEOF_ENTRY (p_heap s) = (Some (h_ptr (p_heap s)), h)"
    using malloc_cases [OF assms(1) sz(1)] assms(2) by simp
  note h = malloc_SomeD [OF assms(1) sz(1) m]
  have "mark s + 88 \<le> unat (h_ptr h)" "unat (h_ptr h) < mark s + 92" "4 dvd unat (h_ptr h)" "4 dvd mark s"
    using h assms(1) sz(2) by (simp_all add: heap_ok_def)
  then have "unat (h_ptr h) = mark s + 88" by presburger
  with m h show thesis by (intro that [of "upd_entry (h_ptr (p_heap s)) (\<lambda>_. \<lparr>e_name = take 63 name,
      e_type = type, e_pid = 0, e_read = rd, e_write = None, e_children = None, e_next = None\<rparr>) (s\<lparr>p_heap := h\<rparr>)"])
      (simp_all add: alloc_entry_def upd_entry_def procfs_consts)
qed

text \<open>How many entries the heap still has room for.\<close>

definition slots :: "heap \<Rightarrow> nat" where
  "slots h = (8388608 - unat (h_ptr h)) div 88"

lemma slots_room: "0 < slots h \<longleftrightarrow> unat (h_ptr h) + 88 \<le> 8388608"
  by (auto simp: slots_def div_eq_0_iff)

lemma slots_used:
  assumes "unat (h_ptr g) = unat (h_ptr h) + 88 * k" and "k \<le> slots h"
  shows "slots g = slots h - k"
proof -
  define b where "b = 8388608 - unat (h_ptr g)"
  have "88 * k \<le> 8388608 - unat (h_ptr h)"
    using assms(2) by (simp add: slots_def less_eq_div_iff_mult_less_eq mult.commute)
  then have "8388608 - unat (h_ptr h) = b + k * 88" using assms(1) by (simp add: b_def)
  then have "slots h = k + b div 88" unfolding slots_def by simp
  then show ?thesis by (simp add: slots_def b_def)
qed

lemma alloc_entry_full:
  assumes "heap_ok (p_heap s)" and "mark s + 88 > 8388608"
  shows "alloc_entry name type rd s = (None, s)"
proof -
  have "size_ok SIZEOF_ENTRY" "unat SIZEOF_ENTRY = 88" by (simp_all add: size_ok_def SIZEOF_ENTRY_def)
  with malloc_cases [OF assms(1), of SIZEOF_ENTRY] assms(2) show ?thesis by (simp add: alloc_entry_def)
qed

text \<open>What a run of allocations keeps: entries below the old mark, except the directory.\<close>

definition grown :: "nat \<Rightarrow> entry_ptr \<Rightarrow> procfs \<Rightarrow> procfs \<Rightarrow> bool" where
  "grown n d s s' \<longleftrightarrow> heap_ok (p_heap s') \<and> mark s' = mark s + n \<and> p_root s' = p_root s
     \<and> (\<forall>x. unat x < mark s \<and> x \<noteq> d \<longrightarrow> entries s' x = entries s x)
     \<and> same_entry (entries s d) (entries s' d) \<and> next_of s' d = next_of s d"

lemma grown_trans:
  assumes "grown m d s t" and "grown n d t u"
  shows "grown (m + n) d s u"
proof -
  have "mark t = mark s + m" using assms(1) by (simp add: grown_def)
  with assms show ?thesis unfolding grown_def same_entry_def by auto
qed

lemma grown_refl: "heap_ok (p_heap s) \<Longrightarrow> grown 0 d s s"
  by (simp add: grown_def same_entry_def)

lemma add_pid_file_grown:
  assumes "heap_ok (p_heap s)" and "unat d < mark s"
  shows "grown (88 * min 1 (slots (p_heap s))) d s (add_pid_file pid d f s)"
proof -
  obtain name type r where f: "f = (name, type, r)" by (cases f)
  show ?thesis
  proof (cases "0 < slots (p_heap s)")
    case True
    then have room: "mark s + 88 \<le> 8388608" by (simp add: slots_room)
    obtain t where t: "alloc_entry name type (Some r) s = (Some (h_ptr (p_heap s)), t)" "heap_ok (p_heap t)"
      "mark t = mark s + 88" "p_root t = p_root s"
      "\<exists>e. entries t = (entries s)(h_ptr (p_heap s) := e)"
      using alloc_entry_room [OF assms(1) room, of name type "Some r"] by metis
    have "h_ptr (p_heap s) \<noteq> d" using assms(2) by auto
    then have "grown 88 d s (add_pid_file pid d f s)"
      using t by (auto simp: grown_def add_pid_file_def f add_entry_def upd_entry_def Let_def same_entry_def)
    moreover have "min 1 (slots (p_heap s)) = 1" using True by simp
    ultimately show ?thesis by simp
  next
    case False
    then have "alloc_entry name type (Some r) s = (None, s)"
      by (intro alloc_entry_full [OF assms(1)]) (simp add: slots_room)
    with False grown_refl [OF assms(1)] show ?thesis by (simp add: add_pid_file_def f)
  qed
qed

lemma fold_pid_files_grown:
  assumes "heap_ok (p_heap s)" and "unat d < mark s"
  shows "grown (88 * min (length fs) (slots (p_heap s))) d s (fold (add_pid_file pid d) fs s)"
  using assms
proof (induction fs arbitrary: s)
  case Nil
  then show ?case by (simp add: grown_refl)
next
  case (Cons f fs)
  let ?t = "add_pid_file pid d f s" and ?k = "slots (p_heap s)"
  have g: "grown (88 * min 1 ?k) d s ?t" using Cons.prems by (rule add_pid_file_grown)
  then have t: "heap_ok (p_heap ?t)" "mark ?t = mark s + 88 * min 1 ?k" by (auto simp: grown_def)
  then have k: "slots (p_heap ?t) = ?k - min 1 ?k" by (intro slots_used) simp_all
  have "grown (88 * min (length fs) (slots (p_heap ?t))) d ?t (fold (add_pid_file pid d) fs ?t)"
    using t Cons.prems by (intro Cons.IH) simp_all
  from grown_trans [OF g this] have "grown (88 * min 1 ?k + 88 * min (length fs) (slots (p_heap ?t))) d s
      (fold (add_pid_file pid d) fs ?t)" .
  moreover have "88 * min 1 ?k + 88 * min (length fs) (slots (p_heap ?t)) = 88 * min (length (f # fs)) ?k"
    unfolding k by (cases ?k) auto
  ultimately show ?case by simp
qed

definition decimal :: "u32 \<Rightarrow> string" where
  "decimal n = uint_to_str (ucast n) 10"

lemma decimal_length: "length (decimal n) \<le> 10"
proof -
  have u: "unat (ucast n :: u64) = unat n" by (simp add: unsigned_ucast_eq take_bit_nat_eq_self_iff order_less_trans [OF unat_u32_less])
  have "length (tmp_digits 10 (unat n)) \<le> 10"
    using unat_u32_less [of n] by (intro tmp_digits_length) simp
  then show ?thesis by (simp add: decimal_def uint_to_str_def u)
qed

lemma sprint_decimal: "sprint 16 ''%u'' [U32 n] = decimal n"
proof -
  have "parse_fmt ''%u'' = Some [Unsigned]" by (simp add: conversion_def)
  then have "sprint 16 ''%u'' [U32 n] = take (unat ((16 :: u32) - 1)) (decimal n)"
    by (rule sprint_text) (simp_all add: decimal_def)
  with decimal_length [of n] show ?thesis by simp
qed

definition below :: "procfs \<Rightarrow> entry_ptr list \<Rightarrow> bool" where
  "below s xs \<longleftrightarrow> heap_ok (p_heap s) \<and> (\<forall>x \<in> set xs. unat x < mark s)"

text \<open>A fresh entry becomes the first child.\<close>

lemma add_entry_kids:
  assumes "kids s r xs" and "d \<notin> set (r # xs)" and "\<And>x. x \<in> set (r # xs) \<Longrightarrow> entries v x = entries s x"
  shows "kids (add_entry (Some r) (Some d) v) r (d # xs)"
    and "x \<in> set (r # xs) \<Longrightarrow> same_entry (entries s x) (entries (add_entry (Some r) (Some d) v) x)"
    and "same_entry (entries v d) (entries (add_entry (Some r) (Some d) v) d)"
    and "p_heap (add_entry (Some r) (Some d) v) = p_heap v" and "p_root (add_entry (Some r) (Some d) v) = p_root v"
proof -
  have "linked_to (next_of (add_entry (Some r) (Some d) v)) (e_children (entries s r)) xs None
      \<longleftrightarrow> linked_to (next_of s) (e_children (entries s r)) xs None"
  proof (rule linked_to_cong)
    fix x assume "x \<in> set xs"
    moreover have "x \<noteq> r" using \<open>x \<in> set xs\<close> assms(1) by (auto simp: kids_def)
    ultimately show "next_of (add_entry (Some r) (Some d) v) x = next_of s x"
      using assms(2) assms(3) [of x] by (auto simp: add_entry_def upd_entry_def Let_def)
  qed
  then show "kids (add_entry (Some r) (Some d) v) r (d # xs)"
    using assms by (auto simp: kids_def add_entry_def upd_entry_def Let_def)
  show "same_entry (entries s x) (entries (add_entry (Some r) (Some d) v) x)" if "x \<in> set (r # xs)"
  proof -
    have "entries v x = entries s x" and "d \<noteq> x" using assms(2,3) that by blast+
    moreover have "d \<noteq> r" using assms(2) by simp
    ultimately show ?thesis by (auto simp: add_entry_def upd_entry_def Let_def same_entry_def)
  qed
  show "same_entry (entries v d) (entries (add_entry (Some r) (Some d) v) d)"
    using assms(2) by (auto simp: add_entry_def upd_entry_def Let_def same_entry_def)
  show "p_heap (add_entry (Some r) (Some d) v) = p_heap v" "p_root (add_entry (Some r) (Some d) v) = p_root v"
    by (simp_all add: add_entry_def upd_entry_def Let_def)
qed

text \<open>Adding one file of the root, and one directory of a process.\<close>

lemma add_global_kids:
  assumes "kids s r xs" and "below s (r # xs)" and "mark s + 88 \<le> 8388608" and "length name \<le> 63"
  shows "\<exists>d. let s' = add_global (Some r) (name, type, rd) s in kids s' r (d # xs) \<and> below s' (r # d # xs)
    \<and> mark s' = mark s + 88 \<and> e_name (entries s' d) = name \<and> e_pid (entries s' d) = 0
    \<and> (\<forall>x \<in> set (r # xs). same_entry (entries s x) (entries s' x)) \<and> p_root s' = p_root s"
proof -
  let ?d = "h_ptr (p_heap s)"
  obtain t where t: "alloc_entry name type rd s = (Some ?d, t)" "heap_ok (p_heap t)"
    "mark t = mark s + 88" "p_root t = p_root s"
    "entries t = (entries s)(?d := \<lparr>e_name = take 63 name, e_type = type, e_pid = 0,
       e_read = rd, e_write = None, e_children = None, e_next = None\<rparr>)"
    using alloc_entry_room [of s name type rd] assms(2,3) by (auto simp: below_def)
  have new: "?d \<notin> set (r # xs)" using assms(2) by (auto simp: below_def)
  then have old: "x \<in> set (r # xs) \<Longrightarrow> entries t x = entries s x" for x by (auto simp: t(5))
  have run: "add_global (Some r) (name, type, rd) s = add_entry (Some r) (Some ?d) t" by (simp add: add_global_def t(1))
  note a = add_entry_kids [OF assms(1) new old]
  have "e_name (entries t ?d) = name" "e_pid (entries t ?d) = 0" using assms(4) by (simp_all add: t(5))
  then show ?thesis
    using t a same_entryD [OF a(3)] assms(2) by (intro exI [of _ ?d]) (auto simp: run Let_def below_def)
qed

text \<open>A directory of a process needs one entry, and gets as many of its five files as there is room for.\<close>

lemma add_pid_dir_full:
  assumes "below s xs" and "slots (p_heap s) = 0"
  shows "add_pid_dir r pid s = s"
proof -
  have "mark s + 88 > 8388608" using assms(2) slots_room [of "p_heap s"] by simp
  with assms(1) alloc_entry_full [of s] show ?thesis by (simp add: add_pid_dir_def create_pid_dir_def below_def)
qed

lemma add_pid_dir_kids:
  assumes "kids s r xs" and "below s (r # xs)" and "0 < slots (p_heap s)"
  shows "\<exists>d. let s' = add_pid_dir r pid s in kids s' r (d # xs) \<and> below s' (r # d # xs)
    \<and> mark s' = mark s + 88 * min 6 (slots (p_heap s)) \<and> e_name (entries s' d) = decimal pid \<and> e_pid (entries s' d) = pid
    \<and> (\<forall>x \<in> set (r # xs). same_entry (entries s x) (entries s' x)) \<and> p_root s' = p_root s"
proof -
  let ?d = "h_ptr (p_heap s)" and ?k = "slots (p_heap s)"
  have room: "mark s + 88 \<le> 8388608" using assms(3) by (simp add: slots_room)
  obtain t where t: "alloc_entry (decimal pid) PROCFS_TYPE_DIR None s = (Some ?d, t)" "heap_ok (p_heap t)"
    "mark t = mark s + 88" "p_root t = p_root s"
    "entries t = (entries s)(?d := \<lparr>e_name = take 63 (decimal pid), e_type = PROCFS_TYPE_DIR, e_pid = 0,
       e_read = None, e_write = None, e_children = None, e_next = None\<rparr>)"
    using alloc_entry_room [of s "decimal pid" PROCFS_TYPE_DIR None] assms(2) room by (auto simp: below_def)
  define u where "u = upd_entry ?d (\<lambda>e. e\<lparr>e_pid := pid\<rparr>) t"
  define v where "v = fold (add_pid_file pid ?d) pid_files u"
  have u: "heap_ok (p_heap u)" "mark u = mark s + 88" "p_root u = p_root s"
    "\<And>x. unat x < mark s \<Longrightarrow> entries u x = entries s x"
    "e_name (entries u ?d) = decimal pid" "e_pid (entries u ?d) = pid"
    using t decimal_length [of pid] by (auto simp: u_def upd_entry_def)
  have ku: "slots (p_heap u) = ?k - 1" using u(2) assms(3) by (intro slots_used) simp_all
  have "grown (88 * min (length pid_files) (slots (p_heap u))) ?d u v" unfolding v_def
    using u(1,2) by (intro fold_pid_files_grown) simp_all
  moreover have "length pid_files = 5" by (simp add: pid_files_def)
  ultimately have g: "grown (88 * min 5 (?k - 1)) ?d u v" by (simp only: ku)
  have "88 + 88 * min 5 (?k - 1) = 88 * min 6 ?k" using assms(3) by auto
  then have v: "heap_ok (p_heap v)" "mark v = mark s + 88 * min 6 ?k" "p_root v = p_root s"
    "e_name (entries v ?d) = decimal pid" "e_pid (entries v ?d) = pid"
    using g u by (auto simp: grown_def dest!: same_entryD)
  have new: "?d \<notin> set (r # xs)" using assms(2) by (auto simp: below_def)
  have old: "entries v x = entries s x" if "x \<in> set (r # xs)" for x
  proof -
    have x: "unat x < mark s" using that assms(2) by (auto simp: below_def)
    then have "x \<noteq> ?d" and "unat x < mark u" using u(2) by auto
    then show ?thesis using g u(4) [OF x] by (simp add: grown_def)
  qed
  have run: "add_pid_dir r pid s = add_entry (Some r) (Some ?d) v"
    by (simp add: add_pid_dir_def create_pid_dir_def sprint_decimal t(1) u_def v_def)
  have "mark s < mark v" using v(2) assms(3) by simp
  then have "below (add_entry (Some r) (Some ?d) v) (r # ?d # xs)"
    using assms(2) v(1) add_entry_kids(4) [OF assms(1) new old] by (auto simp: below_def)
  note a = this add_entry_kids [OF assms(1) new old]
  show ?thesis
    using v a same_entryD [OF a(4)] by (intro exI [of _ ?d]) (auto simp: run Let_def)
qed

lemma same_entry_trans: "same_entry a b \<Longrightarrow> same_entry b c \<Longrightarrow> same_entry a c"
  by (simp add: same_entry_def)

text \<open>The processes that still get a directory: every six entries hold one, and the last may lack files.\<close>

definition housed :: "heap \<Rightarrow> u32 list \<Rightarrow> u32 list" where
  "housed h pids = take ((slots h + 5) div 6) pids"

lemma add_pid_dirs_kids:
  assumes "kids s r xs" and "below s (r # xs)"
  shows "\<exists>ds. let s' = fold (add_pid_dir r) pids s in kids s' r (ds @ xs) \<and> below s' (r # ds @ xs)
    \<and> mark s' = mark s + 88 * min (slots (p_heap s)) (6 * length pids)
    \<and> map (e_name \<circ> entries s') ds = rev (map decimal (housed (p_heap s) pids))
    \<and> map (e_pid \<circ> entries s') ds = rev (housed (p_heap s) pids)
    \<and> (\<forall>x \<in> set (r # xs). same_entry (entries s x) (entries s' x)) \<and> p_root s' = p_root s"
  using assms
proof (induction pids arbitrary: s xs)
  case Nil
  then show ?case by (simp add: same_entry_def housed_def)
next
  case (Cons pid pids)
  let ?k = "slots (p_heap s)"
  show ?case
  proof (cases "?k = 0")
    case True
    have "add_pid_dir r p s = s" for p by (rule add_pid_dir_full [OF Cons.prems(2) True])
    then have "fold (add_pid_dir r) ps s = s" for ps by (induction ps) simp_all
    then have same: "fold (add_pid_dir r) (pid # pids) s = s" by blast
    show ?thesis unfolding same using True Cons.prems by (simp add: same_entry_def housed_def)
  next
    case False
    define t where "t = add_pid_dir r pid s"
    obtain d where d: "kids t r (d # xs)" "below t (r # d # xs)" "mark t = mark s + 88 * min 6 ?k"
      "e_name (entries t d) = decimal pid" "e_pid (entries t d) = pid"
      "\<forall>x \<in> set (r # xs). same_entry (entries s x) (entries t x)" "p_root t = p_root s"
      using add_pid_dir_kids [OF Cons.prems(1,2), of pid] False by (auto simp: t_def Let_def)
    have kt: "slots (p_heap t) = ?k - min 6 ?k" using d(3) by (intro slots_used) simp_all
    define u where "u = fold (add_pid_dir r) pids t"
    obtain ds where ds: "kids u r (ds @ d # xs)" "below u (r # ds @ d # xs)"
      "mark u = mark t + 88 * min (slots (p_heap t)) (6 * length pids)"
      "map (e_name \<circ> entries u) ds = rev (map decimal (housed (p_heap t) pids))"
      "map (e_pid \<circ> entries u) ds = rev (housed (p_heap t) pids)"
      "\<forall>x \<in> set (r # d # xs). same_entry (entries t x) (entries u x)" "p_root u = p_root t"
      using Cons.IH [OF d(1,2)] unfolding Let_def u_def [symmetric] by blast
    have "(?k + 5) div 6 = Suc ((?k - min 6 ?k + 5) div 6)" using False by (cases "?k \<le> 6") auto
    then have h: "housed (p_heap s) (pid # pids) = pid # housed (p_heap t) pids" by (simp add: housed_def kt)
    have m: "mark u = mark s + 88 * min ?k (6 * length (pid # pids))" 
    proof -
      have "min 6 ?k + min (?k - min 6 ?k) n = min ?k (6 + n)" for n :: nat unfolding min_def by auto
      with ds(3) d(3) show ?thesis unfolding kt by (simp flip: add_mult_distrib2)
    qed
    have "e_name (entries u d) = decimal pid \<and> e_pid (entries u d) = pid"
      using ds(6) d(4,5) by (auto dest: same_entryD)
    moreover have "\<forall>x \<in> set (r # xs). same_entry (entries s x) (entries u x)"
      using d(6) ds(6) same_entry_trans by fastforce
    ultimately show ?thesis using ds d(7) m h
      by (intro exI [of _ "ds @ [d]"]) (simp add: Let_def u_def t_def comp_def)
  qed
qed

text \<open>The tree has a root directory, whose list of children is a proper one in the allocated part of the heap.\<close>

definition procfs_ok :: "procfs \<Rightarrow> entry_ptr \<Rightarrow> entry_ptr list \<Rightarrow> bool" where
  "procfs_ok s r xs \<longleftrightarrow> p_root s = Some r \<and> kids s r xs \<and> below s (r # xs) \<and> e_type (entries s r) = PROCFS_TYPE_DIR"

lemma live_pids_pos: "pid \<in> set (live_pids y) \<Longrightarrow> pid > 0"
  by (auto simp: live_pids_def)

text \<open>
  Updating works with any heap: the old directories are taken out, and the processes that can be housed
  get a new one.
\<close>

lemma procfs_update_exact:
  assumes ok: "procfs_ok s r xs"
  shows "\<exists>s' ds. procfs_update y s = Some s' \<and> procfs_ok s' r (ds @ filter (\<lambda>x. e_pid (entries s x) = 0) xs)
    \<and> map (e_name \<circ> entries s') ds = rev (map decimal (housed (p_heap s) (live_pids y)))
    \<and> (\<forall>d \<in> set ds. e_pid (entries s' d) > 0)
    \<and> mark s' = mark s + 88 * min (slots (p_heap s)) (6 * length (live_pids y))
    \<and> (\<forall>x \<in> set xs. e_pid (entries s x) = 0 \<longrightarrow> same_entry (entries s x) (entries s' x))"
proof -
  let ?ys = "filter (\<lambda>x. e_pid (entries s x) = 0) xs"
  have ok': "p_root s = Some r" "kids s r xs" "below s (r # xs)" "e_type (entries s r) = PROCFS_TYPE_DIR"
    using ok by (simp_all add: procfs_ok_def)
  obtain t where t: "drop_pids r None (e_children (entries s r)) s = Some t" "kids t r ?ys"
    "\<forall>x. same_entry (entries s x) (entries t x)" "p_heap t = p_heap s" "p_root t = p_root s"
    using drop_pids_spec [of s r "[]" "e_children (entries s r)" xs None] ok'(2) by (auto simp: kids_def)
  have b: "below t (r # ?ys)" using ok'(3) t(4) by (auto simp: below_def)
  define u where "u = fold (add_pid_dir r) (live_pids y) t"
  obtain ds where ds: "kids u r (ds @ ?ys)" "below u (r # ds @ ?ys)"
    "mark u = mark t + 88 * min (slots (p_heap t)) (6 * length (live_pids y))"
    "map (e_name \<circ> entries u) ds = rev (map decimal (housed (p_heap t) (live_pids y)))"
    "map (e_pid \<circ> entries u) ds = rev (housed (p_heap t) (live_pids y))"
    "\<forall>x \<in> set (r # ?ys). same_entry (entries t x) (entries u x)" "p_root u = p_root t"
    using add_pid_dirs_kids [OF t(2) b, of "live_pids y"] unfolding Let_def u_def [symmetric] by blast
  have upd: "procfs_update y s = Some u" using ok'(1) t(1) by (simp add: procfs_update_def u_def)
  have same: "same_entry (entries s x) (entries u x)" if "x \<in> set (r # ?ys)" for x
    by (rule same_entry_trans [OF spec [OF t(3)] bspec [OF ds(6) that]])
  have "same_entry (entries s r) (entries u r)" by (rule same) simp
  then have ty: "e_type (entries u r) = PROCFS_TYPE_DIR" using ok'(4) same_entryD by metis
  have "e_pid (entries u d) \<in> set (live_pids y)" if "d \<in> set ds" for d
    using that arg_cong [OF ds(5), of set] by (auto simp: housed_def dest: in_set_takeD)
  then have "\<forall>d \<in> set ds. e_pid (entries u d) > 0" using live_pids_pos by blast
  with upd ds(1-4,7) t(4,5) ty same ok'(1) show ?thesis
    by (intro exI [of _ u] exI [of _ ds]) (auto simp: procfs_ok_def)
qed

lemma housed_all: "unat (h_ptr h) + 528 * length pids \<le> 8388608 \<Longrightarrow> housed h pids = pids"
  by (simp add: housed_def slots_def)

lemma slots_all: "unat (h_ptr h) + 528 * n \<le> 8388608 \<Longrightarrow> min (slots h) (6 * n) = 6 * n"
  by (simp add: slots_def less_eq_div_iff_mult_less_eq min_absorb2)

lemma procfs_update_ok:
  assumes "procfs_ok s r xs" and "mark s + 528 * length (live_pids y) \<le> 8388608"
  shows "\<exists>s' ds. procfs_update y s = Some s' \<and> procfs_ok s' r (ds @ filter (\<lambda>x. e_pid (entries s x) = 0) xs)
    \<and> map (e_name \<circ> entries s') ds = rev (map decimal (live_pids y)) \<and> (\<forall>d \<in> set ds. e_pid (entries s' d) > 0)
    \<and> mark s' = mark s + 528 * length (live_pids y)
    \<and> (\<forall>x \<in> set xs. e_pid (entries s x) = 0 \<longrightarrow> same_entry (entries s x) (entries s' x))"
  using procfs_update_exact [OF assms(1), of y]
  unfolding housed_all [OF assms(2)] slots_all [OF assms(2)] by simp

lemma list_siblings_linked:
  "linked_to (\<lambda>x. e_next (es x)) k xs None \<Longrightarrow> list_siblings es k n = map (\<lambda>x. e_name (es x)) (take n xs)"
proof (induction es k n arbitrary: xs rule: list_siblings.induct)
  case (1 es n)
  then show ?case by (cases xs) auto
next
  case (3 es c n)
  then show ?case by (cases xs) auto
qed simp

lemma list_root:
  assumes "procfs_ok s r xs"
  shows "procfs_list_dir ''/'' n s = Some (Some (take n (map (e_name \<circ> entries s) xs)))"
proof -
  have "find_entry s ''/'' = Some (Some r, 0)" using assms by (simp add: find_entry_def procfs_ok_def)
  moreover have "list_siblings (entries s) (e_children (entries s r)) n = map (\<lambda>x. e_name (entries s x)) (take n xs)"
    by (rule list_siblings_linked) (use assms in \<open>simp add: procfs_ok_def kids_def\<close>)
  ultimately show ?thesis using assms by (simp add: procfs_list_dir_def procfs_ok_def take_map comp_def)
qed

text \<open>The tree after \<open>procfs_init\<close>.\<close>

lemma add_globals_kids:
  assumes "kids s r xs" and "below s (r # xs)" and "mark s + 88 * length fs \<le> 8388608"
    and "\<forall>(n, ty, f) \<in> set fs. length n \<le> 63" and "p_root s = Some r" and "e_type (entries s r) = PROCFS_TYPE_DIR"
    and "\<forall>x \<in> set xs. e_pid (entries s x) = 0"
  shows "\<exists>ds. let s' = fold (add_global (Some r)) fs s in procfs_ok s' r (ds @ xs)
    \<and> mark s' = mark s + 88 * length fs \<and> map (e_name \<circ> entries s') (ds @ xs) = rev (map fst fs) @ map (e_name \<circ> entries s) xs
    \<and> (\<forall>x \<in> set (ds @ xs). e_pid (entries s' x) = 0)"
  using assms
proof (induction fs arbitrary: s xs)
  case Nil
  then show ?case by (simp add: procfs_ok_def)
next
  case (Cons f fs)
  obtain name ty rd where f: "f = (name, ty, rd)" by (cases f)
  define t where "t = add_global (Some r) f s"
  obtain d where d: "kids t r (d # xs)" "below t (r # d # xs)" "mark t = mark s + 88" "e_name (entries t d) = name"
    "e_pid (entries t d) = 0" "\<forall>x \<in> set (r # xs). same_entry (entries s x) (entries t x)" "p_root t = p_root s"
    using add_global_kids [OF Cons.prems(1,2), of name ty rd] Cons.prems(3,4) by (auto simp: t_def f Let_def)
  have keep: "e_name (entries t x) = e_name (entries s x) \<and> e_pid (entries t x) = e_pid (entries s x)
      \<and> e_type (entries t x) = e_type (entries s x)" if "x \<in> set (r # xs)" for x
    using same_entryD [OF bspec [OF d(6) that]] by simp
  obtain ds where ds: "procfs_ok (fold (add_global (Some r)) fs t) r (ds @ d # xs)"
    "mark (fold (add_global (Some r)) fs t) = mark t + 88 * length fs"
    "map (e_name \<circ> entries (fold (add_global (Some r)) fs t)) (ds @ d # xs)
      = rev (map fst fs) @ map (e_name \<circ> entries t) (d # xs)"
    "\<forall>x \<in> set (ds @ d # xs). e_pid (entries (fold (add_global (Some r)) fs t) x) = 0"
    using Cons.IH [OF d(1,2)] Cons.prems d(3,5,7) keep unfolding Let_def by auto
  have "map (e_name \<circ> entries t) xs = map (e_name \<circ> entries s) xs" using keep by simp
  with ds d(3,4) show ?case
    by (intro exI [of _ "ds @ [d]"]) (simp add: Let_def t_def [unfolded f, symmetric] f comp_def)
qed

definition global_names :: "string list" where
  "global_names = ''self'' # rev (map fst global_files)"

lemma procfs_init_ok:
  assumes "heap_ok (p_heap s)" and "mark s + 1056 \<le> 8388608"
  shows "\<exists>s' r xs. procfs_init s = (True, s') \<and> procfs_ok s' r xs \<and> map (e_name \<circ> entries s') xs = global_names
    \<and> (\<forall>x \<in> set xs. e_pid (entries s' x) = 0) \<and> mark s' = mark s + 1056"
proof -
  let ?s = "s\<lparr>p_mounted := False, p_root := None, p_mount_point := []\<rparr>" and ?r = "h_ptr (p_heap s)"
  let ?fs = "map (\<lambda>(n, f). (n, PROCFS_TYPE_FILE, Some f)) global_files @ [(''self'', PROCFS_TYPE_LINK, None)]"
  obtain t where t: "alloc_entry ''/'' PROCFS_TYPE_DIR None ?s = (Some ?r, t)" "heap_ok (p_heap t)" "mark t = mark s + 88"
    "entries t = (entries ?s)(?r := \<lparr>e_name = take 63 ''/'', e_type = PROCFS_TYPE_DIR, e_pid = 0,
       e_read = None, e_write = None, e_children = None, e_next = None\<rparr>)"
    using alloc_entry_room [of ?s "''/''" PROCFS_TYPE_DIR None] assms by auto
  define u where "u = t\<lparr>p_root := Some ?r\<rparr>"
  have u: "kids u ?r []" "below u [?r]" "mark u = mark s + 88" "p_root u = Some ?r" "e_type (entries u ?r) = PROCFS_TYPE_DIR"
    using t by (simp_all add: u_def kids_def below_def)
  have fs: "length ?fs = 11" "\<forall>(n, ty, f) \<in> set ?fs. length n \<le> 63" "rev (map fst ?fs) = global_names"
    by (simp_all add: global_files_def global_names_def)
  from add_globals_kids [OF u(1,2), of ?fs] obtain ds
    where ds: "procfs_ok (fold (add_global (Some ?r)) ?fs u) ?r ds" "mark (fold (add_global (Some ?r)) ?fs u) = mark u + 968"
      "map (e_name \<circ> entries (fold (add_global (Some ?r)) ?fs u)) ds = global_names"
      "\<forall>x \<in> set ds. e_pid (entries (fold (add_global (Some ?r)) ?fs u) x) = 0"
    using u(3-5) fs assms(2) unfolding Let_def by auto
  have "procfs_init s = (True, fold (add_global (Some ?r)) ?fs u)"
  proof -
    have keep: "p_root (fold (add_global (Some ?r)) gs v) = p_root v" for gs v
      by (induction gs arbitrary: v)
         (auto simp: add_global_def add_entry_def upd_entry_def alloc_entry_def Let_def split: prod.splits option.splits)
    show ?thesis by (simp add: procfs_init_def t(1) u_def [symmetric] Let_def keep u(4))
  qed
  with ds u(3) show ?thesis by (intro exI [of _ "fold (add_global (Some ?r)) ?fs u"] exI [of _ ?r] exI [of _ ds]) simp
qed

section \<open>Reading\<close>

fun read_seq :: "u32 option \<Rightarrow> u32 list \<Rightarrow> procfs \<Rightarrow> string \<times> procfs" where
  "read_seq f [] s = ([], s)"
| "read_seq f (n # ns) s =
     (let (t, s) = procfs_read f n s; (ts, s) = read_seq f ns s in (t @ ts, s))"

lemma procfs_read_chunk:
  assumes "pf_buffer (p_files s f) = Some buf" and "pf_size (p_files s f) = of_nat (length buf)"
    and "length buf < 2 ^ 32" and "unat (pf_position (p_files s f)) \<le> length buf"
  shows "\<exists>s'. procfs_read (Some f) n s = (take (unat n) (drop (unat (pf_position (p_files s f))) buf), s')
    \<and> pf_buffer (p_files s' f) = Some buf \<and> pf_size (p_files s' f) = of_nat (length buf)
    \<and> unat (pf_position (p_files s' f)) = min (length buf) (unat (pf_position (p_files s f)) + unat n)"
proof -
  let ?pos = "pf_position (p_files s f)" and ?av = "pf_size (p_files s f) - pf_position (p_files s f)"
  have l: "unat (of_nat (length buf) :: u32) = length buf" using assms(3) by (simp add: unat_of_nat)
  have av: "unat ?av = length buf - unat ?pos"
  proof -
    have "?pos \<le> of_nat (length buf)" using assms(4) l by (simp add: word_le_nat_alt)
    then show ?thesis using l by (simp add: assms(2) unat_sub)
  qed
  show ?thesis
  proof (cases "?av = 0")
    case True
    then have "length buf - unat ?pos = 0" using av by simp
    then have "unat ?pos = length buf" using assms(4) by simp
    then show ?thesis using True assms by (simp add: procfs_read_def)
  next
    case False
    define m where "m = (if n > ?av then ?av else n)"
    have m: "unat m = min (length buf - unat ?pos) (unat n)"
      using av by (simp add: m_def word_less_nat_alt min_def)
    have "unat ?pos + unat m < 2 ^ 32" using m assms(3,4) by simp
    then have pos: "unat (?pos + m) = unat ?pos + unat m" by (simp add: unat_word_ariths)
    have "take (unat m) (drop (unat ?pos) buf) = take (unat n) (drop (unat ?pos) buf)"
      using m by (simp add: min_def)
    moreover have "procfs_read (Some f) n s = (take (unat m) (drop (unat ?pos) buf),
        s\<lparr>p_files := (p_files s)(f := (p_files s f)\<lparr>pf_position := ?pos + m\<rparr>)\<rparr>)"
      using False assms(1) by (simp add: procfs_read_def Let_def m_def)
    moreover have "unat ?pos + unat m = min (length buf) (unat ?pos + unat n)"
      using m assms(4) by linarith
    ultimately show ?thesis using assms(1,2) pos
      by (intro exI [of _ "s\<lparr>p_files := (p_files s)(f := (p_files s f)\<lparr>pf_position := ?pos + m\<rparr>)\<rparr>"]) simp
  qed
qed

section \<open>Properties\<close>

text \<open>
  Updating a mounted process file system takes the old process directories out and adds one
  for every live process: listing the root afterwards gives the process numbers, the last process
  of the table first, and then the other entries in the order they had, as long as the heap has
  room for the new entries.
\<close>

theorem procfs_lists_processes:
  assumes "p_root s = Some r" and "kids s r xs" and "below s (r # xs)"
    and "e_type (entries s r) = PROCFS_TYPE_DIR"
    and "mark s + 528 * length (live_pids y) \<le> 8388608"
  shows "\<exists>s'. procfs_update y s = Some s'
    \<and> procfs_list_dir ''/'' n s' = Some (Some (take n (rev (map decimal (live_pids y))
        @ map (e_name \<circ> entries s) (filter (\<lambda>x. e_pid (entries s x) = 0) xs))))"
proof -
  let ?ys = "filter (\<lambda>x. e_pid (entries s x) = 0) xs"
  have "procfs_ok s r xs" using assms(1-4) by (simp add: procfs_ok_def)
  from procfs_update_ok [OF this assms(5)] obtain u ds where u: "procfs_update y s = Some u" "procfs_ok u r (ds @ ?ys)"
    "map (e_name \<circ> entries u) ds = rev (map decimal (live_pids y))"
    "\<forall>x \<in> set xs. e_pid (entries s x) = 0 \<longrightarrow> same_entry (entries s x) (entries u x)" by blast
  have "map (e_name \<circ> entries u) ?ys = map (e_name \<circ> entries s) ?ys"
    by (rule map_cong [OF refl]) (use u(4) same_entryD in auto)
  with u list_root [OF u(2), of n] show ?thesis by simp
qed

definition example_sys :: sys where
  "example_sys = \<lparr>process_table = (\<lambda>i. \<lparr>pi_name = ''init'', pi_state = 0, pi_pid = 7, pi_ppid = 0, pi_uid = 0,
       pi_gid = 0, pi_priority = 0, pi_jiffies = 0, code_start = 0, code_end = 0, data_start = 0, data_end = 0,
       heap_start = 0, heap_end = 0, stack_top = 0, stack_bottom = 0, fd_used = (\<lambda>_. False)\<rparr>),
     process_count = 1, process_get_by_pid = (\<lambda>_. None), kernel_ticks = 0, mem_total = 0, mem_free = 0,
     build_date = [], PROCESS_STATE_READY = 0, PROCESS_STATE_BLOCKED = 1, PROCESS_STATE_ZOMBIE = 2,
     PROCESS_STATE_DEAD = 3, PROCESS_STATE_NEW = 4\<rparr>"

definition example_procfs :: procfs where
  "example_procfs = \<lparr>p_mounted = True, p_root = Some 0, p_mount_point = [],
     entries = (\<lambda>x. \<lparr>e_name = ''/'', e_type = 0, e_pid = 0, e_read = None, e_write = None,
                    e_children = None, e_next = None\<rparr>),
     p_files = (\<lambda>_. \<lparr>pf_entry = None, pf_pid = 0, pf_position = 0, pf_buffer = None, pf_size = 0\<rparr>),
     p_heap = \<lparr>h_mem = (\<lambda>_. 0), h_ptr = 88\<rparr>\<rparr>"

theorem procfs_lists_processes_witness:
  "\<exists>s'. procfs_update example_sys example_procfs = Some s'
     \<and> procfs_list_dir ''/'' 9 s' = Some (Some [decimal 7])"
proof -
  have e: "p_root example_procfs = Some 0" "kids example_procfs 0 []" "below example_procfs [0]"
    "e_type (entries example_procfs 0) = PROCFS_TYPE_DIR" "mark example_procfs = 88"
    by (simp_all add: example_procfs_def kids_def below_def heap_ok_def PROCFS_TYPE_DIR_def)
  have l: "live_pids example_sys = [7]" by (simp add: live_pids_def example_sys_def)
  show ?thesis using procfs_lists_processes [OF e(1-4), of example_sys 9] by (simp add: l e(5))
qed

text \<open>
  Reading an open file in chunks of any sizes hands out its text in order, from the position
  on, until the text is used up.
\<close>

theorem procfs_reads_text:
  assumes "pf_buffer (p_files s f) = Some buf" and "pf_size (p_files s f) = of_nat (length buf)"
    and "length buf < 2 ^ 32" and "unat (pf_position (p_files s f)) \<le> length buf"
  shows "fst (read_seq (Some f) ns s)
    = take (sum_list (map unat ns)) (drop (unat (pf_position (p_files s f))) buf)"
  using assms
proof (induction ns arbitrary: s)
  case (Cons n ns)
  obtain t where t: "procfs_read (Some f) n s = (take (unat n) (drop (unat (pf_position (p_files s f))) buf), t)"
    "pf_buffer (p_files t f) = Some buf" "pf_size (p_files t f) = of_nat (length buf)"
    "unat (pf_position (p_files t f)) = min (length buf) (unat (pf_position (p_files s f)) + unat n)"
    using procfs_read_chunk [OF Cons.prems] by blast
  have "drop (min (length buf) k) buf = drop k buf" for k by (simp add: min_def)
  with Cons.IH [OF t(2,3) Cons.prems(3)] t(1,4) show ?case
    by (auto simp: Let_def split: prod.splits) (simp add: take_add add.commute)
qed simp

theorem procfs_reads_text_witness:
  "fst (read_seq (Some 1) [2, 9] (example_procfs\<lparr>p_files := (\<lambda>_.
     \<lparr>pf_entry = None, pf_pid = 0, pf_position = 1, pf_buffer = Some ''hello'', pf_size = 5\<rparr>)\<rparr>)) = ''ello''"
  by (subst procfs_reads_text [where buf = "''hello''"]) simp_all

text \<open>
  \<^verbatim>\<open>/proc/meminfo\<close> says nothing about the memory: the directive \<^verbatim>\<open>%8u\<close> of its format is not one
  \<open>snprintf\<close> knows, so the text is the same for every memory size.
\<close>

theorem meminfo_ignores_memory:
  "meminfo_text y = text_lines
     [''MemTotal:'' @ [TAB] @ ''u kB'', ''MemFree:'' @ [TAB] @ ''u kB'', ''MemAvailable:'' @ [TAB] @ ''u kB'',
      ''MemUsed:'' @ [TAB] @ ''u kB'', ''Buffers:'' @ [TAB] @ ''u kB'', ''Cached:'' @ [TAB, TAB] @ ''u kB'',
      ''SwapTotal:'' @ [TAB] @ ''u kB'', ''SwapFree:'' @ [TAB] @ ''u kB'']"
  by (simp add: meminfo_text_def sprint_def snprintf_def Let_def text_lines_def procfs_consts)

end
