(* ===== verification/Ext4.thy ===== *)
theory Ext4
  imports Heap_Alloc CString
begin

text \<open>
  The ext4 driver \<^verbatim>\<open>ext4.c\<close>. The disk is a parameter: \<open>disk lba n\<close> are the bytes of \<open>n\<close> sectors, or
  \<^term>\<open>None\<close> when \<^verbatim>\<open>disk_read\<close> (which is not in the repository) reports a failure. The driver never
  calls its block writer, so the disk stays the same over all operations. The packed structures of
  \<^verbatim>\<open>ext4.h\<close> are records with the little-endian readers that the casts of the code stand for. The
  bytes of a block that was read are a list; an operation is \<^term>\<open>None\<close> where the code divides by
  zero, shifts an \<^verbatim>\<open>int\<close> into its sign, reads a block into a buffer that is too small for it, or
  reads or writes behind the bytes it has. The pointer arguments are not NULL.
\<close>

section \<open>On-disk structures\<close>

definition EXT4_MAGIC :: u16 where "EXT4_MAGIC = 0xEF53"

definition EXT4_BLOCK_SIZE :: nat where "EXT4_BLOCK_SIZE = 4096"

definition EXT4_ROOT_INODE :: u32 where "EXT4_ROOT_INODE = 2"

definition EXT4_S_IFDIR :: u16 where "EXT4_S_IFDIR = 0x4000"

lemmas ext4_consts = EXT4_MAGIC_def EXT4_BLOCK_SIZE_def EXT4_ROOT_INODE_def EXT4_S_IFDIR_def

definition byte_at :: "u8 list \<Rightarrow> nat \<Rightarrow> u8" where
  "byte_at b i = b ! i"

definition half_at :: "u8 list \<Rightarrow> nat \<Rightarrow> u16" where
  "half_at b i = ucast (b ! i) OR push_bit 8 (ucast (b ! (i + 1)))"

definition word_at :: "u8 list \<Rightarrow> nat \<Rightarrow> u32" where
  "word_at b i = ucast (half_at b i) OR push_bit 16 (ucast (half_at b (i + 2)))"

definition bytes_at :: "u8 list \<Rightarrow> nat \<Rightarrow> nat \<Rightarrow> u8 list" where
  "bytes_at b i n = take n (drop i b)"

definition words_at :: "u8 list \<Rightarrow> nat \<Rightarrow> nat \<Rightarrow> u32 list" where
  "words_at b i n = map (\<lambda>k. word_at b (i + 4 * k)) [0..<n]"

record superblock =
  sb_inode_count :: u32
  sb_block_count_lo :: u32
  sb_r_block_count_lo :: u32
  sb_free_block_count_lo :: u32
  sb_free_inode_count :: u32
  sb_first_data_block :: u32
  sb_log_block_size :: u32
  sb_log_cluster_size :: u32
  sb_blocks_per_group :: u32
  sb_clusters_per_group :: u32
  sb_inodes_per_group :: u32
  sb_mount_time :: u32
  sb_write_time :: u32
  sb_mount_count :: u16
  sb_max_mount_count :: u16
  sb_magic :: u16
  sb_state :: u16
  sb_errors :: u16
  sb_minor_rev_level :: u16
  sb_lastcheck :: u32
  sb_checkinterval :: u32
  sb_creator_os :: u32
  sb_rev_level :: u32
  sb_def_resuid :: u16
  sb_def_resgid :: u16
  sb_first_ino :: u32
  sb_inode_size :: u16
  sb_block_group_nr :: u16
  sb_feature_compat :: u32
  sb_feature_incompat :: u32
  sb_feature_ro_compat :: u32
  sb_uuid :: "u8 list"
  sb_volume_name :: "u8 list"
  sb_last_mounted :: "u8 list"
  sb_algorithm_usage_bitmap :: u32
  sb_prealloc_blocks :: u8
  sb_prealloc_dir_blocks :: u8
  sb_reserved_gdt_blocks :: u16
  sb_journal_uuid :: "u8 list"
  sb_journal_inum :: u32
  sb_journal_dev :: u32
  sb_last_orphan :: u32
  sb_hash_seed :: "u32 list"
  sb_def_hash_version :: u8
  sb_jnl_backup_type :: u8
  sb_desc_size :: u16
  sb_default_mount_opts :: u32
  sb_first_meta_bg :: u32
  sb_mkfs_time :: u32
  sb_jnl_blocks :: "u32 list"

definition parse_superblock :: "u8 list \<Rightarrow> superblock" where
  "parse_superblock b = \<lparr>
     sb_inode_count = word_at b 0,
     sb_block_count_lo = word_at b 4,
     sb_r_block_count_lo = word_at b 8,
     sb_free_block_count_lo = word_at b 12,
     sb_free_inode_count = word_at b 16,
     sb_first_data_block = word_at b 20,
     sb_log_block_size = word_at b 24,
     sb_log_cluster_size = word_at b 28,
     sb_blocks_per_group = word_at b 32,
     sb_clusters_per_group = word_at b 36,
     sb_inodes_per_group = word_at b 40,
     sb_mount_time = word_at b 44,
     sb_write_time = word_at b 48,
     sb_mount_count = half_at b 52,
     sb_max_mount_count = half_at b 54,
     sb_magic = half_at b 56,
     sb_state = half_at b 58,
     sb_errors = half_at b 60,
     sb_minor_rev_level = half_at b 62,
     sb_lastcheck = word_at b 64,
     sb_checkinterval = word_at b 68,
     sb_creator_os = word_at b 72,
     sb_rev_level = word_at b 76,
     sb_def_resuid = half_at b 80,
     sb_def_resgid = half_at b 82,
     sb_first_ino = word_at b 84,
     sb_inode_size = half_at b 88,
     sb_block_group_nr = half_at b 90,
     sb_feature_compat = word_at b 92,
     sb_feature_incompat = word_at b 96,
     sb_feature_ro_compat = word_at b 100,
     sb_uuid = bytes_at b 104 16,
     sb_volume_name = bytes_at b 120 16,
     sb_last_mounted = bytes_at b 136 64,
     sb_algorithm_usage_bitmap = word_at b 200,
     sb_prealloc_blocks = byte_at b 204,
     sb_prealloc_dir_blocks = byte_at b 205,
     sb_reserved_gdt_blocks = half_at b 206,
     sb_journal_uuid = bytes_at b 208 16,
     sb_journal_inum = word_at b 224,
     sb_journal_dev = word_at b 228,
     sb_last_orphan = word_at b 232,
     sb_hash_seed = words_at b 236 4,
     sb_def_hash_version = byte_at b 252,
     sb_jnl_backup_type = byte_at b 253,
     sb_desc_size = half_at b 254,
     sb_default_mount_opts = word_at b 256,
     sb_first_meta_bg = word_at b 260,
     sb_mkfs_time = word_at b 264,
     sb_jnl_blocks = words_at b 268 17\<rparr>"

record group_desc =
  gd_block_bitmap_lo :: u32
  gd_inode_bitmap_lo :: u32
  gd_inode_table_lo :: u32
  gd_free_blocks_count_lo :: u16
  gd_free_inodes_count_lo :: u16
  gd_used_dirs_count_lo :: u16
  gd_flags :: u16
  gd_exclude_bitmap_lo :: u32
  gd_block_bitmap_csum_lo :: u16
  gd_inode_bitmap_csum_lo :: u16
  gd_itable_unused_lo :: u16
  gd_checksum :: u16

definition parse_group_desc :: "u8 list \<Rightarrow> group_desc" where
  "parse_group_desc b = \<lparr>
     gd_block_bitmap_lo = word_at b 0,
     gd_inode_bitmap_lo = word_at b 4,
     gd_inode_table_lo = word_at b 8,
     gd_free_blocks_count_lo = half_at b 12,
     gd_free_inodes_count_lo = half_at b 14,
     gd_used_dirs_count_lo = half_at b 16,
     gd_flags = half_at b 18,
     gd_exclude_bitmap_lo = word_at b 20,
     gd_block_bitmap_csum_lo = half_at b 24,
     gd_inode_bitmap_csum_lo = half_at b 26,
     gd_itable_unused_lo = half_at b 28,
     gd_checksum = half_at b 30\<rparr>"

record extent_header =
  eh_magic :: u16
  eh_entries :: u16
  eh_max :: u16
  eh_depth :: u16
  eh_generation :: u32

definition parse_extent_header :: "u8 list \<Rightarrow> extent_header" where
  "parse_extent_header b = \<lparr>
     eh_magic = half_at b 0,
     eh_entries = half_at b 2,
     eh_max = half_at b 4,
     eh_depth = half_at b 6,
     eh_generation = word_at b 8\<rparr>"

record extent =
  ex_block :: u32
  ex_len :: u16
  ex_start_hi :: u16
  ex_start_lo :: u32

definition parse_extent :: "u8 list \<Rightarrow> extent" where
  "parse_extent b = \<lparr>
     ex_block = word_at b 0,
     ex_len = half_at b 4,
     ex_start_hi = half_at b 6,
     ex_start_lo = word_at b 8\<rparr>"

record ext4_inode =
  in_mode :: u16
  in_uid :: u16
  in_size_lo :: u32
  in_atime :: u32
  in_ctime :: u32
  in_mtime :: u32
  in_dtime :: u32
  in_gid :: u16
  in_links_count :: u16
  in_blocks_lo :: u32
  in_flags :: u32
  in_osd1 :: u32
  in_block :: "u8 list"
  in_generation :: u32
  in_file_acl_lo :: u32
  in_size_hi :: u32
  in_obso_faddr :: u32
  in_osd2 :: "u8 list"
  in_extra_isize :: u16
  in_checksum_hi :: u16
  in_ctime_extra :: u32
  in_mtime_extra :: u32
  in_atime_extra :: u32
  in_crtime :: u32
  in_crtime_extra :: u32
  in_version_hi :: u32
  in_projid :: u32

definition parse_inode :: "u8 list \<Rightarrow> ext4_inode" where
  "parse_inode b = \<lparr>
     in_mode = half_at b 0,
     in_uid = half_at b 2,
     in_size_lo = word_at b 4,
     in_atime = word_at b 8,
     in_ctime = word_at b 12,
     in_mtime = word_at b 16,
     in_dtime = word_at b 20,
     in_gid = half_at b 24,
     in_links_count = half_at b 26,
     in_blocks_lo = word_at b 28,
     in_flags = word_at b 32,
     in_osd1 = word_at b 36,
     in_block = bytes_at b 40 60,
     in_generation = word_at b 100,
     in_file_acl_lo = word_at b 104,
     in_size_hi = word_at b 108,
     in_obso_faddr = word_at b 112,
     in_osd2 = bytes_at b 116 12,
     in_extra_isize = half_at b 128,
     in_checksum_hi = half_at b 130,
     in_ctime_extra = word_at b 132,
     in_mtime_extra = word_at b 136,
     in_atime_extra = word_at b 140,
     in_crtime = word_at b 144,
     in_crtime_extra = word_at b 148,
     in_version_hi = word_at b 152,
     in_projid = word_at b 156\<rparr>"

definition SIZEOF_SUPERBLOCK :: nat where "SIZEOF_SUPERBLOCK = 336"

definition SIZEOF_GROUP_DESC :: nat where "SIZEOF_GROUP_DESC = 32"

definition SIZEOF_INODE4 :: nat where "SIZEOF_INODE4 = 160"

definition SIZEOF_DIR_ENTRY :: nat where "SIZEOF_DIR_ENTRY = 263"

definition SIZEOF_EXT4_FILE :: u32 where "SIZEOF_EXT4_FILE = 176"

lemmas ext4_sizes = SIZEOF_SUPERBLOCK_def SIZEOF_GROUP_DESC_def SIZEOF_INODE4_def
  SIZEOF_DIR_ENTRY_def SIZEOF_EXT4_FILE_def

text \<open>
  A directory entry; its name are the bytes before the terminator \<^verbatim>\<open>ext4_list_dir\<close> puts behind them.
\<close>

record ext4_dir_entry =
  de_inode :: u32
  de_rec_len :: u16
  de_name_len :: u8
  de_file_type :: u8
  de_name :: "u8 list"

section \<open>State\<close>

record ext4_file =
  f_inode_num :: u32
  f_inode :: ext4_inode
  f_position :: u64
  f_flags :: u32

record ext4_fs =
  mounted :: bool
  fs_sb :: superblock
  fs_block_size :: u32
  fs_blocks_per_group :: u32
  fs_inodes_per_group :: u32
  fs_group_count :: u32
  fs_first_data_block :: u32
  fs_mount_point :: string

type_synonym disk = "u32 \<Rightarrow> u32 \<Rightarrow> u8 list option"

text \<open>\<^term>\<open>None\<close> is the overrun of the 4096-byte buffers, \<^term>\<open>Some None\<close> a failed read.\<close>

definition ext4_read_block :: "disk \<Rightarrow> ext4_fs \<Rightarrow> u32 \<Rightarrow> u8 list option option" where
  "ext4_read_block disk fs block =
     (let n = fs_block_size fs div 512 in
      if unat (n * 512) > EXT4_BLOCK_SIZE then None else Some (disk (block * n) n))"

definition ext4_write_block ::
    "(u32 \<Rightarrow> u8 list \<Rightarrow> u32 \<Rightarrow> 'd \<Rightarrow> bool \<times> 'd) \<Rightarrow> ext4_fs \<Rightarrow> u32 \<Rightarrow> u8 list \<Rightarrow> 'd \<Rightarrow> bool \<times> 'd" where
  "ext4_write_block disk_write fs block buf d =
     (let lba = block * (fs_block_size fs div 512)
      in disk_write lba buf (fs_block_size fs div 512) d)"

section \<open>Mounting\<close>

definition ext4_init :: "ext4_fs \<Rightarrow> bool \<times> ext4_fs" where
  "ext4_init fs = (True, \<lparr>mounted = False, fs_sb = parse_superblock (replicate SIZEOF_SUPERBLOCK 0),
     fs_block_size = 0, fs_blocks_per_group = 0, fs_inodes_per_group = 0, fs_group_count = 0,
     fs_first_data_block = 0, fs_mount_point = []\<rparr>)"

definition ext4_mount :: "disk \<Rightarrow> string \<Rightarrow> ext4_fs \<Rightarrow> (bool \<times> ext4_fs) option" where
  "ext4_mount disk point fs =
     (case disk 2 2 of
        None \<Rightarrow> Some (False, fs)
      | Some buf \<Rightarrow>
          if length buf < SIZEOF_SUPERBLOCK then None
          else
            let sb = parse_superblock buf;
                fs = fs\<lparr>fs_sb := sb\<rparr>
            in if sb_magic sb \<noteq> EXT4_MAGIC then Some (False, fs)
               else if sb_log_block_size sb \<ge> 21 \<or> sb_blocks_per_group sb = 0 then None
               else Some (True, fs\<lparr>
                 fs_block_size := push_bit (unat (sb_log_block_size sb)) 1024,
                 fs_blocks_per_group := sb_blocks_per_group sb,
                 fs_inodes_per_group := sb_inodes_per_group sb,
                 fs_group_count := (sb_block_count_lo sb + sb_blocks_per_group sb - 1)
                                     div sb_blocks_per_group sb,
                 fs_first_data_block := sb_first_data_block sb,
                 fs_mount_point := take 255 point,
                 mounted := True\<rparr>))"

definition ext4_umount :: "ext4_fs \<Rightarrow> bool \<times> ext4_fs" where
  "ext4_umount fs = (True, fs\<lparr>mounted := False\<rparr>)"

section \<open>Inodes and directories\<close>

definition ext4_get_inode :: "disk \<Rightarrow> ext4_fs \<Rightarrow> u32 \<Rightarrow> ext4_inode option option" where
  "ext4_get_inode disk fs num =
     (if num < 1 then Some None
      else if fs_inodes_per_group fs = 0 then None
      else
        let group = (num - 1) div fs_inodes_per_group fs;
            idx = (num - 1) mod fs_inodes_per_group fs;
            gd_block = fs_first_data_block fs + 1
        in case ext4_read_block disk fs gd_block of
             None \<Rightarrow> None
           | Some None \<Rightarrow> Some None
           | Some (Some gd_buf) \<Rightarrow>
               let gd_off = unat (group * of_nat SIZEOF_GROUP_DESC) in
               if gd_off + SIZEOF_GROUP_DESC > length gd_buf \<or> fs_block_size fs = 0 then None
               else
                 let gd = parse_group_desc (drop gd_off gd_buf);
                     inode_table_block = gd_inode_table_lo gd;
                     at = idx * ucast (sb_inode_size (fs_sb fs));
                     inode_block = inode_table_block + at div fs_block_size fs;
                     inode_offset = unat (at mod fs_block_size fs)
                 in case ext4_read_block disk fs inode_block of
                      None \<Rightarrow> None
                    | Some None \<Rightarrow> Some None
                    | Some (Some inode_buf) \<Rightarrow>
                        if inode_offset + SIZEOF_INODE4 > length inode_buf then None
                        else Some (Some (parse_inode (drop inode_offset inode_buf))))"

definition inode_extent_header :: "ext4_inode \<Rightarrow> extent_header" where
  "inode_extent_header ino = parse_extent_header (in_block ino)"

definition inode_extent :: "ext4_inode \<Rightarrow> nat \<Rightarrow> extent" where
  "inode_extent ino i = parse_extent (drop (12 + 12 * i) (in_block ino))"

text \<open>\<^verbatim>\<open>strncmp(de->name, token, strlen(token)) == 0\<close>; \<^term>\<open>None\<close> when the bytes of the block end.\<close>

fun name_starts :: "u8 list \<Rightarrow> string \<Rightarrow> bool option" where
  "name_starts name [] = Some True"
| "name_starts [] (c # token) = None"
| "name_starts (x # name) (c # token) =
     (if x = of_char c then name_starts name token else Some False)"

lemma scan_advances:
  fixes w :: u16
  assumes "w \<noteq> 0" and "off < (n :: nat)"
  shows "n - (off + unat w) < n - off"
proof -
  have "0 < unat w" by (rule unat_pos [OF assms(1)])
  with assms(2) show ?thesis by linarith
qed

text \<open>The loop over the entries of a directory block; \<^term>\<open>Some None\<close> is ``not found''.\<close>

function find_dir_entry :: "u8 list \<Rightarrow> nat \<Rightarrow> string \<Rightarrow> nat \<Rightarrow> u32 option option" where
  "find_dir_entry dir_buf block_size token offset =
     (if \<not> offset < block_size then Some None
      else if offset + 8 > length dir_buf then None
      else
        let rec_len = half_at dir_buf (offset + 4);
            inode = word_at dir_buf offset;
            name_len = unat (byte_at dir_buf (offset + 6))
        in if rec_len = 0 then Some None
           else
             case (if inode \<noteq> 0 \<and> name_len = length token
                   then name_starts (drop (offset + 8) dir_buf) token else Some False) of
               None \<Rightarrow> None
             | Some True \<Rightarrow> Some (Some inode)
             | Some False \<Rightarrow> find_dir_entry dir_buf block_size token (offset + unat rec_len))"
  by pat_completeness auto
termination
  by (relation "measure (\<lambda>(d, bs, t, off). bs - off)") (auto simp: scan_advances)

declare find_dir_entry.simps [simp del]

fun walk_path :: "disk \<Rightarrow> ext4_fs \<Rightarrow> u32 \<Rightarrow> string list \<Rightarrow> u32 option" where
  "walk_path disk fs current [] = Some current"
| "walk_path disk fs current (token # tokens) =
     (case ext4_get_inode disk fs current of
        None \<Rightarrow> None
      | Some None \<Rightarrow> Some 0
      | Some (Some inode) \<Rightarrow>
          if in_mode inode AND EXT4_S_IFDIR = 0 then Some 0
          else if eh_magic (inode_extent_header inode) \<noteq> 0xF30A then Some 0
          else
            case ext4_read_block disk fs (ex_start_lo (inode_extent inode 0)) of
              None \<Rightarrow> None
            | Some None \<Rightarrow> Some 0
            | Some (Some dir_buf) \<Rightarrow>
                (case find_dir_entry dir_buf (unat (fs_block_size fs)) token 0 of
                   None \<Rightarrow> None
                 | Some None \<Rightarrow> Some 0
                 | Some (Some i) \<Rightarrow> walk_path disk fs i tokens))"

text \<open>\<^verbatim>\<open>tmp\<close> has 256 bytes and is terminated only when the path is shorter than 255.\<close>

definition ext4_path_to_inode :: "disk \<Rightarrow> ext4_fs \<Rightarrow> string \<Rightarrow> u32 option" where
  "ext4_path_to_inode disk fs path =
     (if path = ''/'' then Some EXT4_ROOT_INODE
      else if length path \<ge> 255 then None
      else walk_path disk fs EXT4_ROOT_INODE (CString.fields (\<lambda>c. c = CHR ''/'') (drop 1 path)))"

section \<open>Allocation\<close>

text \<open>The two allocators are empty in the code.\<close>

definition ext4_alloc_inode :: "ext4_fs \<Rightarrow> u32" where
  "ext4_alloc_inode fs = 0"

definition ext4_alloc_block :: "ext4_fs \<Rightarrow> u32" where
  "ext4_alloc_block fs = 0"

definition ext4_free_inode :: "u32 \<Rightarrow> ext4_fs \<Rightarrow> bool \<times> ext4_fs" where
  "ext4_free_inode num fs =
     (if num < 1 then (False, fs)
      else (True, fs\<lparr>fs_sb := (fs_sb fs)\<lparr>sb_free_inode_count := sb_free_inode_count (fs_sb fs) + 1\<rparr>\<rparr>))"

definition ext4_free_block :: "u32 \<Rightarrow> ext4_fs \<Rightarrow> bool \<times> ext4_fs" where
  "ext4_free_block block fs =
     (True, fs\<lparr>fs_sb := (fs_sb fs)\<lparr>sb_free_block_count_lo := sb_free_block_count_lo (fs_sb fs) + 1\<rparr>\<rparr>)"

section \<open>Files\<close>

text \<open>An open file is the address \<^verbatim>\<open>malloc\<close> gave it and the record stored there.\<close>

definition ext4_open ::
    "disk \<Rightarrow> ext4_fs \<Rightarrow> string \<Rightarrow> u32 \<Rightarrow> heap \<Rightarrow> ((u32 \<times> ext4_file) option \<times> heap) option" where
  "ext4_open disk fs path flags h =
     (if \<not> mounted fs then Some (None, h)
      else
        case ext4_path_to_inode disk fs path of
          None \<Rightarrow> None
        | Some inum \<Rightarrow>
            let inum = (if inum = 0 \<and> flags AND 1 \<noteq> 0 then ext4_alloc_inode fs else inum) in
            if inum = 0 then Some (None, h)
            else
              case malloc SIZEOF_EXT4_FILE h of
                (None, h) \<Rightarrow> Some (None, h)
              | (Some p, h) \<Rightarrow>
                  (case ext4_get_inode disk fs inum of
                     None \<Rightarrow> None
                   | Some None \<Rightarrow> Some (None, free (Some p) h)
                   | Some (Some inode) \<Rightarrow>
                       Some (Some (p, \<lparr>f_inode_num = inum, f_inode = inode, f_position = 0,
                                       f_flags = flags\<rparr>), h)))"

definition ext4_close :: "u32 option \<Rightarrow> heap \<Rightarrow> bool \<times> heap" where
  "ext4_close file h = (if file = None then (False, h) else (True, free file h))"

definition ext4_file_size :: "ext4_inode \<Rightarrow> u64" where
  "ext4_file_size inode = ucast (in_size_lo inode) OR push_bit 32 (ucast (in_size_hi inode))"

text \<open>
  The inner loop of \<^verbatim>\<open>ext4_read\<close>: \<open>acc\<close> are the bytes copied so far, and \<^term>\<open>False\<close> is the
  return from inside the loop when a block cannot be read.
\<close>

function copy_blocks :: "disk \<Rightarrow> ext4_fs \<Rightarrow> nat \<Rightarrow> u32 \<Rightarrow> nat \<Rightarrow> u8 list \<Rightarrow> (bool \<times> u8 list) option" where
  "copy_blocks disk fs sz phys_block block_off acc =
     (if fs_block_size fs = 0 then None
      else if \<not> (length acc < sz \<and> block_off \<le> unat (fs_block_size fs)) then Some (True, acc)
      else
        case ext4_read_block disk fs phys_block of
          None \<Rightarrow> None
        | Some None \<Rightarrow> Some (False, acc)
        | Some (Some block_buf) \<Rightarrow>
            let to_copy = unat (fs_block_size fs) - block_off;
                to_copy = (if to_copy > sz - length acc then sz - length acc else to_copy)
            in if block_off + to_copy > length block_buf then None
               else copy_blocks disk fs sz (phys_block + 1) 0
                      (acc @ take to_copy (drop block_off block_buf)))"
  by pat_completeness auto
termination
  by (relation "measures [\<lambda>(d, fs, sz, p, off, acc). sz - length acc, \<lambda>(d, fs, sz, p, off, acc). off]")
    (auto dest!: unat_pos split: if_splits)

declare copy_blocks.simps [simp del]

text \<open>
  The outer loop over the extents. The inode holds four of them; the code reads on behind the
  block map when the header announces more. The products of a 32-bit number with a block size
  that \<^verbatim>\<open>ext4_mount\<close> sets (at most \<open>2 ^ 30\<close>) stay below \<open>2 ^ 64\<close>.
\<close>

function read_extents :: "disk \<Rightarrow> ext4_fs \<Rightarrow> ext4_inode \<Rightarrow> nat \<Rightarrow> nat \<Rightarrow> nat \<Rightarrow> u8 list \<Rightarrow> u8 list option" where
  "read_extents disk fs inode pos0 sz i acc =
     (if \<not> (i < unat (eh_entries (inode_extent_header inode)) \<and> length acc < sz) then Some acc
      else if i \<ge> 4 then None
      else
        let ext = inode_extent inode i;
            bs = unat (fs_block_size fs);
            position = pos0 + length acc;
            ext_start = unat (ex_block ext) * bs;
            ext_size = unat (ex_len ext) * bs
        in if position \<ge> ext_start + ext_size
           then read_extents disk fs inode pos0 sz (Suc i) acc
           else if bs = 0 then None
           else
             let ext_offset = (if position > ext_start then position - ext_start else 0) mod 2 ^ 32;
                 phys_block = ex_start_lo ext + of_nat (ext_offset div bs);
                 block_off = ext_offset mod bs
             in case copy_blocks disk fs sz phys_block block_off acc of
                  None \<Rightarrow> None
                | Some (False, acc) \<Rightarrow> Some acc
                | Some (True, acc) \<Rightarrow> read_extents disk fs inode pos0 sz (Suc i) acc)"
  by pat_completeness auto
termination
  by (relation "measure (\<lambda>(d, fs, ino, p, sz, i, acc). unat (eh_entries (inode_extent_header ino)) - i)") auto

declare read_extents.simps [simp del]

text \<open>Reading returns the bytes copied into the caller's buffer and the file with its new position.\<close>

definition ext4_read :: "disk \<Rightarrow> ext4_fs \<Rightarrow> u32 \<Rightarrow> ext4_file \<Rightarrow> (u8 list \<times> ext4_file) option" where
  "ext4_read disk fs sz file =
     (if \<not> mounted fs then Some ([], file)
      else
        let file_size = ext4_file_size (f_inode file) in
        if f_position file \<ge> file_size then Some ([], file)
        else
          let available = (ucast (file_size - f_position file) :: u32);
              sz = (if sz > available then available else sz)
          in if eh_magic (inode_extent_header (f_inode file)) \<noteq> 0xF30A then Some ([], file)
             else
               case read_extents disk fs (f_inode file) (unat (f_position file)) (unat sz) 0 [] of
                 None \<Rightarrow> None
               | Some data \<Rightarrow>
                   Some (data, file\<lparr>f_position := f_position file + of_nat (length data)\<rparr>))"

text \<open>Writing only moves the position.\<close>

definition ext4_write :: "ext4_fs \<Rightarrow> u8 list \<Rightarrow> ext4_file \<Rightarrow> u32 \<times> ext4_file" where
  "ext4_write fs buf file =
     (if \<not> mounted fs then (0, file)
      else let sz = of_nat (length buf) :: u32
           in (sz, file\<lparr>f_position := f_position file + ucast sz\<rparr>))"

definition ext4_seek :: "u64 \<Rightarrow> ext4_file \<Rightarrow> bool \<times> ext4_file" where
  "ext4_seek offset file =
     (if offset > ext4_file_size (f_inode file) then (False, file)
      else (True, file\<lparr>f_position := offset\<rparr>))"

section \<open>Directories\<close>

text \<open>
  \<^verbatim>\<open>memcpy\<close> takes a whole entry of 263 bytes from the 4096-byte buffer, and the terminator goes to
  \<^verbatim>\<open>name[name_len]\<close>, which for 255 lies behind the array.
\<close>

function list_entries :: "u8 list \<Rightarrow> nat \<Rightarrow> nat \<Rightarrow> nat \<Rightarrow> ext4_dir_entry list option" where
  "list_entries dir_buf block_size count offset =
     (if \<not> (offset < block_size \<and> 0 < count) then Some []
      else if offset + 8 > length dir_buf then None
      else
        let rec_len = half_at dir_buf (offset + 4);
            inode = word_at dir_buf offset;
            name_len = byte_at dir_buf (offset + 6)
        in if rec_len = 0 then Some []
           else if inode \<noteq> 0 then
             if offset + SIZEOF_DIR_ENTRY > EXT4_BLOCK_SIZE \<or> name_len = 255
               \<or> offset + 8 + unat name_len > length dir_buf then None
             else
               case list_entries dir_buf block_size (count - 1) (offset + unat rec_len) of
                 None \<Rightarrow> None
               | Some es \<Rightarrow>
                   Some (\<lparr>de_inode = inode, de_rec_len = rec_len, de_name_len = name_len,
                          de_file_type = byte_at dir_buf (offset + 7),
                          de_name = bytes_at dir_buf (offset + 8) (unat name_len)\<rparr> # es)
           else list_entries dir_buf block_size count (offset + unat rec_len))"
  by pat_completeness auto
termination
  by (relation "measure (\<lambda>(d, bs, n, off). bs - off)") (auto simp: scan_advances)

declare list_entries.simps [simp del]

definition ext4_list_dir :: "disk \<Rightarrow> ext4_fs \<Rightarrow> string \<Rightarrow> u32 \<Rightarrow> ext4_dir_entry list option option" where
  "ext4_list_dir disk fs path count =
     (case ext4_path_to_inode disk fs path of
        None \<Rightarrow> None
      | Some inum \<Rightarrow>
          if inum = 0 then Some None
          else
            case ext4_get_inode disk fs inum of
              None \<Rightarrow> None
            | Some None \<Rightarrow> Some None
            | Some (Some inode) \<Rightarrow>
                if in_mode inode AND EXT4_S_IFDIR = 0 then Some None
                else if eh_magic (inode_extent_header inode) \<noteq> 0xF30A then Some None
                else
                  case ext4_read_block disk fs (ex_start_lo (inode_extent inode 0)) of
                    None \<Rightarrow> None
                  | Some None \<Rightarrow> Some None
                  | Some (Some dir_buf) \<Rightarrow>
                      (case list_entries dir_buf (unat (fs_block_size fs)) (unat count) 0 of
                         None \<Rightarrow> None
                       | Some es \<Rightarrow> Some (Some es)))"

definition ext4_mkdir :: "string \<Rightarrow> u16 \<Rightarrow> ext4_fs \<Rightarrow> bool \<times> ext4_fs" where
  "ext4_mkdir path mode fs =
     (if \<not> mounted fs then (False, fs)
      else if ext4_alloc_inode fs = 0 then (False, fs)
      else (True, fs))"

definition ext4_rmdir :: "disk \<Rightarrow> string \<Rightarrow> ext4_fs \<Rightarrow> (bool \<times> ext4_fs) option" where
  "ext4_rmdir disk path fs =
     (case ext4_path_to_inode disk fs path of
        None \<Rightarrow> None
      | Some inum \<Rightarrow> Some (if inum = 0 then (False, fs) else ext4_free_inode inum fs))"

text \<open>The decremented link count lives in a local copy of the inode that is then dropped.\<close>

definition ext4_unlink :: "disk \<Rightarrow> string \<Rightarrow> ext4_fs \<Rightarrow> (bool \<times> ext4_fs) option" where
  "ext4_unlink disk path fs =
     (case ext4_path_to_inode disk fs path of
        None \<Rightarrow> None
      | Some inum \<Rightarrow>
          if inum = 0 then Some (False, fs)
          else
            case ext4_get_inode disk fs inum of
              None \<Rightarrow> None
            | Some None \<Rightarrow> Some (False, fs)
            | Some (Some inode) \<Rightarrow>
                let inode = inode\<lparr>in_links_count := in_links_count inode - 1\<rparr>;
                    fs = (if in_links_count inode = 0 then snd (ext4_free_inode inum fs) else fs)
                in Some (True, fs))"

definition ext4_rename :: "string \<Rightarrow> string \<Rightarrow> ext4_fs \<Rightarrow> bool \<times> ext4_fs" where
  "ext4_rename old newp fs = (True, fs)"

definition ext4_symlink :: "string \<Rightarrow> string \<Rightarrow> ext4_fs \<Rightarrow> bool \<times> ext4_fs" where
  "ext4_symlink target link fs = (True, fs)"

section \<open>Statistics\<close>

definition ext4_get_free_space :: "ext4_fs \<Rightarrow> u64" where
  "ext4_get_free_space fs =
     (if \<not> mounted fs then 0 else ucast (sb_free_block_count_lo (fs_sb fs)) * ucast (fs_block_size fs))"

definition ext4_get_total_space :: "ext4_fs \<Rightarrow> u64" where
  "ext4_get_total_space fs =
     (if \<not> mounted fs then 0 else ucast (sb_block_count_lo (fs_sb fs)) * ucast (fs_block_size fs))"

definition ext4_get_label :: "ext4_fs \<Rightarrow> u8 list option" where
  "ext4_get_label fs = (if \<not> mounted fs then None else Some (sb_volume_name (fs_sb fs)))"

section \<open>Reading\<close>

text \<open>
  Byte \<open>k\<close> of the blocks that follow \<open>phys\<close> on the disk, where \<open>bl\<close> gives the content of a block.
\<close>

definition stream_byte :: "(u32 \<Rightarrow> u8 list) \<Rightarrow> nat \<Rightarrow> u32 \<Rightarrow> nat \<Rightarrow> u8" where
  "stream_byte bl bs phys k = bl (phys + of_nat (k div bs)) ! (k mod bs)"

lemma stream_byte_below: "k < bs \<Longrightarrow> stream_byte bl bs phys k = bl phys ! k"
  by (simp add: stream_byte_def)

lemma stream_byte_next: "0 < bs \<Longrightarrow> stream_byte bl bs phys (bs + k) = stream_byte bl bs (phys + 1) k"
proof -
  assume "0 < bs"
  then have "(bs + k) div bs = Suc (k div bs)" using div_add_self1 [of bs k] by simp
  then show ?thesis by (simp add: stream_byte_def ac_simps)
qed

text \<open>The disk delivers every block of the file system, a whole block each time.\<close>

definition readable :: "disk \<Rightarrow> ext4_fs \<Rightarrow> (u32 \<Rightarrow> u8 list) \<Rightarrow> bool" where
  "readable disk fs bl \<longleftrightarrow> 0 < unat (fs_block_size fs) \<and>
     (\<forall>b. ext4_read_block disk fs b = Some (Some (bl b)) \<and> length (bl b) = unat (fs_block_size fs))"

lemma copy_blocks_stream:
  assumes "readable disk fs bl" and "off < unat (fs_block_size fs)"
  shows "copy_blocks disk fs sz phys off acc =
    Some (True, acc @ map (\<lambda>k. stream_byte bl (unat (fs_block_size fs)) phys (off + k)) [0..<sz - length acc])"
  using assms(2)
proof (induction "sz - length acc" arbitrary: phys off acc rule: less_induct)
  case less
  define bs where "bs = unat (fs_block_size fs)"
  have blk: "ext4_read_block disk fs phys = Some (Some (bl phys))" "length (bl phys) = bs"
    and pos: "0 < bs" "fs_block_size fs \<noteq> 0" and off: "off < bs"
    using assms(1) less.prems by (auto simp: readable_def bs_def)
  show ?case
  proof (cases "length acc < sz")
    case False
    then show ?thesis using pos by (simp add: copy_blocks.simps)
  next
    case True
    define n where "n = min (bs - off) (sz - length acc)"
    have n: "n \<le> bs - off" "n \<le> sz - length acc" "0 < n" using True off by (auto simp: n_def)
    let ?acc = "acc @ take n (drop off (bl phys))"
    have len: "length (take n (drop off (bl phys))) = n" using n blk off by simp
    have step: "copy_blocks disk fs sz phys off acc = copy_blocks disk fs sz (phys + 1) 0 ?acc"
      using True off pos blk n len
      by (subst copy_blocks.simps) (auto simp: bs_def [symmetric] Let_def n_def min_def)
    have rest: "copy_blocks disk fs sz (phys + 1) 0 ?acc = Some (True, ?acc @
        map (\<lambda>k. stream_byte bl bs (phys + 1) (0 + k)) [0..<sz - length ?acc])"
      unfolding bs_def by (rule less.hyps) (use n len pos True in \<open>auto simp: bs_def\<close>)
    have first: "take n (drop off (bl phys)) = map (\<lambda>k. stream_byte bl bs phys (off + k)) [0..<n]"
      by (rule nth_equalityI) (use len n blk off in \<open>auto simp: stream_byte_below\<close>)
    have last: "map (\<lambda>k. stream_byte bl bs (phys + 1) (0 + k)) [0..<sz - length ?acc]
        = map (\<lambda>k. stream_byte bl bs phys (off + k)) [n..<sz - length acc]"
    proof (cases "n = sz - length acc")
      case True
      then show ?thesis using len by simp
    next
      case False
      then have "n = bs - off" by (auto simp: n_def)
      then have "off + n = bs" using off by simp
      then have "stream_byte bl bs phys (off + (k + n)) = stream_byte bl bs (phys + 1) k" for k
        using stream_byte_next [OF pos(1), of bl phys k] by (simp add: ac_simps)
      then show ?thesis using len n by (intro nth_equalityI) (auto simp: ac_simps)
    qed
    have "[0..<sz - length acc] = [0..<n] @ [n..<sz - length acc]"
      using n upt_add_eq_append [of 0 n "sz - length acc - n"] by simp
    with step rest first last show ?thesis by (simp add: bs_def [symmetric])
  qed
qed
lemma stream_byte_shift:
  "0 < bs \<Longrightarrow> stream_byte bl bs (phys + of_nat (o1 div bs)) (o1 mod bs + k) = stream_byte bl bs phys (o1 + k)"
proof -
  assume "0 < bs"
  have "(o1 + k) div bs = o1 div bs + (o1 mod bs + k) div bs"
    using div_mult_self4 [of bs "o1 div bs" "o1 mod bs + k"] \<open>0 < bs\<close>
    by (metis (no_types, opaque_lifting) add.assoc bot_nat_0.not_eq_extremum div_mult_mod_eq mult.commute)
  moreover have "(o1 + k) mod bs = (o1 mod bs + k) mod bs" by (simp add: mod_add_left_eq)
  ultimately show ?thesis by (simp add: stream_byte_def ac_simps)
qed

lemma readable_block_size: "readable disk fs bl \<Longrightarrow> unat (fs_block_size fs) < 4608"
proof -
  assume r: "readable disk fs bl"
  let ?n = "fs_block_size fs div 512"
  have n: "unat ?n = unat (fs_block_size fs) div 512" by (simp add: unat_div)
  then have "unat ?n * 512 < 2 ^ 32" using unat_u32_less [of "fs_block_size fs"] by simp
  then have "unat (?n * 512) = unat ?n * 512" by (subst unat_mult_lem [THEN iffD1]) simp_all
  moreover have "\<not> EXT4_BLOCK_SIZE < unat (?n * 512)"
    using r by (auto simp: readable_def ext4_read_block_def Let_def split: if_splits)
  ultimately show ?thesis using n by (simp add: EXT4_BLOCK_SIZE_def)
qed

definition extent_end :: "ext4_fs \<Rightarrow> extent \<Rightarrow> nat" where
  "extent_end fs ext = (unat (ex_block ext) + unat (ex_len ext)) * unat (fs_block_size fs)"

definition extent_start :: "ext4_fs \<Rightarrow> extent \<Rightarrow> nat" where
  "extent_start fs ext = unat (ex_block ext) * unat (fs_block_size fs)"

lemma read_extents_skip:
  assumes "i \<le> 4" and "i \<le> unat (eh_entries (inode_extent_header ino))"
    and "\<forall>j < i. extent_end fs (inode_extent ino j) \<le> pos" and "j \<le> i"
  shows "read_extents disk fs ino pos sz j [] = read_extents disk fs ino pos sz i []"
  using assms(4)
proof (induction "i - j" arbitrary: j)
  case 0
  then show ?case by simp
next
  case (Suc n)
  then have j: "j < i" "n = i - Suc j" "Suc j \<le> i" by auto
  have e: "extent_end fs (inode_extent ino j) \<le> pos" using j(1) assms(3) by blast
  show ?case
  proof (cases "sz = 0")
    case True
    then show ?thesis by (simp add: read_extents.simps)
  next
    case False
    have "read_extents disk fs ino pos sz j [] = read_extents disk fs ino pos sz (Suc j) []"
      using j(1) assms(1,2) False e
      by (subst read_extents.simps) (simp add: Let_def extent_end_def algebra_simps)
    also have "\<dots> = read_extents disk fs ino pos sz i []" by (rule Suc.hyps(1)) (use j in auto)
    finally show ?thesis .
  qed
qed

lemma read_extents_stream:
  assumes "readable disk fs bl" and i: "i < 4" "i < unat (eh_entries (inode_extent_header ino))"
    and "\<forall>j < i. extent_end fs (inode_extent ino j) \<le> pos"
    and within: "pos < extent_end fs (inode_extent ino i)"
  shows "read_extents disk fs ino pos sz 0 [] = Some (map (\<lambda>k. stream_byte bl
     (unat (fs_block_size fs)) (ex_start_lo (inode_extent ino i))
     (pos - extent_start fs (inode_extent ino i) + k)) [0..<sz])"
proof -
  define bs where "bs = unat (fs_block_size fs)"
  define e where "e = inode_extent ino i"
  define S where "S = unat (ex_block e) * bs"
  define o1 where "o1 = pos - S"
  have ext: "extent_start fs e = S" "extent_end fs e = S + unat (ex_len e) * bs"
    by (simp_all add: extent_start_def extent_end_def S_def bs_def algebra_simps)
  have in_ext: "\<not> S + unat (ex_len e) * bs \<le> pos" using within by (simp add: e_def [symmetric] ext)
  have bs: "0 < bs" "bs < 4608" using assms(1) readable_block_size [OF assms(1)]
    by (auto simp: bs_def readable_def)
  have "unat (ex_len e) < 2 ^ 16" by (rule order_less_le_trans [OF unsigned_less]) simp
  then have "unat (ex_len e) * bs < 2 ^ 32"
    using mult_strict_mono [of "unat (ex_len e)" "2 ^ 16" bs "2 ^ 16"] bs by simp
  moreover have "o1 \<le> unat (ex_len e) * bs" using in_ext by (simp add: o1_def)
  ultimately have small: "o1 mod 2 ^ 32 = o1" by simp
  have skip: "read_extents disk fs ino pos sz 0 [] = read_extents disk fs ino pos sz i []"
    by (rule read_extents_skip) (use assms(3,4) i in auto)
  show ?thesis
  proof (cases "sz = 0")
    case True
    then show ?thesis by (simp add: read_extents.simps)
  next
    case False
    let ?data = "map (\<lambda>k. stream_byte bl bs (ex_start_lo e) (o1 + k)) [0..<sz]"
    have copy: "copy_blocks disk fs sz (ex_start_lo e + of_nat (o1 div bs)) (o1 mod bs) []
        = Some (True, ?data)"
      using copy_blocks_stream [OF assms(1), of "o1 mod bs" sz "ex_start_lo e + of_nat (o1 div bs)" "[]"] bs
      by (simp add: bs_def [symmetric] stream_byte_shift)
    have off: "S < pos \<Longrightarrow> (pos - S) mod 2 ^ 32 = o1" "\<not> S < pos \<Longrightarrow> o1 = 0"
      using small by (simp_all add: o1_def)
    have "read_extents disk fs ino pos sz i [] =
        (case copy_blocks disk fs sz (ex_start_lo e + of_nat (o1 div bs)) (o1 mod bs) [] of
           None \<Rightarrow> None
         | Some (False, acc) \<Rightarrow> Some acc
         | Some (True, acc) \<Rightarrow> read_extents disk fs ino pos sz (Suc i) acc)"
      using i False in_ext bs off
      by (subst read_extents.simps)
        (simp add: Let_def bs_def [symmetric] e_def [symmetric] S_def [symmetric])
    also have "\<dots> = Some ?data" using copy by (simp add: read_extents.simps)
    finally show ?thesis using skip by (simp add: bs_def [symmetric] e_def [symmetric] ext o1_def [symmetric])
  qed
qed

section \<open>Directory blocks\<close>

text \<open>The bytes of a directory block, as ext4 lays out its entries.\<close>

definition le16 :: "u16 \<Rightarrow> u8 list" where
  "le16 w = [ucast w, ucast (drop_bit 8 w)]"

definition le32 :: "u32 \<Rightarrow> u8 list" where
  "le32 w = le16 (ucast w) @ le16 (ucast (drop_bit 16 w))"

definition entry_bytes :: "ext4_dir_entry \<Rightarrow> u8 list" where
  "entry_bytes e = le32 (de_inode e) @ le16 (de_rec_len e) @ [de_name_len e, de_file_type e] @ de_name e
     @ replicate (unat (de_rec_len e) - 8 - length (de_name e)) 0"

definition dir_bytes :: "ext4_dir_entry list \<Rightarrow> u8 list" where
  "dir_bytes es = concat (map entry_bytes es)"

definition entry_ok :: "ext4_dir_entry \<Rightarrow> bool" where
  "entry_ok e \<longleftrightarrow> unat (de_name_len e) = length (de_name e) \<and> 8 + length (de_name e) \<le> unat (de_rec_len e)"

lemma dir_bytes_simps [simp]: "dir_bytes [] = []" "dir_bytes (e # es) = entry_bytes e @ dir_bytes es"
  by (simp_all add: dir_bytes_def)

lemma half_at_le16: "half_at (a @ le16 w @ b) (length a) = w"
proof -
  have "ucast (ucast w :: u8) OR push_bit 8 (ucast (ucast (drop_bit 8 w) :: u8)) = w"
    by (rule bit_word_eqI) (auto simp: bit_simps)
  then show ?thesis by (simp add: half_at_def le16_def nth_append)
qed

lemma length_le [simp]: "length (le16 w) = 2" "length (le32 v) = 4"
  by (simp_all add: le16_def le32_def)

lemma word_at_le32: "word_at (a @ le32 w @ b) (length a) = w"
proof -
  have "ucast (ucast w :: u16) OR push_bit 16 (ucast (ucast (drop_bit 16 w) :: u16)) = w"
    by (rule bit_word_eqI) (auto simp: bit_simps)
  then show ?thesis
    using half_at_le16 [of a "ucast w" "le16 (ucast (drop_bit 16 w)) @ b"]
      half_at_le16 [of "a @ le16 (ucast w)" "ucast (drop_bit 16 w)" b]
    by (simp add: word_at_def le32_def)
qed

lemma length_entry_bytes [simp]: "entry_ok e \<Longrightarrow> length (entry_bytes e) = unat (de_rec_len e)"
  by (auto simp: entry_bytes_def entry_ok_def)

text \<open>What the code reads at the position of an entry.\<close>

lemma entry_fields:
  assumes "entry_ok e"
  shows "word_at (a @ entry_bytes e @ b) (length a) = de_inode e"
    and "half_at (a @ entry_bytes e @ b) (length a + 4) = de_rec_len e"
    and "byte_at (a @ entry_bytes e @ b) (length a + 6) = de_name_len e"
    and "byte_at (a @ entry_bytes e @ b) (length a + 7) = de_file_type e"
    and "\<exists>r. drop (length a + 8) (a @ entry_bytes e @ b) = de_name e @ r"
proof -
  let ?r = "replicate (unat (de_rec_len e) - 8 - length (de_name e)) 0 @ b"
  show "word_at (a @ entry_bytes e @ b) (length a) = de_inode e"
    using word_at_le32 [of a "de_inode e"] by (simp add: entry_bytes_def)
  show "half_at (a @ entry_bytes e @ b) (length a + 4) = de_rec_len e"
    using half_at_le16 [of "a @ le32 (de_inode e)" "de_rec_len e"] by (simp add: entry_bytes_def)
  show "byte_at (a @ entry_bytes e @ b) (length a + 6) = de_name_len e"
    by (simp add: entry_bytes_def byte_at_def nth_append)
  show "byte_at (a @ entry_bytes e @ b) (length a + 7) = de_file_type e"
    by (simp add: entry_bytes_def byte_at_def nth_append)
  show "\<exists>r. drop (length a + 8) (a @ entry_bytes e @ b) = de_name e @ r"
    by (intro exI [of _ ?r]) (simp add: entry_bytes_def)
qed

lemma name_starts_take:
  "length t \<le> length n \<Longrightarrow> name_starts (n @ r) t = Some (take (length t) n = map of_char t)"
proof (induction t arbitrary: n)
  case (Cons c t)
  then show ?case by (cases n) auto
qed simp

definition named :: "string \<Rightarrow> ext4_dir_entry \<Rightarrow> bool" where
  "named token e \<longleftrightarrow> de_inode e \<noteq> 0 \<and> de_name e = map of_char token"

lemma find_dir_entry_spec:
  assumes "\<forall>e \<in> set es. entry_ok e"
  shows "find_dir_entry (a @ dir_bytes es) (length (a @ dir_bytes es)) token (length a) =
     Some (map_option de_inode (List.find (named token) es))"
  using assms
proof (induction es arbitrary: a)
  case Nil
  then show ?case by (simp add: find_dir_entry.simps)
next
  case (Cons e es)
  then have ok: "entry_ok e" by simp
  let ?b = "a @ entry_bytes e @ dir_bytes es"
  obtain r where r: "drop (length a + 8) ?b = de_name e @ r"
    using entry_fields(5) [OF ok] by blast
  have rec: "8 + length (de_name e) \<le> unat (de_rec_len e)" "unat (de_name_len e) = length (de_name e)"
    using ok by (simp_all add: entry_ok_def)
  then have "de_rec_len e \<noteq> 0" by (auto simp: unat_eq_zero)
  note f = entry_fields(1-3) [OF ok, of a "dir_bytes es"]
  have IH: "find_dir_entry ?b (length ?b) token (length a + unat (de_rec_len e)) =
      Some (map_option de_inode (List.find (named token) es))"
    using Cons.IH [of "a @ entry_bytes e"] Cons.prems ok by simp
  have len: "length a < length ?b" "\<not> length ?b < length a + 8" using rec ok by auto
  have match: "(if de_inode e \<noteq> 0 \<and> unat (de_name_len e) = length token
      then name_starts (drop (length a + 8) ?b) token else Some False) = Some (named token e)"
    unfolding r named_def using rec(2) by (auto simp: name_starts_take dest: map_eq_imp_length_eq)
  have "find_dir_entry ?b (length ?b) token (length a) =
      (if named token e then Some (Some (de_inode e))
       else find_dir_entry ?b (length ?b) token (length a + unat (de_rec_len e)))"
    by (subst find_dir_entry.simps)
      (use len f match \<open>de_rec_len e \<noteq> 0\<close> in \<open>simp only: Let_def if_False if_True simp_thms option.case bool.case split: bool.split\<close>, simp)
  with IH show ?case by simp
qed
lemma list_entries_spec:
  assumes "\<forall>e \<in> set es. entry_ok e \<and> de_name_len e \<noteq> 255"
    and "length (a @ dir_bytes es) + 255 \<le> EXT4_BLOCK_SIZE \<or> (\<forall>e \<in> set es. de_inode e \<noteq> 0 \<longrightarrow> SIZEOF_DIR_ENTRY \<le> unat (de_rec_len e)) \<and> length (a @ dir_bytes es) \<le> EXT4_BLOCK_SIZE"
  shows "list_entries (a @ dir_bytes es) (length (a @ dir_bytes es)) n (length a) =
     Some (take n (filter (\<lambda>e. de_inode e \<noteq> 0) es))"
  using assms
proof (induction es arbitrary: a n)
  case Nil
  then show ?case by (simp add: list_entries.simps)
next
  case (Cons e es)
  then have ok: "entry_ok e" by simp
  define b where "b = a @ entry_bytes e @ dir_bytes es"
  obtain r where r: "drop (length a + 8) b = de_name e @ r"
    using entry_fields(5) [OF ok] unfolding b_def by blast
  have rec: "8 + length (de_name e) \<le> unat (de_rec_len e)" "unat (de_name_len e) = length (de_name e)"
    using ok by (simp_all add: entry_ok_def)
  then have "de_rec_len e \<noteq> 0" by (auto simp: unat_eq_zero)
  note f = entry_fields(1-4) [OF ok, of a "dir_bytes es", folded b_def]
  have IH: "list_entries b (length b) m (length a + unat (de_rec_len e)) =
      Some (take m (filter (\<lambda>e. de_inode e \<noteq> 0) es))" for m
    using Cons.IH [of "a @ entry_bytes e" m] Cons.prems ok by (auto simp: b_def)
  have len: "length a < length b" "\<not> length b < length a + 8"
    "\<not> length b < length a + 8 + unat (de_name_len e)" using rec ok by (auto simp: b_def)
  have room: "de_inode e \<noteq> 0 \<Longrightarrow> \<not> EXT4_BLOCK_SIZE < length a + SIZEOF_DIR_ENTRY"
    using Cons.prems(2) ok rec by (auto simp: ext4_sizes)
  have copy: "\<lparr>de_inode = de_inode e, de_rec_len = de_rec_len e, de_name_len = de_name_len e,
      de_file_type = de_file_type e, de_name = bytes_at b (length a + 8) (unat (de_name_len e))\<rparr> = e"
    using rec(2) unfolding bytes_at_def r by simp
  have "n \<noteq> 0 \<Longrightarrow> list_entries b (length b) n (length a) =
      (if de_inode e \<noteq> 0 then Some (e # take (n - 1) (filter (\<lambda>e. de_inode e \<noteq> 0) es))
       else Some (take n (filter (\<lambda>e. de_inode e \<noteq> 0) es)))"
    using len room copy f \<open>de_rec_len e \<noteq> 0\<close> Cons.prems(1)
    by (subst list_entries.simps) (simp add: Let_def IH)
  then show ?case by (cases n) (auto simp: b_def list_entries.simps)
qed

section \<open>Path lookup\<close>

text \<open>
  What the disk says of the inodes: a directory with its entries, or something else. The map
  \<open>N\<close> describes the disk when every inode it knows is stored so, the root is known, and the entries
  of known directories lead to known inodes. \<open>resolve_tokens\<close> is the lookup on that map; 0 is the
  inode number for ``not found''.
\<close>

datatype ext4_node = Other | Directory "ext4_dir_entry list"

definition stored_node :: "disk \<Rightarrow> ext4_fs \<Rightarrow> u32 \<Rightarrow> ext4_node \<Rightarrow> bool" where
  "stored_node disk fs num node \<longleftrightarrow>
     (case node of
        Other \<Rightarrow> (\<exists>inode. ext4_get_inode disk fs num = Some (Some inode) \<and> in_mode inode AND EXT4_S_IFDIR = 0)
      | Directory es \<Rightarrow>
          \<exists>inode. ext4_get_inode disk fs num = Some (Some inode) \<and> in_mode inode AND EXT4_S_IFDIR \<noteq> 0 \<and>
            eh_magic (inode_extent_header inode) = 0xF30A \<and>
            ext4_read_block disk fs (ex_start_lo (inode_extent inode 0)) = Some (Some (dir_bytes es)) \<and>
            length (dir_bytes es) = unat (fs_block_size fs) \<and> (\<forall>e \<in> set es. entry_ok e))"

definition describes :: "(u32 \<Rightarrow> ext4_node option) \<Rightarrow> disk \<Rightarrow> ext4_fs \<Rightarrow> bool" where
  "describes N disk fs \<longleftrightarrow> N EXT4_ROOT_INODE \<noteq> None \<and>
     (\<forall>num node. N num = Some node \<longrightarrow> stored_node disk fs num node) \<and>
     (\<forall>num es. N num = Some (Directory es) \<longrightarrow> (\<forall>e \<in> set es. de_inode e \<noteq> 0 \<longrightarrow> N (de_inode e) \<noteq> None))"

fun resolve_tokens :: "(u32 \<Rightarrow> ext4_node option) \<Rightarrow> u32 \<Rightarrow> string list \<Rightarrow> u32" where
  "resolve_tokens N num [] = num"
| "resolve_tokens N num (token # tokens) =
     (case N num of
        Some (Directory es) \<Rightarrow>
          (case List.find (named token) es of
             None \<Rightarrow> 0
           | Some e \<Rightarrow> resolve_tokens N (de_inode e) tokens)
      | _ \<Rightarrow> 0)"

lemma find_named: "List.find (named t) es = Some e \<Longrightarrow> e \<in> set es \<and> de_inode e \<noteq> 0"
  by (auto simp: find_Some_iff named_def)

lemma walk_path_resolves:
  assumes "describes N disk fs"
  shows "N num \<noteq> None \<Longrightarrow> walk_path disk fs num tokens = Some (resolve_tokens N num tokens)"
proof (induction tokens arbitrary: num)
  case Nil
  then show ?case by simp
next
  case (Cons t ts)
  then obtain node where node: "N num = Some node" by auto
  with assms have st: "stored_node disk fs num node" by (simp add: describes_def)
  show ?case
  proof (cases node)
    case Other
    with st node show ?thesis by (auto simp: stored_node_def)
  next
    case (Directory es)
    with st obtain inode where inode: "ext4_get_inode disk fs num = Some (Some inode)"
        "in_mode inode AND EXT4_S_IFDIR \<noteq> 0" "eh_magic (inode_extent_header inode) = 0xF30A"
        "ext4_read_block disk fs (ex_start_lo (inode_extent inode 0)) = Some (Some (dir_bytes es))"
        "length (dir_bytes es) = unat (fs_block_size fs)" "\<forall>e \<in> set es. entry_ok e"
      by (auto simp: stored_node_def)
    have scan: "find_dir_entry (dir_bytes es) (unat (fs_block_size fs)) t 0 =
        Some (map_option de_inode (List.find (named t) es))"
      using find_dir_entry_spec [OF inode(6), of "[]" t] inode(5) by simp
    show ?thesis
    proof (cases "List.find (named t) es")
      case None
      with inode scan node Directory show ?thesis by simp
    next
      case (Some e)
      then have "e \<in> set es" "de_inode e \<noteq> 0" using find_named [OF Some] by auto
      with assms node Directory have "N (de_inode e) \<noteq> None" unfolding describes_def by blast
      with Cons.IH Some inode scan node Directory show ?thesis by simp
    qed
  qed
qed
section \<open>An example disk\<close>

text \<open>
  A disk with 1024-byte blocks: the super block and the group descriptor in blocks 1 and 2, the
  inode table from block 3 on, a root directory (inode 2, block 5) with one entry, and the file
  \<^verbatim>\<open>/a\<close> of 2000 bytes (inode 3) in two extents of one block each, at block 6 and at block 9.
\<close>

definition example_content :: "nat \<Rightarrow> u8" where
  "example_content k =
     (case map_of [(1044, 1), (1057, 0x20), (1064, 16), (1080, 0x53), (1081, 0xEF), (1113, 1),
        (2056, 3),
        (3329, 0x40), (3368, 0x0A), (3369, 0xF3), (3370, 1), (3384, 1), (3388, 5),
        (3585, 0x80), (3588, 0xD0), (3589, 7), (3624, 0x0A), (3625, 0xF3), (3626, 2), (3640, 1),
        (3644, 6), (3648, 1), (3652, 1), (3656, 9),
        (5120, 3), (5125, 4), (5126, 1), (5127, 1), (5128, 97)] k of
      None \<Rightarrow> 0 | Some v \<Rightarrow> v)"

definition example_disk :: disk where
  "example_disk lba n =
     Some (map (\<lambda>i. example_content (512 * unat lba + i)) [0..<512 * unat n])"

definition example_ext4 :: ext4_fs where
  "example_ext4 =
     (case ext4_init undefined of (_, fs) \<Rightarrow>
        case ext4_mount example_disk ''/'' fs of Some (_, fs) \<Rightarrow> fs | None \<Rightarrow> fs)"

definition example_block :: "u32 \<Rightarrow> u8 list" where
  "example_block b = map (\<lambda>i. example_content (512 * unat (b * 2) + i)) [0..<1024]"

declare upt_rec_numeral [simp del]

lemmas ext4_readers = byte_at_def half_at_def word_at_def bytes_at_def

lemma parse_superblock_fields:
  "sb_magic (parse_superblock b) = half_at b 56" "sb_log_block_size (parse_superblock b) = word_at b 24"
  "sb_blocks_per_group (parse_superblock b) = word_at b 32"
  "sb_inodes_per_group (parse_superblock b) = word_at b 40"
  "sb_first_data_block (parse_superblock b) = word_at b 20"
  "sb_inode_size (parse_superblock b) = half_at b 88"
  by (simp_all add: parse_superblock_def)

lemma example_superblock:
  fixes b :: "u8 list"
  defines "b \<equiv> map (\<lambda>i. example_content (512 * unat (2 :: u32) + i)) [0..<512 * unat (2 :: u32)]"
  shows "half_at b 56 = 0xEF53" "word_at b 24 = 0" "word_at b 32 = 8192" "word_at b 40 = 16"
    "word_at b 20 = 1" "half_at b 88 = 256" "length b = 1024"
  by (simp_all add: b_def ext4_readers example_content_def)

lemma example_ext4_fields:
  "mounted example_ext4" "fs_block_size example_ext4 = 1024" "fs_inodes_per_group example_ext4 = 16"
  "fs_first_data_block example_ext4 = 1" "sb_inode_size (fs_sb example_ext4) = 256"
  by (simp_all add: example_ext4_def ext4_init_def ext4_mount_def example_disk_def ext4_sizes
      parse_superblock_fields example_superblock [simplified] EXT4_MAGIC_def Let_def)

lemma example_read_block: "ext4_read_block example_disk example_ext4 b = Some (Some (example_block b))"
  by (simp add: ext4_read_block_def example_ext4_fields example_disk_def EXT4_BLOCK_SIZE_def
      example_block_def Let_def)

lemma example_readable: "readable example_disk example_ext4 example_block"
  by (simp add: readable_def example_ext4_fields example_read_block) (simp add: example_block_def)

lemma example_block_low: "unat b < 2 ^ 20 \<Longrightarrow>
   example_block b = map (\<lambda>i. example_content (1024 * unat b + i)) [0..<1024]"
proof -
  assume "unat b < 2 ^ 20"
  then have "unat (b * 2) = unat b * 2" by (subst unat_mult_lem [THEN iffD1]) simp_all
  then show ?thesis by (simp add: example_block_def algebra_simps)
qed

definition example_root :: ext4_inode where
  "example_root = parse_inode (map example_content [3328..<4096])"

definition example_file :: ext4_inode where
  "example_file = parse_inode (map example_content [3584..<4096])"

lemma example_inodes:
  "ext4_get_inode example_disk example_ext4 2 = Some (Some example_root)"
  "ext4_get_inode example_disk example_ext4 3 = Some (Some example_file)"
proof -
  have gd: "gd_inode_table_lo (parse_group_desc (example_block 2)) = 3"
    by (simp add: example_block_low parse_group_desc_def ext4_readers example_content_def)
  have tab: "example_block 3 = map example_content [3072..<4096]"
    by (rule nth_equalityI) (simp_all add: example_block_low)
  have len: "length (example_block b) = 1024" for b by (simp add: example_block_def)
  show "ext4_get_inode example_disk example_ext4 2 = Some (Some example_root)"
    by (simp add: ext4_get_inode_def example_ext4_fields example_read_block len gd tab ext4_sizes
        Let_def example_root_def drop_map drop_upt)
  show "ext4_get_inode example_disk example_ext4 3 = Some (Some example_file)"
    by (simp add: ext4_get_inode_def example_ext4_fields example_read_block len gd tab ext4_sizes
        Let_def example_file_def drop_map drop_upt)
qed

lemma parse_inode_fields:
  "in_mode (parse_inode b) = half_at b 0" "in_size_lo (parse_inode b) = word_at b 4"
  "in_size_hi (parse_inode b) = word_at b 108" "in_block (parse_inode b) = bytes_at b 40 60"
  by (simp_all add: parse_inode_def)

lemma parse_extent_fields:
  "ex_block (parse_extent b) = word_at b 0" "ex_len (parse_extent b) = half_at b 4"
  "ex_start_lo (parse_extent b) = word_at b 8"
  "eh_magic (parse_extent_header b) = half_at b 0" "eh_entries (parse_extent_header b) = half_at b 2"
  by (simp_all add: parse_extent_def parse_extent_header_def)

lemma example_inode_fields:
  "in_mode example_root = 0x4000" "eh_magic (inode_extent_header example_root) = 0xF30A"
  "ex_start_lo (inode_extent example_root 0) = 5" "in_mode example_file = 0x8000"
  "eh_magic (inode_extent_header example_file) = 0xF30A"
  "eh_entries (inode_extent_header example_file) = 2"
  "ex_block (inode_extent example_file 0) = 0" "ex_len (inode_extent example_file 0) = 1"
  "ex_start_lo (inode_extent example_file 0) = 6" "ext4_file_size example_file = 2000"
  by (simp_all only: example_root_def example_file_def parse_inode_fields parse_extent_fields
        inode_extent_header_def inode_extent_def ext4_file_size_def)
    (simp_all add: ext4_readers example_content_def)

definition example_entry :: ext4_dir_entry where
  "example_entry = \<lparr>de_inode = 3, de_rec_len = 1024, de_name_len = 1, de_file_type = 1, de_name = [97]\<rparr>"

lemma example_dir_block: "example_block 5 = dir_bytes [example_entry]"
proof (rule nth_equalityI)
  show "length (example_block 5) = length (dir_bytes [example_entry])"
    by (simp add: example_block_def entry_bytes_def example_entry_def)
  fix i assume "i < length (example_block 5)"
  then have i: "i < 1024" by (simp add: example_block_def)
  have e: "entry_bytes example_entry = [3, 0, 0, 0, 0, 4, 1, 1, 97] @ replicate 1015 0"
    by (simp add: entry_bytes_def example_entry_def le32_def le16_def)
  show "example_block 5 ! i = dir_bytes [example_entry] ! i"
  proof (cases "i < 9")
    case True
    then have "i \<in> {0, 1, 2, 3, 4, 5, 6, 7, 8}" by auto
    then show ?thesis by (auto simp: example_block_low e example_content_def)
  next
    case False
    then have "example_content (5120 + i) = 0" by (simp add: example_content_def)
    moreover have "dir_bytes [example_entry] ! i = 0" using False i by (simp add: e nth_append)
    ultimately show ?thesis using i by (simp add: example_block_low)
  qed
qed

definition example_nodes :: "u32 \<Rightarrow> ext4_node option" where
  "example_nodes = [2 \<mapsto> Directory [example_entry], 3 \<mapsto> Other]"

lemma example_describes: "describes example_nodes example_disk example_ext4"
proof -
  have dir: "stored_node example_disk example_ext4 2 (Directory [example_entry])"
    unfolding stored_node_def ext4_node.case
    by (rule exI [of _ example_root]) (simp add: example_inodes example_inode_fields EXT4_S_IFDIR_def
        example_read_block example_dir_block example_ext4_fields, simp add: entry_ok_def example_entry_def)
  have other: "stored_node example_disk example_ext4 3 Other"
    by (simp add: stored_node_def example_inodes example_inode_fields EXT4_S_IFDIR_def)
  show ?thesis unfolding describes_def
  proof (intro conjI allI impI ballI)
    show "example_nodes EXT4_ROOT_INODE \<noteq> None" by (simp add: example_nodes_def EXT4_ROOT_INODE_def)
  next
    fix num node assume "example_nodes num = Some node"
    then show "stored_node example_disk example_ext4 num node"
      using dir other by (auto simp: example_nodes_def split: if_splits)
  next
    fix num es e assume "example_nodes num = Some (Directory es)" "e \<in> set es" "de_inode e \<noteq> 0"
    then show "example_nodes (de_inode e) \<noteq> None"
      by (auto simp: example_nodes_def example_entry_def split: if_splits)
  qed
qed
section \<open>Properties\<close>

text \<open>
  C11. Reading a file of a mounted file system, on a disk that delivers every block: when extent
  \<open>i\<close> of the inode is the first that ends behind the position, \<^verbatim>\<open>ext4_read\<close> returns as many bytes as
  were asked for, or as remain (counted modulo \<open>2 ^ 32\<close>), and moves the position by that
  number. The bytes are those of the consecutive blocks that begin at the start of this one
  extent, from the offset of the position in it on: neither the length of the extent nor the later
  extents of the file are looked at, so for a request that leaves the extent the result is
  whatever follows it on the disk.
\<close>

theorem ext4_read_stream:
  assumes "readable disk fs bl" and "mounted fs"
    and "f_position fl < ext4_file_size (f_inode fl)"
    and "eh_magic (inode_extent_header (f_inode fl)) = 0xF30A"
    and "i < 4" and "i < unat (eh_entries (inode_extent_header (f_inode fl)))"
    and "\<forall>j < i. extent_end fs (inode_extent (f_inode fl) j) \<le> unat (f_position fl)"
    and "unat (f_position fl) < extent_end fs (inode_extent (f_inode fl) i)"
  shows "ext4_read disk fs sz fl =
    (let n = min (unat sz) (unat (ext4_file_size (f_inode fl) - f_position fl) mod 2 ^ 32);
         ext = inode_extent (f_inode fl) i
     in Some (map (\<lambda>k. stream_byte bl (unat (fs_block_size fs)) (ex_start_lo ext)
                (unat (f_position fl) - extent_start fs ext + k)) [0..<n],
              fl\<lparr>f_position := f_position fl + of_nat n\<rparr>))"
proof -
  define left where "left = (ucast (ext4_file_size (f_inode fl) - f_position fl) :: u32)"
  define m where "m = (if sz > left then left else sz)"
  have "unat left = unat (ext4_file_size (f_inode fl) - f_position fl) mod 2 ^ 32"
    by (simp add: left_def unsigned_ucast_eq unsigned_take_bit_eq take_bit_eq_mod)
  then have m: "unat m = min (unat sz) (unat (ext4_file_size (f_inode fl) - f_position fl) mod 2 ^ 32)"
    by (auto simp: m_def min_def word_less_nat_alt)
  have "\<not> ext4_file_size (f_inode fl) \<le> f_position fl" using assms(3) by simp
  with assms(2,4) have "ext4_read disk fs sz fl =
      (case read_extents disk fs (f_inode fl) (unat (f_position fl)) (unat m) 0 [] of
         None \<Rightarrow> None
       | Some data \<Rightarrow> Some (data, fl\<lparr>f_position := f_position fl + of_nat (length data)\<rparr>))"
    by (simp add: ext4_read_def Let_def left_def [symmetric] m_def [symmetric])
  with read_extents_stream [OF assms(1,5-8), of "unat m"] show ?thesis
    unfolding m Let_def by simp
qed

lemma ext4_read_stream_witness:
  "ext4_read example_disk example_ext4 1500 \<lparr>f_inode_num = 3, f_inode = example_file, f_position = 0, f_flags = 0\<rparr>
   = Some (map (stream_byte example_block 1024 6) [0..<1500],
       \<lparr>f_inode_num = 3, f_inode = example_file, f_position = 1500, f_flags = 0\<rparr>)"
  using ext4_read_stream [OF example_readable, where i = 0 and sz = 1500 and
      fl = "\<lparr>f_inode_num = 3, f_inode = example_file, f_position = 0, f_flags = 0\<rparr>"]
  by (simp add: example_ext4_fields example_inode_fields extent_end_def extent_start_def Let_def)

text \<open>
  C10. Looking up a path of fewer than 255 characters, on a disk whose directories are described by
  \<open>N\<close>, finds what the lookup on \<open>N\<close> finds from the root, component by component: a component that
  is not in its directory, or a path through something that is not a directory, gives 0, and the
  driver never leaves the bytes of a block on the way.
\<close>

theorem ext4_path_resolves:
  assumes "describes N disk fs" and "length path < 255"
  shows "ext4_path_to_inode disk fs path =
    Some (resolve_tokens N EXT4_ROOT_INODE (CString.fields (\<lambda>c. c = CHR ''/'') (drop 1 path)))"
proof -
  have "N EXT4_ROOT_INODE \<noteq> None" using assms(1) by (simp add: describes_def)
  with walk_path_resolves [OF assms(1)] assms(2) show ?thesis
    by (simp add: ext4_path_to_inode_def)
qed

lemma ext4_path_resolves_witness:
  "ext4_path_to_inode example_disk example_ext4 ''/a'' = Some 3"
  using ext4_path_resolves [OF example_describes, of "''/a''"]
  by (simp add: example_nodes_def EXT4_ROOT_INODE_def named_def example_entry_def of_char_def)

text \<open>
  Listing a directory of fewer than 255 characters of path returns the first \<open>count\<close> entries
  of the directory that are in use, in the order of the block, under the condition that the fixed
  263 bytes the driver copies for each of them stay inside its buffer.
\<close>

theorem ext4_list_dir_lists:
  assumes "describes N disk fs" and "length path < 255"
    and "N (resolve_tokens N EXT4_ROOT_INODE (CString.fields (\<lambda>c. c = CHR ''/'') (drop 1 path))) = Some (Directory es)"
    and "resolve_tokens N EXT4_ROOT_INODE (CString.fields (\<lambda>c. c = CHR ''/'') (drop 1 path)) \<noteq> 0"
    and "\<forall>e \<in> set es. de_name_len e \<noteq> 255"
    and "length (dir_bytes es) + 255 \<le> EXT4_BLOCK_SIZE \<or>
      (\<forall>e \<in> set es. de_inode e \<noteq> 0 \<longrightarrow> SIZEOF_DIR_ENTRY \<le> unat (de_rec_len e)) \<and> length (dir_bytes es) \<le> EXT4_BLOCK_SIZE"
  shows "ext4_list_dir disk fs path count = Some (Some (take (unat count) (filter (\<lambda>e. de_inode e \<noteq> 0) es)))"
proof -
  let ?num = "resolve_tokens N EXT4_ROOT_INODE (CString.fields (\<lambda>c. c = CHR ''/'') (drop 1 path))"
  have root: "N EXT4_ROOT_INODE \<noteq> None" using assms(1) by (simp add: describes_def)
  have path: "ext4_path_to_inode disk fs path = Some ?num"
    using walk_path_resolves [OF assms(1) root] assms(2) by (simp add: ext4_path_to_inode_def)
  have "stored_node disk fs ?num (Directory es)"
    using assms(1,3) unfolding describes_def by blast
  then obtain inode where inode: "ext4_get_inode disk fs ?num = Some (Some inode)"
      "in_mode inode AND EXT4_S_IFDIR \<noteq> 0" "eh_magic (inode_extent_header inode) = 0xF30A"
      "ext4_read_block disk fs (ex_start_lo (inode_extent inode 0)) = Some (Some (dir_bytes es))"
      "length (dir_bytes es) = unat (fs_block_size fs)" "\<forall>e \<in> set es. entry_ok e"
    unfolding stored_node_def ext4_node.case by blast
  have "list_entries (dir_bytes es) (unat (fs_block_size fs)) (unat count) 0 =
      Some (take (unat count) (filter (\<lambda>e. de_inode e \<noteq> 0) es))"
    using list_entries_spec [of es "[]" "unat count"] inode(5,6) assms(5,6) by simp
  with path inode assms(4) show ?thesis by (simp add: ext4_list_dir_def)
qed

lemma ext4_list_dir_lists_witness:
  "ext4_list_dir example_disk example_ext4 ''/'' 10 = Some (Some [example_entry])"
  using ext4_list_dir_lists [OF example_describes, of "''/''" "[example_entry]" 10]
  by (simp add: example_nodes_def EXT4_ROOT_INODE_def example_entry_def EXT4_BLOCK_SIZE_def
      entry_bytes_def)

text \<open>
  The create flag does nothing: opening a file with it gives the same file, or the same
  failure, and leaves the same heap as opening it without it, up to the flags kept in the file,
  because the inode allocator always answers 0.
\<close>

theorem ext4_open_never_creates:
  "map_option (\<lambda>(r, h). (map_option (\<lambda>(p, f). (p, f\<lparr>f_flags := 0\<rparr>)) r, h)) (ext4_open disk fs path flags h)
   = map_option (\<lambda>(r, h). (map_option (\<lambda>(p, f). (p, f\<lparr>f_flags := 0\<rparr>)) r, h)) (ext4_open disk fs path 0 h)"
  by (simp add: ext4_open_def ext4_alloc_inode_def Let_def split: option.split prod.split)

end
