(* ===== verification/Drivers.thy ===== *)
theory Drivers
  imports Interfaces CString
begin

text \<open>
  The device drivers under \<^verbatim>\<open>drivers\<close>: keyboard, sound, timer, USB, ACPI and the VGA screen. What a
  driver reads from a port is an argument, what it writes is the list of its port writes. The
  buffers of the keyboard and of the sound driver are rings with one entry left free; the section
  on gap rings holds what both need.
\<close>

datatype port_write = Outb u16 u8 | Outw u16 u16

definition io_wait :: "port_write list" where
  "io_wait = [Outb 0x80 0]"

section \<open>Rings with one free entry\<close>

text \<open>
  A ring of \<open>n\<close> entries with a head and a tail below \<open>n\<close>, empty when they agree and full when the
  tail is one behind the head.
\<close>

definition gap_count :: "nat \<Rightarrow> nat \<Rightarrow> nat \<Rightarrow> nat" where
  "gap_count n h t = (t + n - h) mod n"

definition gap_list :: "nat \<Rightarrow> (nat \<Rightarrow> 'a) \<Rightarrow> nat \<Rightarrow> nat \<Rightarrow> 'a list" where
  "gap_list n a h t = ring_list n a h (gap_count n h t)"

lemma gap_count_cases: "h < n \<Longrightarrow> t < n \<Longrightarrow> gap_count n h t = (if h \<le> t then t - h else t + n - h)"
  by (auto simp: gap_count_def mod_if)

lemma gap_full: "h < n \<Longrightarrow> t < n \<Longrightarrow> Suc t mod n = h \<longleftrightarrow> gap_count n h t = n - 1"
  by (cases "Suc t = n") (auto simp: gap_count_cases)

lemma gap_empty: "h < n \<Longrightarrow> t < n \<Longrightarrow> gap_count n h t = 0 \<longleftrightarrow> h = t"
  by (auto simp: gap_count_cases)

lemma gap_slot: "h < n \<Longrightarrow> t < n \<Longrightarrow> (h + gap_count n h t) mod n = t"
  by (auto simp: gap_count_cases)

lemma gap_count_put:
  "h < n \<Longrightarrow> t < n \<Longrightarrow> Suc t mod n \<noteq> h \<Longrightarrow> gap_count n h (Suc t mod n) = Suc (gap_count n h t)"
  by (cases "Suc t = n") (auto simp: gap_count_cases)

lemma gap_count_get:
  "h < n \<Longrightarrow> t < n \<Longrightarrow> h \<noteq> t \<Longrightarrow> gap_count n h t = Suc (gap_count n (Suc h mod n) t)"
  by (cases "Suc h = n") (auto simp: gap_count_cases)

lemma gap_list_put:
  assumes "h < n" and "t < n" and "Suc t mod n \<noteq> h"
  shows "gap_list n (a(t := x)) h (Suc t mod n) = gap_list n a h t @ [x]"
proof -
  have "gap_count n h t < n" using assms(1,2) by (auto simp: gap_count_cases)
  with ring_list_enq [of "gap_count n h t" n a h x] gap_count_put [OF assms] gap_slot [OF assms(1,2)]
  show ?thesis by (simp add: gap_list_def)
qed

lemma gap_list_get:
  assumes "h < n" and "t < n" and "h \<noteq> t"
  shows "gap_list n a h t = a h # gap_list n a (Suc h mod n) t"
  using gap_count_get [OF assms] assms(1) by (simp add: gap_list_def ring_list_deq)

lemma length_gap_list: "length (gap_list n a h t) = gap_count n h t"
  by (simp add: gap_list_def)

section \<open>Keyboard\<close>

definition KEY_LSHIFT :: u8 where "KEY_LSHIFT = 0x2A"

definition KEY_RSHIFT :: u8 where "KEY_RSHIFT = 0x36"

definition KEY_CTRL :: u8 where "KEY_CTRL = 0x1D"

definition KEY_ALT :: u8 where "KEY_ALT = 0x38"

definition KEY_CAPS :: u8 where "KEY_CAPS = 0x3A"

abbreviation KB_BUFFER_SIZE :: nat where "KB_BUFFER_SIZE \<equiv> 256"

lemmas key_consts = KEY_LSHIFT_def KEY_RSHIFT_def KEY_CTRL_def KEY_ALT_def KEY_CAPS_def

record keyboard =
  k_buffer :: "nat \<Rightarrow> char"
  k_head :: u32
  k_tail :: u32
  k_shift :: bool
  k_ctrl :: bool
  k_alt :: bool
  k_caps :: bool

definition sc_map :: string where
  "sc_map = [NUL, CHR 0x1B] @ ''1234567890-='' @ [CHR 0x08, CHR 0x09] @ ''qwertyuiop[]'' @ [CHR 0x0A, NUL]
     @ ''asdfghjkl;'' @ [CHR 0x27, CHR 0x60, NUL, CHR 0x5C] @ ''zxcvbnm,./'' @ [NUL, CHR ''*'', NUL, CHR '' '']"

definition sc_shift :: string where
  "sc_shift = [NUL, CHR 0x1B] @ ''!@#$%^&*()_+'' @ [CHR 0x08, CHR 0x09] @ ''QWERTYUIOP{}'' @ [CHR 0x0A, NUL]
     @ ''ASDFGHJKL:'' @ [CHR 0x22, CHR ''~'', NUL, CHR ''|''] @ ''ZXCVBNM<>?'' @ [NUL, CHR ''*'', NUL, CHR '' '']"

text \<open>
  The statuses the controller reports while the driver drains it; \<^term>\<open>None\<close> is a controller that
  keeps reporting data for all of them.
\<close>

fun drain_keyboard :: "u8 list \<Rightarrow> u8 list option" where
  "drain_keyboard [] = None"
| "drain_keyboard (status # rest) = (if status AND 1 \<noteq> 0 then drain_keyboard rest else Some rest)"

definition keyboard_init :: "u8 list \<Rightarrow> keyboard option" where
  "keyboard_init statuses =
     (case drain_keyboard statuses of
        None \<Rightarrow> None
      | Some _ \<Rightarrow> Some \<lparr>k_buffer = (\<lambda>_. NUL), k_head = 0, k_tail = 0, k_shift = False,
                       k_ctrl = False, k_alt = False, k_caps = False\<rparr>)"

definition key_char :: "bool \<Rightarrow> u8 \<Rightarrow> char" where
  "key_char up sc =
     (if unat sc < length sc_map then (if up then sc_shift ! unat sc else sc_map ! unat sc) else NUL)"

definition kb_put :: "char \<Rightarrow> keyboard \<Rightarrow> keyboard option" where
  "kb_put c kb =
     (let next_tail = (k_tail kb + 1) mod 256 in
      if next_tail \<noteq> k_head kb
      then Some (kb\<lparr>k_buffer := (k_buffer kb)(unat (k_tail kb) := c), k_tail := next_tail\<rparr>)
      else None)"

definition keyboard_irq_handler :: "u8 \<Rightarrow> keyboard \<Rightarrow> keyboard" where
  "keyboard_irq_handler code kb =
     (let rel = (code AND 0x80 \<noteq> 0); sc = code AND 0x7F in
      if sc = KEY_LSHIFT \<or> sc = KEY_RSHIFT then kb\<lparr>k_shift := \<not> rel\<rparr>
      else if sc = KEY_CTRL then kb\<lparr>k_ctrl := \<not> rel\<rparr>
      else if sc = KEY_ALT then kb\<lparr>k_alt := \<not> rel\<rparr>
      else if sc = KEY_CAPS \<and> \<not> rel then kb\<lparr>k_caps := \<not> k_caps kb\<rparr>
      else if rel then kb
      else
        let up = (k_shift kb \<noteq> k_caps kb); c = key_char up sc in
        if c = NUL then kb
        else case kb_put c kb of None \<Rightarrow> kb | Some kb' \<Rightarrow> kb')"

definition keyboard_has_input :: "keyboard \<Rightarrow> bool" where
  "keyboard_has_input kb \<longleftrightarrow> k_head kb \<noteq> k_tail kb"

text \<open>\<^term>\<open>None\<close> is the wait for the next key.\<close>

definition keyboard_getchar :: "keyboard \<Rightarrow> (char \<times> keyboard) option" where
  "keyboard_getchar kb =
     (if \<not> keyboard_has_input kb then None
      else Some (k_buffer kb (unat (k_head kb)), kb\<lparr>k_head := (k_head kb + 1) mod 256\<rparr>))"

definition keyboard_is_shift :: "keyboard \<Rightarrow> bool" where
  "keyboard_is_shift kb = k_shift kb"

definition keyboard_is_ctrl :: "keyboard \<Rightarrow> bool" where
  "keyboard_is_ctrl kb = k_ctrl kb"

definition keyboard_is_alt :: "keyboard \<Rightarrow> bool" where
  "keyboard_is_alt kb = k_alt kb"

section \<open>Sound\<close>

abbreviation AUDIO_BUFFER_SIZE :: nat where "AUDIO_BUFFER_SIZE \<equiv> 4096"

record audio =
  a_initialized :: bool
  a_playing :: bool
  a_sample_rate :: u32
  a_channels :: u8
  a_bits :: u8
  a_volume :: u8
  a_buffer :: "nat \<Rightarrow> u8"
  a_head :: u32
  a_tail :: u32

definition audio_init :: "bool \<times> audio" where
  "audio_init = (True, \<lparr>a_initialized = True, a_playing = False, a_sample_rate = 44100, a_channels = 2,
     a_bits = 16, a_volume = 75, a_buffer = (\<lambda>_. 0), a_head = 0, a_tail = 0\<rparr>)"

text \<open>The speaker: \<^term>\<open>None\<close> is the division by a frequency of 0; \<open>v\<close> is what port 0x61 holds.\<close>

definition spk_play :: "u32 \<Rightarrow> u8 \<Rightarrow> port_write list option" where
  "spk_play freq v =
     (if freq = 0 then None
      else let div_val = 1193180 div freq
           in Some [Outb 0x43 0xB6, Outb 0x42 (ucast (div_val AND 0xFF)),
                    Outb 0x42 (ucast (drop_bit 8 div_val AND 0xFF)), Outb 0x61 (v OR 3)])"

definition spk_stop :: "u8 \<Rightarrow> port_write list" where
  "spk_stop v = [Outb 0x61 (v AND NOT 3)]"

definition audio_play :: "audio \<Rightarrow> audio" where
  "audio_play a = a\<lparr>a_playing := True\<rparr>"

definition audio_stop :: "u8 \<Rightarrow> audio \<Rightarrow> port_write list \<times> audio" where
  "audio_stop v a = (spk_stop v, a\<lparr>a_playing := False\<rparr>)"

definition audio_set_volume :: "u8 \<Rightarrow> audio \<Rightarrow> audio" where
  "audio_set_volume vol a = a\<lparr>a_volume := vol\<rparr>"

definition audio_put :: "u8 \<Rightarrow> audio \<Rightarrow> audio option" where
  "audio_put x a =
     (let next_tail = (a_tail a + 1) mod 4096 in
      if next_tail = a_head a then None
      else Some (a\<lparr>a_buffer := (a_buffer a)(unat (a_tail a) := x), a_tail := next_tail\<rparr>))"

definition audio_write :: "u8 list \<Rightarrow> audio \<Rightarrow> bool \<times> audio" where
  "audio_write data a = (if \<not> a_initialized a then (False, a) else push_all audio_put data a)"

section \<open>Timer\<close>

abbreviation TIMER_HZ :: u32 where "TIMER_HZ \<equiv> 100"

abbreviation PIT_FREQ :: u32 where "PIT_FREQ \<equiv> 1193182"

text \<open>The callbacks are functions on the state \<open>'w\<close> of the rest of the kernel; NULL is \<^term>\<open>None\<close>.\<close>

record 'w timer =
  t_ticks :: u64
  t_cbs :: "nat \<Rightarrow> ('w \<Rightarrow> 'w) option"
  t_cb_count :: u32

definition timer_init :: "u32 \<Rightarrow> port_write list option" where
  "timer_init hz =
     (if hz = 0 then None
      else let div_val = PIT_FREQ div hz
           in Some [Outb 0x43 0x36, Outb 0x40 (ucast (div_val AND 0xFF)),
                    Outb 0x40 (ucast (drop_bit 8 div_val AND 0xFF))])"

definition timer_irq_handler ::
    "('w \<Rightarrow> 'w) \<Rightarrow> 'w timer \<times> 'w \<Rightarrow> port_write list \<times> 'w timer \<times> 'w" where
  "timer_irq_handler kernel_tick tw =
     (let (t, w) = tw;
          w = kernel_tick w;
          w = fold (\<lambda>i w. case t_cbs t i of None \<Rightarrow> w | Some cb \<Rightarrow> cb w) [0..<unat (t_cb_count t)] w
      in ([Outb 0x20 0x20], t\<lparr>t_ticks := t_ticks t + 1\<rparr>, w))"

definition timer_get_ticks :: "'w timer \<Rightarrow> u64" where
  "timer_get_ticks t = t_ticks t"

definition timer_get_seconds :: "'w timer \<Rightarrow> u64" where
  "timer_get_seconds t = t_ticks t div ucast TIMER_HZ"

text \<open>Waiting: \<open>halt\<close> is one timer interrupt, which the processor waits for.\<close>

function sleep_loop :: "('w \<Rightarrow> 'w) \<Rightarrow> u64 \<Rightarrow> 'w timer \<times> 'w \<Rightarrow> 'w timer \<times> 'w" where
  "sleep_loop kernel_tick end_tick tw =
     (if t_ticks (fst tw) < end_tick
      then sleep_loop kernel_tick end_tick (snd (timer_irq_handler kernel_tick tw))
      else tw)"
  by pat_completeness auto

definition timer_sleep :: "('w \<Rightarrow> 'w) \<Rightarrow> u32 \<Rightarrow> 'w timer \<times> 'w \<Rightarrow> 'w timer \<times> 'w" where
  "timer_sleep kernel_tick ms tw =
     sleep_loop kernel_tick (t_ticks (fst tw) + ucast (ms * TIMER_HZ div 1000)) tw"

text \<open>A tone: \<open>v\<close> and \<open>v'\<close> are what the speaker port holds before and after the wait.\<close>

definition audio_beep ::
    "('w \<Rightarrow> 'w) \<Rightarrow> u32 \<Rightarrow> u32 \<Rightarrow> u8 \<Rightarrow> u8 \<Rightarrow> 'w timer \<times> 'w \<Rightarrow> (port_write list \<times> 'w timer \<times> 'w) option" where
  "audio_beep kernel_tick freq ms v v' tw =
     (case spk_play freq v of
        None \<Rightarrow> None
      | Some ports \<Rightarrow> Some (ports @ spk_stop v', timer_sleep kernel_tick ms tw))"

definition timer_register_callback :: "('w \<Rightarrow> 'w) option \<Rightarrow> 'w timer \<Rightarrow> 'w timer" where
  "timer_register_callback cb t =
     (if t_cb_count t < 16
      then t\<lparr>t_cbs := (t_cbs t)(unat (t_cb_count t) := cb), t_cb_count := t_cb_count t + 1\<rparr>
      else t)"

lemma irq_ticks: "t_ticks (fst (snd (timer_irq_handler f tw))) = t_ticks (fst tw) + 1"
  by (simp add: timer_irq_handler_def Let_def split: prod.split)

termination sleep_loop
proof (relation "measure (\<lambda>(f, e, tw). unat (e - t_ticks (fst tw)))", simp)
  fix f :: "'w \<Rightarrow> 'w" and e and tw :: "'w timer \<times> 'w"
  assume less: "t_ticks (fst tw) < e"
  then have "e - t_ticks (fst tw) \<noteq> 0" by auto
  then have "unat (e - t_ticks (fst tw) - 1) < unat (e - t_ticks (fst tw))"
    using unat_pos [of "e - t_ticks (fst tw)"] by (simp add: unat_minus_one)
  then show "((f, e, snd (timer_irq_handler f tw)), f, e, tw)
      \<in> measure (\<lambda>(f, e, tw). unat (e - t_ticks (fst tw)))"
    by (simp add: irq_ticks diff_diff_eq)
qed

declare sleep_loop.simps [simp del]

section \<open>USB\<close>

record usb_device =
  d_address :: u8
  d_class_code :: u8
  d_vendor_id :: u16
  d_product_id :: u16
  d_max_packet :: u16
  d_connected :: bool
  d_name :: string

record usb_controller =
  u_devices :: "nat \<Rightarrow> usb_device"
  u_device_count :: u32
  u_initialized :: bool

definition zero_usb_device :: usb_device where
  "zero_usb_device = \<lparr>d_address = 0, d_class_code = 0, d_vendor_id = 0, d_product_id = 0,
     d_max_packet = 0, d_connected = False, d_name = []\<rparr>"

definition usb_init :: "bool \<times> usb_controller" where
  "usb_init = (True, \<lparr>u_devices = (\<lambda>_. zero_usb_device), u_device_count = 0, u_initialized = True\<rparr>)"

definition usb_scan_devices :: "usb_controller \<Rightarrow> bool" where
  "usb_scan_devices u = u_initialized u"

definition usb_get_device :: "u8 \<Rightarrow> usb_controller \<Rightarrow> nat option" where
  "usb_get_device addr u =
     first_index (\<lambda>i. d_address (u_devices u i) = addr \<and> d_connected (u_devices u i)) (unat (u_device_count u))"

definition usb_send :: "usb_device option \<Rightarrow> u8 list \<Rightarrow> bool" where
  "usb_send d data = (case d of None \<Rightarrow> False | Some d \<Rightarrow> d_connected d)"

definition usb_recv :: "usb_device option \<Rightarrow> u32 \<Rightarrow> bool \<times> u32" where
  "usb_recv d sz = (case d of None \<Rightarrow> (False, sz)
     | Some d \<Rightarrow> if \<not> d_connected d then (False, sz) else (True, 0))"

definition usb_get_device_count :: "usb_controller \<Rightarrow> u32" where
  "usb_get_device_count u = u_device_count u"

section \<open>ACPI\<close>

text \<open>The search for the root pointer in the memory \<open>m\<close> of the firmware, in steps of 16 bytes.\<close>

definition find_rsdp :: "(nat \<Rightarrow> char) \<Rightarrow> nat option" where
  "find_rsdp m =
     map_option (\<lambda>i. 0xE0000 + 16 * i)
       (first_index (\<lambda>i. map (\<lambda>k. m (0xE0000 + 16 * i + k)) [0..<8] = ''RSD PTR '') 0x2000)"

definition acpi_init :: "(nat \<Rightarrow> char) \<Rightarrow> bool" where
  "acpi_init m \<longleftrightarrow> find_rsdp m \<noteq> None"

text \<open>Switching off; the processor is halted afterwards.\<close>

definition acpi_shutdown :: "port_write list" where
  "acpi_shutdown = [Outw 0x604 0x2000, Outw 0xB004 0x2000, Outw 0x4004 0x3400]"

text \<open>\<^term>\<open>None\<close> is a controller that stays busy for all statuses that are given.\<close>

fun acpi_reboot :: "u8 list \<Rightarrow> port_write list option" where
  "acpi_reboot [] = None"
| "acpi_reboot (g # gs) = (if g AND 2 \<noteq> 0 then acpi_reboot gs else Some [Outb 0x64 0xFE])"

section \<open>VGA\<close>

abbreviation VGA_WIDTH :: u32 where "VGA_WIDTH \<equiv> 320"

abbreviation VGA_HEIGHT :: u32 where "VGA_HEIGHT \<equiv> 200"

text \<open>
  Setting the mode raises interrupt 0x10 with 0x13 in the register AX; what the interrupt does to the machine is
  an argument. The second result is the address of the frame buffer.
\<close>

definition vga_init :: "(u8 \<Rightarrow> u16 \<Rightarrow> 'w \<Rightarrow> 'w) \<Rightarrow> 'w \<Rightarrow> 'w \<times> u32" where
  "vga_init interrupt w = (interrupt 0x10 0x13 w, 0xA0000)"

definition vga_put_pixel :: "u32 \<Rightarrow> u32 \<Rightarrow> u8 \<Rightarrow> (nat \<Rightarrow> u8) \<Rightarrow> nat \<Rightarrow> u8" where
  "vga_put_pixel x y color fb =
     (if x \<ge> VGA_WIDTH \<or> y \<ge> VGA_HEIGHT then fb else fb(unat (y * VGA_WIDTH + x) := color))"

definition vga_clear :: "u8 \<Rightarrow> (nat \<Rightarrow> u8) \<Rightarrow> nat \<Rightarrow> u8" where
  "vga_clear color fb = (\<lambda>i. if i < 320 * 200 then color else fb i)"

definition vga_draw_rect :: "u32 \<Rightarrow> u32 \<Rightarrow> u32 \<Rightarrow> u32 \<Rightarrow> u8 \<Rightarrow> (nat \<Rightarrow> u8) \<Rightarrow> nat \<Rightarrow> u8" where
  "vga_draw_rect x y w h color fb =
     fold (\<lambda>dy. fold (\<lambda>dx. vga_put_pixel (x + of_nat dx) (y + of_nat dy) color) [0..<unat w]) [0..<unat h] fb"

section \<open>The keyboard buffer\<close>

definition kb_ok :: "keyboard \<Rightarrow> bool" where
  "kb_ok kb \<longleftrightarrow> unat (k_head kb) < KB_BUFFER_SIZE \<and> unat (k_tail kb) < KB_BUFFER_SIZE"

definition kb_contents :: "keyboard \<Rightarrow> string" where
  "kb_contents kb = gap_list KB_BUFFER_SIZE (k_buffer kb) (unat (k_head kb)) (unat (k_tail kb))"

lemma ring_next: "unat ((w + 1) mod 256 :: u32) = Suc (unat w) mod 256"
  "unat ((w + 1) mod 4096 :: u32) = Suc (unat w) mod 4096"
  using unat_Suc_mod [of 256 w] unat_Suc_mod [of 4096 w] by (simp_all add: unat_mod)

lemma kb_put_eq: "kb_put c kb =
   (if Suc (unat (k_tail kb)) mod 256 = unat (k_head kb) then None
    else Some (kb\<lparr>k_buffer := (k_buffer kb)(unat (k_tail kb) := c), k_tail := (k_tail kb + 1) mod 256\<rparr>))"
  by (simp add: kb_put_def Let_def word_unat_eq_iff ring_next)

interpretation kb_fifo: bounded_fifo kb_contents "\<lambda>c. c" kb_ok 255 kb_put keyboard_getchar
proof unfold_locales
  show "length (kb_contents kb) \<le> 255" if "kb_ok kb" for kb
    using that by (auto simp: kb_contents_def kb_ok_def length_gap_list gap_count_cases)
next
  show "kb_put c kb = None" if "kb_ok kb" "length (kb_contents kb) = 255" for kb c
    using that gap_full [of "unat (k_head kb)" 256 "unat (k_tail kb)"]
    by (simp add: kb_put_eq kb_ok_def kb_contents_def length_gap_list)
next
  show "\<exists>kb'. kb_put c kb = Some kb' \<and> kb_ok kb' \<and> kb_contents kb' = kb_contents kb @ [c]"
    if "kb_ok kb" "length (kb_contents kb) < 255" for kb c
    using that gap_full [of "unat (k_head kb)" 256 "unat (k_tail kb)"]
      gap_list_put [of "unat (k_head kb)" 256 "unat (k_tail kb)" "k_buffer kb" c]
    by (auto simp: kb_put_eq kb_ok_def kb_contents_def length_gap_list ring_next)
next
  show "keyboard_getchar kb = None" if "kb_ok kb" "kb_contents kb = []" for kb
  proof -
    have "gap_count 256 (unat (k_head kb)) (unat (k_tail kb)) = 0"
      using that(2) length_gap_list [of 256 "k_buffer kb" "unat (k_head kb)" "unat (k_tail kb)"]
      by (simp add: kb_contents_def)
    with that(1) show ?thesis
      by (simp add: gap_empty kb_ok_def keyboard_getchar_def keyboard_has_input_def word_unat_eq_iff)
  qed
next
  show "\<exists>kb'. keyboard_getchar kb = Some (y, kb') \<and> kb_ok kb' \<and> kb_contents kb' = ys"
    if "kb_ok kb" "kb_contents kb = y # ys" for kb y ys
  proof -
    let ?h = "unat (k_head kb)" and ?t = "unat (k_tail kb)"
    have "gap_count 256 ?h ?t \<noteq> 0"
      using that(2) length_gap_list [of 256 "k_buffer kb" ?h ?t] by (simp add: kb_contents_def)
    then have ne: "?h \<noteq> ?t" using that(1) gap_empty [of ?h 256 ?t] by (simp add: kb_ok_def)
    then have "k_head kb \<noteq> k_tail kb" by auto
    with that gap_list_get [of ?h 256 ?t "k_buffer kb"] ne show ?thesis
      by (simp add: keyboard_getchar_def keyboard_has_input_def kb_contents_def kb_ok_def ring_next)
  qed
qed

text \<open>
  What a keyboard promises, without its ring: a queue of at most 255 characters and the states of the shift and the lock
  key. A key that stands for a character puts it behind the waiting ones, unless 255 are waiting, when it
  is lost; a read takes the first one. (A read with none waiting goes on waiting, which changes nothing.)
\<close>

datatype kb_event = Scan u8 | Read_Char

text \<open>The keys of a US keyboard by their scan codes, with what they stand for without and with shift.\<close>

definition us_keys :: "(nat \<times> char \<times> char) list" where
  "us_keys =
     [(1, CHR 0x1B, CHR 0x1B), (14, CHR 0x08, CHR 0x08), (15, CHR 0x09, CHR 0x09), (28, CHR 0x0A, CHR 0x0A),
      (55, CHR ''*'', CHR ''*''), (57, CHR '' '', CHR '' '')]
     @ zip [2..<14] (zip ''1234567890-='' ''!@#$%^&*()_+'')
     @ zip [16..<28] (zip ''qwertyuiop[]'' ''QWERTYUIOP{}'')
     @ zip [30..<42] (zip (''asdfghjkl;'' @ [CHR 0x27, CHR 0x60]) (''ASDFGHJKL:'' @ [CHR 0x22, CHR ''~'']))
     @ zip [43..<54] (zip (CHR 0x5C # ''zxcvbnm,./'') (CHR ''|'' # ''ZXCVBNM<>?''))"

definition key_typed :: "bool \<Rightarrow> bool \<Rightarrow> u8 \<Rightarrow> string" where
  "key_typed shift caps code =
     (if code AND 0x80 \<noteq> 0 then []
      else case map_of us_keys (unat code) of
        None \<Rightarrow> []
      | Some (plain, shifted) \<Rightarrow> [if shift \<noteq> caps then shifted else plain])"

fun typing :: "kb_event list \<Rightarrow> string \<Rightarrow> bool \<Rightarrow> bool \<Rightarrow> string \<times> string \<times> bool \<times> bool" where
  "typing [] waiting shift caps = ([], waiting, shift, caps)"
| "typing (Scan code # es) waiting shift caps =
     typing es (if length waiting < 255 then waiting @ key_typed shift caps code else waiting)
       (if code AND 0x7F \<in> {0x2A, 0x36} then code AND 0x80 = 0 else shift)
       (if code = 0x3A then \<not> caps else caps)"
| "typing (Read_Char # es) waiting shift caps =
     (case waiting of
        [] \<Rightarrow> typing es [] shift caps
      | c # cs \<Rightarrow> apfst ((#) c) (typing es cs shift caps))"

fun kb_run :: "kb_event list \<Rightarrow> keyboard \<Rightarrow> string \<times> keyboard" where
  "kb_run [] kb = ([], kb)"
| "kb_run (Scan code # es) kb = kb_run es (keyboard_irq_handler code kb)"
| "kb_run (Read_Char # es) kb =
     (case keyboard_getchar kb of
        None \<Rightarrow> kb_run es kb
      | Some (c, kb) \<Rightarrow> apfst ((#) c) (kb_run es kb))"

lemma key_press: "code AND 0x80 = 0 \<Longrightarrow> code AND 0x7F = code" for code :: u8
proof -
  assume "code AND 0x80 = 0"
  then have "code AND (0x7F OR 0x80) = code AND 0x7F" unfolding bit.conj_disj_distrib by simp
  moreover have "(0x7F OR 0x80 :: u8) = - 1" by simp
  ultimately show ?thesis by (simp only: and.right_neutral)
qed

lemma key_caps: "code AND 0x7F = 0x3A \<and> code AND 0x80 = 0 \<longleftrightarrow> code = 0x3A" for code :: u8
  using key_press [of code] by auto

text \<open>The tables of the driver are those keys.\<close>

lemma tables_keys:
  "n < 58 \<Longrightarrow> map_of us_keys n = (if sc_map ! n = NUL then None else Some (sc_map ! n, sc_shift ! n))"
proof -
  have "list_all (\<lambda>n. map_of us_keys n = (if sc_map ! n = NUL then None else Some (sc_map ! n, sc_shift ! n))) [0..<58]"
    by code_simp
  then show "n < 58 \<Longrightarrow> map_of us_keys n = (if sc_map ! n = NUL then None else Some (sc_map ! n, sc_shift ! n))"
    by (simp add: list_all_iff)
qed

lemma shifted_keys: "n < 58 \<Longrightarrow> sc_shift ! n = NUL \<longleftrightarrow> sc_map ! n = NUL"
proof -
  have "list_all (\<lambda>n. sc_shift ! n = NUL \<longleftrightarrow> sc_map ! n = NUL) [0..<58]" by code_simp
  then show "n < 58 \<Longrightarrow> sc_shift ! n = NUL \<longleftrightarrow> sc_map ! n = NUL" by (simp add: list_all_iff)
qed

lemma no_more_keys: "\<not> n < 58 \<Longrightarrow> map_of us_keys n = None"
proof -
  have "list_all (\<lambda>(k, _). k < 58) us_keys" by code_simp
  then show "\<not> n < 58 \<Longrightarrow> map_of us_keys n = None" by (force simp: list_all_iff map_of_eq_None_iff)
qed

lemma key_typed_char:
  "key_typed shift caps code =
     (if code AND 0x80 \<noteq> 0 \<or> key_char (shift \<noteq> caps) (code AND 0x7F) = NUL then [] else [key_char (shift \<noteq> caps) (code AND 0x7F)])"
proof (cases "code AND 0x80 = 0")
  case True
  have len: "length sc_map = 58" by (simp add: sc_map_def)
  show ?thesis unfolding key_press [OF True]
    by (cases "unat code < 58")
      (auto simp: True key_typed_def key_char_def len tables_keys shifted_keys no_more_keys)
qed (simp add: key_typed_def)

lemma modifiers_silent:
  "key_char up KEY_LSHIFT = NUL" "key_char up KEY_RSHIFT = NUL" "key_char up KEY_CTRL = NUL" "key_char up KEY_ALT = NUL"
  "key_char up KEY_CAPS = NUL"
  by (simp_all add: key_char_def sc_map_def sc_shift_def key_consts)

lemma irq_types:
  fixes code :: u8
  assumes "kb_ok kb"
  defines "kb' \<equiv> keyboard_irq_handler code kb"
  shows "kb_ok kb'" and "kb_contents kb'
      = (if length (kb_contents kb) < 255 then kb_contents kb @ key_typed (k_shift kb) (k_caps kb) code else kb_contents kb)"
    and "k_shift kb' \<longleftrightarrow> (if code AND 0x7F \<in> {0x2A, 0x36} then code AND 0x80 = 0 else k_shift kb)"
    and "k_caps kb' \<longleftrightarrow> (if code = 0x3A then \<not> k_caps kb else k_caps kb)"
proof -
  let ?key = "code AND 0x7F" and ?up = "k_shift kb \<noteq> k_caps kb"
  let ?plain = "code AND 0x80 = 0 \<and> ?key \<notin> {KEY_LSHIFT, KEY_RSHIFT, KEY_CAPS, KEY_CTRL, KEY_ALT} \<and> key_char ?up ?key \<noteq> NUL"
  have "kb_ok kb' \<and> kb_contents kb'
      = (if length (kb_contents kb) < 255 then kb_contents kb @ key_typed (k_shift kb) (k_caps kb) code else kb_contents kb)
    \<and> (k_shift kb' \<longleftrightarrow> (if ?key \<in> {0x2A, 0x36} then code AND 0x80 = 0 else k_shift kb))
    \<and> (k_caps kb' \<longleftrightarrow> (if ?key = 0x3A \<and> code AND 0x80 = 0 then \<not> k_caps kb else k_caps kb))"
  proof (cases ?plain)
    case True
    let ?c = "key_char ?up ?key"
    have typed: "key_typed (k_shift kb) (k_caps kb) code = [?c]" using True by (simp add: key_typed_char)
    have kb': "kb' = (case kb_put ?c kb of None \<Rightarrow> kb | Some q \<Rightarrow> q)"
      using True by (simp add: kb'_def keyboard_irq_handler_def Let_def)
    show ?thesis
    proof (cases "kb_put ?c kb")
      case None
      then show ?thesis using kb' kb_fifo.put_NoneD [OF assms(1) None] True assms(1) by (simp add: key_consts)
    next
      case (Some q)
      then have "k_shift q = k_shift kb" "k_caps q = k_caps kb" by (auto simp: kb_put_def Let_def split: if_splits)
      then show ?thesis using kb' kb_fifo.put_SomeD [OF assms(1) Some] Some True typed by (simp add: key_consts)
    qed
  next
    case False
    then have "key_typed (k_shift kb) (k_caps kb) code = []" by (auto simp: key_typed_char modifiers_silent)
    with False show ?thesis using assms(1)
      by (auto simp: kb'_def keyboard_irq_handler_def Let_def kb_ok_def kb_contents_def key_consts)
  qed
  then show "kb_ok kb'" and "kb_contents kb'
      = (if length (kb_contents kb) < 255 then kb_contents kb @ key_typed (k_shift kb) (k_caps kb) code else kb_contents kb)"
    and "k_shift kb' \<longleftrightarrow> (if code AND 0x7F \<in> {0x2A, 0x36} then code AND 0x80 = 0 else k_shift kb)"
    and "k_caps kb' \<longleftrightarrow> (if code = 0x3A then \<not> k_caps kb else k_caps kb)"
    unfolding key_caps by blast+
qed

section \<open>Properties\<close>

text \<open>
  C34. The keyboard driver with its ring of 256 entries refines a queue of at most 255 characters that takes what the
  keys of a US keyboard stand for under shift and caps lock, which shifts every key: over any
  interleaving of interrupts and reads, however long, it hands out the same characters as the queue, the same are
  waiting at the end, and the states of shift and caps lock agree. A key typed while 255 characters are waiting is lost,
  and no other one is.
\<close>

theorem keyboard_types:
  assumes "kb_ok kb" and "kb_run es kb = (out, kb')"
  shows "kb_ok kb' \<and> typing es (kb_contents kb) (k_shift kb) (k_caps kb) = (out, kb_contents kb', k_shift kb', k_caps kb')"
  using assms
proof (induction es arbitrary: kb out)
  case (Cons e es)
  show ?case
  proof (cases e)
    case (Scan code)
    note q = irq_types [OF Cons.prems(1), of code]
    have "kb_run es (keyboard_irq_handler code kb) = (out, kb')" using Cons.prems(2) Scan by simp
    from Cons.IH [OF q(1) this] show ?thesis unfolding q(2-4) Scan by (simp only: typing.simps simp_thms)
  next
    case Read_Char
    show ?thesis
    proof (cases "keyboard_getchar kb")
      case None
      then show ?thesis using Cons.IH [OF Cons.prems(1), of out] Cons.prems Read_Char
          kb_fifo.get_NoneD [OF Cons.prems(1) None] by simp
    next
      case (Some r)
      obtain c q where r: "r = (c, q)" by fastforce
      then have same: "k_shift q = k_shift kb" "k_caps q = k_caps kb"
        using Some by (auto simp: keyboard_getchar_def split: if_splits)
      note q = kb_fifo.get_SomeD [OF Cons.prems(1) Some [unfolded r]]
      obtain cs where run: "kb_run es q = (cs, kb')" "out = c # cs"
        using Cons.prems(2) Some r Read_Char by (cases "kb_run es q") auto
      from Cons.IH [of q cs] run q same Read_Char show ?thesis by simp
    qed
  qed
qed simp

theorem keyboard_types_witness:
  "case kb_run [Scan 0x2A, Scan 0x23, Scan 0xA3, Scan 0xAA, Scan 0x17, Read_Char]
     (the (keyboard_init [0])) of (out, kb') \<Rightarrow> out = ''H'' \<and> kb_contents kb' = ''i''"
proof -
  let ?es = "[Scan 0x2A, Scan 0x23, Scan 0xA3, Scan 0xAA, Scan 0x17, Read_Char]"
  define kb where "kb = the (keyboard_init [0])"
  obtain out kb' where run: "kb_run ?es kb = (out, kb')" by fastforce
  have kb: "kb_ok kb" "kb_contents kb = []" "\<not> k_shift kb" "\<not> k_caps kb"
    by (simp_all add: kb_def keyboard_init_def kb_ok_def kb_contents_def gap_list_def gap_count_def)
  moreover have "typing ?es [] False False = (''H'', ''i'', False, False)" by code_simp
  ultimately have "out = ''H'' \<and> kb_contents kb' = ''i''"
    using keyboard_types [OF kb(1) run] by simp
  with run show ?thesis by (simp add: kb_def)
qed

text \<open>
  Sleeping takes exactly as many timer interrupts as the milliseconds amount to at 100 ticks a
  second, as long as the tick counter does not reach its end; the product is taken in 32 bits, so
  from 42949673 milliseconds on the driver wakes up early.
\<close>

theorem timer_sleep_ticks:
  assumes "unat (t_ticks (fst tw)) + 2 ^ 32 \<le> 2 ^ 64"
  shows "timer_sleep f ms tw =
    ((\<lambda>tw. snd (timer_irq_handler f tw)) ^^ (unat ms * 100 mod 2 ^ 32 div 1000)) tw"
proof -
  define step where "step = (\<lambda>tw :: 'a timer \<times> 'a. snd (timer_irq_handler f tw))"
  have bound: "unat w < 2 ^ 64" for w :: u64 by (rule order_less_le_trans [OF unsigned_less]) simp
  have loop: "sleep_loop f e tw = (step ^^ n) tw"
    if "unat e = unat (t_ticks (fst tw)) + n" for e n tw
    using that
  proof (induction n arbitrary: tw)
    case 0
    then have "\<not> t_ticks (fst tw) < e" by (simp add: word_less_nat_alt)
    then show ?case by (simp add: sleep_loop.simps)
  next
    case (Suc n)
    then have less: "t_ticks (fst tw) < e" by (simp add: word_less_nat_alt)
    have "unat (t_ticks (fst (step tw))) = Suc (unat (t_ticks (fst tw)))"
      using Suc.prems bound [of e] by (simp add: step_def irq_ticks unat_word_ariths)
    then have "sleep_loop f e (step tw) = (step ^^ n) (step tw)"
      using Suc.prems by (intro Suc.IH) simp
    with less show ?case
      using funpow_swap1 [of step n tw] by (subst sleep_loop.simps) (simp add: step_def)
  qed
  define n where "n = unat ms * 100 mod 2 ^ 32 div 1000"
  have up: "unat (ucast v :: u64) = unat v" for v :: u32
    using unat_u32_less [of v] by (simp add: unsigned_ucast_eq take_bit_nat_eq_self)
  have n: "unat (ms * TIMER_HZ div 1000) = n" by (simp add: n_def unat_div unat_word_ariths)
  have "n < 2 ^ 32" unfolding n_def by (rule order_le_less_trans [OF div_le_dividend]) simp
  then have "unat (t_ticks (fst tw) + ucast (ms * TIMER_HZ div 1000)) = unat (t_ticks (fst tw)) + n"
    using assms n by (simp add: unat_word_ariths up)
  from loop [OF this] show ?thesis by (simp add: timer_sleep_def step_def n_def)
qed

theorem timer_sleep_ticks_witness:
  "t_ticks (fst (timer_sleep Suc 20 (\<lparr>t_ticks = 7, t_cbs = (\<lambda>_. None), t_cb_count = 0\<rparr>, 0))) = 9"
proof -
  have "unat (20 :: u32) * 100 mod 2 ^ 32 div 1000 = Suc (Suc 0)" by simp
  then show ?thesis
    using timer_sleep_ticks [of "(\<lparr>t_ticks = 7, t_cbs = (\<lambda>_. None), t_cb_count = 0\<rparr>, 0)" Suc 20]
    by (simp only: funpow.simps o_apply id_apply irq_ticks fst_conv timer.simps) (simp add: irq_ticks)
qed

definition audio_ok :: "audio \<Rightarrow> bool" where
  "audio_ok a \<longleftrightarrow> a_initialized a \<and> unat (a_head a) < AUDIO_BUFFER_SIZE \<and> unat (a_tail a) < AUDIO_BUFFER_SIZE"

definition audio_contents :: "audio \<Rightarrow> u8 list" where
  "audio_contents a = gap_list AUDIO_BUFFER_SIZE (a_buffer a) (unat (a_head a)) (unat (a_tail a))"

lemma audio_put_cases:
  assumes "audio_ok a"
  shows "length (audio_contents a) \<le> 4095 \<and>
    (if length (audio_contents a) = 4095 then audio_put x a = None
     else \<exists>a'. audio_put x a = Some a' \<and> audio_ok a' \<and> audio_contents a' = audio_contents a @ [x])"
proof -
  let ?h = "unat (a_head a)" and ?t = "unat (a_tail a)"
  have ht: "?h < 4096" "?t < 4096" using assms by (simp_all add: audio_ok_def)
  have put: "audio_put x a = (if Suc ?t mod 4096 = ?h then None
      else Some (a\<lparr>a_buffer := (a_buffer a)(?t := x), a_tail := (a_tail a + 1) mod 4096\<rparr>))"
    by (simp add: audio_put_def Let_def word_unat_eq_iff ring_next)
  have "gap_count 4096 ?h ?t \<le> 4095" using ht by (auto simp: gap_count_cases)
  moreover have "Suc ?t mod 4096 = ?h \<longleftrightarrow> gap_count 4096 ?h ?t = 4095" using gap_full [OF ht] by simp
  moreover have "Suc ?t mod 4096 \<noteq> ?h \<Longrightarrow>
      gap_list 4096 ((a_buffer a)(?t := x)) ?h (Suc ?t mod 4096) = gap_list 4096 (a_buffer a) ?h ?t @ [x]"
    by (rule gap_list_put [OF ht])
  ultimately show ?thesis using assms
    by (auto simp: put audio_contents_def length_gap_list audio_ok_def ring_next)
qed

text \<open>
  Writing samples appends as many of them as the 4095 free places of the buffer take and
  reports whether that was all of them. No routine of the driver takes a sample out again, so over any
  sequence of writes the buffer holds the first 4095 bytes ever written.
\<close>

theorem audio_write_appends:
  assumes "audio_ok a" and "audio_write data a = (ok, a')"
  shows "audio_ok a' \<and> audio_contents a' = audio_contents a @ take (4095 - length (audio_contents a)) data
    \<and> ok = (length data \<le> 4095 - length (audio_contents a))"
proof -
  have "push_all audio_put data a = (ok, a')" using assms by (simp add: audio_write_def audio_ok_def)
  with assms(1) show ?thesis
  proof (induction data arbitrary: a)
    case Nil
    then show ?case by simp
  next
    case (Cons x data)
    show ?case
    proof (cases "length (audio_contents a) = 4095")
      case True
      with audio_put_cases [OF Cons.prems(1), of x] Cons.prems show ?thesis by simp
    next
      case False
      then obtain b where b: "audio_put x a = Some b" "audio_ok b" "audio_contents b = audio_contents a @ [x]"
          "length (audio_contents a) < 4095"
        using audio_put_cases [OF Cons.prems(1), of x] by auto
      then have "4095 - length (audio_contents a) = Suc (4095 - length (audio_contents b))"
        by (simp add: Suc_diff_Suc)
      with b Cons.IH [of b] Cons.prems(2) show ?thesis by simp
    qed
  qed
qed

theorem audio_write_appends_witness:
  "audio_contents (snd (audio_write [1, 2, 3] (snd audio_init))) = [1, 2, 3]"
proof -
  have ok: "audio_ok (snd audio_init)" "audio_contents (snd audio_init) = []"
    by (simp_all add: audio_init_def audio_ok_def audio_contents_def gap_list_def gap_count_def)
  obtain r a' where w: "audio_write [1, 2, 3] (snd audio_init) = (r, a')" by fastforce
  show ?thesis using audio_write_appends [OF ok(1) w] ok(2) w by simp
qed

end
