(* ===== verification/Boot.thy ===== *)
theory Boot
  imports Drivers
begin

text \<open>
  The descriptor tables the boot code builds, \<^verbatim>\<open>boot/gdt.c\<close> and \<^verbatim>\<open>boot/idt.c\<close>. The addresses of the
  tables and of the assembler entry points are arguments; loading a table (\<^verbatim>\<open>gdt_flush\<close>, \<^verbatim>\<open>idt_flush\<close>)
  is done in assembler that is not in the repository, the model hands the pointer record over.
\<close>

record gdt_entry =
  limit_low :: u16
  base_low :: u16
  base_mid :: u8
  access :: u8
  granularity :: u8
  base_high :: u8

record table_ptr =
  tp_limit :: u16
  tp_base :: u32

definition zero_gdt_entry :: gdt_entry where
  "zero_gdt_entry = \<lparr>limit_low = 0, base_low = 0, base_mid = 0, access = 0, granularity = 0, base_high = 0\<rparr>"

definition gdt_set_gate ::
    "nat \<Rightarrow> u32 \<Rightarrow> u32 \<Rightarrow> u8 \<Rightarrow> u8 \<Rightarrow> (nat \<Rightarrow> gdt_entry) \<Rightarrow> nat \<Rightarrow> gdt_entry" where
  "gdt_set_gate num base limit acc gran gdt =
     gdt(num := \<lparr>limit_low = ucast (limit AND 0xFFFF),
       base_low = ucast (base AND 0xFFFF),
       base_mid = ucast (drop_bit 16 base AND 0xFF),
       access = acc,
       granularity = ucast (drop_bit 16 limit AND 0x0F) OR (gran AND 0xF0),
       base_high = ucast (drop_bit 24 base AND 0xFF)\<rparr>)"

text \<open>The table is a static array, all zero at the start.\<close>

definition gdt_init :: "u32 \<Rightarrow> table_ptr \<times> (nat \<Rightarrow> gdt_entry)" where
  "gdt_init gdt_addr =
     (let gdt = (\<lambda>_. zero_gdt_entry);
          gdt = gdt_set_gate 0 0 0 0x00 0x00 gdt;
          gdt = gdt_set_gate 1 0 0xFFFFFFFF 0x9A 0xCF gdt;
          gdt = gdt_set_gate 2 0 0xFFFFFFFF 0x92 0xCF gdt;
          gdt = gdt_set_gate 3 0 0xFFFFFFFF 0xFA 0xCF gdt;
          gdt = gdt_set_gate 4 0 0xFFFFFFFF 0xF2 0xCF gdt
      in (\<lparr>tp_limit = 8 * 6 - 1, tp_base = gdt_addr\<rparr>, gdt))"

record idt_entry =
  ie_base_low :: u16
  ie_sel :: u16
  ie_always0 :: u8
  ie_flags :: u8
  ie_base_high :: u16

definition idt_set_gate :: "u8 \<Rightarrow> u32 \<Rightarrow> u16 \<Rightarrow> u8 \<Rightarrow> (nat \<Rightarrow> idt_entry) \<Rightarrow> nat \<Rightarrow> idt_entry" where
  "idt_set_gate num base sel flags idt =
     idt(unat num := \<lparr>ie_base_low = ucast (base AND 0xFFFF), ie_sel = sel, ie_always0 = 0,
       ie_flags = flags OR 0x60, ie_base_high = ucast (drop_bit 16 base AND 0xFFFF)\<rparr>)"

definition pic_setup :: "port_write list" where
  "pic_setup = [Outb 0x20 0x11, Outb 0xA0 0x11, Outb 0x21 0x20, Outb 0xA1 0x28, Outb 0x21 0x04,
     Outb 0xA1 0x02, Outb 0x21 0x01, Outb 0xA1 0x01, Outb 0x21 0x00, Outb 0xA1 0x00]"

definition idt_init ::
    "u32 \<Rightarrow> u32 \<Rightarrow> u32 \<Rightarrow> u32 \<Rightarrow> port_write list \<times> table_ptr \<times> (nat \<Rightarrow> idt_entry)" where
  "idt_init idt_addr irq0 irq1 irq12 =
     (let idt = (\<lambda>_. \<lparr>ie_base_low = 0, ie_sel = 0, ie_always0 = 0, ie_flags = 0, ie_base_high = 0\<rparr>);
          idt = idt_set_gate 32 irq0 0x08 0x8E idt;
          idt = idt_set_gate 33 irq1 0x08 0x8E idt;
          idt = idt_set_gate 44 irq12 0x08 0x8E idt
      in (pic_setup, \<lparr>tp_limit = 8 * 256 - 1, tp_base = idt_addr\<rparr>, idt))"

text \<open>
  The handlers: what they write to the interrupt controllers, and what they call. The keyboard
  handler reads the scan code and drops it.
\<close>

definition irq0_handler :: "('w \<Rightarrow> 'w) \<Rightarrow> 'w \<Rightarrow> port_write list \<times> 'w" where
  "irq0_handler kernel_tick w = ([Outb 0x20 0x20], kernel_tick w)"

definition irq1_handler :: "u8 \<Rightarrow> 'w \<Rightarrow> port_write list \<times> 'w" where
  "irq1_handler key w = ([Outb 0x20 0x20], w)"

definition irq12_handler :: "('w \<Rightarrow> 'w) \<Rightarrow> 'w \<Rightarrow> port_write list \<times> 'w" where
  "irq12_handler ps2_mouse_irq_handler w = ([Outb 0xA0 0x20, Outb 0x20 0x20], ps2_mouse_irq_handler w)"

section \<open>What the processor reads\<close>

text \<open>Base and limit of a segment descriptor, the limit counted in pages when the granularity bit is set.\<close>

definition segment_base :: "gdt_entry \<Rightarrow> u32" where
  "segment_base e = ucast (base_low e) OR push_bit 16 (ucast (base_mid e)) OR push_bit 24 (ucast (base_high e))"

definition segment_limit :: "gdt_entry \<Rightarrow> u32" where
  "segment_limit e =
     (let l = ucast (limit_low e) OR push_bit 16 (ucast (granularity e AND 0x0F))
      in if granularity e AND 0x80 = 0 then l else push_bit 12 l OR 0xFFF)"

definition gate_offset :: "idt_entry \<Rightarrow> u32" where
  "gate_offset e = ucast (ie_base_low e) OR push_bit 16 (ucast (ie_base_high e))"

definition privilege :: "u8 \<Rightarrow> u8" where
  "privilege flags = drop_bit 5 flags AND 3"

lemma masks: "(0xFFFF :: u32) = mask 16" "(0xFF :: u32) = mask 8" "(0x0F :: u32) = mask 4"
  "(0x0F :: u8) = mask 4"
  by (simp_all add: mask_eq_exp_minus_1)

lemma base_fields:
  "ucast (ucast (b AND 0xFFFF) :: u16) OR push_bit 16 (ucast (ucast (drop_bit 16 b AND 0xFF) :: u8))
   OR push_bit 24 (ucast (ucast (drop_bit 24 b AND 0xFF) :: u8)) = b" for b :: u32
proof (rule bit_word_eqI)
  fix n assume "n < LENGTH(32)"
  then show "bit ((ucast (ucast (b AND 0xFFFF) :: u16) :: u32) OR push_bit 16 (ucast (ucast (drop_bit 16 b AND 0xFF) :: u8))
      OR push_bit 24 (ucast (ucast (drop_bit 24 b AND 0xFF) :: u8))) n = bit b n"
    unfolding masks by (cases "n < 24") (auto simp: bit_simps)
qed

lemma offset_fields:
  "ucast (ucast (b AND 0xFFFF) :: u16) OR push_bit 16 (ucast (ucast (drop_bit 16 b AND 0xFFFF) :: u16)) = b"
  for b :: u32
  unfolding masks by (rule bit_word_eqI) (auto simp: bit_simps)

text \<open>
  The gates of the interrupt table lead where they were set to: a gate set for an entry point has
  its address as offset and the given selector, and setting a gate leaves all others as they are;
  after \<^verbatim>\<open>idt_init\<close> exactly the entries 32, 33 and 44 are present. Every gate that was set can be
  called by user code (privilege level 3), whatever level the flags asked for.
\<close>

theorem idt_gates:
  "idt_init addr irq0 irq1 irq12 = (ports, ptr, idt) \<Longrightarrow>
     gate_offset (idt 32) = irq0 \<and> gate_offset (idt 33) = irq1 \<and> gate_offset (idt 44) = irq12 \<and>
     (\<forall>i. bit (ie_flags (idt i)) 7 \<longleftrightarrow> i = 32 \<or> i = 33 \<or> i = 44) \<and>
     (\<forall>i. bit (ie_flags (idt i)) 7 \<longrightarrow> privilege (ie_flags (idt i)) = 3 \<and> ie_sel (idt i) = 0x08)"
  by (auto simp: idt_init_def Let_def idt_set_gate_def gate_offset_def offset_fields privilege_def
      split: if_splits)

theorem idt_gates_witness:
  "gate_offset (snd (snd (idt_init 0x1000 0x2000 0x2100 0x12345678)) 44) = 0x12345678"
proof -
  obtain ports ptr idt where i: "idt_init 0x1000 0x2000 0x2100 0x12345678 = (ports, ptr, idt)"
    by (metis prod.exhaust)
  from idt_gates [OF i] i show ?thesis by simp
qed

text \<open>
  \<open>vga_init\<close> expects a video service behind interrupt 0x10. Under the kernel's interrupt table that gate is not
  present: a machine that goes on only through present gates does not get past the call.
\<close>

definition through_gate :: "(nat \<Rightarrow> idt_entry) \<Rightarrow> u8 \<Rightarrow> u16 \<Rightarrow> 'w option \<Rightarrow> 'w option" where
  "through_gate idt n ax w = (if bit (ie_flags (idt (unat n))) 7 then w else None)"

lemma vga_init_faults:
  assumes "idt_init addr irq0 irq1 irq12 = (ports, ptr, idt)"
  shows "fst (vga_init (through_gate idt) (Some w)) = None"
proof -
  have "\<not> bit (ie_flags (idt 16)) 7"
    using assms by (auto simp: idt_init_def Let_def idt_set_gate_def)
  then show ?thesis by (simp add: vga_init_def through_gate_def)
qed

text \<open>
  A segment descriptor gives back the base, and the limit in units of pages when the granularity
  bit is set: all four segments of \<^verbatim>\<open>gdt_init\<close> span the whole address space from 0.
\<close>

theorem gdt_segments:
  "segment_base (gdt_set_gate n base limit acc gran gdt n) = base \<and>
   (\<forall>i \<in> {1, 2, 3, 4}. segment_base (snd (gdt_init addr) i) = 0 \<and> segment_limit (snd (gdt_init addr) i) = 0xFFFFFFFF)"
proof -
  have "segment_base (gdt_set_gate n base limit acc gran gdt n) = base"
    by (simp add: gdt_set_gate_def segment_base_def base_fields)
  moreover have "segment_base (snd (gdt_init addr) i) = 0 \<and> segment_limit (snd (gdt_init addr) i) = 0xFFFFFFFF"
    if "i \<in> {1, 2, 3, 4}" for i
    using that by (auto simp: gdt_init_def gdt_set_gate_def segment_base_def segment_limit_def Let_def)
  ultimately show ?thesis by blast
qed

end
