(* ===== verification/Blockedit.thy ===== *)
theory Blockedit
  imports Blockwm Printing
begin

text \<open>
  The text editor \<^verbatim>\<open>texteditor/blockedit.c\<close>. A line is the string in its buffer of 1024 bytes;
  \<^term>\<open>None\<close> is a write behind a line or the line table, which happens when the cursor stands
  behind the end of its line. Texts with accented letters are the bytes of their UTF-8 encoding.
  The window manager is the one of \<^verbatim>\<open>Blockwm\<close>; drawing gives the list of the drawing calls.
\<close>

section \<open>State\<close>

definition EDIT_MAX_LINES :: int where "EDIT_MAX_LINES = 4096"

definition EDIT_MAX_LINE_LEN :: nat where "EDIT_MAX_LINE_LEN = 1024"

definition SYNTAX_NONE :: nat where "SYNTAX_NONE = 0"

definition SYNTAX_C :: nat where "SYNTAX_C = 1"

definition SYNTAX_ASM :: nat where "SYNTAX_ASM = 2"

lemmas edit_consts = EDIT_MAX_LINES_def EDIT_MAX_LINE_LEN_def SYNTAX_NONE_def SYNTAX_C_def SYNTAX_ASM_def

record editor =
  e_lines :: "nat \<Rightarrow> string"
  line_count :: int
  cursor_line :: int
  cursor_col :: int
  scroll_line :: int
  filename :: string
  modified :: bool
  ed_syntax :: nat
  e_window :: "nat option"

definition edit_init :: "wm \<Rightarrow> bool \<times> editor \<times> wm" where
  "edit_init w =
     (let (win, w) = blockwm_create_window
            (''BlockEdit - Sz'' @ [CHR 0xC3, CHR 0xB6] @ ''vegszerkeszt'' @ [CHR 0xC5, CHR 0x91]) 80 80 800 600
            (BLOCKWM_FLAG_TITLEBAR OR BLOCKWM_FLAG_RESIZABLE OR BLOCKWM_FLAG_SHADOW) w
      in (win \<noteq> None,
          \<lparr>e_lines = (\<lambda>_. []), line_count = 1, cursor_line = 0, cursor_col = 0, scroll_line = 0,
           filename = [], modified = False, ed_syntax = 0, e_window = win\<rparr>, w))"

section \<open>Files\<close>

text \<open>The part of a name behind its last point, when it has one.\<close>

definition extension :: "string \<Rightarrow> string option" where
  "extension path =
     (if CHR ''.'' \<in> set path then Some (rev (takeWhile (\<lambda>c. c \<noteq> CHR ''.'') (rev path))) else None)"

definition edit_open :: "string \<Rightarrow> editor \<Rightarrow> bool \<times> editor" where
  "edit_open path ed =
     (True, ed\<lparr>filename := take 255 path,
        ed_syntax := (case extension path of
                     None \<Rightarrow> ed_syntax ed
                   | Some ext \<Rightarrow> if ext = ''c'' \<or> ext = ''h'' then SYNTAX_C
                                else if ext = ''asm'' then SYNTAX_ASM else ed_syntax ed),
        line_count := 1, modified := False\<rparr>)"

definition edit_save :: "editor \<Rightarrow> bool \<times> editor" where
  "edit_save ed = (if filename ed = [] then (False, ed) else (True, ed\<lparr>modified := False\<rparr>))"

definition edit_save_as :: "string \<Rightarrow> editor \<Rightarrow> bool \<times> editor" where
  "edit_save_as path ed = edit_save (ed\<lparr>filename := take 255 path\<rparr>)"

section \<open>Editing\<close>

text \<open>
  With the cursor one place behind the terminator of its line the copies have length 0, further
  behind their length is a negative number taken as unsigned. The loops that move the lines from \<open>i\<close> on one place up and the lines behind \<open>i\<close> down.\<close>

function open_gap :: "int \<Rightarrow> int \<Rightarrow> (nat \<Rightarrow> string) \<Rightarrow> nat \<Rightarrow> string" where
  "open_gap i low ls = (if i > low then open_gap (i - 1) low (ls(nat i := ls (nat (i - 1)))) else ls)"
  by pat_completeness auto
termination
  by (relation "measure (\<lambda>(i, low, ls). nat (i - low))") auto

function close_gap :: "int \<Rightarrow> int \<Rightarrow> (nat \<Rightarrow> string) \<Rightarrow> nat \<Rightarrow> string" where
  "close_gap i upto_i ls = (if i < upto_i then close_gap (i + 1) upto_i (ls(nat i := ls (nat (i + 1)))) else ls)"
  by pat_completeness auto
termination
  by (relation "measure (\<lambda>(i, upto_i, ls). nat (upto_i - i))") auto

declare open_gap.simps [simp del] close_gap.simps [simp del]

text \<open>A terminator written into a line ends it there.\<close>

definition insert_plain :: "char \<Rightarrow> editor \<Rightarrow> editor option" where
  "insert_plain c ed =
     (let line = e_lines ed (nat (cursor_line ed)); len = int (length line); col = cursor_col ed in
      if len \<ge> int EDIT_MAX_LINE_LEN - 1 then Some ed
      else if col < 0 \<or> col > len + 1 then None
      else Some (ed\<lparr>e_lines := (e_lines ed)(nat (cursor_line ed) :=
                      if col > len then line
                      else take (nat col) line @ (if c = NUL then [] else c # drop (nat col) line)),
                    cursor_col := col + 1, modified := True\<rparr>))"

definition insert_newline :: "editor \<Rightarrow> editor option" where
  "insert_newline ed =
     (let line = e_lines ed (nat (cursor_line ed)); len = int (length line); col = cursor_col ed in
      if line_count ed \<ge> EDIT_MAX_LINES then Some ed
      else if col < 0 \<or> col > len + 1 \<or> col \<ge> int EDIT_MAX_LINE_LEN \<or> cursor_line ed + 1 \<ge> EDIT_MAX_LINES
      then None
      else
        let ls = open_gap (line_count ed) (cursor_line ed + 1) (e_lines ed);
            ls = (if col > len then ls else ls(nat (cursor_line ed + 1) := drop (nat col) line));
            ls = ls(nat (cursor_line ed) := take (nat col) line)
        in Some (ed\<lparr>e_lines := ls, line_count := line_count ed + 1,
                   cursor_line := cursor_line ed + 1, cursor_col := 0, modified := True\<rparr>))"

text \<open>A tabulator is four blanks, each inserted by a call of its own.\<close>

definition edit_insert_char :: "char \<Rightarrow> editor \<Rightarrow> editor option" where
  "edit_insert_char c ed =
     (if c = LF then insert_newline ed
      else if c = TAB then
        (case insert_plain CHR '' '' ed of None \<Rightarrow> None
         | Some ed \<Rightarrow> case insert_plain CHR '' '' ed of None \<Rightarrow> None
           | Some ed \<Rightarrow> case insert_plain CHR '' '' ed of None \<Rightarrow> None
             | Some ed \<Rightarrow> insert_plain CHR '' '' ed)
      else insert_plain c ed)"

definition edit_delete_char :: "editor \<Rightarrow> editor option" where
  "edit_delete_char ed =
     (let line = e_lines ed (nat (cursor_line ed)); len = int (length line); col = cursor_col ed in
      if col > 0 then
        if col > len + 1 then None
        else Some (ed\<lparr>e_lines := (e_lines ed)(nat (cursor_line ed) :=
                        take (nat (col - 1)) line @ drop (nat col) line),
                      cursor_col := col - 1, modified := True\<rparr>)
      else if cursor_line ed > 0 then
        let prev = e_lines ed (nat (cursor_line ed - 1)); pl = length prev;
            ls = (e_lines ed)(nat (cursor_line ed - 1) := prev @ take (EDIT_MAX_LINE_LEN - pl - 1) line);
            ls = close_gap (cursor_line ed) (line_count ed - 1) ls
        in Some (ed\<lparr>e_lines := ls, line_count := line_count ed - 1,
                   cursor_line := cursor_line ed - 1, cursor_col := int pl, modified := True\<rparr>)
      else Some (ed\<lparr>modified := True\<rparr>))"

text \<open>With no line left, the cursor would move in front of the table.\<close>

definition edit_move_cursor :: "int \<Rightarrow> int \<Rightarrow> editor \<Rightarrow> editor option" where
  "edit_move_cursor dl dc ed =
     (if line_count ed \<le> 0 then None else
      let l = cursor_line ed + dl; c = cursor_col ed + dc;
          l = (if l < 0 then 0 else l);
          l = (if l \<ge> line_count ed then line_count ed - 1 else l);
          ll = int (length (e_lines ed (nat l)));
          c = (if c < 0 then 0 else c);
          c = (if c > ll then ll else c);
          sc = (if l < scroll_line ed then l else scroll_line ed);
          sc = (if l \<ge> sc + 30 then l - 29 else sc)
      in Some (ed\<lparr>cursor_line := l, cursor_col := c, scroll_line := sc\<rparr>))"

definition edit_find :: "string \<Rightarrow> int \<Rightarrow> editor \<Rightarrow> (int \<times> editor) option" where
  "edit_find text start ed =
     (if start < 0 \<and> start < line_count ed then None else
      case find (\<lambda>i. occurs text (e_lines ed (nat i))) [start..line_count ed - 1] of
        None \<Rightarrow> Some (-1, ed)
      | Some i \<Rightarrow> Some (i, ed\<lparr>cursor_line := i\<rparr>))"

definition edit_replace :: "string \<Rightarrow> string \<Rightarrow> editor \<Rightarrow> nat" where
  "edit_replace text replace ed =
     length (filter (\<lambda>i. occurs text (e_lines ed (nat i))) [0..line_count ed - 1])"

text \<open>\<^verbatim>\<open>char\<close> is signed: the codes from 128 on are negative.\<close>

definition edit_handle_key :: "char \<Rightarrow> editor \<Rightarrow> editor option" where
  "edit_handle_key key ed =
     (if key = CHR 0x08 then edit_delete_char ed
      else if key = LF then edit_insert_char LF ed
      else if 32 \<le> char_val key \<and> char_val key < 128 then edit_insert_char key ed
      else Some ed)"

section \<open>Drawing\<close>

definition modified_text :: string where
  "modified_text = [CHR 0xE2, CHR 0x97, CHR 0x8F] @ '' M'' @ [CHR 0xC3, CHR 0xB3] @ ''dos'' @ [CHR 0xC3, CHR 0xAD]
     @ ''tva''"

definition edit_menu :: "editor \<Rightarrow> draw list" where
  "edit_menu ed =
     [Draw_Rect 0 0 800 600 0x0d1117, Draw_Rect 0 0 800 26 0x161b22,
      Draw_String 8 8 ([CHR 0xC3, CHR 0x9A] @ ''j'') 0x8b949e,
      Draw_String 36 8 ''Megnyit'' 0x8b949e,
      Draw_String 90 8 (''Ment'' @ [CHR 0xC3, CHR 0xA9] @ ''s'') 0x8b949e,
      Draw_String 145 8 (''Keres'' @ [CHR 0xC3, CHR 0xA9] @ ''s'') 0x8b949e]
     @ (if modified ed then [Draw_String (800 - 90) 8 modified_text 0xf59e0b] else [])
     @ [Draw_Rect 0 26 50 (600 - 46) 0x161b22]"

definition edit_line :: "editor \<Rightarrow> nat \<Rightarrow> draw list" where
  "edit_line ed i =
     (let li = scroll_line ed + int i; y = 26 + of_nat i * 16; cur = (li = cursor_line ed) in
      (if cur then [Draw_Rect 50 y (800 - 50) 16 0x161b22] else [])
      @ [Draw_String 2 (y + 2) (sprint 8 ''%4d'' [U32 (word_of_int (li + 1))])
           (if cur then 0xe0e0e0 else 0x4b5563),
         Draw_String (50 + 4) (y + 2) (e_lines ed (nat li)) 0xe0e0e0]
      @ (if cur then [Draw_Rect (50 + 4 + word_of_int (cursor_col ed) * 8) y 2 16 0xe0e0e0] else []))"

definition edit_status :: "editor \<Rightarrow> string" where
  "edit_status ed =
     sprint 128 '' Sor:%d/%d  Oszlop:%d  %s  %s''
       [U32 (word_of_int (cursor_line ed + 1)), U32 (word_of_int (line_count ed)),
        U32 (word_of_int (cursor_col ed + 1)),
        Str (if filename ed \<noteq> [] then filename ed else ''N'' @ [CHR 0xC3, CHR 0xA9] @ ''vtelen''),
        Str (if ed_syntax ed = SYNTAX_C then ''C'' else if ed_syntax ed = SYNTAX_ASM then ''ASM''
             else ''Sz'' @ [CHR 0xC3, CHR 0xB6] @ ''veg'')]"

definition edit_draw :: "editor \<Rightarrow> draw list" where
  "edit_draw ed =
     edit_menu ed
     @ concat (map (edit_line ed) [0..<min 34 (nat (line_count ed - scroll_line ed))])
     @ [Draw_Rect 0 (600 - 20) 800 20 0x161b22, Draw_String 4 (600 - 16) (edit_status ed) 0x8b949e]"

section \<open>The text as one string\<close>

text \<open>
  The document is the list of its lines. \<open>text_before\<close> and \<open>text_after\<close> are the text as one
  string with line feeds between the lines, cut at the cursor.
\<close>

definition document :: "editor \<Rightarrow> string list" where
  "document ed = arr_list (e_lines ed) (nat (line_count ed))"

definition text_before :: "editor \<Rightarrow> string" where
  "text_before ed = concat (map (\<lambda>l. l @ [LF]) (take (nat (cursor_line ed)) (document ed)))
     @ take (nat (cursor_col ed)) (e_lines ed (nat (cursor_line ed)))"

definition text_after :: "editor \<Rightarrow> string" where
  "text_after ed = drop (nat (cursor_col ed)) (e_lines ed (nat (cursor_line ed)))
     @ concat (map (\<lambda>l. LF # l) (drop (Suc (nat (cursor_line ed))) (document ed)))"

definition ed_ok :: "editor \<Rightarrow> bool" where
  "ed_ok ed \<longleftrightarrow> 0 \<le> cursor_line ed \<and> cursor_line ed < line_count ed \<and> line_count ed \<le> EDIT_MAX_LINES \<and>
     0 \<le> cursor_col ed \<and> cursor_col ed \<le> int (length (e_lines ed (nat (cursor_line ed)))) \<and>
     (\<forall>l \<in> set (document ed). length l < EDIT_MAX_LINE_LEN)"

lemma document_modified: "document (ed\<lparr>modified := b\<rparr>) = document ed"
  by (simp add: document_def)

lemma open_gap_apply:
  "0 \<le> low \<Longrightarrow> open_gap i low ls p = (if low < int p \<and> int p \<le> i then ls (p - 1) else ls p)"
proof (induction i low ls rule: open_gap.induct)
  case (1 i low ls)
  show ?case
  proof (cases "i > low")
    case True
    define n where "n = nat i"
    have n: "i = int n" "nat (i - 1) = n - 1" "0 < n" using True "1.prems" by (auto simp: n_def)
    have "open_gap i low ls p = open_gap (i - 1) low (ls(n := ls (n - 1))) p"
      using True n by (subst open_gap.simps) simp
    also have "\<dots> = (if low < int p \<and> int p \<le> i - 1 then (ls(n := ls (n - 1))) (p - 1)
        else (ls(n := ls (n - 1))) p)"
      by (rule "1.IH" [OF True "1.prems", unfolded n_def [symmetric] n(2)])
    finally show ?thesis using True n by auto
  qed (auto simp: open_gap.simps [of i])
qed

lemma close_gap_apply:
  "0 \<le> i \<Longrightarrow> close_gap i upto_i ls p = (if i \<le> int p \<and> int p < upto_i then ls (Suc p) else ls p)"
proof (induction i upto_i ls rule: close_gap.induct)
  case (1 i upto_i ls)
  show ?case
  proof (cases "i < upto_i")
    case True
    define n where "n = nat i"
    have n: "i = int n" "nat (i + 1) = Suc n" using "1.prems" by (auto simp: n_def)
    have "close_gap i upto_i ls p = close_gap (i + 1) upto_i (ls(n := ls (Suc n))) p"
      using True n by (subst close_gap.simps) simp
    also have "\<dots> = (if i + 1 \<le> int p \<and> int p < upto_i then (ls(n := ls (Suc n))) (Suc p)
        else (ls(n := ls (Suc n))) p)"
      by (rule "1.IH" [OF True, unfolded n_def [symmetric] n(2)]) (use "1.prems" in simp)
    finally show ?thesis using True n by auto
  qed (auto simp: close_gap.simps [of i])
qed

lemma document_split:
  assumes "ed_ok ed"
  shows "document ed = take (nat (cursor_line ed)) (document ed) @ e_lines ed (nat (cursor_line ed))
           # drop (Suc (nat (cursor_line ed))) (document ed)"
    and "length (e_lines ed (nat (cursor_line ed))) < EDIT_MAX_LINE_LEN"
proof -
  have l: "nat (cursor_line ed) < length (document ed)"
    using assms by (simp add: ed_ok_def document_def)
  moreover have n: "document ed ! nat (cursor_line ed) = e_lines ed (nat (cursor_line ed))"
    using l by (simp add: document_def)
  ultimately show "document ed = take (nat (cursor_line ed)) (document ed) @ e_lines ed (nat (cursor_line ed))
           # drop (Suc (nat (cursor_line ed))) (document ed)"
    using id_take_nth_drop by metis
  show "length (e_lines ed (nat (cursor_line ed))) < EDIT_MAX_LINE_LEN"
    using assms l n nth_mem unfolding ed_ok_def by metis
qed

text \<open>
  A change of the editor is given by the lines in front of and behind the cursor line and by the
  two parts of that line.
\<close>

definition at_cursor :: "editor \<Rightarrow> string list \<Rightarrow> string \<Rightarrow> string \<Rightarrow> string list \<Rightarrow> bool" where
  "at_cursor ed pre l r post \<longleftrightarrow> document ed = pre @ (l @ r) # post \<and>
     cursor_line ed = int (length pre) \<and> cursor_col ed = int (length l) \<and>
     line_count ed = int (Suc (length pre + length post))"

lemma at_cursor_line: "at_cursor ed pre l r post \<Longrightarrow> e_lines ed (length pre) = l @ r"
proof -
  assume a: "at_cursor ed pre l r post"
  then have "document ed ! length pre = e_lines ed (length pre)"
    by (simp add: document_def at_cursor_def)
  with a show ?thesis by (simp add: at_cursor_def)
qed

lemma at_cursor_nth:
  assumes "at_cursor ed pre l r post" and "i < length pre + Suc (length post)"
  shows "e_lines ed i = (pre @ (l @ r) # post) ! i"
proof -
  have "document ed ! i = e_lines ed i" using assms by (simp add: document_def at_cursor_def)
  then show ?thesis using assms(1) by (simp add: at_cursor_def)
qed

lemma at_cursor_texts:
  assumes "at_cursor ed pre l r post"
  shows "text_before ed = concat (map (\<lambda>l. l @ [LF]) pre) @ l"
    and "text_after ed = r @ concat (map (\<lambda>l. LF # l) post)"
  using at_cursor_line [OF assms] assms by (simp_all add: text_before_def text_after_def at_cursor_def)

lemma at_cursor_ok:
  "at_cursor ed pre l r post \<Longrightarrow> ed_ok ed \<longleftrightarrow>
     length pre + length post < 4096 \<and> (\<forall>x \<in> set (pre @ (l @ r) # post). length x < EDIT_MAX_LINE_LEN)"
  using at_cursor_line [of ed pre l r post] by (auto simp: ed_ok_def at_cursor_def EDIT_MAX_LINES_def)

lemma at_cursor_exists:
  assumes "ed_ok ed"
  obtains pre l r post where "at_cursor ed pre l r post"
proof
  let ?line = "e_lines ed (nat (cursor_line ed))"
  have "length (document ed) = nat (line_count ed)" by (simp add: document_def)
  then show "at_cursor ed (take (nat (cursor_line ed)) (document ed)) (take (nat (cursor_col ed)) ?line)
      (drop (nat (cursor_col ed)) ?line) (drop (Suc (nat (cursor_line ed))) (document ed))"
    using document_split [OF assms] assms by (auto simp: at_cursor_def ed_ok_def min_def)
qed

lemma document_upd:
  assumes "at_cursor ed pre l r post" and "e_lines ed' = (e_lines ed)(length pre := t)"
    and "line_count ed' = line_count ed"
  shows "document ed' = pre @ t # post"
proof -
  have "document ed' = (document ed)[length pre := t]"
    using assms by (simp add: document_def arr_list_upd at_cursor_def)
  with assms(1) show ?thesis by (simp add: at_cursor_def)
qed

lemma insert_plain_at:
  assumes "at_cursor ed pre l r post" and "length (l @ r) < EDIT_MAX_LINE_LEN - 1" and "c \<noteq> NUL"
  shows "\<exists>ed'. insert_plain c ed = Some ed' \<and> at_cursor ed' pre (l @ [c]) r post"
proof -
  note line = at_cursor_line [OF assms(1)]
  let ?ed = "ed\<lparr>e_lines := (e_lines ed)(length pre := l @ c # r), cursor_col := int (length l) + 1, modified := True\<rparr>"
  have "document ?ed = pre @ (l @ c # r) # post"
    by (rule document_upd [OF assms(1)]) simp_all
  then have "at_cursor ?ed pre (l @ [c]) r post" using assms(1) by (simp add: at_cursor_def)
  moreover have "insert_plain c ed = Some ?ed"
    using assms line by (simp add: insert_plain_def at_cursor_def Let_def)
  ultimately show ?thesis by blast
qed

lemma insert_plain_full:
  "at_cursor ed pre l r post \<Longrightarrow> \<not> length (l @ r) < EDIT_MAX_LINE_LEN - 1 \<Longrightarrow> insert_plain c ed = Some ed"
  using at_cursor_line [of ed pre l r post] by (simp add: insert_plain_def at_cursor_def Let_def edit_consts)

lemma insert_newline_at:
  assumes "at_cursor ed pre l r post" and "ed_ok ed" and "line_count ed < EDIT_MAX_LINES"
  shows "\<exists>ed'. insert_newline ed = Some ed' \<and> at_cursor ed' (pre @ [l]) [] r post"
proof -
  note line = at_cursor_line [OF assms(1)]
  let ?n = "length pre"
  define ls where "ls = (open_gap (line_count ed) (int ?n + 1) (e_lines ed))(Suc ?n := r, ?n := l)"
  let ?ed = "ed\<lparr>e_lines := ls, line_count := line_count ed + 1, cursor_line := int ?n + 1,
      cursor_col := 0, modified := True\<rparr>"
  have doc: "i < ?n + Suc (length post) \<Longrightarrow> e_lines ed i = (pre @ (l @ r) # post) ! i" for i
    by (rule at_cursor_nth [OF assms(1)]) simp
  have "document ?ed = pre @ l # r # post"
  proof (rule nth_equalityI)
    show "length (document ?ed) = length (pre @ l # r # post)"
      using assms(1) by (simp add: document_def at_cursor_def)
    fix i assume "i < length (document ?ed)"
    then have i: "i < Suc (Suc (?n + length post))" using assms(1) by (simp add: document_def at_cursor_def)
    have at: "document ?ed ! i = ls i"
      using i assms(1) by (simp add: document_def at_cursor_def)
    have gap: "open_gap (line_count ed) (int ?n + 1) (e_lines ed) i
        = (if int ?n + 1 < int i \<and> int i \<le> line_count ed then e_lines ed (i - 1) else e_lines ed i)"
      by (rule open_gap_apply) simp
    consider "i < ?n" | "i = ?n" | "i = Suc ?n" | "Suc ?n < i" by linarith
    then show "document ?ed ! i = (pre @ l # r # post) ! i"
    proof cases
      case 1
      then show ?thesis using at gap doc [of i] by (simp add: ls_def nth_append)
    next
      case 4
      then have "int i \<le> line_count ed" using i assms(1) by (simp add: at_cursor_def)
      with 4 at gap have "document ?ed ! i = e_lines ed (i - 1)" by (simp add: ls_def)
      also have "\<dots> = (pre @ (l @ r) # post) ! (i - 1)" using 4 i by (intro doc) simp
      finally show ?thesis using 4 by (auto simp: nth_append nth_Cons')
    qed (unfold at, simp_all add: ls_def nth_append)
  qed
  then have "at_cursor ?ed (pre @ [l]) [] r post" using assms(1) by (simp add: at_cursor_def)
  moreover have "length (l @ r) < EDIT_MAX_LINE_LEN" using assms(1,2) by (simp add: at_cursor_ok)
  then have "insert_newline ed = Some ?ed"
    using assms line by (simp add: insert_newline_def at_cursor_def Let_def ls_def nat_add_distrib fun_upd_twist)
  ultimately show ?thesis by blast
qed

lemma delete_in_line_at:
  assumes "at_cursor ed pre (l @ [c]) r post"
  shows "\<exists>ed'. edit_delete_char ed = Some ed' \<and> at_cursor ed' pre l r post"
proof -
  note line = at_cursor_line [OF assms]
  let ?ed = "ed\<lparr>e_lines := (e_lines ed)(length pre := l @ r), cursor_col := int (length l), modified := True\<rparr>"
  have "document ?ed = pre @ (l @ r) # post" by (rule document_upd [OF assms]) simp_all
  then have "at_cursor ?ed pre l r post" using assms by (simp add: at_cursor_def)
  moreover have "edit_delete_char ed = Some ?ed"
    using assms line by (simp add: edit_delete_char_def at_cursor_def Let_def nat_add_distrib)
  ultimately show ?thesis by blast
qed

lemma delete_join_at:
  assumes "at_cursor ed (pre @ [p]) [] r post"
  shows "\<exists>ed'. edit_delete_char ed = Some ed' \<and>
    at_cursor ed' pre p (take (EDIT_MAX_LINE_LEN - length p - 1) r) post"
proof -
  let ?n = "length pre" and ?t = "p @ take (EDIT_MAX_LINE_LEN - length p - 1) r"
  note line = at_cursor_line [OF assms]
  have doc: "i < Suc ?n + Suc (length post) \<Longrightarrow> e_lines ed i = (pre @ p # r # post) ! i" for i
    using at_cursor_nth [OF assms, of i] by simp
  have prev: "e_lines ed ?n = p" using doc [of ?n] by (simp add: nth_append)
  have len: "cursor_line ed = int (Suc ?n)" "line_count ed = int (Suc (Suc (?n + length post)))" "cursor_col ed = 0"
    using assms by (simp_all add: at_cursor_def)
  define ls where "ls = close_gap (int (Suc ?n)) (line_count ed - 1) ((e_lines ed)(?n := ?t))"
  let ?ed = "ed\<lparr>e_lines := ls, line_count := line_count ed - 1, cursor_line := int ?n,
      cursor_col := int (length p), modified := True\<rparr>"
  have "document ?ed = pre @ ?t # post"
  proof (rule nth_equalityI)
    show "length (document ?ed) = length (pre @ ?t # post)" using len by (simp add: document_def)
    fix i assume "i < length (document ?ed)"
    then have i: "i < Suc (?n + length post)" using len by (simp add: document_def)
    have at: "document ?ed ! i = ls i" using i len by (simp add: document_def)
    have gap: "ls i = (if Suc ?n \<le> i then e_lines ed (Suc i) else if i = ?n then ?t else e_lines ed i)"
      using i len by (auto simp: ls_def close_gap_apply)
    consider "i < ?n" | "i = ?n" | "?n < i" by linarith
    then show "document ?ed ! i = (pre @ ?t # post) ! i"
    proof cases
      case 1
      then show ?thesis using at gap doc [of i] by (simp add: nth_append)
    next
      case 3
      then have "document ?ed ! i = (pre @ p # r # post) ! Suc i" using at gap doc [of "Suc i"] i by simp
      with 3 show ?thesis by (auto simp: nth_append nth_Cons')
    next
      case 2
      then show ?thesis using at gap by (simp add: nth_append)
    qed
  qed
  then have "at_cursor ?ed pre p (take (EDIT_MAX_LINE_LEN - length p - 1) r) post"
    using len by (simp add: at_cursor_def)
  moreover have "edit_delete_char ed = Some ?ed"
    using line prev len
    by (simp add: edit_delete_char_def Let_def ls_def nat_add_distrib)
  ultimately show ?thesis by blast
qed

lemma delete_start_at:
  "at_cursor ed [] [] r post \<Longrightarrow> edit_delete_char ed = Some (ed\<lparr>modified := True\<rparr>)"
  by (simp add: edit_delete_char_def at_cursor_def Let_def)

section \<open>Properties\<close>

text \<open>\<open>n\<close> characters inserted one after the other, as many as the line has room for.\<close>

lemma insert_plain_step:
  assumes "at_cursor ed pre l r post" and "ed_ok ed" and "c \<noteq> NUL"
  obtains ed' where "insert_plain c ed = Some ed'" and "ed_ok ed'"
    and "at_cursor ed' pre (l @ take (1023 - length (l @ r)) [c]) r post"
    and "1023 \<le> length (l @ r) \<Longrightarrow> ed' = ed"
proof (cases "length (l @ r) < EDIT_MAX_LINE_LEN - 1")
  case True
  obtain ed' where e: "insert_plain c ed = Some ed'" "at_cursor ed' pre (l @ [c]) r post"
    using insert_plain_at [OF assms(1) True assms(3)] by blast
  have "ed_ok ed'" using True at_cursor_ok [OF assms(1), THEN iffD1, OF assms(2)]
    by (subst at_cursor_ok [OF e(2)]) (auto simp: EDIT_MAX_LINE_LEN_def)
  moreover have "take (1023 - length (l @ r)) [c] = [c]" using True by (simp add: EDIT_MAX_LINE_LEN_def)
  ultimately show thesis using that e True by (simp add: EDIT_MAX_LINE_LEN_def)
next
  case False
  then show thesis using that [OF insert_plain_full [OF assms(1) False] assms(2)] assms(1)
    by (simp add: EDIT_MAX_LINE_LEN_def)
qed

lemma insert_tab:
  assumes "at_cursor ed pre l r post" and "ed_ok ed"
  obtains ed' where "edit_insert_char TAB ed = Some ed'" and "ed_ok ed'"
    and "at_cursor ed' pre (l @ take (1023 - length (l @ r)) (replicate 4 CHR '' '')) r post"
    and "1023 \<le> length (l @ r) \<Longrightarrow> ed' = ed"
proof -
  have b: "CHR '' '' \<noteq> NUL" by simp
  define m where "m = 1023 - length (l @ r)"
  obtain ed1 where 1: "insert_plain CHR '' '' ed = Some ed1" "ed_ok ed1"
      "at_cursor ed1 pre (l @ take m [CHR '' '']) r post" "m = 0 \<Longrightarrow> ed1 = ed"
    unfolding m_def using insert_plain_step [OF assms b] by auto
  have m1: "1023 - length ((l @ take m [CHR '' '']) @ r) = m - 1" unfolding m_def by auto
  obtain ed2 where 2: "insert_plain CHR '' '' ed1 = Some ed2" "ed_ok ed2"
      "at_cursor ed2 pre ((l @ take m [CHR '' '']) @ take (m - 1) [CHR '' '']) r post" "m - 1 = 0 \<Longrightarrow> ed2 = ed1"
    using insert_plain_step [OF 1(3,2) b] unfolding m1 by (metis diff_is_0_eq m1)
  have m2: "1023 - length (((l @ take m [CHR '' '']) @ take (m - 1) [CHR '' '']) @ r) = m - 2" using m_def by auto
  obtain ed3 where 3: "insert_plain CHR '' '' ed2 = Some ed3" "ed_ok ed3"
      "at_cursor ed3 pre (((l @ take m [CHR '' '']) @ take (m - 1) [CHR '' '']) @ take (m - 2) [CHR '' '']) r post"
      "m - 2 = 0 \<Longrightarrow> ed3 = ed2"
    using insert_plain_step [OF 2(3,2) b] unfolding m2 by (metis diff_is_0_eq m2)
  have m3: "1023 - length ((((l @ take m [CHR '' '']) @ take (m - 1) [CHR '' '']) @ take (m - 2) [CHR '' '']) @ r) = m - 3"
    using m_def by auto
  obtain ed4 where 4: "insert_plain CHR '' '' ed3 = Some ed4" "ed_ok ed4"
      "at_cursor ed4 pre ((((l @ take m [CHR '' '']) @ take (m - 1) [CHR '' '']) @ take (m - 2) [CHR '' ''])
        @ take (m - 3) [CHR '' '']) r post" "m - 3 = 0 \<Longrightarrow> ed4 = ed3"
    using insert_plain_step [OF 3(3,2) b] unfolding m3 by (metis diff_is_0_eq m3)
  have "take m [CHR '' ''] @ take (m - 1) [CHR '' ''] @ take (m - 2) [CHR '' ''] @ take (m - 3) [CHR '' '']
      = take m (replicate 4 CHR '' '')"
    by (cases m; cases "m - 1"; cases "m - 2"; cases "m - 3") (auto simp: numeral_eq_Suc)
  with 4(3) have at: "at_cursor ed4 pre (l @ take m (replicate 4 CHR '' '')) r post" by simp
  have "edit_insert_char TAB ed = Some ed4" using 1(1) 2(1) 3(1) 4(1) by (simp add: edit_insert_char_def)
  moreover have "ed4 = ed" if "1023 \<le> length (l @ r)"
  proof -
    have "m = 0" using that unfolding m_def by simp
    then show ?thesis using 1(4) 2(4) 3(4) 4(4) by simp
  qed
  ultimately show thesis using that [OF _ 4(2)] at unfolding m_def by blast
qed

text \<open>What a character puts into the text: a tabulator is four blanks, and there is only as much as there is room for.\<close>

definition inserted_text :: "char \<Rightarrow> editor \<Rightarrow> string" where
  "inserted_text c ed =
     (if c = LF then (if line_count ed < EDIT_MAX_LINES then [LF] else [])
      else take (1023 - length (e_lines ed (nat (cursor_line ed)))) (if c = TAB then replicate 4 CHR '' '' else [c]))"

lemma edit_inserts:
  assumes "ed_ok ed" and "c \<noteq> NUL"
  shows "\<exists>ed'. edit_insert_char c ed = Some ed' \<and> ed_ok ed' \<and>
    text_before ed' = text_before ed @ inserted_text c ed \<and> text_after ed' = text_after ed
    \<and> (inserted_text c ed = [] \<longrightarrow> ed' = ed)"
proof -
  obtain pre l r post where a: "at_cursor ed pre l r post" using at_cursor_exists [OF assms(1)] .
  have line: "e_lines ed (nat (cursor_line ed)) = l @ r"
    using at_cursor_line [OF a] a by (simp add: at_cursor_def)
  note ok = at_cursor_ok [OF a, THEN iffD1, OF assms(1)]
  consider "c = LF" "line_count ed < EDIT_MAX_LINES" | "c = LF" "\<not> line_count ed < EDIT_MAX_LINES"
    | "c = TAB" | "c \<noteq> LF" "c \<noteq> TAB" by blast
  then show ?thesis
  proof cases
    case 1
    obtain ed' where e: "insert_newline ed = Some ed'" "at_cursor ed' (pre @ [l]) [] r post"
      using insert_newline_at [OF a assms(1) 1(2)] by blast
    have "ed_ok ed'"
      using ok 1 a by (subst at_cursor_ok [OF e(2)]) (auto simp: at_cursor_def EDIT_MAX_LINES_def)
    then show ?thesis using 1 e at_cursor_texts [OF a] at_cursor_texts [OF e(2)]
      by (simp add: edit_insert_char_def inserted_text_def)
  next
    case 2
    then show ?thesis using assms(1) by (simp add: edit_insert_char_def insert_newline_def Let_def inserted_text_def)
  next
    case 3
    from insert_tab [OF a assms(1)] obtain ed' where e: "edit_insert_char TAB ed = Some ed'" "ed_ok ed'"
      "at_cursor ed' pre (l @ take (1023 - length (l @ r)) (replicate 4 CHR '' '')) r post"
      "1023 \<le> length (l @ r) \<Longrightarrow> ed' = ed" by blast
    then show ?thesis using 3 line at_cursor_texts [OF a] at_cursor_texts [OF e(3)]
      by (simp add: inserted_text_def)
  next
    case 4
    from insert_plain_step [OF a assms] obtain ed' where e: "insert_plain c ed = Some ed'" "ed_ok ed'"
      "at_cursor ed' pre (l @ take (1023 - length (l @ r)) [c]) r post"
      "1023 \<le> length (l @ r) \<Longrightarrow> ed' = ed" by blast
    then show ?thesis using 4 line at_cursor_texts [OF a] at_cursor_texts [OF e(3)]
      by (simp add: inserted_text_def edit_insert_char_def)
  qed
qed

text \<open>
  C12. The editor is a text with a cursor: inserting any character but the terminator 0, which no key
  produces, never fails while the cursor is inside its line, keeps the invariant, and puts the
  character at the cursor of the text (a line feed splits the line, shifting all lines behind it; a tabulator is
  four blanks). There is only as much inserted as there is room for: nothing when the line has 1023
  characters or, for a line feed, the table 4096 lines already, and of the four blanks those that fit. When nothing fits, nothing changes.
\<close>

theorem edit_insert_refines:
  assumes "ed_ok ed" and "c \<noteq> NUL"
  shows "\<exists>ed'. edit_insert_char c ed = Some ed' \<and> ed_ok ed' \<and>
    (let ins = (if c = LF then (if line_count ed < EDIT_MAX_LINES then [LF] else [])
                else take (1023 - length (e_lines ed (nat (cursor_line ed))))
                  (if c = TAB then replicate 4 CHR '' '' else [c]))
     in text_before ed' = text_before ed @ ins \<and> text_after ed' = text_after ed \<and> (ins = [] \<longrightarrow> ed' = ed))"
  using edit_inserts [OF assms] unfolding inserted_text_def Let_def .

lemma edit_deletes:
  assumes "ed_ok ed"
  defines "r \<equiv> drop (nat (cursor_col ed)) (e_lines ed (nat (cursor_line ed)))"
  defines "lost \<equiv> (if cursor_col ed = 0 \<and> 0 < cursor_line ed
    then length (e_lines ed (nat (cursor_line ed) - 1)) + length r - 1023 else 0)"
  shows "\<exists>ed'. edit_delete_char ed = Some ed' \<and> ed_ok ed' \<and> text_before ed' = butlast (text_before ed)
    \<and> text_after ed' = take (length r - lost) r @ drop (length r) (text_after ed)"
proof -
  obtain pre l q post where a: "at_cursor ed pre l q post" using at_cursor_exists [OF assms(1)] .
  note ok = at_cursor_ok [OF a, THEN iffD1, OF assms(1)]
  have r: "r = q" using at_cursor_line [OF a] a by (simp add: r_def at_cursor_def)
  show ?thesis
  proof (cases l rule: rev_cases)
    case (snoc k c)
    obtain ed' where e: "edit_delete_char ed = Some ed'" "at_cursor ed' pre k q post"
      using delete_in_line_at a snoc by blast
    have "ed_ok ed'" using ok snoc by (subst at_cursor_ok [OF e(2)]) auto
    moreover have "lost = 0" using a snoc by (simp add: lost_def at_cursor_def)
    ultimately show ?thesis using e snoc at_cursor_texts [OF a] at_cursor_texts [OF e(2)]
      by (simp add: butlast_append r)
  next
    case Nil
    show ?thesis
    proof (cases pre rule: rev_cases)
      case pre: (snoc up p)
      obtain ed' where e: "edit_delete_char ed = Some ed'"
          "at_cursor ed' up p (take (EDIT_MAX_LINE_LEN - length p - 1) q) post"
        using delete_join_at a Nil pre by blast
      have p: "e_lines ed (length up) = p" "length p \<le> 1023"
        using at_cursor_nth [OF a, of "length up"] Nil pre ok by (auto simp: nth_append EDIT_MAX_LINE_LEN_def)
      have "lost = length p + length q - 1023"
        using a Nil pre p by (simp add: lost_def at_cursor_def r nat_add_distrib)
      then have "take (EDIT_MAX_LINE_LEN - length p - 1) q = take (length q - lost) q"
        using p(2) by (cases "length p + length q \<le> 1023") (simp_all add: EDIT_MAX_LINE_LEN_def)
      note e = e(1) e(2) [unfolded this]
      have "ed_ok ed'" using ok pre Nil p(2) \<open>lost = _\<close>
        by (subst at_cursor_ok [OF e(2)]) (auto simp: EDIT_MAX_LINE_LEN_def)
      then show ?thesis using e pre Nil at_cursor_texts [OF a] at_cursor_texts [OF e(2)]
        by (simp add: butlast_append r)
    next
      case pre: Nil
      have "at_cursor (ed\<lparr>modified := True\<rparr>) pre l q post"
        using a by (simp add: at_cursor_def document_modified)
      moreover have "lost = 0" using a pre by (simp add: lost_def at_cursor_def)
      ultimately show ?thesis
        using delete_start_at [of ed q post] a Nil pre assms(1) at_cursor_texts [OF a]
          at_cursor_texts [of "ed\<lparr>modified := True\<rparr>" pre l q post]
        by (simp add: ed_ok_def document_modified r)
    qed
  qed
qed

text \<open>
  C23. Deleting never fails while the cursor is inside its line and keeps the invariant. It takes back the character
  in front of the cursor, also when that is the line feed of the line above; at the start of the text there is none
  to take back. The text behind the cursor stays, except when two lines are joined: of the rest of the cursor line
  what exceeds 1023 characters in the joined line is lost.
\<close>

theorem edit_delete_refines:
  assumes "ed_ok ed"
  shows "let r = drop (nat (cursor_col ed)) (e_lines ed (nat (cursor_line ed)));
      lost = (if cursor_col ed = 0 \<and> 0 < cursor_line ed
        then length (e_lines ed (nat (cursor_line ed) - 1)) + length r - 1023 else 0)
    in \<exists>ed'. edit_delete_char ed = Some ed' \<and> ed_ok ed' \<and> text_before ed' = butlast (text_before ed)
      \<and> text_after ed' = take (length r - lost) r @ drop (length r) (text_after ed)"
  unfolding Let_def by (rule edit_deletes [OF assms])

definition example_editor :: editor where
  "example_editor = \<lparr>e_lines = (\<lambda>i. if i = 0 then ''int x'' else if i = 1 then ''y'' else []),
     line_count = 2, cursor_line = 1, cursor_col = 0, scroll_line = 0, filename = [], modified = False,
     ed_syntax = 0, e_window = None\<rparr>"

lemma example_editor_at: "at_cursor example_editor [''int x''] [] ''y'' []"
  by (simp add: at_cursor_def document_def example_editor_def arr_list_def numeral_2_eq_2)

lemma example_editor_ok: "ed_ok example_editor"
  by (subst at_cursor_ok [OF example_editor_at]) (simp add: EDIT_MAX_LINE_LEN_def)

theorem edit_insert_refines_witness:
  "\<exists>ed. edit_insert_char CHR ''x'' example_editor = Some ed \<and> text_before ed = ''int x'' @ [LF] @ ''x''
     \<and> text_after ed = ''y''"
  using edit_insert_refines [OF example_editor_ok, of "CHR ''x''"] at_cursor_texts [OF example_editor_at]
  by (auto simp: Let_def example_editor_def)

theorem edit_delete_refines_witness:
  "\<exists>ed. edit_delete_char example_editor = Some ed \<and> text_before ed = ''int x'' \<and> text_after ed = ''y''"
  using edit_delete_refines [OF example_editor_ok] at_cursor_texts [OF example_editor_at]
  by (auto simp: Let_def example_editor_def EDIT_MAX_LINE_LEN_def)

section \<open>Every reachable editor\<close>

text \<open>
  The editor after its start, under keys, cursor movements, saving, searching and opening in any order. Two conditions
  are needed, since the code adjusts the cursor to the text only when it moves: a search hits a line that is not shorter than the
  column of the cursor (or nothing), and a file is opened with the cursor on the first line.
\<close>

inductive ed_reach :: "editor \<Rightarrow> bool" where
  init: "edit_init w = (ok, ed, w') \<Longrightarrow> ed_reach ed"
| key: "ed_reach ed \<Longrightarrow> edit_handle_key c ed = Some ed' \<Longrightarrow> ed_reach ed'"
| move: "ed_reach ed \<Longrightarrow> edit_move_cursor dl dc ed = Some ed' \<Longrightarrow> ed_reach ed'"
| save: "ed_reach ed \<Longrightarrow> edit_save ed = (ok, ed') \<Longrightarrow> ed_reach ed'"
| save_as: "ed_reach ed \<Longrightarrow> edit_save_as path ed = (ok, ed') \<Longrightarrow> ed_reach ed'"
| search: "ed_reach ed \<Longrightarrow> edit_find t start ed = Some (i, ed') \<Longrightarrow>
    i = - 1 \<or> cursor_col ed \<le> int (length (e_lines ed (nat i))) \<Longrightarrow> ed_reach ed'"
| load: "ed_reach ed \<Longrightarrow> cursor_line ed = 0 \<Longrightarrow> edit_open path ed = (ok, ed') \<Longrightarrow> ed_reach ed'"

lemma edit_save_keeps: "edit_save ed = (ok, ed') \<Longrightarrow> ed_ok ed \<Longrightarrow> ed_ok ed'"
  by (auto simp: edit_save_def ed_ok_def document_def split: if_splits)

lemma edit_find_keeps:
  assumes "edit_find t start ed = Some (i, ed')" and "ed_ok ed"
    and "i = - 1 \<or> cursor_col ed \<le> int (length (e_lines ed (nat i)))"
  shows "ed_ok ed'"
proof (cases "find (\<lambda>i. occurs t (e_lines ed (nat i))) [start..line_count ed - 1]")
  case None
  then show ?thesis using assms(1,2) by (auto simp: edit_find_def split: if_splits)
next
  case (Some j)
  then have "j \<in> {start..line_count ed - 1}" by (auto simp: find_Some_iff)
  moreover have "i = j" "ed' = ed\<lparr>cursor_line := j\<rparr>" "\<not> (start < 0 \<and> start < line_count ed)"
    using assms(1) Some by (auto simp: edit_find_def split: if_splits)
  ultimately show ?thesis using assms(2,3) by (auto simp: ed_ok_def document_def)
qed

lemma edit_open_keeps:
  assumes "edit_open path ed = (ok, ed')" and "ed_ok ed" and "cursor_line ed = 0"
  shows "ed_ok ed'"
  using assms document_split(2) [OF assms(2)]
  by (auto simp: edit_open_def ed_ok_def document_def EDIT_MAX_LINES_def arr_list_def)

lemma edit_delete_ok: "ed_ok ed \<Longrightarrow> \<exists>ed'. edit_delete_char ed = Some ed' \<and> ed_ok ed'"
  using edit_deletes by blast

lemma edit_insert_ok: "ed_ok ed \<Longrightarrow> c \<noteq> NUL \<Longrightarrow> \<exists>ed'. edit_insert_char c ed = Some ed' \<and> ed_ok ed'"
  using edit_inserts by blast

lemma edit_move_ok: "ed_ok ed \<Longrightarrow> \<exists>ed'. edit_move_cursor dl dc ed = Some ed' \<and> ed_ok ed'"
  by (auto simp: edit_move_cursor_def ed_ok_def Let_def document_def)

lemma edit_key_ok: "ed_ok ed \<Longrightarrow> \<exists>ed'. edit_handle_key c ed = Some ed' \<and> ed_ok ed'"
proof -
  assume ok: "ed_ok ed"
  have "edit_handle_key c ed \<in> {edit_delete_char ed, edit_insert_char LF ed, edit_insert_char c ed, Some ed}"
    "c = NUL \<Longrightarrow> edit_handle_key c ed = Some ed"
    by (auto simp: edit_handle_key_def)
  moreover have "LF \<noteq> NUL" by simp
  ultimately show ?thesis
    using edit_delete_ok [OF ok] edit_insert_ok [OF ok, of LF] edit_insert_ok [OF ok, of c] ok
    by (cases "c = NUL") auto
qed

text \<open>
  C22. The cursor stands on a line of the text and inside it, every line fits its buffer, and no key and no movement
  of the cursor can fail, in every state the editor reaches from its start by keys, cursor movements and saving, by searches that hit a line
  not shorter than the column of the cursor, and by opening files with the cursor on the first line. (A
  search that hits a shorter line leaves the cursor behind its end, and opening a file with the cursor further down
  leaves it behind the text: \<open>edit_find_loses_cursor\<close>.)
\<close>

theorem editor_never_fails:
  assumes "ed_reach ed"
  shows "ed_ok ed \<and> edit_handle_key c ed \<noteq> None \<and> edit_move_cursor dl dc ed \<noteq> None"
proof -
  have "ed_ok ed" using assms
  proof (induction rule: ed_reach.induct)
    case (init w ok ed w')
    then show ?case
      by (auto simp: edit_init_def ed_ok_def document_def edit_consts arr_list_def split: prod.splits)
  next
    case (key ed c ed')
    then show ?case using edit_key_ok [of ed c] by auto
  next
    case (move ed dl dc ed')
    then show ?case using edit_move_ok [of ed dl dc] by auto
  next
    case (save ed ok ed')
    then show ?case using edit_save_keeps by blast
  next
    case (save_as ed path ok ed')
    then have "ed_ok (ed\<lparr>filename := take 255 path\<rparr>)" by (simp add: ed_ok_def document_def)
    with save_as show ?case using edit_save_keeps unfolding edit_save_as_def by blast
  next
    case (search ed t start i ed')
    then show ?case using edit_find_keeps by blast
  next
    case (load ed path ok ed')
    then show ?case using edit_open_keeps by blast
  qed
  then show ?thesis using edit_key_ok [of ed c] edit_move_ok [of ed dl dc] by auto
qed

theorem editor_never_fails_witness:
  "ed_ok (fst (snd (edit_init example_wm))) \<and> edit_handle_key CHR ''a'' (fst (snd (edit_init example_wm))) \<noteq> None"
proof -
  obtain ok ed w where i: "edit_init example_wm = (ok, ed, w)" by (metis prod.exhaust)
  show ?thesis using editor_never_fails [OF ed_reach.init [OF i], of "CHR ''a''"] i by simp
qed

text \<open>
  Searching moves the cursor to the line of the hit and leaves its column alone: when that line is
  at least two characters shorter than the column and not full, the next character inserted is copied with a
  negative length.
\<close>

theorem edit_find_loses_cursor:
  assumes "edit_find text start ed = Some (i, ed')" and "i \<noteq> -1"
    and "int (length (e_lines ed (nat i))) + 1 < cursor_col ed"
    and "length (e_lines ed (nat i)) < EDIT_MAX_LINE_LEN - 1" and "32 \<le> char_val c" and "char_val c < 128"
  shows "cursor_line ed' = i \<and> edit_handle_key c ed' = None"
proof -
  have "ed' = ed\<lparr>cursor_line := i\<rparr>"
    using assms(1,2) by (auto simp: edit_find_def split: if_splits option.splits)
  moreover have "c \<noteq> LF" "c \<noteq> TAB" "c \<noteq> CHR 0x08" using assms(5) by auto
  ultimately show ?thesis
    using assms(3-6) by (simp add: edit_handle_key_def edit_insert_char_def insert_plain_def Let_def)
qed

theorem edit_find_loses_cursor_witness:
  "case edit_find ''y'' 0 (example_editor\<lparr>cursor_line := 0, cursor_col := 5\<rparr>) of
     Some (i, ed) \<Rightarrow> cursor_line ed = 1 \<and> edit_handle_key CHR ''!'' ed = None | None \<Rightarrow> False"
proof -
  let ?ed = "example_editor\<lparr>cursor_line := 0, cursor_col := 5\<rparr>"
  have f: "edit_find ''y'' 0 ?ed = Some (1, ?ed\<lparr>cursor_line := 1\<rparr>)"
    by (simp add: edit_find_def example_editor_def upto.simps)
  have "cursor_line (?ed\<lparr>cursor_line := 1\<rparr>) = 1 \<and> edit_handle_key CHR ''!'' (?ed\<lparr>cursor_line := 1\<rparr>) = None"
    by (rule edit_find_loses_cursor [OF f]) (simp_all add: example_editor_def EDIT_MAX_LINE_LEN_def of_char_def)
  with f show ?thesis by simp
qed

end
