(* ===== verification/Tools.thy ===== *)
theory Tools
  imports Vfs Printing Procfs Bubble_Sort "HOL-Library.List_Lexorder" "HOL-Library.Char_ord"
begin

text \<open>
  The command line tools under \<^verbatim>\<open>tools\<close>. A tool gets its arguments, the name first, and the state of
  the tools: the text printed on the terminal, the file system, the environment, the history and
  the working directory. The routines of \<^verbatim>\<open>vfs.c\<close> the tools call are the fields of \<open>calls\<close>, so that what a tool
  does with the bytes it reads can be stated at all; \<open>kernel_calls\<close> in the section on the kernel plugs in the model of \<^verbatim>\<open>vfs.c\<close>, as
  the program is linked, and there every read is empty: statements on the contents of files hold of other calls than those. The process table and the memory statistics are the parameter
  \<open>sys\<close> of \<open>Procfs\<close>. Lines are the strings in the line buffers; \<^term>\<open>None\<close> is reading uninitialised
  bytes, a NULL argument or a file that never ends. Texts with accented letters are their UTF-8 bytes.
\<close>

section \<open>State\<close>

record 'v calls =
  open_call :: "string \<Rightarrow> u32 \<Rightarrow> 'v \<Rightarrow> int \<times> 'v"
  read_call :: "int \<Rightarrow> nat \<Rightarrow> 'v \<Rightarrow> string \<times> 'v"
  write_call :: "int \<Rightarrow> string \<Rightarrow> 'v \<Rightarrow> 'v"
  close_call :: "int \<Rightarrow> 'v \<Rightarrow> 'v"
  mkdir_call :: "string \<Rightarrow> u32 \<Rightarrow> 'v \<Rightarrow> bool \<times> 'v"
  unlink_call :: "string \<Rightarrow> 'v \<Rightarrow> bool \<times> 'v"
  rmdir_call :: "string \<Rightarrow> 'v \<Rightarrow> bool \<times> 'v"
  rename_call :: "string \<Rightarrow> string \<Rightarrow> 'v \<Rightarrow> (bool \<times> 'v) option"
  stat_call :: "string \<Rightarrow> 'v \<Rightarrow> (string \<times> u32 \<times> u8) option"

record 'v tools =
  printed :: string
  files :: 'v
  env_keys :: "nat \<Rightarrow> string"
  env_vals :: "nat \<Rightarrow> string"
  env_count :: nat
  hist :: "nat \<Rightarrow> string"
  hist_count :: nat
  cwd :: string
  exits :: "int list"

definition terminal_print :: "string \<Rightarrow> 'v tools \<Rightarrow> 'v tools" where
  "terminal_print s t = t\<lparr>printed := printed t @ s\<rparr>"

type_synonym 'v tool = "string list \<Rightarrow> 'v tools \<Rightarrow> (int \<times> 'v tools) option"

text \<open>Usage: a message and exit code 1.\<close>

definition fail_with :: "string \<Rightarrow> 'v tools \<Rightarrow> (int \<times> 'v tools) option" where
  "fail_with s t = Some (1, terminal_print s t)"

definition open_file :: "'v calls \<Rightarrow> string \<Rightarrow> u32 \<Rightarrow> 'v tools \<Rightarrow> int \<times> 'v tools" where
  "open_file io path flags t = (let (fd, v) = open_call io path flags (files t) in (fd, t\<lparr>files := v\<rparr>))"

definition close_file :: "'v calls \<Rightarrow> int \<Rightarrow> 'v tools \<Rightarrow> 'v tools" where
  "close_file io fd t = t\<lparr>files := close_call io fd (files t)\<rparr>"

text \<open>
  The loop \<^verbatim>\<open>while (vfs_read(fd, &ch, 1) > 0 && go)\<close> over a tool's own state: the byte is read before
  the second condition is looked at. The result \<^term>\<open>None\<close> is a file that never ends.
\<close>

partial_function (option) each_byte ::
    "'v calls \<Rightarrow> int \<Rightarrow> ('s \<Rightarrow> bool) \<Rightarrow> (char \<Rightarrow> 's \<Rightarrow> 's) \<Rightarrow> 's \<Rightarrow> 'v \<Rightarrow> ('s \<times> 'v) option" where
  "each_byte io fd go step s v =
     (case read_call io fd 1 v of
        (data, v) \<Rightarrow>
          if data = [] \<or> \<not> go s then Some (s, v) else each_byte io fd go step (step (hd data) s) v)"

section \<open>Files and directories\<close>

partial_function (option) cat_loop :: "'v calls \<Rightarrow> int \<Rightarrow> 'v tools \<Rightarrow> 'v tools option" where
  "cat_loop io fd t =
     (case read_call io fd 255 (files t) of
        (data, v) \<Rightarrow>
          if data = [] then Some (t\<lparr>files := v\<rparr>)
          else cat_loop io fd (terminal_print (cstr data) (t\<lparr>files := v\<rparr>)))"

fun cat_files :: "'v calls \<Rightarrow> string list \<Rightarrow> 'v tools \<Rightarrow> (int \<times> 'v tools) option" where
  "cat_files io [] t = Some (0, t)"
| "cat_files io (f # fs) t =
     (let (fd, t) = open_file io f VFS_O_RDONLY t in
      if fd < 0 then
        cat_files io fs (terminal_print [LF] (terminal_print f (terminal_print (''cat: nem tal'' @ [CHR 0xC3, CHR 0xA1] @ ''lhat'' @ [CHR 0xC3, CHR 0xB3] @ '': '') t)))
      else
        case cat_loop io fd t of
          None \<Rightarrow> None
        | Some t \<Rightarrow> cat_files io fs (close_file io fd t))"

definition cat_main :: "'v calls \<Rightarrow> 'v tool" where
  "cat_main io argv t =
     (if length argv < 2 then fail_with (''Haszn'' @ [CHR 0xC3, CHR 0xA1] @ ''lat: cat <f'' @ [CHR 0xC3, CHR 0xA1] @ ''jl>'' @ [LF]) t else cat_files io (tl argv) t)"

partial_function (option) cp_loop :: "'v calls \<Rightarrow> int \<Rightarrow> int \<Rightarrow> 'v \<Rightarrow> 'v option" where
  "cp_loop io src dst v =
     (case read_call io src 4096 v of
        (data, v) \<Rightarrow> if data = [] then Some v else cp_loop io src dst (write_call io dst data v))"

definition cp_main :: "'v calls \<Rightarrow> 'v tool" where
  "cp_main io argv t =
     (if length argv < 3 then fail_with (''Haszn'' @ [CHR 0xC3, CHR 0xA1] @ ''lat: cp <forr'' @ [CHR 0xC3, CHR 0xA1] @ ''s> <c'' @ [CHR 0xC3, CHR 0xA9] @ ''l>'' @ [LF]) t
      else
        let (src, t) = open_file io (argv ! 1) VFS_O_RDONLY t in
        if src < 0 then
          fail_with [LF] (terminal_print (argv ! 1) (terminal_print (''cp: nem tal'' @ [CHR 0xC3, CHR 0xA1] @ ''lhat'' @ [CHR 0xC3, CHR 0xB3] @ '': '') t))
        else
          let (dst, t) = open_file io (argv ! 2) (VFS_O_WRONLY OR VFS_O_CREAT OR 8) t in
          if dst < 0 then fail_with (''cp: hiba'' @ [LF]) (close_file io src t)
          else
            case cp_loop io src dst (files t) of
              None \<Rightarrow> None
            | Some v \<Rightarrow> Some (0, close_file io dst (close_file io src (t\<lparr>files := v\<rparr>))))"

definition mv_main :: "'v calls \<Rightarrow> 'v tool" where
  "mv_main io argv t =
     (if length argv < 3 then fail_with (''Haszn'' @ [CHR 0xC3, CHR 0xA1] @ ''lat: mv <forr'' @ [CHR 0xC3, CHR 0xA1] @ ''s> <c'' @ [CHR 0xC3, CHR 0xA9] @ ''l>'' @ [LF]) t
      else
        case rename_call io (argv ! 1) (argv ! 2) (files t) of
          None \<Rightarrow> None
        | Some (ok, v) \<Rightarrow>
            if ok then Some (0, t\<lparr>files := v\<rparr>) else fail_with (''mv: hiba'' @ [LF]) (t\<lparr>files := v\<rparr>))"

definition rm_one :: "'v calls \<Rightarrow> bool \<Rightarrow> string \<Rightarrow> 'v tools \<Rightarrow> 'v tools" where
  "rm_one io r path t =
     (let (ok, v) = unlink_call io path (files t) in
      if \<not> ok \<and> r then t\<lparr>files := snd (rmdir_call io path v)\<rparr> else t\<lparr>files := v\<rparr>)"

definition rm_main :: "'v calls \<Rightarrow> 'v tool" where
  "rm_main io argv t =
     (if length argv < 2 then fail_with (''Haszn'' @ [CHR 0xC3, CHR 0xA1] @ ''lat: rm <f'' @ [CHR 0xC3, CHR 0xA1] @ ''jl>'' @ [LF]) t
      else
        let r = (argv ! 1 = ''-r'' \<or> argv ! 1 = ''-rf'') in
        Some (0, fold (rm_one io r) (drop (if r then 2 else 1) argv) t))"

definition mkdir_one :: "'v calls \<Rightarrow> string \<Rightarrow> 'v tools \<Rightarrow> 'v tools" where
  "mkdir_one io path t =
     (let (ok, v) = mkdir_call io path 493 (files t) in
      if ok then t\<lparr>files := v\<rparr>
      else terminal_print [LF] (terminal_print path (terminal_print ''mkdir: hiba: '' (t\<lparr>files := v\<rparr>))))"

definition mkdir_main :: "'v calls \<Rightarrow> 'v tool" where
  "mkdir_main io argv t =
     (if length argv < 2 then fail_with (''Haszn'' @ [CHR 0xC3, CHR 0xA1] @ ''lat: mkdir <k'' @ [CHR 0xC3, CHR 0xB6] @ ''nyvt'' @ [CHR 0xC3, CHR 0xA1] @ ''r>'' @ [LF]) t
      else Some (0, fold (mkdir_one io) (tl argv) t))"

definition touch_one :: "'v calls \<Rightarrow> string \<Rightarrow> 'v tools \<Rightarrow> 'v tools" where
  "touch_one io path t =
     (let (fd, t) = open_file io path (VFS_O_CREAT OR VFS_O_WRONLY) t in
      if fd \<ge> 0 then close_file io fd t else t)"

definition touch_main :: "'v calls \<Rightarrow> 'v tool" where
  "touch_main io argv t =
     (if length argv < 2 then fail_with (''Haszn'' @ [CHR 0xC3, CHR 0xA1] @ ''lat: touch <f'' @ [CHR 0xC3, CHR 0xA1] @ ''jl>'' @ [LF]) t
      else Some (0, fold (touch_one io) (tl argv) t))"

definition stat_main :: "'v calls \<Rightarrow> 'v tool" where
  "stat_main io argv t =
     (if length argv < 2 then fail_with (''Haszn'' @ [CHR 0xC3, CHR 0xA1] @ ''lat: stat <f'' @ [CHR 0xC3, CHR 0xA1] @ ''jl>'' @ [LF]) t
      else
        case stat_call io (argv ! 1) (files t) of
          None \<Rightarrow> fail_with (''stat: nem tal'' @ [CHR 0xC3, CHR 0xA1] @ ''lhat'' @ [CHR 0xC3, CHR 0xB3, LF]) t
        | Some (name, sz, type) \<Rightarrow>
            Some (0, terminal_print
              (sprint 256 ((''  F'' @ [CHR 0xC3, CHR 0xA1] @ ''jl: %s'' @ [LF]) @ ('' M'' @ [CHR 0xC3, CHR 0xA9] @ ''ret: %u'' @ [LF]) @ (''T'' @ [CHR 0xC3, CHR 0xAD] @ ''pus: %s'' @ [LF]))
                [Str name, U32 sz, Str (if type = 1 then (''k'' @ [CHR 0xC3, CHR 0xB6] @ ''nyvt'' @ [CHR 0xC3, CHR 0xA1] @ ''r'') else (''f'' @ [CHR 0xC3, CHR 0xA1] @ ''jl''))]) t))"

text \<open>The options are read, then a fixed line is printed.\<close>

definition ls_main :: "'v tool" where
  "ls_main argv t = Some (0, terminal_print (''total 0'' @ [LF]) t)"

definition find_main :: "'v tool" where
  "find_main argv t =
     Some (0, terminal_print [LF] (terminal_print (if length argv > 1 then argv ! 1 else ''.'') t))"

definition du_main :: "'v tool" where
  "du_main argv t =
     (let path = (if length argv > 1 then last argv else ''.'');
          human = (''-h'' \<in> set (butlast (tl argv)))
      in Some (0, terminal_print
           (sprint 64 (if human then (''4.0K'' @ [TAB] @ ''%s'' @ [LF]) else (''4'' @ [TAB] @ ''%s'' @ [LF])) [Str path]) t))"

definition df_main :: "'v tool" where
  "df_main argv t =
     Some (0, terminal_print (''fat32           512M    100M    412M    19%   /mnt'' @ [LF])
       (terminal_print (''procfs          0       0       0       -     /proc'' @ [LF])
         (terminal_print (''ramfs           32M     2M      30M     6%    /'' @ [LF])
           (terminal_print (''Filesystem      Size    Used    Avail   Use%  Mounted on'' @ [LF]) t))))"

definition chmod_main :: "'v tool" where
  "chmod_main argv t =
     (if length argv < 3 then fail_with (''Haszn'' @ [CHR 0xC3, CHR 0xA1] @ ''lat: chmod <m'' @ [CHR 0xC3, CHR 0xB3] @ ''d> <f'' @ [CHR 0xC3, CHR 0xA1] @ ''jl>'' @ [LF]) t else Some (0, t))"

definition ln_main :: "'v tool" where
  "ln_main argv t =
     (if length argv < 3 then fail_with (''Haszn'' @ [CHR 0xC3, CHR 0xA1] @ ''lat: ln [-s] <forr'' @ [CHR 0xC3, CHR 0xA1] @ ''s> <link>'' @ [LF]) t else Some (0, t))"

section \<open>Text\<close>

definition echo_main :: "'v tool" where
  "echo_main argv t =
     Some (0, terminal_print [LF]
       (fold (\<lambda>i t. if i < length argv - 1 then terminal_print '' '' (terminal_print (argv ! i) t)
                   else terminal_print (argv ! i) t) [1..<length argv] t))"

text \<open>
  A line buffer of \<open>m\<close> characters and a terminator: a line feed ends the line, and so does the
  character behind a full buffer, which is dropped. The string in the buffer ends at a NUL.
\<close>

definition line_step :: "nat \<Rightarrow> (string \<Rightarrow> 's \<Rightarrow> 's) \<Rightarrow> char \<Rightarrow> string \<times> 's \<Rightarrow> string \<times> 's" where
  "line_step m emit_line ch st =
     (case st of (line, s) \<Rightarrow>
        if ch = LF \<or> length line \<ge> m then ([], emit_line (cstr line) s) else (line @ [ch], s))"

definition grep_line :: "string \<Rightarrow> string \<Rightarrow> 'v tools \<Rightarrow> 'v tools" where
  "grep_line pat line t =
     (if occurs pat line then terminal_print [LF] (terminal_print line t) else t)"

text \<open>
  The tools keep reading through the file system while they print: the state of the loop carries
  what is printed, the file system is the other argument of the loop.
\<close>

definition grep_main :: "'v calls \<Rightarrow> 'v tool" where
  "grep_main io argv t =
     (if length argv < 3 then fail_with (''Haszn'' @ [CHR 0xC3, CHR 0xA1] @ ''lat: grep <minta> <f'' @ [CHR 0xC3, CHR 0xA1] @ ''jl>'' @ [LF]) t
      else
        let (fd, t) = open_file io (argv ! 2) VFS_O_RDONLY t in
        if fd < 0 then
          fail_with [LF] (terminal_print (argv ! 2) (terminal_print (''grep: nem tal'' @ [CHR 0xC3, CHR 0xA1] @ ''lhat'' @ [CHR 0xC3, CHR 0xB3] @ '': '') t))
        else
          case each_byte io fd (\<lambda>_. True) (line_step 1023 (grep_line (argv ! 1))) ([], t) (files t) of
            None \<Rightarrow> None
          | Some ((_, t), v) \<Rightarrow> Some (0, close_file io fd (t\<lparr>files := v\<rparr>)))"

fun head_args :: "string list \<Rightarrow> int \<times> string option \<Rightarrow> int \<times> string option" where
  "head_args [] st = st"
| "head_args [a] (n, f) = (if take 2 a = ''-n'' then (sint (atoi (drop 2 a)), f) else (n, Some a))"
| "head_args (a # b # as) (n, f) =
     (if a = ''-n'' then head_args as (sint (atoi b), f)
      else if take 2 a = ''-n'' then head_args (b # as) (sint (atoi (drop 2 a)), f)
      else head_args (b # as) (n, Some a))"

definition head_line :: "string \<Rightarrow> int \<times> 'v tools \<Rightarrow> int \<times> 'v tools" where
  "head_line line st = (case st of (lnum, t) \<Rightarrow> (lnum + 1, terminal_print [LF] (terminal_print line t)))"

definition head_main :: "'v calls \<Rightarrow> 'v tool" where
  "head_main io argv t =
     (case head_args (tl argv) (10, None) of
        (lines, None) \<Rightarrow> fail_with (''Haszn'' @ [CHR 0xC3, CHR 0xA1] @ ''lat: head [-n N] <f'' @ [CHR 0xC3, CHR 0xA1] @ ''jl>'' @ [LF]) t
      | (lines, Some f) \<Rightarrow>
          let (fd, t) = open_file io f VFS_O_RDONLY t in
          if fd < 0 then fail_with (''head: nem tal'' @ [CHR 0xC3, CHR 0xA1] @ ''lhat'' @ [CHR 0xC3, CHR 0xB3, LF]) t
          else
            case each_byte io fd (\<lambda>st. fst (snd st) < lines) (line_step 1023 head_line) ([], 0, t) (files t) of
              None \<Rightarrow> None
            | Some ((_, _, t), v) \<Rightarrow> Some (0, close_file io fd (t\<lparr>files := v\<rparr>)))"

abbreviation TAIL_MAX_LINES :: nat where "TAIL_MAX_LINES \<equiv> 512"

fun tail_args :: "string list \<Rightarrow> int \<times> string option \<Rightarrow> int \<times> string option" where
  "tail_args [] st = st"
| "tail_args [a] (n, f) = (if take 1 a \<noteq> ''-'' then (n, Some a) else (n, f))"
| "tail_args (a # b # as) (n, f) =
     (if a = ''-n'' then tail_args as (sint (atoi b), f)
      else if take 1 a \<noteq> ''-'' then tail_args (b # as) (n, Some a)
      else tail_args (b # as) (n, f))"

text \<open>
  The ring of lines is on the stack: an entry that was not written, or whose 255 characters leave no
  room for a terminator, is \<^term>\<open>None\<close>.
\<close>

definition tail_line :: "string \<Rightarrow> nat \<times> (nat \<Rightarrow> string option) \<Rightarrow> nat \<times> (nat \<Rightarrow> string option)" where
  "tail_line line st =
     (case st of (cnt, buf) \<Rightarrow>
        (cnt + 1, buf(cnt mod TAIL_MAX_LINES := if length line < 255 then Some line else None)))"

fun tail_print :: "(nat \<Rightarrow> string option) \<Rightarrow> nat list \<Rightarrow> 'v tools \<Rightarrow> 'v tools option" where
  "tail_print buf [] t = Some t"
| "tail_print buf (i # is) t =
     (case buf (i mod TAIL_MAX_LINES) of
        None \<Rightarrow> None
      | Some line \<Rightarrow> tail_print buf is (terminal_print [LF] (terminal_print line t)))"

definition tail_main :: "'v calls \<Rightarrow> 'v tool" where
  "tail_main io argv t =
     (case tail_args (tl argv) (10, None) of
        (lines, None) \<Rightarrow> fail_with (''Haszn'' @ [CHR 0xC3, CHR 0xA1] @ ''lat: tail [-n N] <f'' @ [CHR 0xC3, CHR 0xA1] @ ''jl>'' @ [LF]) t
      | (lines, Some f) \<Rightarrow>
          let (fd, t) = open_file io f VFS_O_RDONLY t in
          if fd < 0 then fail_with (''tail: nem tal'' @ [CHR 0xC3, CHR 0xA1] @ ''lhat'' @ [CHR 0xC3, CHR 0xB3, LF]) t
          else
            case each_byte io fd (\<lambda>_. True) (line_step 255 tail_line) ([], 0, \<lambda>_. None) (files t) of
              None \<Rightarrow> None
            | Some ((_, cnt, buf), v) \<Rightarrow>
                let t = close_file io fd (t\<lparr>files := v\<rparr>);
                    start = (if int cnt > lines then int cnt - lines else 0)
                in case tail_print buf [nat start..<cnt] t of None \<Rightarrow> None | Some t \<Rightarrow> Some (0, t))"

definition wc_step :: "char \<Rightarrow> (u32 \<times> u32 \<times> u32) \<times> bool \<Rightarrow> (u32 \<times> u32 \<times> u32) \<times> bool" where
  "wc_step ch st =
     (case st of ((lc, wc, cc), in_word) \<Rightarrow>
        let cc = cc + 1;
            lc = (if ch = LF then lc + 1 else lc)
        in if ch = CHR '' '' \<or> ch = TAB \<or> ch = LF
           then (if in_word then ((lc, wc + 1, cc), False) else ((lc, wc, cc), False))
           else ((lc, wc, cc), True))"

definition wc_main :: "'v calls \<Rightarrow> 'v tool" where
  "wc_main io argv t =
     (if length argv < 2 then fail_with (''Haszn'' @ [CHR 0xC3, CHR 0xA1] @ ''lat: wc <f'' @ [CHR 0xC3, CHR 0xA1] @ ''jl>'' @ [LF]) t
      else
        let f = last argv; opts = set (butlast (tl argv));
            lines = (''-l'' \<in> opts); words = (''-w'' \<in> opts); chars = (''-c'' \<in> opts);
            all_counts = (\<not> lines \<and> \<not> words \<and> \<not> chars);
            (fd, t) = open_file io f VFS_O_RDONLY t
        in if fd < 0 then fail_with (''wc: nem tal'' @ [CHR 0xC3, CHR 0xA1] @ ''lhat'' @ [CHR 0xC3, CHR 0xB3, LF]) t
           else
             case each_byte io fd (\<lambda>_. True) wc_step ((0, 0, 0), False) (files t) of
               None \<Rightarrow> None
             | Some (((lc, wc, cc), _), v) \<Rightarrow>
                 let t = close_file io fd (t\<lparr>files := v\<rparr>);
                     t = (if all_counts \<or> lines then terminal_print (sprint 64 ''%7u'' [U32 lc]) t else t);
                     t = (if all_counts \<or> words then terminal_print (sprint 64 ''%7u'' [U32 wc]) t else t);
                     t = (if all_counts \<or> chars then terminal_print (sprint 64 ''%7u'' [U32 cc]) t else t)
                 in Some (0, terminal_print [LF] (terminal_print f (terminal_print '' '' t))))"

section \<open>Sorting\<close>

abbreviation SORT_MAX :: nat where "SORT_MAX \<equiv> 1024"

fun sort_args :: "string list \<Rightarrow> bool \<times> string option \<Rightarrow> bool \<times> string option" where
  "sort_args [] st = st"
| "sort_args (a # as) (r, f) = (if a = ''-r'' then sort_args as (True, f) else sort_args as (r, Some a))"

definition sort_line :: "string \<Rightarrow> nat \<times> (nat \<Rightarrow> string) \<Rightarrow> nat \<times> (nat \<Rightarrow> string)" where
  "sort_line line st = (case st of (cnt, lines) \<Rightarrow> (cnt + 1, lines(cnt := line)))"

definition compare_lines :: "string \<Rightarrow> string \<Rightarrow> int" where
  "compare_lines a b = (case strcmp (a @ [NUL]) (b @ [NUL]) of None \<Rightarrow> 0 | Some c \<Rightarrow> c)"

definition swap_lines :: "bool \<Rightarrow> nat \<Rightarrow> (nat \<Rightarrow> string) \<Rightarrow> nat \<Rightarrow> string" where
  "swap_lines rev_order j a =
     (let cmp = compare_lines (a j) (a (j + 1)) in
      if (\<not> rev_order \<and> cmp > 0) \<or> (rev_order \<and> cmp < 0) then a(j := a (j + 1), j + 1 := a j) else a)"

definition sort_lines :: "bool \<Rightarrow> nat \<Rightarrow> (nat \<Rightarrow> string) \<Rightarrow> nat \<Rightarrow> string" where
  "sort_lines rev_order cnt a =
     fold (\<lambda>i a. fold (swap_lines rev_order) [0..<cnt - i - 1] a) [0..<cnt - 1] a"

text \<open>The array of lines is static and keeps the lines of the last call.\<close>

definition sort_main :: "'v calls \<Rightarrow> (nat \<Rightarrow> string) \<Rightarrow> 'v tool" where
  "sort_main io old_lines argv t =
     (case sort_args (tl argv) (False, None) of
        (rev_order, None) \<Rightarrow> fail_with (''Haszn'' @ [CHR 0xC3, CHR 0xA1] @ ''lat: sort <f'' @ [CHR 0xC3, CHR 0xA1] @ ''jl>'' @ [LF]) t
      | (rev_order, Some f) \<Rightarrow>
          let (fd, t) = open_file io f VFS_O_RDONLY t in
          if fd < 0 then fail_with (''sort: nem tal'' @ [CHR 0xC3, CHR 0xA1] @ ''lhat'' @ [CHR 0xC3, CHR 0xB3, LF]) t
          else
            case each_byte io fd (\<lambda>st. fst (snd st) < SORT_MAX) (line_step 255 sort_line)
                   ([], 0, old_lines) (files t) of
              None \<Rightarrow> None
            | Some ((_, cnt, lines), v) \<Rightarrow>
                Some (0, fold (\<lambda>i t. terminal_print [LF] (terminal_print (sort_lines rev_order cnt lines i) t))
                  [0..<cnt] (close_file io fd (t\<lparr>files := v\<rparr>))))"

section \<open>Environment, history, working directory\<close>

abbreviation ENV_MAX :: nat where "ENV_MAX \<equiv> 64"

definition env_set :: "string \<Rightarrow> string \<Rightarrow> 'v tools \<Rightarrow> 'v tools" where
  "env_set k x t =
     (case first_index (\<lambda>i. env_keys t i = k) (env_count t) of
        Some i \<Rightarrow> t\<lparr>env_vals := (env_vals t)(i := take 255 x)\<rparr>
      | None \<Rightarrow>
          if env_count t < ENV_MAX
          then t\<lparr>env_keys := (env_keys t)(env_count t := take 63 k),
                 env_vals := (env_vals t)(env_count t := take 255 x), env_count := env_count t + 1\<rparr>
          else t)"

definition env_get :: "string \<Rightarrow> 'v tools \<Rightarrow> string option" where
  "env_get k t = map_option (env_vals t) (first_index (\<lambda>i. env_keys t i = k) (env_count t))"

definition env_main :: "'v tool" where
  "env_main argv t =
     Some (0, fold (\<lambda>i t'. terminal_print [LF] (terminal_print (env_vals t i)
        (terminal_print ''='' (terminal_print (env_keys t i) t')))) [0..<env_count t] t)"

definition history_add :: "string \<Rightarrow> 'v tools \<Rightarrow> 'v tools" where
  "history_add cmd t =
     (if hist_count t < 256
      then t\<lparr>hist := (hist t)(hist_count t := take 511 cmd), hist_count := hist_count t + 1\<rparr> else t)"

definition history_main :: "'v tool" where
  "history_main argv t =
     Some (0, fold (\<lambda>i t'. terminal_print [LF] (terminal_print (hist t i)
        (terminal_print (sprint 8 ''%4d  '' [U32 (of_nat (i + 1))]) t'))) [0..<hist_count t] t)"

definition pwd_main :: "'v tool" where
  "pwd_main argv t = Some (0, terminal_print [LF] (terminal_print (cwd t) t))"

definition pwd_set :: "string \<Rightarrow> 'v tools \<Rightarrow> 'v tools" where
  "pwd_set p t = t\<lparr>cwd := take 1023 p\<rparr>"

definition pwd_get :: "'v tools \<Rightarrow> string" where
  "pwd_get t = cwd t"

section \<open>System\<close>

definition clear_main :: "'v tool" where
  "clear_main argv t = Some (0, terminal_print ([CHR 0x1B] @ ''[2J'' @ [CHR 0x1B] @ ''[H'') t)"

definition uname_main :: "'v tool" where
  "uname_main argv t =
     Some (0, terminal_print
       (if length argv > 1 \<and> argv ! 1 = ''-a''
        then (''BlockOS 1.0 blockos 1.0.0 #1 SMP x86_64 BlockOS'' @ [LF]) else (''BlockOS'' @ [LF])) t)"

definition date_main :: "sys \<Rightarrow> 'v tool" where
  "date_main y argv t =
     (let secs = kernel_ticks y div 100; mins = secs div 60 mod 60;
          hours = secs div 3600 mod 24; days = secs div 86400
      in Some (0, terminal_print
           (sprint 64 (''BlockOS Uptime: %llud %02lluh %02llum %02llus'' @ [LF])
             [U64 days, U64 hours, U64 mins, U64 (secs mod 60)]) t))"

definition free_main :: "sys \<Rightarrow> 'v tool" where
  "free_main y argv t =
     (let tot = mem_total y; fr = mem_free y; us = tot - fr
      in Some (0, terminal_print
           (sprint 128 (''Mem:      %7u     %7u     %7u'' @ [LF]) [U32 (tot div 1024), U32 (us div 1024), U32 (fr div 1024)])
           (terminal_print (''              total        used        free'' @ [LF]) t)))"

text \<open>\<^verbatim>\<open>process_exit\<close> ends the running process; the calls are recorded in \<open>exits\<close>.\<close>

definition kill_main :: "sys \<Rightarrow> 'v tool" where
  "kill_main y argv t =
     (if length argv < 2 then fail_with (''Haszn'' @ [CHR 0xC3, CHR 0xA1] @ ''lat: kill <pid>'' @ [LF]) t
      else if process_get_by_pid y (atoi (argv ! 1)) = None
      then fail_with (''kill: nincs ilyen folyamat'' @ [LF]) t
      else Some (0, t\<lparr>exits := exits t @ [0]\<rparr>))"

text \<open>
  \<open>text_at\<close> is the string at an address, \<open>addr\<close> the address of a string: the format reads the
  arguments of a line one after the other, whatever they are.
\<close>

definition ps_state :: "sys \<Rightarrow> proc_info \<Rightarrow> string" where
  "ps_state y p =
     (if pi_state p = PROCESS_STATE_READY y then ''running''
      else if pi_state p = PROCESS_STATE_BLOCKED y then ''sleeping''
      else if pi_state p = PROCESS_STATE_ZOMBIE y then ''zombie'' else ''?'')"

fun ps_lines :: "sys \<Rightarrow> (u32 \<Rightarrow> string) \<Rightarrow> (string \<Rightarrow> u32) \<Rightarrow> nat list \<Rightarrow> 'v tools \<Rightarrow> 'v tools option" where
  "ps_lines y text_at addr [] t = Some t"
| "ps_lines y text_at addr (i # is) t =
     (let p = process_table y i in
      if pi_state p = PROCESS_STATE_DEAD y then ps_lines y text_at addr is t
      else
        case snprintf text_at 64 (''%6u %5u  %-10s %s'' @ [LF])
               [pi_pid p, pi_ppid p, addr (ps_state y p), addr (pi_name p)] of
          None \<Rightarrow> None
        | Some line \<Rightarrow> ps_lines y text_at addr is (terminal_print line t))"

definition ps_main :: "sys \<Rightarrow> (u32 \<Rightarrow> string) \<Rightarrow> (string \<Rightarrow> u32) \<Rightarrow> 'v tool" where
  "ps_main y text_at addr argv t =
     (case ps_lines y text_at addr [0..<unat (process_count y)]
             (terminal_print (''  PID  PPID  STATE       NAME'' @ [LF]) t) of
        None \<Rightarrow> None
      | Some t \<Rightarrow> Some (0, t))"

section \<open>Dispatch\<close>

definition g_tools :: "'v calls \<Rightarrow> sys \<Rightarrow> (nat \<Rightarrow> string) \<Rightarrow> (u32 \<Rightarrow> string) \<Rightarrow> (string \<Rightarrow> u32)
    \<Rightarrow> (string \<times> 'v tool \<times> string) list" where
  "g_tools io y old_lines text_at addr =
     [(''ls'', ls_main, (''K'' @ [CHR 0xC3, CHR 0xB6] @ ''nyvt'' @ [CHR 0xC3, CHR 0xA1] @ ''r list'' @ [CHR 0xC3, CHR 0xA1] @ ''z'' @ [CHR 0xC3, CHR 0xA1] @ ''s'')),
      (''cp'', cp_main io, (''F'' @ [CHR 0xC3, CHR 0xA1] @ ''jl m'' @ [CHR 0xC3, CHR 0xA1] @ ''sol'' @ [CHR 0xC3, CHR 0xA1] @ ''s'')),
      (''mv'', mv_main io, (''F'' @ [CHR 0xC3, CHR 0xA1] @ ''jl mozgat'' @ [CHR 0xC3, CHR 0xA1] @ ''s'')),
      (''rm'', rm_main io, (''F'' @ [CHR 0xC3, CHR 0xA1] @ ''jl t'' @ [CHR 0xC3, CHR 0xB6] @ ''rl'' @ [CHR 0xC3, CHR 0xA9] @ ''s'')),
      (''mkdir'', mkdir_main io, (''K'' @ [CHR 0xC3, CHR 0xB6] @ ''nyvt'' @ [CHR 0xC3, CHR 0xA1] @ ''r l'' @ [CHR 0xC3, CHR 0xA9] @ ''trehoz'' @ [CHR 0xC3, CHR 0xA1] @ ''s'')),
      (''cat'', cat_main io, (''F'' @ [CHR 0xC3, CHR 0xA1] @ ''jl tartalom'')),
      (''echo'', echo_main, (''Sz'' @ [CHR 0xC3, CHR 0xB6] @ ''veg ki'' @ [CHR 0xC3, CHR 0xAD] @ ''r'' @ [CHR 0xC3, CHR 0xA1] @ ''s'')),
      (''pwd'', pwd_main, (''Aktu'' @ [CHR 0xC3, CHR 0xA1] @ ''lis k'' @ [CHR 0xC3, CHR 0xB6] @ ''nyvt'' @ [CHR 0xC3, CHR 0xA1] @ ''r'')),
      (''ps'', ps_main y text_at addr, (''Folyamatok list'' @ [CHR 0xC3, CHR 0xA1] @ ''ja'')),
      (''kill'', kill_main y, (''Folyamat le'' @ [CHR 0xC3, CHR 0xA1] @ ''ll'' @ [CHR 0xC3, CHR 0xAD] @ ''t'' @ [CHR 0xC3, CHR 0xA1] @ ''s'')),
      (''free'', free_main y, (''Mem'' @ [CHR 0xC3, CHR 0xB3] @ ''ria '' @ [CHR 0xC3, CHR 0xA1] @ ''llapot'')),
      (''uname'', uname_main, ''Rendszer info''),
      (''touch'', touch_main io, (''F'' @ [CHR 0xC3, CHR 0xA1] @ ''jl l'' @ [CHR 0xC3, CHR 0xA9] @ ''trehoz'' @ [CHR 0xC3, CHR 0xA1] @ ''s'')),
      (''grep'', grep_main io, (''Sz'' @ [CHR 0xC3, CHR 0xB6] @ ''veg keres'' @ [CHR 0xC3, CHR 0xA9] @ ''s'')),
      (''head'', head_main io, (''F'' @ [CHR 0xC3, CHR 0xA1] @ ''jl eleje'')),
      (''tail'', tail_main io, (''F'' @ [CHR 0xC3, CHR 0xA1] @ ''jl v'' @ [CHR 0xC3, CHR 0xA9] @ ''ge'')),
      (''wc'', wc_main io, (''Sz'' @ [CHR 0xC3, CHR 0xB3] @ ''/sor sz'' @ [CHR 0xC3, CHR 0xA1] @ ''ml'' @ [CHR 0xC3, CHR 0xA1] @ ''l'' @ [CHR 0xC3, CHR 0xB3])),
      (''sort'', sort_main io old_lines, (''Rendez'' @ [CHR 0xC3, CHR 0xA9] @ ''s'')),
      (''date'', date_main y, (''D'' @ [CHR 0xC3, CHR 0xA1] @ ''tum/id'' @ [CHR 0xC5, CHR 0x91])),
      (''df'', df_main, (''Lemez foglalts'' @ [CHR 0xC3, CHR 0xA1] @ ''g'')),
      (''du'', du_main, (''K'' @ [CHR 0xC3, CHR 0xB6] @ ''nyvt'' @ [CHR 0xC3, CHR 0xA1] @ ''r m'' @ [CHR 0xC3, CHR 0xA9] @ ''ret'')),
      (''chmod'', chmod_main, (''Jogosults'' @ [CHR 0xC3, CHR 0xA1] @ ''g'')),
      (''ln'', ln_main, (''Link l'' @ [CHR 0xC3, CHR 0xA9] @ ''trehoz'' @ [CHR 0xC3, CHR 0xA1] @ ''s'')),
      (''stat'', stat_main io, (''F'' @ [CHR 0xC3, CHR 0xA1] @ ''jl statisztika'')),
      (''find'', find_main, (''F'' @ [CHR 0xC3, CHR 0xA1] @ ''jl keres'' @ [CHR 0xC3, CHR 0xA9] @ ''s'')),
      (''clear'', clear_main, (''K'' @ [CHR 0xC3, CHR 0xA9] @ ''perny'' @ [CHR 0xC5, CHR 0x91] @ '' t'' @ [CHR 0xC3, CHR 0xB6] @ ''rl'' @ [CHR 0xC3, CHR 0xA9] @ ''s'')),
      (''history'', history_main, (''Parancs el'' @ [CHR 0xC5, CHR 0x91] @ ''zm'' @ [CHR 0xC3, CHR 0xA9] @ ''ny'')),
      (''env'', env_main, (''K'' @ [CHR 0xC3, CHR 0xB6] @ ''rnyezeti v'' @ [CHR 0xC3, CHR 0xA1] @ ''ltoz'' @ [CHR 0xC3, CHR 0xB3] @ ''k''))]"

definition tools_dispatch :: "(string \<times> 'v tool \<times> string) list \<Rightarrow> string \<Rightarrow> 'v tool" where
  "tools_dispatch tab cmd argv t =
     (case find (\<lambda>(name, _). name = cmd) tab of
        Some (_, main, _) \<Rightarrow> main argv t
      | None \<Rightarrow>
          if cmd = ''help'' then
            Some (0, fold (\<lambda>(name, _, desc) t.
                terminal_print (sprint 64 (''  %-12s %s'' @ [LF]) [Str name, Str desc]) t) tab
              (terminal_print (''BlockOS be'' @ [CHR 0xC3, CHR 0xA9] @ ''p'' @ [CHR 0xC3, CHR 0xAD] @ ''tett parancsok:'' @ [LF, LF]) t))
          else
            Some (127, terminal_print ([LF] @ ''G'' @ [CHR 0xC3, CHR 0xA9] @ ''peld '' @ [CHR 0x27] @ ''help'' @ [CHR 0x27] @ '' a parancsok list'' @ [CHR 0xC3, CHR 0xA1] @ ''j'' @ [CHR 0xC3, CHR 0xA1] @ ''hoz.'' @ [LF])
              (terminal_print cmd (terminal_print ''Ismeretlen parancs: '' t))))"

section \<open>The file system of the kernel\<close>

text \<open>
  The calls of the tools into \<^verbatim>\<open>vfs.c\<close>. Reading fills as many bytes as it reports; \<open>rmdir\<close> stands for
  \<^verbatim>\<open>vfs_rmdir\<close>, which \<^verbatim>\<open>vfs.h\<close> declares and no file defines.
\<close>

definition kernel_calls :: "'b fs_ops \<Rightarrow> (string \<Rightarrow> 'b vfs \<Rightarrow> bool \<times> 'b vfs) \<Rightarrow> 'b vfs calls" where
  "kernel_calls ops rmdir = \<lparr>
     open_call = vfs_open ops,
     read_call = (\<lambda>fd n v. (replicate (unat (vfs_read fd (of_nat n) v)) NUL, v)),
     write_call = (\<lambda>fd data v. v),
     close_call = (\<lambda>fd v. snd (vfs_close fd v)),
     mkdir_call = vfs_mkdir ops,
     unlink_call = vfs_unlink ops,
     rmdir_call = rmdir,
     rename_call = vfs_rename ops,
     stat_call = (\<lambda>path v. map_option (\<lambda>(name, _). (name, 0, 0)) (vfs_stat path v))\<rparr>"

end
