(* ===== verification/Tools_Props.thy ===== *)
theory Tools_Props
  imports Tools
begin

text \<open>
  What the tools print. A file descriptor that delivers a text (\<open>delivers\<close>) turns the reading loops into
  folds over that text; on a text of lines the line buffers turn them into folds over the lines. From
  there each tool is a function on lists: the first lines, the last lines, the sorted lines, the counts.
\<close>

section \<open>Reading a file\<close>

fun delivers :: "'v calls \<Rightarrow> int \<Rightarrow> string \<Rightarrow> 'v \<Rightarrow> bool" where
  "delivers io fd [] v = (fst (read_call io fd 1 v) = [])"
| "delivers io fd (c # cs) v = (fst (read_call io fd 1 v) = [c] \<and> delivers io fd cs (snd (read_call io fd 1 v)))"

fun fold_while :: "('s \<Rightarrow> bool) \<Rightarrow> ('a \<Rightarrow> 's \<Rightarrow> 's) \<Rightarrow> 'a list \<Rightarrow> 's \<Rightarrow> 's" where
  "fold_while go f [] s = s"
| "fold_while go f (x # xs) s = (if go s then fold_while go f xs (f x s) else s)"

lemma fold_while_True: "fold_while (\<lambda>_. True) f xs s = fold f xs s"
  by (induction xs arbitrary: s) simp_all

lemma fold_while_stop: "\<not> go s \<Longrightarrow> fold_while go f xs s = s"
  by (cases xs) simp_all

lemma each_byte_delivers:
  "delivers io fd bs v \<Longrightarrow> \<exists>w. each_byte io fd go step s v = Some (fold_while go step bs s, w)"
proof (induction bs arbitrary: s v)
  case Nil
  then show ?case by (subst each_byte.simps) (cases "read_call io fd 1 v", simp)
next
  case (Cons c bs)
  obtain w where w: "read_call io fd 1 v = ([c], w)" and d: "delivers io fd bs w"
    using Cons.prems by (cases "read_call io fd 1 v") simp
  show ?case
    using Cons.IH [OF d, of "step c s"] by (subst each_byte.simps) (simp add: w [unfolded One_nat_def])
qed

section \<open>Line buffers\<close>

text \<open>Lines a buffer of \<open>m\<close> characters holds.\<close>

definition fits :: "nat \<Rightarrow> string \<Rightarrow> bool" where
  "fits m l \<longleftrightarrow> length l \<le> m \<and> LF \<notin> set l \<and> NUL \<notin> set l"

lemma text_lines_simps [simp]:
  "text_lines [] = []"
  "text_lines (l # ls) = l @ LF # text_lines ls"
  "text_lines (ls @ ms) = text_lines ls @ text_lines ms"
  by (simp_all add: text_lines_def)

lemma line_step_simps:
  "line_step m e LF (line, s) = ([], e (cstr line) s)"
  "c \<noteq> LF \<Longrightarrow> length line < m \<Longrightarrow> line_step m e c (line, s) = (line @ [c], s)"
  by (simp_all add: line_step_def)

lemma fold_while_line:
  assumes "LF \<notin> set l" and "length (buf @ l) \<le> m"
  shows "fold_while (\<lambda>st. go (snd st)) (line_step m e) (l @ rest) (buf, s) =
           (if go s then fold_while (\<lambda>st. go (snd st)) (line_step m e) rest (buf @ l, s) else (buf, s))"
  using assms
proof (induction l arbitrary: buf)
  case (Cons c l)
  then have "c \<noteq> LF" and "length buf < m" by auto
  with Cons show ?case by (simp add: line_step_simps(2))
qed (simp add: fold_while_stop)

lemma fold_while_lines:
  assumes "\<forall>l \<in> set ls. fits m l" and "LF \<notin> set part" and "length part \<le> m"
  shows "snd (fold_while (\<lambda>st. go (snd st)) (line_step m e) (text_lines ls @ part) ([], s)) = fold_while go e ls s"
  using assms(1)
proof (induction ls arbitrary: s)
  case Nil
  show ?case using fold_while_line [of part "[]" m go e "[]" s] assms(2,3) by simp
next
  case (Cons l ls)
  then have l: "LF \<notin> set l" "length ([] @ l) \<le> m" "cstr l = l" by (auto simp: fits_def cstr_self)
  show ?case
    using Cons fold_while_line [OF l(1,2), of go e "LF # text_lines ls @ part" s] l(3)
    by (cases "go s") (simp_all add: line_step_simps fold_while_stop)
qed

text \<open>A reading loop over a file of lines, with anything shorter than the buffer behind the last one.\<close>

lemma each_byte_lines:
  assumes "delivers io fd (text_lines ls @ part) v"
    and "\<forall>l \<in> set ls. fits m l" and "LF \<notin> set part" and "length part \<le> m"
  shows "\<exists>buf w. each_byte io fd (\<lambda>st. go (snd st)) (line_step m e) ([], s) v
    = Some ((buf, fold_while go e ls s), w)"
proof -
  define r where "r = fold_while (\<lambda>st. go (snd st)) (line_step m e) (text_lines ls @ part) ([], s)"
  obtain w where "each_byte io fd (\<lambda>st. go (snd st)) (line_step m e) ([], s) v = Some (r, w)"
    using each_byte_delivers [OF assms(1), of "\<lambda>st. go (snd st)" "line_step m e" "([], s)"]
    unfolding r_def by blast
  moreover have "snd r = fold_while go e ls s" unfolding r_def by (rule fold_while_lines [OF assms(2-4)])
  ultimately show ?thesis by (cases r) auto
qed

section \<open>Printing\<close>

lemma printed_terminal_print [simp]: "printed (terminal_print s t) = printed t @ s"
  by (simp add: terminal_print_def)

lemma printed_close_file [simp]: "printed (close_file io fd t) = printed t"
  by (simp add: close_file_def)

lemma printed_files_update [simp]: "printed (t\<lparr>files := v\<rparr>) = printed t"
  by simp

lemma printed_fold_lines:
  "printed (fold (\<lambda>i t. terminal_print [LF] (terminal_print (a i) t)) is t) = printed t @ text_lines (map a is)"
  by (induction "is" arbitrary: t) simp_all

definition opens :: "'v calls \<Rightarrow> string \<Rightarrow> 'v tools \<Rightarrow> string \<Rightarrow> bool" where
  "opens io f t bs \<longleftrightarrow>
     (\<exists>fd v. open_call io f VFS_O_RDONLY (files t) = (fd, v) \<and> 0 \<le> fd \<and> delivers io fd bs v)"

lemma opensE:
  assumes "opens io f t bs"
  obtains fd v where "open_file io f VFS_O_RDONLY t = (fd, t\<lparr>files := v\<rparr>)" and "\<not> fd < 0"
    and "delivers io fd bs v"
  using assms by (auto simp: opens_def open_file_def)

section \<open>grep, head and tail\<close>

lemma fold_grep:
  "printed (fold (grep_line pat) ls t) = printed t @ text_lines (filter (occurs pat) ls)"
  by (induction ls arbitrary: t) (auto simp: grep_line_def)

lemma fold_head:
  "printed (snd (fold_while (\<lambda>st. fst st < n) head_line ls (k, t)))
     = printed t @ text_lines (take (nat (n - k)) ls)"
proof (induction ls arbitrary: k t)
  case (Cons l ls)
  show ?case
  proof (cases "k < n")
    case True
    then have "nat (n - k) = Suc (nat (n - (k + 1)))" by simp
    with True Cons.IH show ?thesis by (simp add: head_line_def)
  qed simp
qed simp

lemma tail_line_simp:
  "length l < 255 \<Longrightarrow> tail_line l (n, b) = (n + 1, b(n mod TAIL_MAX_LINES := Some l))"
  by (simp add: tail_line_def)

lemma fold_tail:
  assumes "\<forall>l \<in> set ls. length l < 255"
  shows "fst (fold tail_line ls (0, b)) = length ls"
    and "p < length ls \<Longrightarrow> length ls \<le> p + TAIL_MAX_LINES \<Longrightarrow>
      snd (fold tail_line ls (0, b)) (p mod TAIL_MAX_LINES) = Some (ls ! p)"
proof -
  have "fst (fold tail_line ls (0, b)) = length ls \<and>
    (\<forall>p < length ls. length ls \<le> p + TAIL_MAX_LINES \<longrightarrow>
      snd (fold tail_line ls (0, b)) (p mod TAIL_MAX_LINES) = Some (ls ! p))"
    using assms
  proof (induction ls rule: rev_induct)
    case (snoc l ls)
    obtain n c where f: "fold tail_line ls (0, b) = (n, c)" by fastforce
    have n: "n = length ls" and c: "p < n \<Longrightarrow> n \<le> p + TAIL_MAX_LINES \<Longrightarrow> c (p mod TAIL_MAX_LINES) = Some (ls ! p)" for p
      using snoc f by auto
    note neq = ring_places_differ [of _ n TAIL_MAX_LINES]
    show ?case using snoc.prems n c neq
      by (auto simp: f tail_line_simp nth_append less_Suc_eq)
  qed simp
  then show "fst (fold tail_line ls (0, b)) = length ls"
    and "p < length ls \<Longrightarrow> length ls \<le> p + TAIL_MAX_LINES \<Longrightarrow>
      snd (fold tail_line ls (0, b)) (p mod TAIL_MAX_LINES) = Some (ls ! p)"
    by blast+
qed

lemma tail_print_lines:
  assumes "\<And>p. p \<in> set is \<Longrightarrow> buf (p mod TAIL_MAX_LINES) = Some (ls ! p)"
  shows "\<exists>t'. tail_print buf is t = Some t' \<and> printed t' = printed t @ text_lines (map ((!) ls) is)"
  using assms
proof (induction "is" arbitrary: t)
  case (Cons i "is")
  then show ?case
    using Cons.IH [of "terminal_print [LF] (terminal_print (ls ! i) t)"] by (auto simp: Cons.prems)
qed simp

section \<open>wc\<close>

definition blank :: "char \<Rightarrow> bool" where
  "blank c \<longleftrightarrow> c = CHR '' '' \<or> c = TAB \<or> c = LF"

text \<open>The words a blank ends.\<close>

definition ended_words :: "string \<Rightarrow> nat" where
  "ended_words s = length (filter (\<lambda>(a, b). \<not> blank a \<and> blank b) (zip s (tl s)))"

lemma zip_tl_snoc: "s \<noteq> [] \<Longrightarrow> zip (s @ [c]) (tl (s @ [c])) = zip s (tl s) @ [(last s, c)]"
proof (induction s)
  case (Cons a s)
  then show ?case by (cases s) auto
qed simp

lemma ended_words_snoc:
  "ended_words (s @ [c]) = ended_words s + (if s \<noteq> [] \<and> \<not> blank (last s) \<and> blank c then 1 else 0)"
  by (cases "s = []") (auto simp: ended_words_def zip_tl_snoc simp del: tl_append2)

lemma fold_wc:
  "fold wc_step s ((0, 0, 0), False)
     = ((of_nat (count_list s LF), of_nat (ended_words s), of_nat (length s)), s \<noteq> [] \<and> \<not> blank (last s))"
proof (induction s rule: rev_induct)
  case (snoc c s)
  then show ?case by (auto simp: wc_step_def ended_words_snoc blank_def Let_def)
qed (simp add: ended_words_def)

section \<open>sort\<close>

text \<open>The order of \<open>strcmp\<close> is the lexicographic order of the library.\<close>

lemma lexord_char_less: "(a, b) \<in> lexord char_less \<longleftrightarrow> a < b"
proof -
  have "char_val x < char_val y \<longleftrightarrow> x < y" for x y :: char
    by (simp add: less_char_def flip: of_nat_of_char [where ?'a = int])
  then show ?thesis by (simp add: char_less_def list_less_def)
qed

lemma compare_lines_less: "compare_lines a b < 0 \<longleftrightarrow> cstr a < cstr b"
  and compare_lines_zero: "compare_lines a b = 0 \<longleftrightarrow> cstr a = cstr b"
proof -
  have c: "cstr (x @ [NUL]) = cstr x" for x by (induction x) simp_all
  obtain r where r: "strcmp (a @ [NUL]) (b @ [NUL]) = Some r"
    using strcmp_defined [of "a @ [NUL]" "b @ [NUL]"] by auto
  show "compare_lines a b < 0 \<longleftrightarrow> cstr a < cstr b"
    using strcmp_negative [OF r] by (simp add: compare_lines_def r c lexord_char_less)
  show "compare_lines a b = 0 \<longleftrightarrow> cstr a = cstr b"
    using strcmp_zero [OF r] by (simp add: compare_lines_def r c)
qed

lemma compare_lines_order:
  "compare_lines a b > 0 \<longleftrightarrow> cstr b < cstr a" "compare_lines a b \<le> 0 \<longleftrightarrow> cstr a \<le> cstr b"
  using compare_lines_less [of a b] compare_lines_zero [of a b] by (auto simp: not_le order.order_iff_strict)

interpretation ascending: total_preorder "\<lambda>a b. cstr a \<le> cstr b"
  by unfold_locales auto

interpretation descending: total_preorder "\<lambda>a b. cstr b \<le> cstr a"
  by unfold_locales auto

lemma sort_lines_passes:
  "sort_lines False = bubble_passes (\<lambda>a b. cstr a \<le> cstr b)"
  "sort_lines True = bubble_passes (\<lambda>a b. cstr b \<le> cstr a)"
proof -
  have "swap_lines False = swap_step (\<lambda>a b. cstr a \<le> cstr b)"
    "swap_lines True = swap_step (\<lambda>a b. cstr b \<le> cstr a)"
    by (intro ext; simp add: swap_lines_def swap_step_def Let_def compare_lines_order compare_lines_less not_le)+
  then show "sort_lines False = bubble_passes (\<lambda>a b. cstr a \<le> cstr b)"
    "sort_lines True = bubble_passes (\<lambda>a b. cstr b \<le> cstr a)"
    by (intro ext; simp add: sort_lines_def bubble_passes_def)+
qed

lemma sort_lines_orders:
  "mset (arr_list (sort_lines r n a) n) = mset (arr_list a n)"
  "map cstr (arr_list (sort_lines r n a) n)
    = (if r then rev (sort (map cstr (arr_list a n))) else sort (map cstr (arr_list a n)))"
proof -
  show perm: "mset (arr_list (sort_lines r n a) n) = mset (arr_list a n)"
    by (cases r) (simp_all add: sort_lines_passes ascending.bubble_mset descending.bubble_mset)
  then have keys: "mset (map cstr (arr_list (sort_lines r n a) n)) = mset (map cstr (arr_list a n))"
    unfolding mset_map by simp
  show "map cstr (arr_list (sort_lines r n a) n)
    = (if r then rev (sort (map cstr (arr_list a n))) else sort (map cstr (arr_list a n)))"
  proof (cases r)
    case True
    have "sorted_wrt (\<lambda>a b. cstr b \<le> cstr a) (arr_list (sort_lines r n a) n)"
      using descending.bubble_sorted [of n a] True by (simp add: sort_lines_passes)
    then have "sort (map cstr (arr_list a n)) = rev (map cstr (arr_list (sort_lines r n a) n))"
      using keys by (intro properties_for_sort) (simp_all add: sorted_wrt_rev sorted_wrt_map)
    with True show ?thesis by simp
  next
    case False
    have "sorted_wrt (\<lambda>a b. cstr a \<le> cstr b) (arr_list (sort_lines r n a) n)"
      using ascending.bubble_sorted [of n a] False by (simp add: sort_lines_passes)
    then have "sort (map cstr (arr_list a n)) = map cstr (arr_list (sort_lines r n a) n)"
      using keys by (intro properties_for_sort) (simp_all add: sorted_wrt_map)
    with False show ?thesis by simp
  qed
qed

lemma sort_lines_sort:
  assumes "\<forall>i < n. NUL \<notin> set (a i)"
  shows "arr_list (sort_lines r n a) n = (if r then rev (sort (arr_list a n)) else sort (arr_list a n))"
proof -
  have "map cstr xs = xs" if "\<forall>x \<in> set xs. NUL \<notin> set x" for xs
    using that by (intro map_idI) (simp add: cstr_self)
  moreover have "\<forall>x \<in> set (arr_list a n). NUL \<notin> set x" using assms by (auto simp: arr_list_def)
  moreover then have "\<forall>x \<in> set (arr_list (sort_lines r n a) n). NUL \<notin> set x"
    using mset_eq_setD [OF sort_lines_orders(1) [of r n a]] by simp
  ultimately show ?thesis using sort_lines_orders(2) [of r n a] by simp
qed

lemma fold_sort_line:
  assumes "k \<le> SORT_MAX"
  shows "case fold_while (\<lambda>st. fst st < SORT_MAX) sort_line ls (k, a) of (n, b) \<Rightarrow>
    n = min SORT_MAX (k + length ls) \<and> arr_list b n = arr_list a k @ take (SORT_MAX - k) ls"
  using assms
proof (induction ls arbitrary: k a)
  case (Cons l ls)
  show ?case
  proof (cases "k < SORT_MAX")
    case True
    define c where "c = a(k := l)"
    have c: "arr_list c (Suc k) = arr_list a k @ [l]" "sort_line l (k, a) = (Suc k, c)"
      by (simp_all add: c_def arr_list_def sort_line_def)
    have "SORT_MAX - k = Suc (SORT_MAX - Suc k)" using True by simp
    with True Cons.IH [of "Suc k" c] show ?thesis by (simp add: c)
  next
    case False
    with Cons.prems show ?thesis by simp
  qed
qed simp

section \<open>The environment\<close>

lemma env_get_set_same:
  assumes "length k \<le> 63" and "env_count t < ENV_MAX \<or> env_get k t \<noteq> None"
  shows "env_get k (env_set k x t) = Some (take 255 x)"
proof (cases "first_index (\<lambda>i. env_keys t i = k) (env_count t)")
  case None
  have "first_index (\<lambda>i. ((env_keys t)(env_count t := k)) i = k) (env_count t)
      = first_index (\<lambda>i. env_keys t i = k) (env_count t)"
    by (rule first_index_cong) simp
  with None assms show ?thesis by (simp add: env_get_def env_set_def first_index_Suc)
qed (simp add: env_get_def env_set_def)

lemma env_get_set_other:
  assumes "length k \<le> 63" and "k' \<noteq> k"
  shows "env_get k' (env_set k x t) = env_get k' t"
proof (cases "first_index (\<lambda>i. env_keys t i = k) (env_count t)")
  case None
  have "first_index (\<lambda>i. ((env_keys t)(env_count t := k)) i = k') (env_count t)
      = first_index (\<lambda>i. env_keys t i = k') (env_count t)"
    by (rule first_index_cong) simp
  with None assms show ?thesis
    by (auto simp: env_get_def env_set_def first_index_Suc split: option.splits dest: first_index_SomeD)
next
  case (Some i)
  with assms show ?thesis
    by (cases "first_index (\<lambda>i. env_keys t i = k') (env_count t)")
      (auto simp: env_get_def env_set_def dest: first_index_SomeD)
qed

lemma sort_main_lines:
  assumes "sort_args (tl argv) (False, None) = (r, Some f)"
    and "opens io f t (text_lines ls @ part)" and "\<forall>l \<in> set ls. fits 255 l"
    and "LF \<notin> set part" and "length part \<le> 255"
  shows "\<exists>t'. sort_main io old_lines argv t = Some (0, t')
    \<and> printed t' = printed t @ text_lines
        (if r then rev (sort (take SORT_MAX ls)) else sort (take SORT_MAX ls))"
proof -
  obtain fd v where o: "open_file io f VFS_O_RDONLY t = (fd, t\<lparr>files := v\<rparr>)" and fd: "\<not> fd < 0"
    and d: "delivers io fd (text_lines ls @ part) v"
    using opensE [OF assms(2)] by blast
  obtain n a where na: "fold_while (\<lambda>st. fst st < SORT_MAX) sort_line ls (0, old_lines) = (n, a)" by fastforce
  then have arr: "arr_list a n = take SORT_MAX ls" using fold_sort_line [of 0 ls old_lines] by auto
  have "a i \<in> set ls" if "i < n" for i
    using that nth_mem [of i "arr_list a n"] set_take_subset [of SORT_MAX ls] unfolding arr [symmetric] by auto
  with assms(3) have "\<forall>i < n. NUL \<notin> set (a i)" by (simp add: fits_def)
  then have "map (sort_lines r n a) [0..<n] = (if r then rev (sort (take SORT_MAX ls)) else sort (take SORT_MAX ls))"
    using sort_lines_sort [of n a r] arr by (simp add: arr_list_def)
  moreover obtain buf w where "each_byte io fd (\<lambda>st. fst (snd st) < SORT_MAX) (line_step 255 sort_line) ([], 0, old_lines) v
      = Some ((buf, n, a), w)"
    using each_byte_lines [OF d assms(3-5), of "\<lambda>st. fst st < SORT_MAX" sort_line "(0, old_lines)"] na by auto
  ultimately show ?thesis
    using fd by (simp add: sort_main_def assms(1) o printed_fold_lines)
qed

section \<open>Example files\<close>

text \<open>A file system of one file: its state is what is left to read. The routines that change it do nothing.\<close>

definition one_file :: "string calls" where
  "one_file = \<lparr>open_call = (\<lambda>p f v. (0, v)), read_call = (\<lambda>fd n v. (take n v, drop n v)),
     write_call = (\<lambda>fd d v. v), close_call = (\<lambda>fd v. v), mkdir_call = (\<lambda>p m v. (False, v)),
     unlink_call = (\<lambda>p v. (False, v)), rmdir_call = (\<lambda>p v. (False, v)),
     rename_call = (\<lambda>p q v. None), stat_call = (\<lambda>p v. None)\<rparr>"

definition one_file_tools :: "string \<Rightarrow> string tools" where
  "one_file_tools s = \<lparr>printed = [], files = s, env_keys = (\<lambda>_. []), env_vals = (\<lambda>_. []), env_count = 0,
     hist = (\<lambda>_. []), hist_count = 0, cwd = ''/'', exits = []\<rparr>"

lemma one_file_delivers: "delivers one_file fd s s"
  by (induction s) (simp_all add: one_file_def)

lemma one_file_opens: "opens one_file f (one_file_tools s) s"
  using one_file_delivers [of 0 s] by (simp add: opens_def one_file_def one_file_tools_def)

section \<open>Properties\<close>

text \<open>
  C13. The bubble sort of \<open>sort\<close> over its line buffers: of any number of lines, whatever bytes are in them, the
  buffers hold afterwards the same lines, in the order of \<open>strcmp\<close> on their texts up to the terminator, or in the reverse order under
  \<^verbatim>\<open>-r\<close>; the order is the lexicographic one of the library. (This is about the lines once they are read: with the
  \<^verbatim>\<open>vfs.c\<close> of the repository every read is empty and there is none to sort, see \<open>sort_on_kernel_prints_nothing\<close>.)
\<close>

theorem sort_lines_sorted:
  "mset (arr_list (sort_lines r n a) n) = mset (arr_list a n) \<and>
   map cstr (arr_list (sort_lines r n a) n)
    = (if r then rev (sort (map cstr (arr_list a n))) else sort (map cstr (arr_list a n)))"
  using sort_lines_orders [of r n a] by simp

text \<open>
  With file system calls that deliver the bytes of a file, \<open>sort\<close> prints the first 1024 lines of the file in the order of
  \<open>strcmp\<close>, or in the reverse order under \<^verbatim>\<open>-r\<close>, when the lines have at most 255 characters and
  none is a terminator; an unterminated last line is dropped. The calls of \<^verbatim>\<open>vfs.c\<close> deliver nothing.
\<close>

theorem sort_prints_sorted:
  assumes "sort_args (tl argv) (False, None) = (r, Some f)"
    and "opens io f t (text_lines ls @ part)" and "\<forall>l \<in> set ls. fits 255 l"
    and "LF \<notin> set part" and "length part \<le> 255"
  shows "\<exists>t'. sort_main io old_lines argv t = Some (0, t')
    \<and> printed t' = printed t @ text_lines
        (if r then rev (sort (take SORT_MAX ls)) else sort (take SORT_MAX ls))"
  using assms by (rule sort_main_lines)

theorem sort_prints_sorted_witness:
  "\<exists>t'. sort_main one_file (\<lambda>_. []) [''sort'', ''-r'', ''f''] (one_file_tools (text_lines [''b'', ''a'', ''c''] @ ''d''))
      = Some (0, t') \<and> printed t' = text_lines [''c'', ''b'', ''a'']"
proof -
  have "sort_args (tl [''sort'', ''-r'', ''f'']) (False, None) = (True, Some ''f'')" by simp
  moreover have "\<forall>l \<in> set [''b'', ''a'', ''c'']. fits 255 l" by (simp add: fits_def)
  moreover have "sort (take SORT_MAX [''b'', ''a'', ''c'']) = [''a'', ''b'', ''c'']" by (simp add: less_char_def)
  ultimately show ?thesis
    using sort_prints_sorted [of "[''sort'', ''-r'', ''f'']" True "''f''" one_file
      "one_file_tools (text_lines [''b'', ''a'', ''c''] @ ''d'')" "[''b'', ''a'', ''c'']" "''d''" "\<lambda>_. []"]
    by (simp add: one_file_opens) (simp add: one_file_tools_def)
qed

text \<open>
  \<open>head\<close> prints the first lines of the file, as many as it is asked for (10 by default); a
  number that is negative prints none.
\<close>

theorem head_prints_first:
  assumes "head_args (tl argv) (10, None) = (n, Some f)"
    and "opens io f t (text_lines ls @ part)" and "\<forall>l \<in> set ls. fits 1023 l"
    and "LF \<notin> set part" and "length part \<le> 1023"
  shows "\<exists>t'. head_main io argv t = Some (0, t') \<and> printed t' = printed t @ text_lines (take (nat n) ls)"
proof -
  obtain fd v where o: "open_file io f VFS_O_RDONLY t = (fd, t\<lparr>files := v\<rparr>)" and fd: "\<not> fd < 0"
    and d: "delivers io fd (text_lines ls @ part) v"
    using opensE [OF assms(2)] by blast
  let ?r = "fold_while (\<lambda>st. fst st < n) head_line ls (0, t\<lparr>files := v\<rparr>)"
  obtain buf w where "each_byte io fd (\<lambda>st. fst (snd st) < n) (line_step 1023 head_line) ([], 0, t\<lparr>files := v\<rparr>) v
      = Some ((buf, ?r), w)"
    using each_byte_lines [OF d assms(3-5), of "\<lambda>st. fst st < n" head_line "(0, t\<lparr>files := v\<rparr>)"] by blast
  moreover have "printed (snd ?r) = printed t @ text_lines (take (nat n) ls)" by (simp add: fold_head)
  ultimately show ?thesis
    using fd by (cases ?r) (simp add: head_main_def assms(1) o)
qed

theorem head_prints_first_witness:
  "\<exists>t'. head_main one_file [''head'', ''-n2'', ''f''] (one_file_tools (text_lines [''b'', ''a'', ''c'']))
      = Some (0, t') \<and> printed t' = text_lines [''b'', ''a'']"
proof -
  have "head_args (tl [''head'', ''-n2'', ''f'']) (10, None) = (2, Some ''f'')" by code_simp
  moreover have "\<forall>l \<in> set [''b'', ''a'', ''c'']. fits 1023 l" by (simp add: fits_def)
  ultimately show ?thesis
    using head_prints_first [of "[''head'', ''-n2'', ''f'']" 2 "''f''" one_file
      "one_file_tools (text_lines [''b'', ''a'', ''c''])" "[''b'', ''a'', ''c'']" "[]"]
    by (simp add: one_file_opens) (simp add: one_file_tools_def)
qed

text \<open>
  \<open>tail\<close> prints the last lines of the file in order, as many as it is asked for, up to the 512
  its ring holds: a line keeps its place \<open>i mod 512\<close> until 512 more lines were read.
\<close>

theorem tail_prints_last:
  assumes "tail_args (tl argv) (10, None) = (int n, Some f)" and "n \<le> TAIL_MAX_LINES"
    and "opens io f t (text_lines ls @ part)" and "\<forall>l \<in> set ls. fits 254 l"
    and "LF \<notin> set part" and "length part \<le> 255"
  shows "\<exists>t'. tail_main io argv t = Some (0, t')
    \<and> printed t' = printed t @ text_lines (drop (length ls - n) ls)"
proof -
  obtain fd v where o: "open_file io f VFS_O_RDONLY t = (fd, t\<lparr>files := v\<rparr>)" and fd: "\<not> fd < 0"
    and d: "delivers io fd (text_lines ls @ part) v"
    using opensE [OF assms(3)] by blast
  have ls: "\<forall>l \<in> set ls. fits 255 l" "\<forall>l \<in> set ls. length l < 255"
    using assms(4) by (auto simp: fits_def)
  obtain c b where cb: "fold tail_line ls (0, \<lambda>_. None) = (c, b)" by fastforce
  with fold_tail [OF ls(2), where b = "\<lambda>_. None"] have c: "c = length ls"
    and b: "p < length ls \<Longrightarrow> length ls \<le> p + TAIL_MAX_LINES \<Longrightarrow> b (p mod TAIL_MAX_LINES) = Some (ls ! p)" for p
    by simp_all
  obtain buf w where e: "each_byte io fd (\<lambda>_. True) (line_step 255 tail_line) ([], 0, \<lambda>_. None) v = Some ((buf, c, b), w)"
    using each_byte_lines [OF d ls(1) assms(5,6), of "\<lambda>_. True" tail_line "(0, \<lambda>_. None)"] cb
    by (auto simp: fold_while_True)
  have "nat (if int c > int n then int c - int n else 0) = length ls - n" by (simp add: c nat_diff_distrib')
  moreover have bb: "b (p mod TAIL_MAX_LINES) = Some (ls ! p)" if "p \<in> set [length ls - n..<c]" for p
    using that assms(2) by (intro b) (auto simp: c)
  moreover obtain t' where "tail_print b [length ls - n..<c] (close_file io fd (t\<lparr>files := w\<rparr>)) = Some t'"
    "printed t' = printed t @ text_lines (map ((!) ls) [length ls - n..<c])"
    using tail_print_lines [of "[length ls - n..<c]", OF bb, of "close_file io fd (t\<lparr>files := w\<rparr>)"] by auto
  moreover have "map ((!) ls) [length ls - n..<c] = drop (length ls - n) ls"
    unfolding c by (rule nth_equalityI) auto
  ultimately show ?thesis using fd e by (simp add: tail_main_def assms(1) o Let_def)
qed

theorem tail_prints_last_witness:
  "\<exists>t'. tail_main one_file [''tail'', ''-n'', ''2'', ''f''] (one_file_tools (text_lines [''b'', ''a'', ''c'']))
      = Some (0, t') \<and> printed t' = text_lines [''a'', ''c'']"
proof -
  have "tail_args (tl [''tail'', ''-n'', ''2'', ''f'']) (10, None) = (int 2, Some ''f'')" by code_simp
  moreover have "\<forall>l \<in> set [''b'', ''a'', ''c'']. fits 254 l" by (simp add: fits_def)
  ultimately show ?thesis
    using tail_prints_last [of "[''tail'', ''-n'', ''2'', ''f'']" 2 "''f''" one_file
      "one_file_tools (text_lines [''b'', ''a'', ''c''])" "[''b'', ''a'', ''c'']" "[]"]
    by (simp add: one_file_opens) (simp add: one_file_tools_def)
qed

lemma wc_number: "sprint 64 ''%7u'' [U32 n] = ''u''"
proof -
  have "parse_fmt ''%7u'' = Some [Lit (CHR ''u'')]" by (simp add: conversion_def)
  then have "sprint 64 ''%7u'' [U32 n] = take (unat ((64 :: u32) - 1)) ''u''" by (rule sprint_text) simp_all
  then show ?thesis by simp
qed

text \<open>
  \<open>wc\<close> counts the lines, words and characters of the file, but prints none of the three: the
  kernel's \<^verbatim>\<open>snprintf\<close> has no field width, so \<^verbatim>\<open>%7u\<close> is the letter after the unknown directive. What
  is printed is the same for every file.
\<close>

theorem wc_prints_no_counts:
  assumes "1 < length argv" and "set (butlast (tl argv)) \<inter> {''-l'', ''-w'', ''-c''} = {}"
    and "opens io (last argv) t s"
  shows "\<exists>t'. wc_main io argv t = Some (0, t') \<and> printed t' = printed t @ ''uuu '' @ last argv @ [LF]"
proof -
  obtain fd v where o: "open_file io (last argv) VFS_O_RDONLY t = (fd, t\<lparr>files := v\<rparr>)" and fd: "\<not> fd < 0"
    and d: "delivers io fd s v"
    using opensE [OF assms(3)] by blast
  have opts: "''-l'' \<notin> set (butlast (tl argv))" "''-w'' \<notin> set (butlast (tl argv))" "''-c'' \<notin> set (butlast (tl argv))"
    using assms(2) by auto
  obtain w where "each_byte io fd (\<lambda>_. True) wc_step ((0, 0, 0), False) v
      = Some (fold wc_step s ((0, 0, 0), False), w)"
    using each_byte_delivers [OF d, of "\<lambda>_. True" wc_step "((0, 0, 0), False)"] unfolding fold_while_True by blast
  then show ?thesis
    using assms(1) fd opts by (simp add: wc_main_def o fold_wc wc_number)
qed

theorem wc_prints_no_counts_witness:
  "\<exists>t'. wc_main one_file [''wc'', ''f''] (one_file_tools (text_lines [''one two'', ''three'']))
      = Some (0, t') \<and> printed t' = ''uuu f'' @ [LF]"
  using wc_prints_no_counts [of "[''wc'', ''f'']" one_file "one_file_tools (text_lines [''one two'', ''three''])"
      "text_lines [''one two'', ''three'']"]
  by (simp add: one_file_opens) (simp add: one_file_tools_def)

text \<open>
  The environment is a map: setting a variable makes its value, cut at 255 characters, the one
  found under its name and leaves every other variable as it was, as long as there is room or the
  variable exists.
\<close>

theorem env_set_get:
  assumes "length k \<le> 63" and "env_count t < ENV_MAX \<or> env_get k t \<noteq> None"
  shows "(\<lambda>k'. env_get k' (env_set k x t)) = (\<lambda>k'. env_get k' t)(k \<mapsto> take 255 x)"
  using env_get_set_same [OF assms] env_get_set_other [OF assms(1), of _ x t] by (simp add: fun_eq_iff)

theorem env_set_get_witness:
  "env_get ''HOME'' (env_set ''HOME'' ''/root'' (one_file_tools [])) = Some ''/root''
    \<and> env_get ''PATH'' (env_set ''HOME'' ''/root'' (one_file_tools [])) = None"
  using env_set_get [of "''HOME''" "one_file_tools []" "''/root''"]
  by (simp add: fun_eq_iff one_file_tools_def env_get_def)

text \<open>
  Composed with the virtual file system of the kernel, whose \<^verbatim>\<open>vfs_read\<close> delivers nothing, every
  file a tool opens is empty: \<open>sort\<close> prints nothing and succeeds, whatever the file holds.
\<close>

theorem sort_on_kernel_prints_nothing:
  assumes "sort_args (tl argv) (False, None) = (r, Some f)"
    and "0 \<le> fst (vfs_open ops f VFS_O_RDONLY (files t))"
  shows "\<exists>t'. sort_main (kernel_calls ops rmdir) old_lines argv t = Some (0, t') \<and> printed t' = printed t"
proof -
  have "opens (kernel_calls ops rmdir) f t (text_lines [] @ [])"
    using assms(2) by (cases "vfs_open ops f VFS_O_RDONLY (files t)") (simp add: opens_def kernel_calls_def vfs_read_def)
  from sort_main_lines [OF assms(1) this, of old_lines] show ?thesis by (auto simp: sort_key_simps)
qed

theorem sort_on_kernel_prints_nothing_witness:
  "\<exists>t'. sort_main (kernel_calls (example_ops\<lparr>ramfs_open_op := \<lambda>_ _ _ b. (True, b)\<rparr>) (\<lambda>_ v. (False, v))) (\<lambda>_. [])
       [''sort'', ''/a''] \<lparr>printed = [], files = example_vfs, env_keys = (\<lambda>_. []), env_vals = (\<lambda>_. []),
         env_count = 0, hist = (\<lambda>_. []), hist_count = 0, cwd = ''/'', exits = []\<rparr> = Some (0, t')
     \<and> printed t' = []"
proof -
  let ?ops = "example_ops\<lparr>ramfs_open_op := \<lambda>_ _ _ b. (True, b)\<rparr>"
  obtain fd where "vfs_alloc_fd example_vfs = Some fd"
    by (cases "vfs_alloc_fd example_vfs") (auto simp: vfs_alloc_fd_def example_vfs_def first_index_None_iff VFS_MAX_FDS_def dest!: spec [of _ 0])
  moreover have "m_fs_type (mounts example_vfs 0) = 0" by (simp add: example_vfs_def)
  ultimately have "0 \<le> fst (vfs_open ?ops ''/a'' VFS_O_RDONLY example_vfs)"
    by (simp add: vfs_open_def example_vfs_find fs_open_def example_ops_def ramfs_ops_def Let_def
        VFS_FS_EXT4_def VFS_FS_FAT32_def VFS_FS_RAMFS_def VFS_FS_PROCFS_def)
  then show ?thesis
    using sort_on_kernel_prints_nothing [where argv = "[''sort'', ''/a'']" and r = False and f = "''/a''"
      and ops = ?ops and rmdir = "\<lambda>_ v. (False, v)" and old_lines = "\<lambda>_. []"
      and t = "\<lparr>printed = [], files = example_vfs, env_keys = (\<lambda>_. []), env_vals = (\<lambda>_. []),
        env_count = 0, hist = (\<lambda>_. []), hist_count = 0, cwd = ''/'', exits = []\<rparr>"] by simp
qed

text \<open>
  The shell's dispatcher runs the tool of that name, every tool of the table is reached, and a
  command that is not in the table is answered with code 127.
\<close>

theorem dispatch_finds_tool:
  "(\<forall>name main desc. (name, main, desc) \<in> set (g_tools io y old_lines text_at addr)
      \<longrightarrow> tools_dispatch (g_tools io y old_lines text_at addr) name = main)
   \<and> (cmd \<notin> fst ` set (g_tools io y old_lines text_at addr) \<and> cmd \<noteq> ''help''
      \<longrightarrow> (\<exists>t'. tools_dispatch (g_tools io y old_lines text_at addr) cmd argv t = Some (127, t')))"
proof -
  let ?tab = "g_tools io y old_lines text_at addr"
  have names: "distinct (map fst ?tab)" by (simp add: g_tools_def)
  have "find (\<lambda>(n, _). n = name) tab = Some (name, m, d)"
    if "distinct (map fst tab)" "(name, m, d) \<in> set tab" for tab :: "(string \<times> 'a tool \<times> string) list" and name m d
    using that by (induction tab) force+
  from this [OF names] have known: "\<forall>name main desc. (name, main, desc) \<in> set ?tab \<longrightarrow> tools_dispatch ?tab name = main"
    by (simp add: tools_dispatch_def fun_eq_iff)
  have "find (\<lambda>(n, _). n = cmd) ?tab = None" if "cmd \<notin> fst ` set ?tab"
    using that by (force simp: find_None_iff)
  then have "cmd \<notin> fst ` set ?tab \<and> cmd \<noteq> ''help'' \<longrightarrow> (\<exists>t'. tools_dispatch ?tab cmd argv t = Some (127, t'))"
    by (simp add: tools_dispatch_def)
  with known show ?thesis by blast
qed

end
