(* ===== verification/Guiterm.thy ===== *)
theory Guiterm
  imports Blockwm Printing "HOL-Library.Signed_Division"
begin

unbundle bit_operations_syntax

text \<open>
  The terminal window \<^verbatim>\<open>terminal/guiterm.c\<close> and the command parser \<^verbatim>\<open>shell/shell.c\<close> it hands its input
  to. Rows, columns and counters are C integers that stay small, so they are integers here. The input
  buffer is the string in it, its length is kept beside it as in the code. Drawing gives the list of the drawing
  calls; a scroll far outside the range of a C integer is left to the caller. Texts with accented
  letters are their UTF-8 bytes.
\<close>

section \<open>State\<close>

abbreviation TERM_COLS :: int where "TERM_COLS \<equiv> 120"

abbreviation TERM_ROWS :: int where "TERM_ROWS \<equiv> 35"

abbreviation TERM_CHAR_W :: int where "TERM_CHAR_W \<equiv> 8"

abbreviation TERM_CHAR_H :: int where "TERM_CHAR_H \<equiv> 16"

abbreviation TERM_MAX_SCROLL :: int where "TERM_MAX_SCROLL \<equiv> 1000"

abbreviation TERM_HISTORY :: int where "TERM_HISTORY \<equiv> 256"

abbreviation TERM_BG :: u32 where "TERM_BG \<equiv> 0x0d1117"

abbreviation TERM_FG :: u32 where "TERM_FG \<equiv> 0xe0e0e0"

abbreviation TERM_GREEN :: u32 where "TERM_GREEN \<equiv> 0x22c55e"

abbreviation TERM_GRAY :: u32 where "TERM_GRAY \<equiv> 0x6b7280"

record term_cell =
  c_ch :: char
  c_fg :: u32
  c_bg :: u32
  c_bold :: bool
  c_underline :: bool

record guiterm =
  t_cells :: "nat \<Rightarrow> nat \<Rightarrow> term_cell"
  t_rows :: int
  t_cols :: int
  cursor_row :: int
  cursor_col :: int
  scroll_offset :: int
  total_rows :: int
  t_fg :: u32
  t_bg :: u32
  t_bold :: bool
  t_underline :: bool
  input_buf :: string
  input_len :: int
  t_history :: "nat \<Rightarrow> string"
  history_count :: int
  history_idx :: int
  cursor_visible :: bool
  blink_timer :: u32
  t_window :: "nat option"

definition empty_cell :: term_cell where
  "empty_cell = \<lparr>c_ch = NUL, c_fg = 0, c_bg = 0, c_bold = False, c_underline = False\<rparr>"

section \<open>The shell\<close>

text \<open>The commands of the shell are stubs: what a command does is which of them is called.\<close>

datatype shell_cmd =
    Cmd_help | Cmd_ls string | Cmd_cd string | Cmd_cat string | Cmd_mkdir string
  | Cmd_clear | Cmd_ps | Cmd_uname | Cmd_free | Cmd_uptime

abbreviation SHELL_MAX_ARGS :: nat where "SHELL_MAX_ARGS \<equiv> 16"

text \<open>\<^verbatim>\<open>while (token && argc < SHELL_MAX_ARGS)\<close>, with the free places of \<open>args\<close> as the counter.\<close>

fun shell_args ::
    "nat \<Rightarrow> (nat option \<times> strtok_state) option \<Rightarrow> (string list \<times> strtok_state) option" where
  "shell_args n None = None"
| "shell_args n (Some (None, st)) = Some ([], st)"
| "shell_args 0 (Some (Some q, st)) = Some ([], st)"
| "shell_args (Suc n) (Some (Some q, st)) =
     map_option (apfst ((#) (cstr (drop q (tok_buf st))))) (shell_args n (strtok None [CHR '' '', NUL] st))"

definition shell_dispatch :: "string list \<Rightarrow> shell_cmd option" where
  "shell_dispatch args =
     (if args = [] then None
      else
        let arg = (\<lambda>d. if length args > 1 then args ! 1 else d)
        in if args ! 0 = ''help'' then Some Cmd_help
           else if args ! 0 = ''ls'' then Some (Cmd_ls (arg ''.''))
           else if args ! 0 = ''cd'' then Some (Cmd_cd (arg ''/''))
           else if args ! 0 = ''cat'' then Some (Cmd_cat (arg ''''))
           else if args ! 0 = ''mkdir'' then Some (Cmd_mkdir (arg ''''))
           else if args ! 0 = ''clear'' then Some Cmd_clear
           else if args ! 0 = ''ps'' then Some Cmd_ps
           else if args ! 0 = ''uname'' then Some Cmd_uname
           else if args ! 0 = ''free'' then Some Cmd_free
           else if args ! 0 = ''uptime'' then Some Cmd_uptime
           else None)"

text \<open>
  \<open>cmd\<close> is the buffer with the command, terminator included; afterwards \<open>tok_buf\<close> of the state is that
  buffer, cut at the blanks.
\<close>

definition shell_process_cmd :: "string \<Rightarrow> strtok_state \<Rightarrow> (shell_cmd option \<times> strtok_state) option" where
  "shell_process_cmd cmd st =
     map_option (apfst shell_dispatch) (shell_args SHELL_MAX_ARGS (strtok (Some cmd) [CHR '' '', NUL] st))"

text \<open>
  The static variables of the shell, and its main loop. A result of the loop would be a return from it;
  \<^term>\<open>None\<close> is a turn that fails or a loop for ever. \<open>shell_turns\<close> gives what the first turns call.
\<close>

abbreviation SHELL_MAX_CMD :: nat where "SHELL_MAX_CMD \<equiv> 256"

record shell =
  cmd_buffer :: string
  cmd_pos :: int
  shell_tok :: strtok_state

definition shell_boot :: shell where
  "shell_boot = \<lparr>cmd_buffer = replicate SHELL_MAX_CMD NUL, cmd_pos = 0, shell_tok = \<lparr>tok_buf = [], tok_ptr = None\<rparr>\<rparr>"

definition shell_turn :: "shell \<Rightarrow> (shell_cmd option \<times> shell) option" where
  "shell_turn sh =
     map_option (apsnd (\<lambda>st. sh\<lparr>cmd_buffer := tok_buf st, cmd_pos := 0, shell_tok := st\<rparr>))
       (shell_process_cmd (cmd_buffer sh) (shell_tok sh))"

partial_function (option) shell_main :: "shell \<Rightarrow> unit option" where
  "shell_main sh = Option.bind (shell_turn sh) (\<lambda>(c, sh). shell_main sh)"

fun shell_turns :: "nat \<Rightarrow> shell \<Rightarrow> (shell_cmd option list \<times> shell) option" where
  "shell_turns 0 sh = Some ([], sh)"
| "shell_turns (Suc n) sh =
     Option.bind (shell_turn sh) (\<lambda>(c, sh). map_option (apfst ((#) c)) (shell_turns n sh))"

section \<open>Printing\<close>

definition guiterm_newline :: "guiterm \<Rightarrow> guiterm" where
  "guiterm_newline t =
     (let t = t\<lparr>cursor_col := 0, cursor_row := cursor_row t + 1\<rparr>;
          t = (if cursor_row t \<ge> TERM_MAX_SCROLL then t\<lparr>cursor_row := TERM_MAX_SCROLL - 1\<rparr> else t);
          t = (if cursor_row t > total_rows t then t\<lparr>total_rows := cursor_row t\<rparr> else t)
      in if cursor_row t \<ge> scroll_offset t + t_rows t
         then t\<lparr>scroll_offset := cursor_row t - t_rows t + 1\<rparr> else t)"

definition put_cell :: "char \<Rightarrow> guiterm \<Rightarrow> guiterm" where
  "put_cell c t =
     (let r = nat (cursor_row t); k = nat (cursor_col t) in
      t\<lparr>t_cells := (t_cells t)(r := (t_cells t r)(k :=
          \<lparr>c_ch = c, c_fg = t_fg t, c_bg = t_bg t, c_bold = t_bold t, c_underline = t_underline t\<rparr>)),
        cursor_col := cursor_col t + 1\<rparr>)"

definition guiterm_putchar :: "char \<Rightarrow> guiterm \<Rightarrow> guiterm" where
  "guiterm_putchar c t =
     (if c = LF then guiterm_newline t
      else if c = CHR 0x0D then t\<lparr>cursor_col := 0\<rparr>
      else if c = TAB then t\<lparr>cursor_col := (cursor_col t + 8) AND NOT 7\<rparr>
      else if c = CHR 0x08 then (if cursor_col t > 0 then t\<lparr>cursor_col := cursor_col t - 1\<rparr> else t)
      else if cursor_row t < TERM_MAX_SCROLL \<and> cursor_col t < TERM_COLS
      then let t = put_cell c t in if cursor_col t \<ge> TERM_COLS then guiterm_newline t else t
      else t)"

definition guiterm_print :: "string \<Rightarrow> guiterm \<Rightarrow> guiterm" where
  "guiterm_print s t = fold guiterm_putchar s t"

definition guiterm_print_color :: "string \<Rightarrow> u32 \<Rightarrow> guiterm \<Rightarrow> guiterm" where
  "guiterm_print_color s fg t =
     (let old = t_fg t; t = guiterm_print s (t\<lparr>t_fg := fg\<rparr>) in t\<lparr>t_fg := old\<rparr>)"

definition prompt :: "guiterm \<Rightarrow> guiterm" where
  "prompt t = guiterm_print '':~$ '' (guiterm_print_color ''root@blockos'' TERM_GREEN t)"

definition guiterm_init :: "wm \<Rightarrow> guiterm \<times> wm" where
  "guiterm_init w =
     (let (win, w) = blockwm_create_window ''BlockOS Terminal'' 50 50
            (word_of_int (TERM_COLS * TERM_CHAR_W + 20)) (word_of_int (TERM_ROWS * TERM_CHAR_H + 50))
            (BLOCKWM_FLAG_TITLEBAR OR BLOCKWM_FLAG_RESIZABLE OR BLOCKWM_FLAG_SHADOW) w;
          t = \<lparr>t_cells = (\<lambda>_ _. empty_cell), t_rows = TERM_ROWS, t_cols = TERM_COLS, cursor_row = 0, cursor_col = 0,
               scroll_offset = 0, total_rows = 0, t_fg = TERM_FG, t_bg = TERM_BG, t_bold = False,
               t_underline = False, input_buf = [], input_len = 0, t_history = (\<lambda>_. []), history_count = 0,
               history_idx = -1, cursor_visible = True, blink_timer = 0, t_window = win\<rparr>;
          t = guiterm_print_color (''BlockOS Terminal v1.0'' @ [LF]) TERM_GREEN t;
          t = guiterm_print_color (''Next Generation of Coders'' @ [LF, LF]) TERM_GRAY t
      in (prompt t, w))"

definition guiterm_clear :: "guiterm \<Rightarrow> guiterm" where
  "guiterm_clear t =
     t\<lparr>t_cells := (\<lambda>_ _. empty_cell), cursor_row := 0, cursor_col := 0, total_rows := 0, scroll_offset := 0\<rparr>"

definition guiterm_scroll :: "int \<Rightarrow> guiterm \<Rightarrow> guiterm" where
  "guiterm_scroll delta t =
     (let t = t\<lparr>scroll_offset := scroll_offset t + delta\<rparr>;
          t = (if scroll_offset t < 0 then t\<lparr>scroll_offset := 0\<rparr> else t);
          m = total_rows t - t_rows t; m = (if m < 0 then 0 else m)
      in if scroll_offset t > m then t\<lparr>scroll_offset := m\<rparr> else t)"

text \<open>\<open>g_term\<close>: the terminal the tools print to, once there is one.\<close>

definition terminal_print :: "string \<Rightarrow> guiterm option \<Rightarrow> guiterm option" where
  "terminal_print s g_term = map_option (guiterm_print s) g_term"

definition terminal_print_color :: "string \<Rightarrow> u32 \<Rightarrow> guiterm option \<Rightarrow> guiterm option" where
  "terminal_print_color s c g_term = map_option (guiterm_print_color s c) g_term"

section \<open>Keys\<close>

text \<open>The second result is the command handed to the shell, when there is one.\<close>

definition guiterm_handle_key :: "char \<Rightarrow> guiterm \<Rightarrow> guiterm \<times> string option" where
  "guiterm_handle_key key t =
     (if key = LF then
        let t = guiterm_putchar LF t;
            (t, cmd) =
              (if input_len t > 0 then
                 let t = (if history_count t < TERM_HISTORY
                          then t\<lparr>t_history := (t_history t)(nat (history_count t) := take 511 (input_buf t)),
                                 history_count := history_count t + 1\<rparr> else t);
                     t = t\<lparr>history_idx := history_count t\<rparr>
                 in (t\<lparr>input_buf := [], input_len := 0\<rparr>, Some (input_buf t))
               else (t, None))
        in (prompt t, cmd)
      else if key = CHR 0x08 then
        (if input_len t > 0
         then (guiterm_putchar (CHR 0x08)
                 (t\<lparr>input_buf := take (nat (input_len t - 1)) (input_buf t), input_len := input_len t - 1\<rparr>), None)
         else (t, None))
      else if 32 \<le> char_val key \<and> char_val key < 127 then
        (if input_len t < 511
         then (guiterm_putchar key
                 (t\<lparr>input_buf := take (nat (input_len t)) (input_buf t) @ [key], input_len := input_len t + 1\<rparr>), None)
         else (t, None))
      else (t, None))"

section \<open>Drawing\<close>

definition draw_cell :: "int \<Rightarrow> nat \<Rightarrow> term_cell \<Rightarrow> draw list" where
  "draw_cell y c cell =
     (if c_ch cell = NUL then []
      else
        let x = word_of_int (10 + int c * TERM_CHAR_W); y = word_of_int y in
        (if c_bg cell \<noteq> TERM_BG then [Draw_Rect x y (word_of_int TERM_CHAR_W) (word_of_int TERM_CHAR_H) (c_bg cell)] else [])
        @ [Draw_String x (y + 2) [c_ch cell] (c_fg cell)]
        @ (if c_underline cell
           then [Draw_Rect x (y + word_of_int TERM_CHAR_H - 2) (word_of_int TERM_CHAR_W) 1 (c_fg cell)] else []))"

definition draw_row :: "guiterm \<Rightarrow> int \<Rightarrow> draw list" where
  "draw_row t r =
     concat (map (\<lambda>c. draw_cell (28 + (r - scroll_offset t) * TERM_CHAR_H) c (t_cells t (nat r) c)) [0..<nat (t_cols t)])"

definition draw_cursor :: "guiterm \<Rightarrow> draw list" where
  "draw_cursor t =
     (if blink_timer t div 30 mod 2 = 0
      then [Draw_Rect (word_of_int (10 + cursor_col t * TERM_CHAR_W))
              (word_of_int (28 + (cursor_row t - scroll_offset t) * TERM_CHAR_H))
              (word_of_int TERM_CHAR_W) (word_of_int TERM_CHAR_H) 0xe0e0e066]
      else [])"

definition draw_scrollbar :: "int \<Rightarrow> int \<Rightarrow> guiterm \<Rightarrow> draw list" where
  "draw_scrollbar W H t =
     (if total_rows t > t_rows t then
        let sb_h = H - 50;
            th = (sb_h * t_rows t) sdiv total_rows t; th = (if th < 20 then 20 else th);
            ty = 28 + (sb_h * scroll_offset t) sdiv total_rows t
        in [Draw_Rect (word_of_int (W - 8)) 28 8 (word_of_int sb_h) 0x161b22,
            Draw_Rect (word_of_int (W - 7)) (word_of_int ty) 6 (word_of_int th) 0x374151]
      else [])"

definition guiterm_draw :: "guiterm \<Rightarrow> draw list \<times> guiterm" where
  "guiterm_draw t =
     (if t_window t = None then ([], t)
      else
        let W = TERM_COLS * TERM_CHAR_W + 20; H = TERM_ROWS * TERM_CHAR_H + 50;
            t' = t\<lparr>blink_timer := blink_timer t + 1\<rparr>
        in ([Draw_Rect 0 0 (word_of_int W) (word_of_int H) TERM_BG, Draw_Rect 0 0 (word_of_int W) 28 0x161b22,
             Draw_String 8 8 (''F'' @ [CHR 0xC3, CHR 0xA1] @ ''jl'') 0x8b949e, Draw_String 44 8 (''Szerkeszt'' @ [CHR 0xC3, CHR 0xA9] @ ''s'') 0x8b949e,
             Draw_String 120 8 (''N'' @ [CHR 0xC3, CHR 0xA9] @ ''zet'') 0x8b949e]
            @ concat (map (draw_row t) [scroll_offset t..min (scroll_offset t + t_rows t) TERM_MAX_SCROLL - 1])
            @ draw_cursor t'
            @ [Draw_Rect 0 (word_of_int (H - 22)) (word_of_int W) 22 0x161b22,
               Draw_Rect 0 (word_of_int (H - 22)) (word_of_int W) 1 0x21262d,
               Draw_String 8 (word_of_int (H - 16)) (sprint 520 ''$ %s_'' [Str (input_buf t)]) 0x60a5fa]
            @ draw_scrollbar W H t, t'))"

end
