(* ===== verification/Guiterm_Props.thy ===== *)
theory Guiterm_Props
  imports Guiterm
begin

text \<open>
  What holds of the terminal and the shell: the ranges of the cursor and the counters in every reachable state,
  the screen as the text that was printed, line editing as a function on the input, and the
  command a line runs.
\<close>

section \<open>Invariant\<close>

text \<open>What holds in every state: the cursor is in the buffer or at its right edge, the counters fit.\<close>

definition term_ok :: "guiterm \<Rightarrow> bool" where
  "term_ok t \<longleftrightarrow> t_rows t = TERM_ROWS \<and> t_cols t = TERM_COLS \<and>
     0 \<le> cursor_row t \<and> cursor_row t \<le> total_rows t \<and> total_rows t < TERM_MAX_SCROLL \<and>
     0 \<le> cursor_col t \<and> 0 \<le> scroll_offset t \<and> scroll_offset t \<le> total_rows t \<and>
     input_len t = int (length (input_buf t)) \<and> input_len t \<le> 511 \<and>
     0 \<le> history_count t \<and> history_count t \<le> TERM_HISTORY"

lemma tab_stop: "(c + 8) AND NOT 7 = (c + 8) div 8 * (8 :: int)"
proof -
  have m: "(7 :: int) = mask 3" by (simp add: mask_eq_exp_minus_1)
  have "(c + 8) AND NOT 7 = push_bit 3 (drop_bit 3 (c + 8))"
    unfolding m by (rule bit_eqI) (auto simp: bit_and_iff bit_not_iff bit_mask_iff bit_push_bit_iff bit_drop_bit_eq)
  then show ?thesis by (simp add: push_bit_eq_mult drop_bit_eq_div)
qed

lemma tab_stop_neg: "(c + 8) AND - 8 = (c + 8) div 8 * (8 :: int)"
  using tab_stop [of c] by simp

lemma term_ok_newline: "term_ok t \<Longrightarrow> term_ok (guiterm_newline t)"
  by (auto simp: term_ok_def guiterm_newline_def Let_def)

lemma term_ok_put_cell: "term_ok t \<Longrightarrow> term_ok (put_cell c t)"
  by (simp add: term_ok_def put_cell_def Let_def)

lemma term_ok_col: "term_ok t \<Longrightarrow> 0 \<le> c \<Longrightarrow> term_ok (t\<lparr>cursor_col := c\<rparr>)"
  by (simp add: term_ok_def)

lemma term_ok_putchar:
  assumes "term_ok t"
  shows "term_ok (guiterm_putchar c t)"
proof -
  have c: "0 \<le> cursor_col t" using assms by (simp add: term_ok_def)
  then have "0 \<le> (cursor_col t + 8) AND NOT 7" unfolding tab_stop by simp
  with c assms show ?thesis
    unfolding guiterm_putchar_def Let_def
    by (auto intro: term_ok_newline term_ok_put_cell term_ok_col)
qed

lemma term_ok_print: "term_ok t \<Longrightarrow> term_ok (guiterm_print s t)"
  unfolding guiterm_print_def by (induction s arbitrary: t) (simp_all add: term_ok_putchar)

lemma term_ok_colour: "term_ok (t\<lparr>t_fg := c\<rparr>) = term_ok t"
  by (simp add: term_ok_def)

lemma term_ok_print_color: "term_ok t \<Longrightarrow> term_ok (guiterm_print_color s c t)"
  by (simp add: guiterm_print_color_def Let_def term_ok_colour term_ok_print)

lemma term_ok_prompt: "term_ok t \<Longrightarrow> term_ok (prompt t)"
  by (simp add: prompt_def term_ok_print term_ok_print_color)

lemma term_ok_init: "term_ok (fst (guiterm_init w))"
  by (auto simp: guiterm_init_def Let_def split: prod.split intro!: term_ok_prompt term_ok_print_color)
    (simp add: term_ok_def)

lemma term_ok_clear: "term_ok t \<Longrightarrow> term_ok (guiterm_clear t)"
  by (simp add: term_ok_def guiterm_clear_def)

lemma term_ok_scroll: "term_ok t \<Longrightarrow> term_ok (guiterm_scroll d t)"
  by (auto simp: term_ok_def guiterm_scroll_def Let_def)

text \<open>Printing does not touch the input.\<close>

definition input_state :: "guiterm \<Rightarrow> string \<times> int \<times> (nat \<Rightarrow> string) \<times> int \<times> int" where
  "input_state t = (input_buf t, input_len t, t_history t, history_count t, history_idx t)"

lemma input_state_putchar: "input_state (guiterm_putchar c t) = input_state t"
  by (auto simp: input_state_def guiterm_putchar_def guiterm_newline_def put_cell_def Let_def)

lemma input_state_print: "input_state (guiterm_print s t) = input_state t"
  unfolding guiterm_print_def by (induction s arbitrary: t) (simp_all add: input_state_putchar)

lemma input_state_prompt: "input_state (prompt t) = input_state t"
proof -
  have "input_state (t\<lparr>t_fg := c\<rparr>) = input_state t" for c t by (simp add: input_state_def)
  then show ?thesis by (simp add: prompt_def guiterm_print_color_def Let_def input_state_print)
qed

lemma input_fields:
  assumes "input_state t' = input_state t"
  shows "input_buf t' = input_buf t" "input_len t' = input_len t" "t_history t' = t_history t"
    "history_count t' = history_count t" "history_idx t' = history_idx t"
  using assms by (simp_all add: input_state_def)

lemmas putchar_input = input_fields [OF input_state_putchar]

lemmas prompt_input = input_fields [OF input_state_prompt]

lemma term_ok_input:
  assumes "term_ok t" and "length b \<le> 511" and "0 \<le> n" and "n \<le> TERM_HISTORY"
  shows "term_ok (t\<lparr>input_buf := b, input_len := int (length b)\<rparr>)"
    and "term_ok (t\<lparr>t_history := h, history_count := n, history_idx := i, input_buf := b, input_len := int (length b)\<rparr>)"
    and "term_ok (t\<lparr>history_idx := i, input_buf := b, input_len := int (length b)\<rparr>)"
  using assms by (simp_all add: term_ok_def)

lemma term_ok_input_len: "term_ok t \<Longrightarrow> input_len t = int (length (input_buf t)) \<and> length (input_buf t) \<le> 511"
  by (auto simp: term_ok_def)

text \<open>Each key edits the line: what the terminal shows apart, this is what it does.\<close>

definition line_key :: "char \<Rightarrow> string \<Rightarrow> string" where
  "line_key c b =
     (if c = CHR 0x08 then butlast b
      else if 32 \<le> char_val c \<and> char_val c < 127 \<and> length b < 511 then b @ [c] else b)"

lemma nat_minus_one: "nat (int n - 1) = n - 1"
  by simp

lemma handle_key_edits:
  assumes "term_ok t" and "c \<noteq> LF"
  shows "term_ok (fst (guiterm_handle_key c t))"
    and "input_buf (fst (guiterm_handle_key c t)) = line_key c (input_buf t)"
    and "snd (guiterm_handle_key c t) = None"
    and "t_history (fst (guiterm_handle_key c t)) = t_history t"
    and "history_count (fst (guiterm_handle_key c t)) = history_count t"
proof -
  note len = term_ok_input_len [OF assms(1)]
  have "term_ok (t\<lparr>input_buf := take (length (input_buf t) - 1) (input_buf t), input_len := int (length (input_buf t)) - 1\<rparr>)"
    if "input_buf t \<noteq> []"
    using term_ok_input(1) [OF assms(1), of "butlast (input_buf t)" 0] that len
    by (cases "input_buf t" rule: rev_cases) simp_all
  moreover have "term_ok (t\<lparr>input_buf := input_buf t @ [c], input_len := int (length (input_buf t)) + 1\<rparr>)"
    if "length (input_buf t) < 511"
    using term_ok_input(1) [OF assms(1), of "input_buf t @ [c]" 0] that by (simp add: add.commute)
  ultimately show "term_ok (fst (guiterm_handle_key c t))"
    using assms len
    by (auto simp: guiterm_handle_key_def nat_minus_one intro!: term_ok_putchar)
  show "input_buf (fst (guiterm_handle_key c t)) = line_key c (input_buf t)"
    "snd (guiterm_handle_key c t) = None" "t_history (fst (guiterm_handle_key c t)) = t_history t"
    "history_count (fst (guiterm_handle_key c t)) = history_count t"
    using assms(2) len
    by (simp_all add: guiterm_handle_key_def line_key_def putchar_input butlast_conv_take nat_minus_one)
qed

text \<open>The state of the input behind the line feed: history and buffer.\<close>

lemma handle_enter:
  assumes "term_ok t"
  shows "term_ok (fst (guiterm_handle_key LF t))"
    and "input_buf (fst (guiterm_handle_key LF t)) = []"
    and "snd (guiterm_handle_key LF t) = (if input_buf t = [] then None else Some (input_buf t))"
    and "input_buf t \<noteq> [] \<Longrightarrow> history_count t < TERM_HISTORY \<Longrightarrow>
      history_count (fst (guiterm_handle_key LF t)) = history_count t + 1
      \<and> t_history (fst (guiterm_handle_key LF t)) = (t_history t)(nat (history_count t) := input_buf t)"
proof -
  note len = term_ok_input_len [OF assms]
  define u where "u = guiterm_putchar LF t"
  have u: "term_ok u" "0 \<le> history_count u" "history_count u \<le> TERM_HISTORY"
    using term_ok_putchar [OF assms, of LF] by (auto simp: u_def term_ok_def)
  have in_u: "input_buf u = input_buf t" "input_len u = input_len t" "t_history u = t_history t"
    "history_count u = history_count t" by (simp_all add: u_def putchar_input)
  note key = guiterm_handle_key_def u_def [symmetric] Let_def in_u
  show "term_ok (fst (guiterm_handle_key LF t))"
    using u len term_ok_input(2) [OF u(1), of "[]" "history_count u + 1"] term_ok_input(3) [OF u(1), of "[]" 0]
    by (simp add: key term_ok_prompt)
  show "input_buf (fst (guiterm_handle_key LF t)) = []"
    "snd (guiterm_handle_key LF t) = (if input_buf t = [] then None else Some (input_buf t))"
    using len by (auto simp: key prompt_input)
  show "history_count (fst (guiterm_handle_key LF t)) = history_count t + 1
      \<and> t_history (fst (guiterm_handle_key LF t)) = (t_history t)(nat (history_count t) := input_buf t)"
    if "input_buf t \<noteq> []" "history_count t < TERM_HISTORY"
    using that len by (simp add: key prompt_input)
qed

lemma type_keys:
  assumes "term_ok t" and "LF \<notin> set ks"
  defines "u \<equiv> fold (\<lambda>c t. fst (guiterm_handle_key c t)) ks t"
  shows "term_ok u \<and> input_buf u = fold line_key ks (input_buf t) \<and> t_history u = t_history t
    \<and> history_count u = history_count t"
  using assms(1,2) unfolding u_def
proof (induction ks arbitrary: t)
  case (Cons c ks)
  then have c: "c \<noteq> LF" and t: "term_ok t" by auto
  note k = handle_key_edits [OF t c]
  from Cons.IH [OF k(1)] Cons.prems(2) show ?case by (simp add: k)
qed simp

section \<open>The screen\<close>

text \<open>
  The buffer read as one line: place \<open>p\<close> is column \<open>p mod 120\<close> of row \<open>p div 120\<close>. Printing ordinary
  characters fills consecutive places, across the ends of rows.
\<close>

definition place :: "guiterm \<Rightarrow> nat" where
  "place t = nat (cursor_row t) * 120 + nat (cursor_col t)"

definition cell_at :: "guiterm \<Rightarrow> nat \<Rightarrow> term_cell" where
  "cell_at t p = t_cells t (p div 120) (p mod 120)"

definition ordinary :: "char \<Rightarrow> bool" where
  "ordinary c \<longleftrightarrow> c \<noteq> LF \<and> c \<noteq> CHR 0x0D \<and> c \<noteq> TAB \<and> c \<noteq> CHR 0x08"

definition pen :: "guiterm \<Rightarrow> char \<Rightarrow> term_cell" where
  "pen t c = \<lparr>c_ch = c, c_fg = t_fg t, c_bg = t_bg t, c_bold = t_bold t, c_underline = t_underline t\<rparr>"

lemma putchar_ordinary:
  assumes "term_ok t" and "cursor_col t < TERM_COLS" and "ordinary c" and "place t + 1 < 120000"
  shows "place (guiterm_putchar c t) = place t + 1"
    and "cursor_col (guiterm_putchar c t) < TERM_COLS"
    and "cell_at (guiterm_putchar c t) p = (if p = place t then pen t c else cell_at t p)"
    and "pen (guiterm_putchar c t) = pen t"
proof -
  define r k where "r = nat (cursor_row t)" and "k = nat (cursor_col t)"
  have rk: "cursor_row t = int r" "cursor_col t = int k" "k < 120" "r < 1000" "place t = r * 120 + k"
    using assms(1,2) by (auto simp: term_ok_def r_def k_def place_def)
  have eq: "r = p div 120 \<and> k = p mod 120 \<longleftrightarrow> p = place t"
    using rk(3,5) by (auto simp: mult.commute)
  have put: "guiterm_putchar c t = (if k = 119 then guiterm_newline (put_cell c t) else put_cell c t)"
    using assms(3) rk by (auto simp: guiterm_putchar_def ordinary_def put_cell_def Let_def)
  have r: "k = 119 \<Longrightarrow> r < 999" using assms(4) rk(5) by simp
  show "place (guiterm_putchar c t) = place t + 1" "cursor_col (guiterm_putchar c t) < TERM_COLS"
    using rk r by (auto simp: put guiterm_newline_def put_cell_def Let_def place_def nat_add_distrib)
  show "cell_at (guiterm_putchar c t) p = (if p = place t then pen t c else cell_at t p)"
    using eq by (auto simp: put guiterm_newline_def put_cell_def Let_def cell_at_def pen_def rk)
  show "pen (guiterm_putchar c t) = pen t"
    by (rule ext) (simp add: put guiterm_newline_def put_cell_def Let_def pen_def)
qed

lemma print_ordinary:
  assumes "term_ok t" and "cursor_col t < TERM_COLS" and "\<forall>c \<in> set s. ordinary c"
    and "place t + length s < 120000"
  shows "place (guiterm_print s t) = place t + length s
    \<and> cell_at (guiterm_print s t) p
      = (if place t \<le> p \<and> p < place t + length s then pen t (s ! (p - place t)) else cell_at t p)"
  using assms
proof (induction s arbitrary: t)
  case (Cons c s)
  then have c: "ordinary c" and t: "place t + 1 < 120000" by auto
  note put = putchar_ordinary [OF Cons.prems(1,2) c t]
  from Cons.IH [OF term_ok_putchar [OF Cons.prems(1)] put(2)] Cons.prems(3,4)
  show ?case by (auto simp: guiterm_print_def put nth_Cons' Suc_diff_le not_less less_Suc_eq_le)
qed (auto simp: guiterm_print_def)

section \<open>The shell\<close>

lemma shell_args_take:
  "strtok_loop k [CHR '' '', NUL] r = Some ts \<Longrightarrow> map_option fst (shell_args n r) = Some (take n ts)"
proof (induction n r arbitrary: k ts rule: shell_args.induct)
  case (4 n q st)
  then obtain k' us where k: "k = Suc k'" and "strtok_loop k' [CHR '' '', NUL] (strtok None [CHR '' '', NUL] st) = Some us"
    and "ts = cstr (drop q (tok_buf st)) # us"
    by (cases k) auto
  with "4.IH" show ?case by (fastforce simp: option.map_comp comp_def)
qed (auto elim: strtok_loop.elims)

text \<open>
  The shell splits a line at its blanks and looks at the first sixteen fields only: the first
  picks the command, the second is its argument.
\<close>

theorem shell_runs_fields:
  assumes "NUL \<notin> set s"
  shows "map_option fst (shell_process_cmd (s @ NUL # junk) st)
    = Some (shell_dispatch (take SHELL_MAX_ARGS (CString.fields (\<lambda>c. c = CHR '' '') s)))"
proof -
  have "strtok_loop (Suc (length s)) [CHR '' '', NUL] (strtok (Some (s @ NUL # junk)) [CHR '' '', NUL] st)
      = Some (CString.fields (\<lambda>c. c \<in> set '' '') s)"
    using strtok_splits [of "'' ''" s junk st] assms by simp
  from shell_args_take [OF this, of SHELL_MAX_ARGS] show ?thesis by (auto simp: shell_process_cmd_def)
qed

theorem shell_runs_fields_witness:
  "map_option fst (shell_process_cmd (''  cd  /home '' @ [NUL]) \<lparr>tok_buf = [], tok_ptr = None\<rparr>) = Some (Some (Cmd_cd ''/home''))"
proof -
  have "NUL \<notin> set ''  cd  /home ''" by simp
  from shell_runs_fields [OF this, of "[]" "\<lparr>tok_buf = [], tok_ptr = None\<rparr>"]
  show ?thesis by (simp add: shell_dispatch_def)
qed

text \<open>
  The main loop hands out a buffer nobody fills. With the buffer the kernel starts with, every turn
  works and calls no command, so the loop does not return because it runs for ever.
\<close>

definition shell_idle :: "shell \<Rightarrow> bool" where
  "shell_idle sh \<longleftrightarrow> cmd_buffer sh \<noteq> [] \<and> hd (cmd_buffer sh) = NUL"

lemma shell_turn_idle:
  assumes "shell_idle sh"
  obtains sh' where "shell_turn sh = Some (None, sh')" and "shell_idle sh'" and "cmd_buffer sh' = cmd_buffer sh"
proof -
  from assms obtain b where "cmd_buffer sh = NUL # b" by (cases "cmd_buffer sh") (auto simp: shell_idle_def)
  then show thesis
    by (intro that [of "snd (the (shell_turn sh))"]) (simp_all add: shell_turn_def shell_process_cmd_def strtok_def strtok_skip.simps
        shell_dispatch_def shell_idle_def)
qed

lemma shell_boot_idle: "shell_idle shell_boot"
  by (simp add: shell_idle_def shell_boot_def)

lemma shell_turns_idle:
  "shell_idle sh \<Longrightarrow> \<exists>sh'. shell_turns n sh = Some (replicate n None, sh') \<and> cmd_buffer sh' = cmd_buffer sh"
proof (induction n arbitrary: sh)
  case (Suc n)
  obtain sh1 where "shell_turn sh = Some (None, sh1)" "shell_idle sh1" "cmd_buffer sh1 = cmd_buffer sh"
    by (rule shell_turn_idle [OF Suc.prems])
  with Suc.IH [of sh1] show ?case by auto
qed simp

lemma shell_never_returns: "shell_main sh = Some u \<Longrightarrow> False"
  by (erule shell_main.raw_induct [where P = "\<lambda>_ _. False", rotated]) (auto split: Option.bind_splits)

text \<open>
  The shell's main loop does not return, and it is not a failing turn that stops it: however many
  turns it makes from its boot state, none fails, none calls a command, and the buffer stays as it was.
\<close>

theorem shell_loops_idle:
  "shell_main shell_boot = None
   \<and> (\<exists>sh. shell_turns n shell_boot = Some (replicate n None, sh) \<and> cmd_buffer sh = cmd_buffer shell_boot)"
  using shell_never_returns [of shell_boot] shell_turns_idle [OF shell_boot_idle, of n]
  by (cases "shell_main shell_boot") auto

section \<open>Properties of the terminal\<close>

lemma line_key_no_NUL:
  assumes "NUL \<notin> set s"
  shows "NUL \<notin> set (line_key k s)"
proof (cases "k = NUL")
  case True
  then have "line_key k s = s" by (simp add: line_key_def)
  with assms show ?thesis by simp
next
  case False
  have "set (line_key k s) \<subseteq> insert k (set s)"
    by (auto simp: line_key_def dest: in_set_butlastD split: if_split_asm)
  with assms False show ?thesis by blast
qed

lemma line_keys_no_NUL: "NUL \<notin> set s \<Longrightarrow> NUL \<notin> set (fold line_key ks s)"
  by (induction ks arbitrary: s) (simp_all add: line_key_no_NUL)

text \<open>
  C24. Ordinary characters printed while there is room in the buffer appear one behind the other, in
  the current colours and across the ends of rows; no other cell changes and the cursor stands behind them.
\<close>

theorem terminal_shows_text:
  assumes "term_ok t" and "cursor_col t < TERM_COLS" and "\<forall>c \<in> set s. ordinary c"
    and "place t + length s < 120000"
  shows "place (guiterm_print s t) = place t + length s
    \<and> (\<forall>p. cell_at (guiterm_print s t) p
      = (if place t \<le> p \<and> p < place t + length s then pen t (s ! (p - place t)) else cell_at t p))"
  using print_ordinary [OF assms] by blast

theorem terminal_shows_text_witness:
  "c_ch (cell_at (guiterm_print ''abc'' (guiterm_clear (fst (guiterm_init example_wm)))) 1) = CHR ''b''"
proof -
  let ?t = "guiterm_clear (fst (guiterm_init example_wm))"
  have t: "term_ok ?t" "cursor_col ?t = 0" "place ?t = 0"
    by (simp_all add: term_ok_clear term_ok_init) (simp_all add: guiterm_clear_def place_def)
  have "\<forall>c \<in> set ''abc''. ordinary c" by (simp add: ordinary_def)
  with terminal_shows_text [of ?t "''abc''"] t show ?thesis by (simp add: pen_def)
qed

text \<open>
  C25. A line that was typed and edited with backspaces is what Enter hands to the shell, which runs the
  command its first blank-separated field names; the line is put into the history while there is
  room, and the input is empty again.
\<close>

theorem typed_line_runs:
  assumes "term_ok t" and "input_buf t = []" and "LF \<notin> set ks" and "fold line_key ks [] = cmd" and "cmd \<noteq> []"
  shows "case guiterm_handle_key LF (fold (\<lambda>c t. fst (guiterm_handle_key c t)) ks t) of (t', handed) \<Rightarrow>
    handed = Some cmd \<and> input_buf t' = []
    \<and> map_option fst (shell_process_cmd (the handed @ NUL # junk) st)
       = Some (shell_dispatch (take SHELL_MAX_ARGS (CString.fields (\<lambda>c. c = CHR '' '') cmd)))
    \<and> (history_count t < TERM_HISTORY \<longrightarrow>
        t_history t' = (t_history t)(nat (history_count t) := cmd) \<and> history_count t' = history_count t + 1)"
proof -
  define u where "u = fold (\<lambda>c t. fst (guiterm_handle_key c t)) ks t"
  have u: "term_ok u" "input_buf u = cmd" "t_history u = t_history t" "history_count u = history_count t"
    using type_keys [OF assms(1,3)] assms(2,4) by (simp_all add: u_def)
  have "NUL \<notin> set cmd" using line_keys_no_NUL [of "[]" ks] assms(4) by simp
  from handle_enter [OF u(1)] assms(5) shell_runs_fields [OF this] show ?thesis
    unfolding u_def [symmetric] u(2-4) by (auto split: prod.split)
qed

theorem typed_line_runs_witness:
  "(case guiterm_handle_key LF (fold (\<lambda>c t. fst (guiterm_handle_key c t)) (''lz'' @ [CHR 0x08, CHR ''s''])
     (fst (guiterm_init example_wm))) of (t', handed) \<Rightarrow>
     handed = Some ''ls''
     \<and> map_option fst (shell_process_cmd (the handed @ [NUL]) \<lparr>tok_buf = [], tok_ptr = None\<rparr>) = Some (Some (Cmd_ls ''.'')))"
proof -
  let ?t = "fst (guiterm_init example_wm)"
  have "input_state ?t = ([], 0, \<lambda>_. [], 0, -1)"
    by (simp add: guiterm_init_def Let_def input_state_prompt input_state_print guiterm_print_color_def
        split: prod.split) (simp add: input_state_def input_state_print [unfolded input_state_def])
  then have "input_buf ?t = []" by (simp add: input_state_def)
  moreover have "fold line_key (''lz'' @ [CHR 0x08, CHR ''s'']) [] = ''ls''" by (simp add: line_key_def)
  ultimately show ?thesis
    using typed_line_runs [of ?t "''lz'' @ [CHR 0x08, CHR ''s'']" "''ls''" "[]" "\<lparr>tok_buf = [], tok_ptr = None\<rparr>"]
      term_ok_init [of example_wm]
    by (simp add: shell_dispatch_def split: prod.splits)
qed

text \<open>The states the terminal reaches.\<close>

inductive term_reach :: "wm \<Rightarrow> guiterm \<Rightarrow> bool" for w :: wm where
  start: "term_reach w (fst (guiterm_init w))"
| print: "term_reach w t \<Longrightarrow> term_reach w (guiterm_print s t)"
| print_color: "term_reach w t \<Longrightarrow> term_reach w (guiterm_print_color s c t)"
| clear: "term_reach w t \<Longrightarrow> term_reach w (guiterm_clear t)"
| scroll: "term_reach w t \<Longrightarrow> term_reach w (guiterm_scroll d t)"
| draw: "term_reach w t \<Longrightarrow> term_reach w (snd (guiterm_draw t))"
| key: "term_reach w t \<Longrightarrow> term_reach w (fst (guiterm_handle_key c t))"

lemma term_reach_ok: "term_reach w t \<Longrightarrow> term_ok t"
proof (induction rule: term_reach.induct)
  case (key t c)
  then show ?case by (cases "c = LF") (simp_all add: handle_enter(1) handle_key_edits(1))
next
  case (draw t)
  then show ?case by (simp add: guiterm_draw_def Let_def term_ok_def)
qed (simp_all add: term_ok_init term_ok_print term_ok_print_color term_ok_clear term_ok_scroll)

text \<open>
  In every state the terminal reaches from its start by printing, clearing, scrolling and keys, the
  cursor and the counters are in their ranges: no cell, history entry or input byte is written outside.
\<close>

theorem terminal_in_bounds:
  assumes "term_reach w t"
  shows "term_ok t"
  using assms by (rule term_reach_ok)

theorem terminal_in_bounds_witness:
  "term_ok (guiterm_scroll 5 (guiterm_print ''text'' (fst (guiterm_init example_wm))))"
  by (rule terminal_in_bounds [of example_wm]) (intro term_reach.intros)

text \<open>
  Scrolling stops one row too early: once the text is longer than the window, the row of the
  cursor's last line is outside of it after every scroll, downwards too.
\<close>

theorem scroll_hides_last_row:
  assumes "term_reach w t" and "t_rows t \<le> total_rows t"
  shows "scroll_offset (guiterm_scroll d t) + t_rows t \<le> total_rows t"
  using assms by (auto simp: guiterm_scroll_def Let_def dest: term_reach_ok)

theorem scroll_hides_last_row_witness:
  "scroll_offset (guiterm_scroll 100 (guiterm_print (replicate 40 LF) (guiterm_clear (fst (guiterm_init example_wm))))) = 5"
proof -
  let ?c = "guiterm_clear (fst (guiterm_init example_wm))"
  let ?t = "guiterm_print (replicate 40 LF) ?c"
  have r: "term_reach example_wm ?c" "term_reach example_wm ?t" by (intro term_reach.intros)+
  have rows: "t_rows ?c = 35" using term_reach_ok [OF r(1)] by (simp add: term_ok_def)
  have c: "cursor_row ?c = 0" "total_rows ?c = 0" "scroll_offset ?c = 0" by (simp_all add: guiterm_clear_def)
  define c where "c = ?c"
  have t: "total_rows ?t = 40" "scroll_offset ?t = 6" "t_rows ?t = 35"
    using rows c unfolding c_def [symmetric]
    by (simp_all add: numeral_nat guiterm_print_def guiterm_putchar_def guiterm_newline_def Let_def)
  with scroll_hides_last_row [OF r(2), of 100] show ?thesis
    by (simp add: guiterm_scroll_def Let_def)
qed

text \<open>
  A tab at column 112 or behind moves the cursor behind the last column, where every following
  character is dropped until the next line feed, carriage return or backspace.
\<close>

theorem tab_drops_text:
  assumes "112 \<le> cursor_col t" and "\<forall>c \<in> set s. ordinary c"
  shows "guiterm_print (TAB # s) t = guiterm_putchar TAB t"
proof -
  have "TERM_COLS \<le> cursor_col (guiterm_putchar TAB t)"
    using assms(1) by (simp add: guiterm_putchar_def tab_stop_neg)
  with assms(2) have "guiterm_print s (guiterm_putchar TAB t) = guiterm_putchar TAB t"
    unfolding guiterm_print_def by (induction s) (auto simp: guiterm_putchar_def [of _ "guiterm_putchar TAB t"] ordinary_def)
  then show ?thesis by (simp add: guiterm_print_def)
qed

theorem tab_drops_text_witness:
  "guiterm_print (TAB # ''lost'') (fst (guiterm_init example_wm)\<lparr>cursor_col := 115\<rparr>)
     = guiterm_putchar TAB (fst (guiterm_init example_wm)\<lparr>cursor_col := 115\<rparr>)"
proof -
  have "\<forall>c \<in> set ''lost''. ordinary c" by (simp add: ordinary_def)
  then show ?thesis
    using tab_drops_text [of "fst (guiterm_init example_wm)\<lparr>cursor_col := 115\<rparr>" "''lost''"] by simp
qed

end
