(* ===== verification/Desktop.thy ===== *)
theory Desktop
  imports Blockwm Printing
begin

text \<open>
  The context menu \<^verbatim>\<open>contextmenu.c\<close> and the taskbar \<^verbatim>\<open>taskbar.c\<close>. Positions are C integers,
  kept as integers here (the ranges of the screen are far from their limits) and turned into words where
  the drawing routines take them. A callback is the function with its argument, and handling the mouse
  gives the callbacks that were called, on a menu they leave alone. Drawing gives the list of the drawing
  calls.
\<close>

section \<open>Context menu\<close>

abbreviation CTX_MAX_ITEMS :: u32 where "CTX_MAX_ITEMS \<equiv> 20"

abbreviation CTX_ITEM_H :: int where "CTX_ITEM_H \<equiv> 26"

abbreviation CTX_MIN_W :: int where "CTX_MIN_W \<equiv> 160"

abbreviation CTX_SEPARATOR :: u8 where "CTX_SEPARATOR \<equiv> 0"

abbreviation CTX_ITEM :: u8 where "CTX_ITEM \<equiv> 1"

record 'a ctx_item =
  it_type :: u8
  it_label :: string
  it_shortcut :: string
  it_enabled :: bool
  it_checked :: bool
  it_callback :: "'a option"

text \<open>The opacity is only ever set, to 0 and to 1.\<close>

record 'a contextmenu =
  m_x :: int
  m_y :: int
  m_w :: int
  m_h :: int
  items :: "nat \<Rightarrow> 'a ctx_item"
  item_count :: u32
  visible :: bool
  hovered :: int
  opacity :: nat

definition zero_item :: "'a ctx_item" where
  "zero_item = \<lparr>it_type = 0, it_label = [], it_shortcut = [], it_enabled = False, it_checked = False, it_callback = None\<rparr>"

definition ctx_init :: "'a contextmenu" where
  "ctx_init = \<lparr>m_x = 0, m_y = 0, m_w = 0, m_h = 0, items = (\<lambda>_. zero_item), item_count = 0,
     visible = False, hovered = - 1, opacity = 0\<rparr>"

definition ctx_add_item :: "string \<Rightarrow> string option \<Rightarrow> 'a option \<Rightarrow> 'a contextmenu \<Rightarrow> 'a contextmenu" where
  "ctx_add_item label shortcut cb ctx =
     (if item_count ctx \<ge> CTX_MAX_ITEMS then ctx
      else
        let i = unat (item_count ctx);
            it = (items ctx i)\<lparr>it_type := CTX_ITEM, it_enabled := True, it_checked := False,
                   it_callback := cb, it_label := take 47 label\<rparr>;
            it = (case shortcut of None \<Rightarrow> it | Some s \<Rightarrow> it\<lparr>it_shortcut := take 11 s\<rparr>)
        in ctx\<lparr>items := (items ctx)(i := it), item_count := item_count ctx + 1\<rparr>)"

definition ctx_add_separator :: "'a contextmenu \<Rightarrow> 'a contextmenu" where
  "ctx_add_separator ctx =
     (if item_count ctx \<ge> CTX_MAX_ITEMS then ctx
      else
        let i = unat (item_count ctx)
        in ctx\<lparr>items := (items ctx)(i := (items ctx i)\<lparr>it_type := CTX_SEPARATOR\<rparr>), item_count := item_count ctx + 1\<rparr>)"

definition item_height :: "'a ctx_item \<Rightarrow> int" where
  "item_height it = (if it_type it = CTX_SEPARATOR then 9 else CTX_ITEM_H)"

definition ctx_show :: "int \<Rightarrow> int \<Rightarrow> 'a contextmenu \<Rightarrow> 'a contextmenu" where
  "ctx_show x y ctx =
     (let real_h = fold (\<lambda>i h. h + item_height (items ctx i)) [0..<unat (item_count ctx)] 8
      in ctx\<lparr>m_w := CTX_MIN_W, m_h := real_h + 4, m_x := x, m_y := y, visible := True, hovered := - 1, opacity := 1\<rparr>)"

definition ctx_hide :: "'a contextmenu \<Rightarrow> 'a contextmenu" where
  "ctx_hide ctx = ctx\<lparr>visible := False, hovered := - 1\<rparr>"

definition ctx_is_visible :: "'a contextmenu \<Rightarrow> bool" where
  "ctx_is_visible ctx = visible ctx"

text \<open>One turn of the loop over the items: the top of the item, the callbacks called so far, the menu.\<close>

definition mouse_item :: "int \<Rightarrow> int \<Rightarrow> bool \<Rightarrow> nat \<Rightarrow> int \<times> 'a list \<times> 'a contextmenu
    \<Rightarrow> int \<times> 'a list \<times> 'a contextmenu" where
  "mouse_item mx my click i st =
     (case st of (iy, called, ctx) \<Rightarrow>
        let it = items ctx i in
        if it_type it = CTX_SEPARATOR then (iy + 9, called, ctx)
        else
          let (called, ctx) =
            (if m_x ctx \<le> mx \<and> mx \<le> m_x ctx + m_w ctx \<and> iy \<le> my \<and> my < iy + CTX_ITEM_H then
               let ctx = ctx\<lparr>hovered := int i\<rparr>
               in if click \<and> it_enabled it
                  then (case it_callback it of None \<Rightarrow> (called, ctx) | Some cb \<Rightarrow> (called @ [cb], ctx_hide ctx))
                  else (called, ctx)
             else (called, ctx))
          in (iy + CTX_ITEM_H, called, ctx))"

definition ctx_handle_mouse :: "int \<Rightarrow> int \<Rightarrow> bool \<Rightarrow> 'a contextmenu \<Rightarrow> 'a list \<times> 'a contextmenu" where
  "ctx_handle_mouse mx my click ctx =
     (if \<not> visible ctx then ([], ctx)
      else if click \<and> (mx < m_x ctx \<or> mx > m_x ctx + m_w ctx \<or> my < m_y ctx \<or> my > m_y ctx + m_h ctx)
      then ([], ctx_hide ctx)
      else
        snd (fold (mouse_item mx my click) [0..<unat (item_count ctx)] (m_y ctx + 4, [], ctx\<lparr>hovered := - 1\<rparr>)))"

definition draw_item :: "'a contextmenu \<Rightarrow> nat \<Rightarrow> int \<times> draw list \<Rightarrow> int \<times> draw list" where
  "draw_item ctx i st =
     (case st of (iy, ds) \<Rightarrow>
        let it = items ctx i; x = m_x ctx; hov = (hovered ctx = int i) in
        if it_type it = CTX_SEPARATOR
        then (iy + 9, ds @ [Draw_Rect (word_of_int (x + 8)) (word_of_int (iy + 4)) (word_of_int (m_w ctx - 16)) 1 0x374151])
        else
          let text_col = (if it_enabled it then (if hov then 0xffffff else 0xe0e0e0) else 0x4b5563)
          in (iy + CTX_ITEM_H,
              ds
              @ (if hov then [Draw_Rect (word_of_int (x + 2)) (word_of_int iy) (word_of_int (m_w ctx - 4))
                   (word_of_int CTX_ITEM_H) 0x2563eb] else [])
              @ (if it_checked it then [Draw_String (word_of_int (x + 6)) (word_of_int (iy + 6)) [CHR 0xE2, CHR 0x9C, CHR 0x93] 0x22c55e] else [])
              @ [Draw_String (word_of_int (x + 22)) (word_of_int (iy + 6)) (it_label it) text_col]
              @ (if it_shortcut it \<noteq> []
                 then [Draw_String (word_of_int (x + m_w ctx - 50)) (word_of_int (iy + 6)) (it_shortcut it) 0x6b7280]
                 else [])))"

definition ctx_draw :: "'a contextmenu \<Rightarrow> draw list" where
  "ctx_draw ctx =
     (if \<not> visible ctx then []
      else
        let x = m_x ctx; y = m_y ctx; w = word_of_int (m_w ctx); h = word_of_int (m_h ctx)
        in snd (fold (draw_item ctx) [0..<unat (item_count ctx)]
             (y + 4, [Draw_Rect (word_of_int (x + 4)) (word_of_int (y + 4)) w h 0x00000066,
                      Draw_Rect (word_of_int x) (word_of_int y) w h 0x1f2937,
                      Draw_Rect_Outline (word_of_int x) (word_of_int y) w h 1 0x374151])))"

section \<open>Taskbar\<close>

abbreviation TASKBAR_HEIGHT :: u32 where "TASKBAR_HEIGHT \<equiv> 40"

abbreviation TASKBAR_MAX_BTNS :: u32 where "TASKBAR_MAX_BTNS \<equiv> 32"

abbreviation TASKBAR_POSITION_BOTTOM :: u8 where "TASKBAR_POSITION_BOTTOM \<equiv> 0"

record taskbar_btn =
  b_label :: string
  window_id :: u32
  b_active :: bool
  b_hovered :: bool
  b_x :: int
  b_w :: int

record taskbar =
  tb_x :: int
  tb_y :: int
  tb_w :: int
  tb_h :: int
  tb_position :: u8
  buttons :: "nat \<Rightarrow> taskbar_btn"
  btn_count :: u32
  clock_visible :: bool
  systray_visible :: bool
  hovered_btn :: int

definition taskbar_init :: "u32 \<Rightarrow> u32 \<Rightarrow> u8 \<Rightarrow> taskbar" where
  "taskbar_init sw sh pos =
     \<lparr>tb_x = 0, tb_y = (if pos = TASKBAR_POSITION_BOTTOM then sint (sh - TASKBAR_HEIGHT) else 0),
      tb_w = sint sw, tb_h = sint TASKBAR_HEIGHT, tb_position = pos,
      buttons = (\<lambda>_. \<lparr>b_label = [], window_id = 0, b_active = False, b_hovered = False, b_x = 0, b_w = 0\<rparr>),
      btn_count = 0, clock_visible = True, systray_visible = True, hovered_btn = - 1\<rparr>"

text \<open>The division is one of unsigned words, since the number of buttons is one.\<close>

definition button_width :: "taskbar \<Rightarrow> int" where
  "button_width tb =
     (let max_w = sint (word_of_int (tb_w tb - 200) div (btn_count tb + 1));
          max_w = (if max_w > 160 then 160 else max_w)
      in if max_w < 60 then 60 else max_w)"

definition place_button :: "int \<Rightarrow> nat \<Rightarrow> (nat \<Rightarrow> taskbar_btn) \<Rightarrow> nat \<Rightarrow> taskbar_btn" where
  "place_button w i bs = bs(i := (bs i)\<lparr>b_x := sint (8 + of_nat i * word_of_int (w + 4) :: u32), b_w := w\<rparr>)"

text \<open>The last argument is the window, \<^term>\<open>None\<close> for NULL; its label and number are what is kept.\<close>

definition taskbar_add_window :: "window option \<Rightarrow> taskbar \<Rightarrow> taskbar" where
  "taskbar_add_window win tb =
     (case win of None \<Rightarrow> tb
      | Some w \<Rightarrow>
          if btn_count tb \<ge> TASKBAR_MAX_BTNS then tb
          else
            let n = unat (btn_count tb);
                bs = (buttons tb)(n := (buttons tb n)\<lparr>b_label := take 31 (w_title w), window_id := w_id w,
                        b_active := True, b_hovered := False\<rparr>)
            in tb\<lparr>buttons := fold (place_button (button_width tb)) [0..<n + 1] bs, btn_count := btn_count tb + 1\<rparr>)"

definition taskbar_remove_window :: "u32 \<Rightarrow> taskbar \<Rightarrow> taskbar" where
  "taskbar_remove_window wid tb =
     (case first_index (\<lambda>i. window_id (buttons tb i) = wid) (unat (btn_count tb)) of
        None \<Rightarrow> tb
      | Some i \<Rightarrow>
          tb\<lparr>buttons := shift_down i (unat (btn_count tb - 1)) (buttons tb),
             btn_count := btn_count tb - 1\<rparr>)"

definition taskbar_handle_mouse :: "int \<Rightarrow> int \<Rightarrow> bool \<Rightarrow> taskbar \<Rightarrow> taskbar" where
  "taskbar_handle_mouse mx my click tb =
     (if my < tb_y tb \<or> my > tb_y tb + tb_h tb then tb\<lparr>hovered_btn := - 1\<rparr>
      else
        case first_index (\<lambda>i. b_x (buttons tb i) \<le> mx \<and> mx \<le> b_x (buttons tb i) + b_w (buttons tb i))
               (unat (btn_count tb)) of
          None \<Rightarrow> tb\<lparr>hovered_btn := - 1\<rparr>
        | Some i \<Rightarrow> tb\<lparr>hovered_btn := int i\<rparr>)"

text \<open>
  A label of 16 characters fills what is copied of it, and the terminator behind it is never written:
  \<^term>\<open>None\<close>.
\<close>

definition short_label :: "string \<Rightarrow> string option" where
  "short_label s =
     (if length s > 16 then Some (take 14 s @ ''..'') else if length s = 16 then None else Some s)"

definition draw_button :: "taskbar \<Rightarrow> nat \<Rightarrow> draw list option" where
  "draw_button tb i =
     (let btn = buttons tb i; x = word_of_int (b_x btn); y = word_of_int (tb_y tb + 5); w = word_of_int (b_w btn);
          bg = (if hovered_btn tb = int i then 0x21262d else 0x161b22)
      in map_option (\<lambda>l. [Draw_Rect x y w 30 bg, Draw_Rect_Outline x y w 30 1 0x30363d,
             Draw_String (word_of_int (b_x btn + 6)) (word_of_int (tb_y tb + 13)) l 0xe0e0e0])
           (short_label (b_label btn)))"

fun draw_buttons :: "taskbar \<Rightarrow> nat list \<Rightarrow> draw list option" where
  "draw_buttons tb [] = Some []"
| "draw_buttons tb (i # is) =
     (case draw_button tb i of None \<Rightarrow> None | Some ds \<Rightarrow> map_option ((@) ds) (draw_buttons tb is))"

definition clock_text :: "u64 \<Rightarrow> string" where
  "clock_text ticks =
     (let secs = ticks div 100; mins = secs div 60 mod 60; hours = secs div 3600 mod 24
      in sprint 16 ''%02llu:%02llu'' [U64 hours, U64 mins])"

definition taskbar_draw :: "u64 \<Rightarrow> taskbar \<Rightarrow> draw list option" where
  "taskbar_draw ticks tb =
     (let x = tb_x tb; y = tb_y tb; w = word_of_int (tb_w tb)
      in map_option (\<lambda>bs.
           [Draw_Rect (word_of_int x) (word_of_int y) w (word_of_int (tb_h tb)) 0x111827,
            Draw_Rect (word_of_int x) (word_of_int y) w 1 0x21262d,
            Draw_Rect (word_of_int (x + 4)) (word_of_int (y + 5)) 70 30 0x2563eb,
            Draw_String (word_of_int (x + 14)) (word_of_int (y + 12)) ''BlockOS'' 0xffffff]
           @ bs
           @ [Draw_String (w - 60) (word_of_int (y + 13)) (clock_text ticks) 0x8b949e,
              Draw_Rect (w - 90) (word_of_int (y + 8)) 24 24 0x21262d,
              Draw_String (w - 84) (word_of_int (y + 14)) ''EN'' 0x8b949e])
         (draw_buttons tb [0..<unat (btn_count tb)]))"

section \<open>Hit test of the menu\<close>

text \<open>The top of the item at each index, the pointer on an item, and what a press on it gives.\<close>

primrec item_top :: "'a contextmenu \<Rightarrow> nat \<Rightarrow> int" where
  "item_top ctx 0 = m_y ctx + 4"
| "item_top ctx (Suc i) = item_top ctx i + item_height (items ctx i)"

definition on_item :: "int \<Rightarrow> int \<Rightarrow> 'a contextmenu \<Rightarrow> nat \<Rightarrow> bool" where
  "on_item mx my ctx i \<longleftrightarrow> it_type (items ctx i) \<noteq> CTX_SEPARATOR \<and> m_x ctx \<le> mx \<and> mx \<le> m_x ctx + m_w ctx
     \<and> item_top ctx i \<le> my \<and> my < item_top ctx i + CTX_ITEM_H"

definition press :: "bool \<Rightarrow> nat \<Rightarrow> 'a contextmenu \<Rightarrow> 'a list \<times> 'a contextmenu" where
  "press click i ctx =
     (case it_callback (items ctx i) of
        Some cb \<Rightarrow> if click \<and> it_enabled (items ctx i) then ([cb], ctx_hide ctx) else ([], ctx\<lparr>hovered := int i\<rparr>)
      | None \<Rightarrow> ([], ctx\<lparr>hovered := int i\<rparr>))"

lemma item_top_mono: "i \<le> j \<Longrightarrow> item_top ctx i + (if i < j then item_height (items ctx i) else 0) \<le> item_top ctx j"
proof (induction j)
  case (Suc j)
  have "0 \<le> item_height (items ctx j)" by (simp add: item_height_def)
  with Suc show ?case by (cases "i = Suc j"; cases "i = j") auto
qed simp

lemma on_item_unique:
  assumes "on_item mx my ctx i" and "on_item mx my ctx j"
  shows "i = j"
proof -
  have "\<not> i < j" if "on_item mx my ctx i" "on_item mx my ctx j" for i j
    using that item_top_mono [of i j ctx] by (auto simp: on_item_def item_height_def)
  with assms show ?thesis by (meson nat_neq_iff)
qed

lemma hide_hovered [simp]: "ctx_hide (ctx\<lparr>hovered := i\<rparr>) = ctx_hide ctx"
  by (simp add: ctx_hide_def)

definition same_box :: "'a contextmenu \<Rightarrow> 'a contextmenu \<Rightarrow> bool" where
  "same_box c ctx \<longleftrightarrow> items c = items ctx \<and> m_x c = m_x ctx \<and> m_w c = m_w ctx"

lemma mouse_item_off:
  assumes "\<not> on_item mx my ctx i" and "same_box c ctx"
  shows "mouse_item mx my click i (item_top ctx i, called, c) = (item_top ctx (Suc i), called, c)"
  using assms by (auto simp: mouse_item_def on_item_def same_box_def item_height_def Let_def)

lemma mouse_item_on:
  assumes "on_item mx my ctx i"
  shows "mouse_item mx my click i (item_top ctx i, [], ctx) = (item_top ctx (Suc i), press click i ctx)"
  using assms by (auto simp: mouse_item_def on_item_def press_def item_height_def Let_def split: option.split)

lemma press_box: "same_box (snd (press click i ctx)) ctx"
  by (simp add: press_def same_box_def ctx_hide_def split: option.split)

lemma fold_mouse:
  "fold (mouse_item mx my click) [0..<n] (item_top ctx 0, [], ctx)
    = (item_top ctx n, case first_index (on_item mx my ctx) n of None \<Rightarrow> ([], ctx) | Some i \<Rightarrow> press click i ctx)"
proof (induction n)
  case (Suc n)
  let ?r = "case first_index (on_item mx my ctx) n of None \<Rightarrow> ([], ctx) | Some i \<Rightarrow> press click i ctx"
  have step: "fold (mouse_item mx my click) [0..<Suc n] (item_top ctx 0, [], ctx)
      = mouse_item mx my click n (item_top ctx n, ?r)"
    using Suc.IH by (simp only: upt_Suc_append fold_append fold_simps comp_apply le0 id_apply)
  show ?case
  proof (cases "first_index (on_item mx my ctx) n")
    case None
    have "same_box ctx ctx" by (simp add: same_box_def)
    with None show ?thesis
      unfolding step by (cases "on_item mx my ctx n") (simp_all only: first_index_Suc mouse_item_on mouse_item_off option.case if_True if_False not_False_eq_True)
  next
    case (Some i)
    then have i: "i < n" "on_item mx my ctx i" by (auto dest: first_index_SomeD)
    then have "\<not> on_item mx my ctx n" using on_item_unique [of mx my ctx i n] by auto
    from mouse_item_off [OF this press_box [of click i], of click "fst (press click i ctx)"] Some
    show ?thesis unfolding step by (simp only: first_index_Suc option.case prod.collapse)
  qed
qed simp

lemma item_top_hovered [simp]: "item_top (ctx\<lparr>hovered := h\<rparr>) i = item_top ctx i"
  by (induction i) simp_all

lemma on_item_hovered [simp]: "on_item mx my (ctx\<lparr>hovered := h\<rparr>) = on_item mx my ctx"
  by (simp add: on_item_def fun_eq_iff)

lemma press_hovered [simp]: "press click i (ctx\<lparr>hovered := h\<rparr>) = press click i ctx"
  by (cases "it_callback (items ctx i)") (simp_all add: press_def ctx_hide_def)

lemma shown_height: "m_h (ctx_show x y ctx) = item_top (ctx_show x y ctx) (unat (item_count ctx)) - y + 8"
proof -
  let ?s = "ctx_show x y ctx"
  have s: "items ?s = items ctx" "m_y ?s = y" by (simp_all add: ctx_show_def)
  have "fold (\<lambda>i h. h + item_height (items ctx i)) [0..<n] 8 = item_top ?s n - y + 4" for n
    by (induction n) (simp_all add: s)
  moreover have "m_h ?s = fold (\<lambda>i h. h + item_height (items ctx i)) [0..<unat (item_count ctx)] 8 + 4"
    by (simp add: ctx_show_def)
  ultimately show ?thesis by simp
qed

text \<open>
  A visible menu reacts to the item under the pointer, and there is at most one: a click on an enabled item
  calls its callback once and closes the menu, anything else on an item marks it. A click outside
  closes the menu and calls nothing.
\<close>

theorem menu_runs_item:
  "ctx_handle_mouse mx my click (ctx_show x y ctx) =
     (let s = ctx_show x y ctx in
      case first_index (on_item mx my s) (unat (item_count ctx)) of
        Some i \<Rightarrow> press click i s
      | None \<Rightarrow> ([], if click \<and> (mx < x \<or> mx > x + CTX_MIN_W \<or> my < y \<or> my > y + m_h s) then ctx_hide s else s))"
proof -
  define s where "s = ctx_show x y ctx"
  have f: "visible s" "m_x s = x" "m_y s = y" "m_w s = CTX_MIN_W" "item_count s = item_count ctx" "hovered s = - 1"
    by (simp_all add: s_def ctx_show_def)
  have "s\<lparr>hovered := - 1\<rparr> = s" using f(6) by (cases s) simp
  then have run: "snd (fold (mouse_item mx my click) [0..<n] (y + 4, [], s\<lparr>hovered := - 1\<rparr>))
      = (case first_index (on_item mx my s) n of None \<Rightarrow> ([], s) | Some i \<Rightarrow> press click i s)" for n
    using fold_mouse [of mx my click n s] f(3) by simp
  have "\<not> (mx < x \<or> mx > x + CTX_MIN_W \<or> my < y \<or> my > y + m_h s)"
    if "first_index (on_item mx my s) (unat (item_count ctx)) = Some i" for i
  proof -
    from that have i: "i < unat (item_count ctx)" "on_item mx my s i" by (auto dest: first_index_SomeD)
    then have "item_top s i + CTX_ITEM_H \<le> item_top s (unat (item_count ctx))" "item_top s 0 \<le> item_top s i"
      using item_top_mono [of i "unat (item_count ctx)" s] item_top_mono [of 0 i s]
      by (auto simp: on_item_def item_height_def split: if_splits)
    with i(2) f shown_height [of x y ctx] show ?thesis by (auto simp: on_item_def s_def)
  qed
  with run f show ?thesis
    unfolding s_def [symmetric] by (auto simp: ctx_handle_mouse_def Let_def split: option.split)
qed

section \<open>Buttons of the taskbar\<close>

definition window_ids :: "taskbar \<Rightarrow> u32 list" where
  "window_ids tb = arr_list (\<lambda>i. window_id (buttons tb i)) (unat (btn_count tb))"

lemma place_buttons:
  "fold (place_button w) [0..<n] bs i
    = (if i < n then (bs i)\<lparr>b_x := sint (8 + of_nat i * word_of_int (w + 4) :: u32), b_w := w\<rparr> else bs i)"
  by (induction n) (auto simp: place_button_def less_Suc_eq)

lemma unat_count_Suc: "btn_count tb < TASKBAR_MAX_BTNS \<Longrightarrow> unat (btn_count tb + 1) = Suc (unat (btn_count tb))"
  by (simp add: unat_word_ariths word_less_nat_alt)

lemma add_window:
  assumes "btn_count tb < TASKBAR_MAX_BTNS"
  shows "unat (btn_count (taskbar_add_window (Some w) tb)) = Suc (unat (btn_count tb))"
    and "i \<le> unat (btn_count tb) \<Longrightarrow> window_id (buttons (taskbar_add_window (Some w) tb) i)
      = (if i = unat (btn_count tb) then w_id w else window_id (buttons tb i))"
    and "i \<le> unat (btn_count tb) \<Longrightarrow> b_x (buttons (taskbar_add_window (Some w) tb) i)
      = sint (8 + of_nat i * word_of_int (button_width tb + 4) :: u32)"
    and "i \<le> unat (btn_count tb) \<Longrightarrow> b_w (buttons (taskbar_add_window (Some w) tb) i) = button_width tb"
  using assms [folded not_le] assms
  by (simp_all add: taskbar_add_window_def Let_def unat_count_Suc place_buttons le_imp_less_Suc del: upt_Suc)

lemma remove1_first:
  "first_index (\<lambda>i. a i = x) n = Some i \<Longrightarrow> remove1 x (arr_list a n) = arr_list (shift_down i (n - 1) a) (n - 1)"
proof -
  assume f: "first_index (\<lambda>i. a i = x) n = Some i"
  then have i: "i < n" "a i = x" "\<forall>j < i. a j \<noteq> x" by (auto dest: first_index_SomeD)
  have "arr_list a n = take i (arr_list a n) @ x # drop (Suc i) (arr_list a n)"
    using id_take_nth_drop [of i "arr_list a n"] i(1,2) by simp
  moreover have "x \<notin> set (take i (arr_list a n))" using i by (auto simp: in_set_conv_nth)
  ultimately have "remove1 x (arr_list a n) = take i (arr_list a n) @ drop (Suc i) (arr_list a n)"
    by (metis remove1_append remove1.simps(2))
  with arr_list_shift_down [of i n a] i(1) show ?thesis by simp
qed

text \<open>
  The buttons of the taskbar are a list of window numbers: adding a window appends its number while there are
  fewer than 32, removing one takes its first occurrence away.
\<close>

theorem taskbar_tracks_windows:
  "window_ids (taskbar_add_window (Some w) tb)
      = (if btn_count tb < TASKBAR_MAX_BTNS then window_ids tb @ [w_id w] else window_ids tb)
   \<and> window_ids (taskbar_remove_window wid tb) = remove1 wid (window_ids tb)"
proof -
  have "window_ids (taskbar_add_window (Some w) tb) = window_ids tb @ [w_id w]" if "btn_count tb < TASKBAR_MAX_BTNS"
    by (rule nth_equalityI) (auto simp: window_ids_def add_window [OF that] nth_append)
  moreover have "window_ids (taskbar_add_window (Some w) tb) = window_ids tb" if "\<not> btn_count tb < TASKBAR_MAX_BTNS"
    using that by (simp add: taskbar_add_window_def not_less)
  moreover have "window_ids (taskbar_remove_window wid tb) = remove1 wid (window_ids tb)"
  proof (cases "first_index (\<lambda>i. window_id (buttons tb i) = wid) (unat (btn_count tb))")
    case None
    then have "wid \<notin> set (window_ids tb)" by (auto simp: window_ids_def first_index_None_iff in_set_arr_list)
    with None show ?thesis by (simp add: taskbar_remove_window_def remove1_idem)
  next
    case (Some i)
    then have n: "i < unat (btn_count tb)" by (auto dest: first_index_SomeD)
    then have c: "unat (btn_count tb - 1) = unat (btn_count tb) - 1" by (intro unat_minus_one) auto
    have "(\<lambda>j. window_id (shift_down i m (buttons tb) j)) = shift_down i m (\<lambda>j. window_id (buttons tb j))" for m
      by (simp add: fun_eq_iff shift_down_apply)
    with Some remove1_first [OF Some] show ?thesis
      by (simp add: taskbar_remove_window_def window_ids_def c)
  qed
  ultimately show ?thesis by simp
qed

text \<open>Each button ends before the next one starts.\<close>

definition bar_ok :: "taskbar \<Rightarrow> bool" where
  "bar_ok tb \<longleftrightarrow> btn_count tb \<le> TASKBAR_MAX_BTNS \<and>
     (\<forall>i j. i < j \<and> j < unat (btn_count tb) \<longrightarrow> b_x (buttons tb i) + b_w (buttons tb i) < b_x (buttons tb j))"

inductive bar_reach :: "taskbar \<Rightarrow> bool" where
  start: "bar_reach (taskbar_init sw sh pos)"
| add: "bar_reach tb \<Longrightarrow> bar_reach (taskbar_add_window win tb)"
| remove: "bar_reach tb \<Longrightarrow> bar_reach (taskbar_remove_window wid tb)"
| mouse: "bar_reach tb \<Longrightarrow> bar_reach (taskbar_handle_mouse mx my click tb)"

lemma button_width_range: "60 \<le> button_width tb \<and> button_width tb \<le> 160"
  by (simp add: button_width_def Let_def)

lemma button_place:
  assumes "60 \<le> w" and "w \<le> 160" and "i < 32"
  shows "sint (8 + of_nat i * word_of_int (w + 4) :: u32) = 8 + int i * (w + 4)"
proof -
  have "(8 + of_nat i * word_of_int (w + 4) :: u32) = word_of_int (8 + int i * (w + 4))" by simp
  moreover have "int i * (w + 4) \<le> 31 * 164" using assms by (intro mult_mono) auto
  moreover have "0 \<le> int i * (w + 4)" using assms by simp
  ultimately show ?thesis by (simp only:) (simp only: sint_sbintrunc', simp add: signed_take_bit_int_eq_self)
qed

lemma bar_ok_add:
  assumes "bar_ok tb"
  shows "bar_ok (taskbar_add_window win tb)"
proof (cases "win = None \<or> TASKBAR_MAX_BTNS \<le> btn_count tb")
  case True
  with assms show ?thesis by (auto simp: taskbar_add_window_def split: option.split)
next
  case False
  then obtain w where w: "win = Some w" and less: "btn_count tb < TASKBAR_MAX_BTNS" by (auto simp: not_le)
  let ?tb = "taskbar_add_window (Some w) tb" and ?w = "button_width tb"
  have n: "unat (btn_count tb) < 32" using less by (simp add: word_less_nat_alt)
  have "b_x (buttons ?tb i) + b_w (buttons ?tb i) < b_x (buttons ?tb j)" if "i < j" "j < unat (btn_count ?tb)" for i j
  proof -
    have ij: "i \<le> unat (btn_count tb)" "j \<le> unat (btn_count tb)" using that by (simp_all add: add_window [OF less])
    have "(int i + 1) * (?w + 4) \<le> int j * (?w + 4)"
      using that(1) button_width_range [of tb] by (intro mult_right_mono) auto
    then show ?thesis
      using button_width_range [of tb] button_place [of ?w i] button_place [of ?w j] ij n
      by (simp add: add_window [OF less] algebra_simps)
  qed
  moreover have "btn_count ?tb \<le> TASKBAR_MAX_BTNS" using add_window(1) [OF less, of w] n by (simp add: word_le_nat_alt)
  ultimately show ?thesis by (simp add: bar_ok_def w)
qed

lemma bar_ok_remove:
  assumes "bar_ok tb"
  shows "bar_ok (taskbar_remove_window wid tb)"
proof (cases "first_index (\<lambda>i. window_id (buttons tb i) = wid) (unat (btn_count tb))")
  case None
  with assms show ?thesis by (simp add: taskbar_remove_window_def)
next
  case (Some i)
  then have n: "i < unat (btn_count tb)" by (auto dest: first_index_SomeD)
  then have c: "unat (btn_count tb - 1) = unat (btn_count tb) - 1" by (intro unat_minus_one) auto
  with assms have "btn_count tb - 1 \<le> TASKBAR_MAX_BTNS" by (auto simp: bar_ok_def word_le_nat_alt)
  with assms Some c show ?thesis
    by (auto simp: taskbar_remove_window_def bar_ok_def shift_down_apply)
qed

lemma bar_reach_ok: "bar_reach tb \<Longrightarrow> bar_ok tb"
proof (induction rule: bar_reach.induct)
  case (start sw sh pos)
  show ?case by (simp add: bar_ok_def taskbar_init_def)
next
  case (mouse tb mx my click)
  then show ?case by (auto simp: taskbar_handle_mouse_def bar_ok_def split: option.split)
qed (simp_all add: bar_ok_add bar_ok_remove)

text \<open>
  In every reachable state of the taskbar the buttons do not overlap, so that the pointer on a button finds
  that button and no other.
\<close>

theorem taskbar_hit:
  assumes "bar_reach tb" and "i < unat (btn_count tb)"
    and "b_x (buttons tb i) \<le> mx" and "mx \<le> b_x (buttons tb i) + b_w (buttons tb i)"
    and "tb_y tb \<le> my" and "my \<le> tb_y tb + tb_h tb"
  shows "hovered_btn (taskbar_handle_mouse mx my click tb) = int i"
proof -
  let ?P = "\<lambda>i. b_x (buttons tb i) \<le> mx \<and> mx \<le> b_x (buttons tb i) + b_w (buttons tb i)"
  have "\<not> ?P j" if "j < i" for j
  proof -
    have "b_x (buttons tb j) + b_w (buttons tb j) < b_x (buttons tb i)"
      using bar_reach_ok [OF assms(1)] that assms(2) by (simp add: bar_ok_def)
    with assms(3) show ?thesis by simp
  qed
  with assms(2-4) have "first_index ?P (unat (btn_count tb)) = Some i" by (simp add: first_index_Some_iff)
  with assms(5,6) show ?thesis by (simp add: taskbar_handle_mouse_def)
qed

theorem taskbar_hit_witness:
  "hovered_btn (taskbar_handle_mouse 100 1050 False
     (taskbar_add_window (Some zero_window) (taskbar_init 1920 1080 0))) = 0"
proof -
  let ?tb = "taskbar_add_window (Some zero_window) (taskbar_init 1920 1080 0)"
  have "bar_reach ?tb" by (intro bar_reach.intros)
  from taskbar_hit [OF this, of 0 100 1050 False] show ?thesis
    by (simp add: taskbar_add_window_def taskbar_init_def place_button_def button_width_def)
qed

text \<open>
  A window title of exactly 16 characters has no terminated short label: the bar cannot be drawn.
\<close>

theorem taskbar_label_16:
  assumes "btn_count tb < TASKBAR_MAX_BTNS" and "length (w_title w) = 16"
  shows "taskbar_draw ticks (taskbar_add_window (Some w) tb) = None"
proof -
  let ?tb = "taskbar_add_window (Some w) tb" and ?n = "unat (btn_count tb)"
  have "short_label (b_label (buttons ?tb ?n)) = None"
    using assms(1) [folded not_le] assms(2)
    by (simp add: taskbar_add_window_def Let_def place_buttons short_label_def del: upt_Suc)
  then have "draw_button ?tb ?n = None" by (simp add: draw_button_def Let_def)
  moreover have "?n \<in> set [0..<unat (btn_count ?tb)]" by (simp add: add_window(1) [OF assms(1)])
  moreover have "draw_buttons tb' is = None" if "draw_button tb' i = None" "i \<in> set is" for tb' i "is"
    using that by (induction "is") (auto split: option.split)
  ultimately show ?thesis by (simp add: taskbar_draw_def Let_def)
qed

theorem taskbar_label_16_witness:
  "taskbar_draw 0 (taskbar_add_window (Some (zero_window\<lparr>w_title := ''BlockOS Terminal''\<rparr>)) (taskbar_init 1920 1080 0)) = None"
  using taskbar_label_16 [of "taskbar_init 1920 1080 0" "zero_window\<lparr>w_title := ''BlockOS Terminal''\<rparr>" 0]
  by (simp add: taskbar_init_def)

end
