(* ===== verification/Apps.thy ===== *)
theory Apps
  imports Procfs Blockwm "HOL-Library.Signed_Division"
begin

unbundle bit_operations_syntax

text \<open>
  Two windows of the desktop: the file manager \<^verbatim>\<open>filemanager/blockfm.c\<close> and the system monitor
  \<^verbatim>\<open>sysmonitor/blocksysmon.c\<close>. A path is the string in its buffer. The processes, the memory and the
  clock the monitor reads are the parameter \<open>sys\<close> of \<open>Procfs\<close>. Drawing gives the list of the drawing calls;
  texts with accented letters are their UTF-8 bytes.
\<close>

section \<open>File manager\<close>

abbreviation FM_MAX_PATH :: nat where "FM_MAX_PATH \<equiv> 1024"

abbreviation FM_TYPE_DIR :: u8 where "FM_TYPE_DIR \<equiv> 0"

abbreviation FM_TYPE_FILE :: u8 where "FM_TYPE_FILE \<equiv> 1"

abbreviation FM_TYPE_IMAGE :: u8 where "FM_TYPE_IMAGE \<equiv> 2"

abbreviation FM_TYPE_CODE :: u8 where "FM_TYPE_CODE \<equiv> 3"

abbreviation FM_ITEM_HEIGHT :: int where "FM_ITEM_HEIGHT \<equiv> 22"

abbreviation FM_PANEL_W :: u32 where "FM_PANEL_W \<equiv> 400"

record fm_entry =
  fe_name :: string
  fe_path :: string
  fe_type :: u8
  fe_size :: u32
  fe_selected :: bool

record fm_panel =
  fp_path :: string
  entries :: "nat \<Rightarrow> fm_entry"
  entry_count :: u32
  selected_idx :: int
  fp_scroll :: int

record fm =
  g_panels :: "nat \<Rightarrow> fm_panel"
  g_active_panel :: int
  g_clipboard :: string
  g_clipboard_cut :: bool
  g_window :: "nat option"

definition fm_get_icon :: "u8 \<Rightarrow> string" where
  "fm_get_icon t =
     (if t = FM_TYPE_DIR then ''[DIR]'' else if t = FM_TYPE_IMAGE then ''[IMG]''
      else if t = FM_TYPE_CODE then ''[COD]'' else ''[FIL]'')"

definition fm_get_type :: "string \<Rightarrow> u8" where
  "fm_get_type name =
     (case strrchr (name @ [NUL]) (char_val (CHR ''.'')) of
        Some (Some i) \<Rightarrow>
          let ext = drop (i + 1) name in
          if ext = ''png'' \<or> ext = ''jpg'' then FM_TYPE_IMAGE
          else if ext = ''c'' \<or> ext = ''h'' \<or> ext = ''asm'' then FM_TYPE_CODE
          else FM_TYPE_FILE
      | _ \<Rightarrow> FM_TYPE_FILE)"

definition upd_panel :: "nat \<Rightarrow> (fm_panel \<Rightarrow> fm_panel) \<Rightarrow> fm \<Rightarrow> fm" where
  "upd_panel p f g = g\<lparr>g_panels := (g_panels g)(p := f (g_panels g p))\<rparr>"

definition fm_refresh_panel :: "int \<Rightarrow> fm \<Rightarrow> bool \<times> fm" where
  "fm_refresh_panel p g =
     (if p < 0 \<or> p > 1 then (False, g) else (True, upd_panel (nat p) (\<lambda>q. q\<lparr>entry_count := 0\<rparr>) g))"

text \<open>The clipboard is static data outside of what is cleared.\<close>

definition fm_init :: "fm \<Rightarrow> wm \<Rightarrow> bool \<times> fm \<times> wm" where
  "fm_init g w =
     (let empty = \<lparr>fp_path = [], entries = (\<lambda>_. \<lparr>fe_name = [], fe_path = [], fe_type = 0, fe_size = 0,
            fe_selected = False\<rparr>), entry_count = 0, selected_idx = 0, fp_scroll = 0\<rparr>;
          (win, w) = blockwm_create_window (''BlockFM - F'' @ [CHR 0xC3, CHR 0xA1] @ ''jlkezel'' @ [CHR 0xC5, CHR 0x91]) 100 100 800 500
            (BLOCKWM_FLAG_TITLEBAR OR BLOCKWM_FLAG_RESIZABLE OR BLOCKWM_FLAG_SHADOW) w;
          g = g\<lparr>g_panels := (\<lambda>_. empty)(0 := empty\<lparr>fp_path := ''/''\<rparr>, 1 := empty\<lparr>fp_path := ''/home''\<rparr>),
                g_active_panel := 0, g_window := win\<rparr>;
          (_, g) = fm_refresh_panel 0 g; (_, g) = fm_refresh_panel 1 g
      in (True, g, w))"

definition fm_navigate :: "int \<Rightarrow> string \<Rightarrow> fm \<Rightarrow> bool \<times> fm" where
  "fm_navigate p path g =
     (if p < 0 \<or> p > 1 then (False, g)
      else fm_refresh_panel p (upd_panel (nat p) (\<lambda>q. q\<lparr>fp_path := take (FM_MAX_PATH - 1) path\<rparr>) g))"

text \<open>The panel is looked up before its number is checked: any other number is \<^term>\<open>None\<close>.\<close>

definition fm_go_up :: "int \<Rightarrow> fm \<Rightarrow> (bool \<times> fm) option" where
  "fm_go_up p g =
     (if p < 0 \<or> p > 1 then None
      else
        case strrchr (fp_path (g_panels g (nat p)) @ [NUL]) (char_val (CHR ''/'')) of
          Some (Some pos) \<Rightarrow>
            if pos = 0 then Some (False, g)
            else Some (fm_refresh_panel p (upd_panel (nat p) (\<lambda>q. q\<lparr>fp_path := take pos (fp_path q)\<rparr>) g))
        | _ \<Rightarrow> Some (False, g))"

definition fm_copy :: "string \<Rightarrow> string \<Rightarrow> fm \<Rightarrow> bool \<times> fm" where
  "fm_copy src dst g = (True, g\<lparr>g_clipboard := take (FM_MAX_PATH - 1) src, g_clipboard_cut := False\<rparr>)"

definition fm_delete :: "string \<Rightarrow> fm \<Rightarrow> bool \<times> fm" where
  "fm_delete path g = (True, g)"

definition fm_mkdir :: "string \<Rightarrow> string \<Rightarrow> fm \<Rightarrow> bool \<times> fm" where
  "fm_mkdir parent name g = (True, g)"

definition fm_toolbar :: "draw list" where
  "fm_toolbar =
     [Draw_Rect 0 0 800 500 0x0d1117, Draw_Rect 0 0 800 28 0x161b22,
      Draw_String 8 8 [CHR 0xE2, CHR 0x86, CHR 0x90] 0x8b949e, Draw_String 28 8 [CHR 0xE2, CHR 0x86, CHR 0x92] 0x8b949e, Draw_String 50 8 [CHR 0xE2, CHR 0x86, CHR 0x91] 0x8b949e,
      Draw_String 80 8 (''Friss'' @ [CHR 0xC3, CHR 0xAD] @ ''t'') 0x8b949e, Draw_String 150 8 ''+ Mappa'' 0x8b949e,
      Draw_String 220 8 (''T'' @ [CHR 0xC3, CHR 0xB6] @ ''rl'' @ [CHR 0xC3, CHR 0xA9] @ ''s'') 0x8b949e, Draw_String 280 8 (''M'' @ [CHR 0xC3, CHR 0xA1] @ ''sol'' @ [CHR 0xC3, CHR 0xA1] @ ''s'') 0x8b949e,
      Draw_String 350 8 (''Beilleszt'' @ [CHR 0xC3, CHR 0xA9] @ ''s'') 0x8b949e]"

definition fm_row :: "u32 \<Rightarrow> fm_panel \<Rightarrow> nat \<Rightarrow> draw list" where
  "fm_row px q i =
     (let e = entries q i; ey = 68 + of_nat i * 22 in
      (if int i = selected_idx q then [Draw_Rect px ey FM_PANEL_W 22 0x2563eb33] else [])
      @ [Draw_String (px + 6) (ey + 3) (fm_get_icon (fe_type e)) 0x60a5fa,
         Draw_String (px + 54) (ey + 3) (fe_name e) (if fe_type e = FM_TYPE_DIR then 0x60a5fa else 0xe0e0e0)])"

definition fm_panel_draws :: "fm \<Rightarrow> nat \<Rightarrow> draw list" where
  "fm_panel_draws g p =
     (let px = (if p = 0 then 0 else 400); q = g_panels g p in
      [Draw_Rect px 28 FM_PANEL_W 444 (if g_active_panel g = int p then 0x161b22 else 0x111827),
       Draw_Rect px 28 FM_PANEL_W 22 0x21262d, Draw_String (px + 6) 34 (fp_path q) 0x60a5fa,
       Draw_Rect px 50 FM_PANEL_W 18 0x1f2937, Draw_String (px + 6) 53 (''N'' @ [CHR 0xC3, CHR 0xA9] @ ''v'') 0x8b949e,
       Draw_String (px + 300) 53 (''M'' @ [CHR 0xC3, CHR 0xA9] @ ''ret'') 0x8b949e]
      @ concat (map (fm_row px q) [0..<unat (entry_count q)])
      @ [Draw_Rect px 460 FM_PANEL_W 18 0x21262d,
         Draw_String (px + 6) 463 (sprint 32 ''%u elem'' [U32 (entry_count q)]) 0x8b949e])"

definition fm_draw :: "fm \<Rightarrow> draw list" where
  "fm_draw g = fm_toolbar @ fm_panel_draws g 0 @ fm_panel_draws g 1 @ [Draw_Rect 399 28 2 450 0x30363d]"

definition fm_handle_mouse :: "int \<Rightarrow> int \<Rightarrow> bool \<Rightarrow> fm \<Rightarrow> fm" where
  "fm_handle_mouse x y click g =
     (if \<not> click then g
      else
        let p = (if x < 400 then 0 else 1); g = g\<lparr>g_active_panel := int p\<rparr>;
            idx = (y - 68) sdiv FM_ITEM_HEIGHT
        in if idx \<ge> 0 \<and> idx < sint (entry_count (g_panels g p))
           then upd_panel p (\<lambda>q. q\<lparr>selected_idx := idx\<rparr>) g else g)"

section \<open>System monitor\<close>

abbreviation HIST_SIZE :: u32 where "HIST_SIZE \<equiv> 60"

record sysmon =
  cpu_hist :: "nat \<Rightarrow> u8"
  mem_hist :: "nat \<Rightarrow> u8"
  hist_idx :: u32
  sm_win :: "nat option"
  sm_cpu :: u8
  sm_mem_total :: u32
  sm_mem_used :: u32
  sm_mem_free :: u32
  sm_proc_count :: u32
  sm_uptime :: u64

definition sysmon_init :: "sysmon \<Rightarrow> wm \<Rightarrow> bool \<times> sysmon \<times> wm" where
  "sysmon_init s w =
     (let (win, w) = blockwm_create_window ''BlockSysMon - Rendszer Monitor'' 50 50 700 500
            (BLOCKWM_FLAG_TITLEBAR OR BLOCKWM_FLAG_RESIZABLE OR BLOCKWM_FLAG_SHADOW) w
      in (win \<noteq> None, s\<lparr>cpu_hist := (\<lambda>_. 0), mem_hist := (\<lambda>_. 0), sm_win := win\<rparr>, w))"

definition count_processes :: "sys \<Rightarrow> u32" where
  "count_processes y =
     fold (\<lambda>i n. if pi_state (process_table y i) \<noteq> PROCESS_STATE_DEAD y then n + 1 else n)
       [0..<unat (process_count y)] 0"

definition sysmon_update :: "sys \<Rightarrow> sysmon \<Rightarrow> sysmon" where
  "sysmon_update y s =
     (let total = mem_total y; free = mem_free y; used = total - free; n = count_processes y;
          cpu = ucast (n * 5) :: u8; cpu = (if cpu > 100 then 100 else cpu);
          slot = unat (hist_idx s mod HIST_SIZE)
      in s\<lparr>sm_mem_total := total, sm_mem_free := free, sm_mem_used := used, sm_uptime := kernel_ticks y div 100,
           sm_proc_count := n, sm_cpu := cpu, cpu_hist := (cpu_hist s)(slot := cpu),
           mem_hist := (mem_hist s)(slot := ucast (used * 100 div (if total \<noteq> 0 then total else 1))),
           hist_idx := hist_idx s + 1\<rparr>)"

text \<open>The sample a graph shows at place \<open>i\<close>; the index wraps around like the 32-bit word it is.\<close>

definition sample :: "(nat \<Rightarrow> u8) \<Rightarrow> u32 \<Rightarrow> nat \<Rightarrow> u8" where
  "sample d idx i = d (unat ((idx - HIST_SIZE + of_nat i) mod HIST_SIZE))"

definition graph_bar :: "int \<Rightarrow> int \<Rightarrow> int \<Rightarrow> int \<Rightarrow> (nat \<Rightarrow> u8) \<Rightarrow> u32 \<Rightarrow> u32 \<Rightarrow> nat \<Rightarrow> draw" where
  "graph_bar x y w h d idx color i =
     (let x1 = word_of_int x + of_nat (i - 1) * word_of_int w div HIST_SIZE;
          x2 = word_of_int x + of_nat i * word_of_int w div HIST_SIZE;
          y1 = y + h - (uint (sample d idx (i - 1)) * h) sdiv 100;
          y2 = y + h - (uint (sample d idx i) * h) sdiv 100
      in Draw_Rect x1 (word_of_int (if y1 < y2 then y1 else y2)) (x2 - x1 + 1) (word_of_int (\<bar>y2 - y1\<bar> + 1)) color)"

definition draw_graph :: "int \<Rightarrow> int \<Rightarrow> int \<Rightarrow> int \<Rightarrow> (nat \<Rightarrow> u8) \<Rightarrow> u32 \<Rightarrow> u32 \<Rightarrow> string \<Rightarrow> draw list" where
  "draw_graph x y w h d idx color label =
     [Draw_Rect (word_of_int x) (word_of_int y) (word_of_int w) (word_of_int h) 0x0d1117,
      Draw_Rect_Outline (word_of_int x) (word_of_int y) (word_of_int w) (word_of_int h) 1 0x21262d]
     @ map (\<lambda>i. Draw_Rect (word_of_int x) (word_of_int (y + (h * i) sdiv 4)) (word_of_int w) 1 0x1f2937) [1, 2, 3]
     @ map (graph_bar x y w h d idx color) [1..<unat HIST_SIZE]
     @ [Draw_String (word_of_int (x + 4)) (word_of_int (y + 4))
          (sprint 32 ''%s: %u%%'' [Str label, U32 (ucast (d (unat ((idx - 1) mod HIST_SIZE))))]) color]"

definition state_text :: "sys \<Rightarrow> u32 \<Rightarrow> string \<times> u32" where
  "state_text y st =
     (if st = PROCESS_STATE_READY y then (''Fut'', 0x22c55e)
      else if st = PROCESS_STATE_BLOCKED y then ((''V'' @ [CHR 0xC3, CHR 0xA1] @ ''r''), 0xf59e0b)
      else if st = PROCESS_STATE_ZOMBIE y then (''Zombie'', 0xef4444)
      else if st = PROCESS_STATE_NEW y then (([CHR 0xC3, CHR 0x9A] @ ''j''), 0x3b82f6)
      else (''?'', 0x8b949e))"

definition process_row :: "sys \<Rightarrow> proc_info \<Rightarrow> nat \<Rightarrow> draw list" where
  "process_row y p row =
     (let ry = 207 + of_nat row * 20; (st, sc) = state_text y (pi_state p) in
      (if row mod 2 = 0 then [Draw_Rect 0 ry 700 20 0x111827] else [])
      @ [Draw_String 10 (ry + 3) (sprint 8 ''%u'' [U32 (pi_pid p)]) 0xe0e0e0,
         Draw_String 55 (ry + 3) (pi_name p) 0xe0e0e0,
         Draw_String 240 (ry + 3) st sc,
         Draw_String 350 (ry + 3) (sprint 16 ''%u KB'' [U32 ((heap_end p - code_start p) div 1024)]) 0x8b949e,
         Draw_String 430 (ry + 3) (sprint 8 ''%d'' [U32 (pi_priority p)]) 0x8b949e])"

fun process_rows :: "sys \<Rightarrow> nat list \<Rightarrow> nat \<Rightarrow> draw list" where
  "process_rows y [] row = []"
| "process_rows y (i # is) row =
     (if row \<ge> 14 then []
      else if pi_state (process_table y i) = PROCESS_STATE_DEAD y then process_rows y is row
      else process_row y (process_table y i) row @ process_rows y is (row + 1))"

definition sysmon_draw :: "sys \<Rightarrow> sysmon \<Rightarrow> draw list" where
  "sysmon_draw y s =
     [Draw_Rect 0 0 700 500 0x0d1117, Draw_Rect 0 0 700 38 0x161b22,
      Draw_String 10 12 ''BlockOS Rendszer Monitor'' 0xe0e0e0,
      Draw_String 320 12 (sprint 64 ''Uptime: %llu mp | Proc: %u'' [U64 (sm_uptime s), U32 (sm_proc_count s)]) 0x8b949e]
     @ draw_graph 10 48 330 110 (cpu_hist s) (hist_idx s) 0x22c55e ''CPU''
     @ draw_graph 355 48 330 110 (mem_hist s) (hist_idx s) 0x3b82f6 ''RAM''
     @ [Draw_String 10 168 (sprint 128 ''RAM: %u MB / %u MB | Szabad: %u MB''
          [U32 (sm_mem_used s div 1024 div 1024), U32 (sm_mem_total s div 1024 div 1024),
           U32 (sm_mem_free s div 1024 div 1024)]) 0x8b949e,
        Draw_Rect 0 185 700 22 0x161b22, Draw_String 10 190 ''PID'' 0x8b949e, Draw_String 55 190 (''N'' @ [CHR 0xC3, CHR 0xA9] @ ''v'') 0x8b949e,
        Draw_String 240 190 ([CHR 0xC3, CHR 0x81] @ ''llapot'') 0x8b949e, Draw_String 350 190 ''RAM'' 0x8b949e,
        Draw_String 430 190 ''Prio'' 0x8b949e]
     @ process_rows y [0..<unat (process_count y)] 0
     @ [Draw_Rect 0 480 700 20 0x161b22,
        Draw_String 10 484 (sprint 128 ''CPU: %u%% | RAM: %u/%u MB | Procs: %u''
          [U32 (ucast (sm_cpu s)), U32 (sm_mem_used s div 1024 div 1024),
           U32 (sm_mem_total s div 1024 div 1024), U32 (sm_proc_count s)]) 0x8b949e]"

section \<open>Paths\<close>

lemma strrchr_from_last:
  "NUL \<notin> set s \<Longrightarrow> c \<notin> set s \<Longrightarrow> strrchr_from (s @ [NUL]) (char_val c) i hit = Some hit"
  by (induction s arbitrary: i) auto

lemma strrchr_from_split:
  "NUL \<notin> set d \<Longrightarrow> c \<noteq> NUL \<Longrightarrow> NUL \<notin> set s \<Longrightarrow> c \<notin> set s \<Longrightarrow>
     strrchr_from (d @ c # s @ [NUL]) (char_val c) i hit = Some (Some (i + length d))"
  by (induction d arbitrary: i hit) (auto simp: strrchr_from_last)

lemma strrchr_split:
  "NUL \<notin> set d \<Longrightarrow> c \<noteq> NUL \<Longrightarrow> NUL \<notin> set s \<Longrightarrow> c \<notin> set s \<Longrightarrow>
     strrchr ((d @ c # s) @ [NUL]) (char_val c) = Some (Some (length d))"
  by (simp add: strrchr_def strrchr_from_split)

text \<open>
  Going into a directory and up again leads back: the panel shows the path of the directory
  above, as if it had been opened itself.
\<close>

theorem fm_up_undoes_navigate:
  assumes "p = 0 \<or> p = 1" and "d \<noteq> []" and "CHR ''/'' \<notin> set name" and "NUL \<notin> set (d @ name)"
    and "length d + length name < FM_MAX_PATH - 1"
  shows "fm_go_up p (snd (fm_navigate p (d @ ''/'' @ name) g)) = Some (fm_navigate p d g)"
proof -
  have s: "strrchr ((d @ CHR ''/'' # name) @ [NUL]) (char_val (CHR ''/'')) = Some (Some (length d))"
    using assms(3,4) by (intro strrchr_split) auto
  define g' where "g' = snd (fm_navigate p (d @ ''/'' @ name) g)"
  have path: "fp_path (g_panels g' (nat p)) = d @ CHR ''/'' # name"
    using assms(1,5) by (auto simp: g'_def fm_navigate_def fm_refresh_panel_def upd_panel_def)
  have "fm_go_up p g' = Some (fm_refresh_panel p (upd_panel (nat p) (\<lambda>q. q\<lparr>fp_path := d\<rparr>) g'))"
    using assms(1,2) s by (auto simp: fm_go_up_def path upd_panel_def)
  also have "\<dots> = Some (fm_navigate p d g)"
    using assms(1,5) by (auto simp: g'_def fm_navigate_def fm_refresh_panel_def upd_panel_def)
  finally show ?thesis by (simp add: g'_def)
qed

definition example_fm :: fm where
  "example_fm = \<lparr>g_panels = (\<lambda>_. \<lparr>fp_path = [], entries = (\<lambda>_. \<lparr>fe_name = [], fe_path = [], fe_type = 0,
       fe_size = 0, fe_selected = False\<rparr>), entry_count = 0, selected_idx = 0, fp_scroll = 0\<rparr>),
     g_active_panel = 0, g_clipboard = [], g_clipboard_cut = False, g_window = None\<rparr>"

theorem fm_up_undoes_navigate_witness:
  "fm_go_up 1 (snd (fm_navigate 1 ''/home/user'' example_fm)) = Some (fm_navigate 1 ''/home'' example_fm)"
  using fm_up_undoes_navigate [of 1 "''/home''" "''user''" example_fm] by simp

text \<open>The states of the file manager.\<close>

inductive fm_reach :: "fm \<Rightarrow> bool" where
  start: "fm_reach (fst (snd (fm_init g w)))"
| navigate: "fm_reach g \<Longrightarrow> fm_reach (snd (fm_navigate p path g))"
| up: "fm_reach g \<Longrightarrow> fm_go_up p g = Some (ok, g') \<Longrightarrow> fm_reach g'"
| copy: "fm_reach g \<Longrightarrow> fm_reach (snd (fm_copy src dst g))"
| mouse: "fm_reach g \<Longrightarrow> fm_reach (fm_handle_mouse x y click g)"

lemma fm_reach_empty: "fm_reach g \<Longrightarrow> entry_count (g_panels g 0) = 0 \<and> entry_count (g_panels g 1) = 0"
proof (induction rule: fm_reach.induct)
  case (start g w)
  show ?case by (simp add: fm_init_def Let_def fm_refresh_panel_def upd_panel_def split: prod.split)
next
  case (navigate g p path)
  then show ?case by (auto simp: fm_navigate_def fm_refresh_panel_def upd_panel_def)
next
  case (up g p ok g')
  then show ?case
    by (auto simp: fm_go_up_def fm_refresh_panel_def upd_panel_def split: if_splits option.splits)
next
  case (copy g src dst)
  then show ?case by (simp add: fm_copy_def)
next
  case (mouse g x y click)
  then show ?case by (auto simp: fm_handle_mouse_def upd_panel_def Let_def)
qed

text \<open>
  The file manager never lists a file: in every reachable state both panels are empty, and no
  click selects anything.
\<close>

theorem fm_lists_nothing:
  assumes "fm_reach g"
  shows "entry_count (g_panels g 0) = 0 \<and> entry_count (g_panels g 1) = 0
    \<and> g_panels (fm_handle_mouse x y click g) = g_panels g"
  using fm_reach_empty [OF assms] by (auto simp: fm_handle_mouse_def Let_def)

theorem fm_lists_nothing_witness:
  "entry_count (g_panels (snd (fm_navigate 0 ''/home'' (fst (snd (fm_init example_fm example_wm))))) 0) = 0"
  using fm_lists_nothing [of "snd (fm_navigate 0 ''/home'' (fst (snd (fm_init example_fm example_wm))))"]
  by (simp add: fm_reach.intros)

section \<open>Counting and history\<close>

lemma count_processes_live:
  "count_processes y
     = of_nat (length (filter (\<lambda>i. pi_state (process_table y i) \<noteq> PROCESS_STATE_DEAD y) [0..<unat (process_count y)]))"
proof -
  have "fold (\<lambda>i n. if P i then n + 1 else n) xs k = k + of_nat (length (filter P xs))" for P and xs :: "nat list" and k :: u32
    by (induction xs arbitrary: k) simp_all
  then show ?thesis by (simp add: count_processes_def)
qed

text \<open>
  The load the monitor shows is five per cent for each live process, but computed in a byte before it is
  limited to 100: from 52 processes on it starts again at 4.
\<close>

theorem cpu_load_wraps:
  "unat (sm_cpu (sysmon_update y s))
     = min 100 (5 * length (filter (\<lambda>i. pi_state (process_table y i) \<noteq> PROCESS_STATE_DEAD y)
                             [0..<unat (process_count y)]) mod 256)"
proof -
  define n where "n = length (filter (\<lambda>i. pi_state (process_table y i) \<noteq> PROCESS_STATE_DEAD y) [0..<unat (process_count y)])"
  let ?c = "ucast (of_nat n * 5 :: u32) :: u8"
  have "of_nat n * 5 = (of_nat (5 * n) :: u32)" by simp
  then have c: "unat ?c = 5 * n mod 256"
    by (simp only: unsigned_ucast_eq take_bit_eq_mod unat_of_nat) (simp add: mod_mod_cancel)
  have "sm_cpu (sysmon_update y s) = (if ?c > 100 then 100 else ?c)"
    by (simp add: sysmon_update_def Let_def count_processes_live n_def)
  then have "unat (sm_cpu (sysmon_update y s)) = min 100 (unat ?c)"
    by (auto simp: word_less_nat_alt)
  with c show ?thesis by (simp only: n_def)
qed

text \<open>The history after a list of updates.\<close>

definition cpu_of :: "sys \<Rightarrow> u8" where
  "cpu_of y = (let cpu = ucast (count_processes y * 5) in if cpu > 100 then 100 else cpu)"

lemma unat_small: "n < 2 ^ 32 \<Longrightarrow> unat (of_nat n :: u32) = n"
  by (simp add: unsigned_of_nat take_bit_nat_eq_self)

lemma fold_update:
  assumes "unat (hist_idx s) + length ys < 2 ^ 32"
  shows "unat (hist_idx (fold sysmon_update ys s)) = unat (hist_idx s) + length ys \<and>
    (\<forall>p < length ys. length ys \<le> p + 60 \<longrightarrow>
      cpu_hist (fold sysmon_update ys s) ((unat (hist_idx s) + p) mod 60) = cpu_of (ys ! p))"
  using assms
proof (induction ys rule: rev_induct)
  case (snoc y ys)
  define t k where "t = fold sysmon_update ys s" and "k = unat (hist_idx s)"
  have idx: "unat (hist_idx t) = k + length ys"
    and old: "p < length ys \<Longrightarrow> length ys \<le> p + 60 \<Longrightarrow> cpu_hist t ((k + p) mod 60) = cpu_of (ys ! p)" for p
    using snoc by (auto simp: t_def k_def)
  have idx': "unat (hist_idx (sysmon_update y t)) = k + length ys + 1"
    using idx snoc.prems by (simp add: sysmon_update_def Let_def unat_word_ariths k_def)
  have "unat (hist_idx t mod 60) = (k + length ys) mod 60" by (simp add: unat_mod idx)
  then have hist: "cpu_hist (sysmon_update y t) = (cpu_hist t)((k + length ys) mod 60 := cpu_of y)"
    by (simp add: sysmon_update_def Let_def cpu_of_def)
  have "(k + p) mod 60 \<noteq> (k + length ys) mod 60" if "p < length ys" "Suc (length ys) \<le> p + 60" for p
    using that ring_places_differ [of "k + p" "k + length ys" 60] by simp
  with idx' hist old show ?case
    unfolding t_def [symmetric] k_def [symmetric] fold_append fold_simps comp_apply
    by (auto simp: nth_append less_Suc_eq t_def [symmetric])
qed simp

text \<open>
  From the second minute on the graph of the monitor shows the last sixty samples, oldest first, whatever
  number of updates there were.
\<close>

theorem graph_shows_last_minute:
  assumes "unat (hist_idx s) + length ys < 2 ^ 32" and "60 \<le> length ys" and "i < 60"
  shows "sample (cpu_hist (fold sysmon_update ys s)) (hist_idx (fold sysmon_update ys s)) i
    = cpu_of (ys ! (length ys - 60 + i))"
proof -
  define t where "t = fold sysmon_update ys s"
  note f = fold_update [OF assms(1), folded t_def]
  have k: "unat (hist_idx t) = unat (hist_idx s) + length ys" using f by blast
  have "hist_idx t = of_nat (unat (hist_idx s) + length ys)" unfolding k [symmetric] by simp
  then have "hist_idx t - HIST_SIZE + of_nat i = of_nat (unat (hist_idx s) + length ys - 60 + i)"
    using assms(2) by (simp add: of_nat_diff)
  moreover have "unat (hist_idx s) + length ys - 60 + i < 2 ^ 32" using assms by simp
  ultimately have "unat (hist_idx t - HIST_SIZE + of_nat i) = unat (hist_idx s) + length ys - 60 + i"
    by (simp only: unat_small)
  then have place: "unat ((hist_idx t - HIST_SIZE + of_nat i) mod HIST_SIZE)
      = (unat (hist_idx s) + (length ys - 60 + i)) mod 60"
    using assms(2) by (simp add: unat_mod add.assoc)
  have "length ys - 60 + i < length ys" "length ys \<le> length ys - 60 + i + 60" using assms(2,3) by simp_all
  with f have "cpu_hist t ((unat (hist_idx s) + (length ys - 60 + i)) mod 60) = cpu_of (ys ! (length ys - 60 + i))"
    by blast
  then show ?thesis unfolding t_def [symmetric] sample_def place .
qed

definition example_sysmon :: sysmon where
  "example_sysmon = \<lparr>cpu_hist = (\<lambda>_. 0), mem_hist = (\<lambda>_. 0), hist_idx = 0, sm_win = None, sm_cpu = 0,
     sm_mem_total = 0, sm_mem_used = 0, sm_mem_free = 0, sm_proc_count = 0, sm_uptime = 0\<rparr>"

theorem graph_shows_last_minute_witness:
  "let s = fold sysmon_update (replicate 60 example_sys) example_sysmon
   in sample (cpu_hist s) (hist_idx s) 59 = cpu_of example_sys"
  using graph_shows_last_minute [of example_sysmon "replicate 60 example_sys" 59]
  by (simp add: example_sysmon_def)

text \<open>
  In the first minute the index of the older samples wraps around below zero, where it is not a multiple
  of sixty: the graph shows the places sixteen further on instead.
\<close>

theorem graph_first_minute_shifted:
  assumes "unat idx + i < 60"
  shows "sample d idx i = d ((unat idx + i + 16) mod 60)"
proof -
  have "idx - HIST_SIZE + of_nat i = of_nat (unat idx + i) + of_nat (2 ^ 32 - 60)" by simp
  also have "\<dots> = of_nat (unat idx + i + (2 ^ 32 - 60))" by (simp only: of_nat_add)
  finally have e: "idx - HIST_SIZE + of_nat i = of_nat (unat idx + i + (2 ^ 32 - 60))" .
  have "unat idx + i + (2 ^ 32 - 60) < 2 ^ 32" using assms by simp
  then have "unat (idx - HIST_SIZE + of_nat i) = unat idx + i + (2 ^ 32 - 60)"
    unfolding e by (rule unat_small)
  then have "unat ((idx - HIST_SIZE + of_nat i) mod HIST_SIZE) = (unat idx + i + (2 ^ 32 - 60)) mod 60"
    by (simp add: unat_mod)
  also have "\<dots> = (unat idx + i + 16) mod 60"
    using mod_add_right_eq [of "unat idx + i" "2 ^ 32 - 60" 60, symmetric] by simp
  finally show ?thesis by (simp add: sample_def)
qed

theorem graph_first_minute_shifted_witness:
  "sample (\<lambda>i. of_nat i) 10 5 = 31"
  using graph_first_minute_shifted [of 10 5 "\<lambda>i. of_nat i"] by simp

end
