(* ===== verification/Debug.thy ===== *)
theory Debug
  imports Printing CString
begin

unbundle bit_operations_syntax

text \<open>
  The debugger \<^verbatim>\<open>debug/blockdbg.c\<close> and the panic of \<^verbatim>\<open>kernel/generic.c\<close>. Memory is a function from
  addresses to bytes. The clock and the running process are arguments (the files that define them are
  outside of the repository); so are the registers the assembler lines read. A panic stops the machine:
  what it leaves is the text screen.
\<close>

section \<open>Panic\<close>

text \<open>A character is signed, and is widened with its sign before the colour is added.\<close>

definition panic_cell :: "char \<Rightarrow> u16" where
  "panic_cell c = 0x4F00 OR scast (word_of_int (char_val c) :: u8)"

definition kernel_panic :: "string \<Rightarrow> (nat \<Rightarrow> u16) \<Rightarrow> (nat \<Rightarrow> u16)" where
  "kernel_panic msg vga =
     (let text_at = (\<lambda>k s vga. fold (\<lambda>j v. v(k + j := panic_cell (s ! j))) [0..<length s] vga);
          prefix = ''BLOCKOS KERNEL PANIC: '';
          vga = fold (\<lambda>i v. v(i := 0x4F20)) [0..<80 * 25] vga
      in text_at (length prefix) msg (text_at 0 prefix vga))"

section \<open>State\<close>

abbreviation DBG_LEVEL_INFO :: u8 where "DBG_LEVEL_INFO \<equiv> 0"

abbreviation DBG_LEVEL_WARN :: u8 where "DBG_LEVEL_WARN \<equiv> 1"

abbreviation DBG_LEVEL_ERROR :: u8 where "DBG_LEVEL_ERROR \<equiv> 2"

abbreviation DBG_LEVEL_TRACE :: u8 where "DBG_LEVEL_TRACE \<equiv> 4"

abbreviation DBG_MAX_BP :: u32 where "DBG_MAX_BP \<equiv> 32"

abbreviation DBG_LOG_SZ :: u32 where "DBG_LOG_SZ \<equiv> 4096"

record breakpoint =
  bp_address :: u32
  bp_active :: bool
  original_byte :: u8
  hit_count :: u32

record log_entry =
  l_level :: u8
  l_message :: string
  l_timestamp :: u32
  l_pid :: u32

record dbg =
  active :: bool
  bp :: "nat \<Rightarrow> breakpoint"
  bp_count :: u32
  dlog :: "nat \<Rightarrow> log_entry"
  log_head :: u32
  log_count :: u32

definition dbg_init :: dbg where
  "dbg_init = \<lparr>active = True, bp = (\<lambda>_. \<lparr>bp_address = 0, bp_active = False, original_byte = 0, hit_count = 0\<rparr>),
     bp_count = 0, dlog = (\<lambda>_. \<lparr>l_level = 0, l_message = [], l_timestamp = 0, l_pid = 0\<rparr>), log_head = 0, log_count = 0\<rparr>"

section \<open>Log\<close>

text \<open>\<open>ticks\<close> and \<open>cur\<close>: the clock and the number of the running process, if there is one.\<close>

definition dbg_log :: "u64 \<Rightarrow> u32 option \<Rightarrow> u8 \<Rightarrow> string \<Rightarrow> dbg \<Rightarrow> dbg" where
  "dbg_log ticks cur level msg d =
     (if \<not> active d then d
      else
        let e = \<lparr>l_level = level, l_message = take 255 msg, l_timestamp = ucast ticks,
                 l_pid = (case cur of None \<Rightarrow> 0 | Some pid \<Rightarrow> pid)\<rparr>;
            d = d\<lparr>dlog := (dlog d)(unat (log_head d mod DBG_LOG_SZ) := e), log_head := log_head d + 1\<rparr>
        in if log_count d < DBG_LOG_SZ then d\<lparr>log_count := log_count d + 1\<rparr> else d)"

definition dbg_info :: "u64 \<Rightarrow> u32 option \<Rightarrow> string \<Rightarrow> dbg \<Rightarrow> dbg" where
  "dbg_info ticks cur m d = dbg_log ticks cur DBG_LEVEL_INFO m d"

definition dbg_warn :: "u64 \<Rightarrow> u32 option \<Rightarrow> string \<Rightarrow> dbg \<Rightarrow> dbg" where
  "dbg_warn ticks cur m d = dbg_log ticks cur DBG_LEVEL_WARN m d"

definition dbg_error :: "u64 \<Rightarrow> u32 option \<Rightarrow> string \<Rightarrow> dbg \<Rightarrow> dbg" where
  "dbg_error ticks cur m d = dbg_log ticks cur DBG_LEVEL_ERROR m d"

definition dbg_trace :: "u64 \<Rightarrow> u32 option \<Rightarrow> string \<Rightarrow> dbg \<Rightarrow> dbg" where
  "dbg_trace ticks cur m d = dbg_log ticks cur DBG_LEVEL_TRACE m d"

definition dbg_get_log :: "u32 \<Rightarrow> dbg \<Rightarrow> log_entry list" where
  "dbg_get_log limit d =
     (let n = (if log_count d < limit then log_count d else limit)
      in map (\<lambda>i. dlog d (unat ((log_head d - n + of_nat i) mod DBG_LOG_SZ))) [0..<unat n])"

text \<open>A failed assertion is logged, and then the machine stops with that message.\<close>

definition dbg_assert :: "u64 \<Rightarrow> u32 option \<Rightarrow> bool \<Rightarrow> string \<Rightarrow> dbg \<Rightarrow> dbg \<times> string option" where
  "dbg_assert ticks cur cond msg d = (if \<not> cond then (dbg_error ticks cur msg d, Some msg) else (d, None))"

text \<open>The registers in the order they are read.\<close>

definition dbg_dump_registers ::
    "u64 \<Rightarrow> u32 option \<Rightarrow> u32 \<Rightarrow> u32 \<Rightarrow> u32 \<Rightarrow> u32 \<Rightarrow> u32 \<Rightarrow> u32 \<Rightarrow> dbg \<Rightarrow> dbg" where
  "dbg_dump_registers ticks cur a b c d esp ebp s =
     dbg_log ticks cur DBG_LEVEL_TRACE
       (sprint 256 ''EAX=%08x EBX=%08x ECX=%08x EDX=%08x ESP=%08x EBP=%08x'' [U32 a, U32 b, U32 c, U32 d, U32 esp, U32 ebp]) s"

section \<open>Breakpoints\<close>

type_synonym memory = "u32 \<Rightarrow> u8"

definition dbg_add_breakpoint :: "u32 \<Rightarrow> memory \<times> dbg \<Rightarrow> int \<times> memory \<times> dbg" where
  "dbg_add_breakpoint addr st =
     (case st of (mem, d) \<Rightarrow>
        if bp_count d \<ge> DBG_MAX_BP then (- 1, mem, d)
        else
          let i = unat (bp_count d);
              b = (bp d i)\<lparr>bp_address := addr, bp_active := True, original_byte := mem addr\<rparr>;
              d = d\<lparr>bp := (bp d)(i := b), bp_count := bp_count d + 1\<rparr>
          in (sint (bp_count d - 1), mem(addr := 0xCC), d))"

definition dbg_remove_breakpoint :: "int \<Rightarrow> memory \<times> dbg \<Rightarrow> bool \<times> memory \<times> dbg" where
  "dbg_remove_breakpoint idx st =
     (case st of (mem, d) \<Rightarrow>
        if idx < 0 \<or> idx \<ge> sint (bp_count d) then (False, mem, d)
        else
          let b = bp d (nat idx)
          in (True, mem(bp_address b := original_byte b), d\<lparr>bp := (bp d)(nat idx := b\<lparr>bp_active := False\<rparr>)\<rparr>))"

section \<open>Stack trace\<close>

record stack_frame =
  f_eip :: u32
  f_ebp :: u32
  f_function :: string

definition load_word :: "memory \<Rightarrow> u32 \<Rightarrow> u32" where
  "load_word mem a = ucast (mem a) OR push_bit 8 (ucast (mem (a + 1))) OR push_bit 16 (ucast (mem (a + 2)))
     OR push_bit 24 (ucast (mem (a + 3)))"

fun dbg_stack_trace :: "memory \<Rightarrow> u32 \<Rightarrow> nat \<Rightarrow> stack_frame list" where
  "dbg_stack_trace mem ebp 0 = []"
| "dbg_stack_trace mem ebp (Suc n) =
     (if ebp = 0 then []
      else
        let eip = load_word mem (ebp + 4)
        in \<lparr>f_eip = eip, f_ebp = ebp, f_function = sprint 64 ''0x%x'' [U32 eip]\<rparr>
           # dbg_stack_trace mem (load_word mem ebp) n)"

section \<open>What the log returns\<close>

lemma word_ring: "unat ((h + of_nat p) mod DBG_LOG_SZ) = (unat h + p) mod 4096" for h :: u32
proof -
  have "unat ((h + of_nat p) mod DBG_LOG_SZ) = (unat h + p) mod 2 ^ 32 mod 4096"
    by (simp add: unat_mod unat_word_ariths unat_of_nat mod_add_right_eq)
  also have "\<dots> = (unat h + p) mod 4096" by (rule mod_mod_cancel) simp
  finally show ?thesis .
qed

lemma dbg_log_active:
  assumes "active d"
  shows "active (dbg_log ticks cur level msg d)"
    and "log_head (dbg_log ticks cur level msg d) = log_head d + 1"
    and "dlog (dbg_log ticks cur level msg d) = (dlog d)((unat (log_head d) mod 4096) :=
      \<lparr>l_level = level, l_message = take 255 msg, l_timestamp = ucast ticks, l_pid = (case cur of None \<Rightarrow> 0 | Some pid \<Rightarrow> pid)\<rparr>)"
    and "unat (log_count d) \<le> 4096 \<Longrightarrow> unat (log_count (dbg_log ticks cur level msg d)) = min 4096 (unat (log_count d) + 1)"
  using assms word_ring [of "log_head d" 0]
  by (auto simp: dbg_log_def Let_def word_less_nat_alt unat_word_ariths min_def)

text \<open>A message with its circumstances, and the entry it becomes.\<close>

type_synonym event = "u64 \<times> u32 option \<times> u8 \<times> string"

definition entry_of :: "event \<Rightarrow> log_entry" where
  "entry_of e = (case e of (ticks, cur, level, msg) \<Rightarrow>
     \<lparr>l_level = level, l_message = take 255 msg, l_timestamp = ucast ticks, l_pid = (case cur of None \<Rightarrow> 0 | Some pid \<Rightarrow> pid)\<rparr>)"

definition log_all :: "event list \<Rightarrow> dbg \<Rightarrow> dbg" where
  "log_all es d = fold (\<lambda>(ticks, cur, level, msg). dbg_log ticks cur level msg) es d"

lemma log_all_ring:
  "active (log_all es dbg_init) \<and> log_head (log_all es dbg_init) = of_nat (length es)
   \<and> unat (log_count (log_all es dbg_init)) = min 4096 (length es)
   \<and> (\<forall>p < length es. length es \<le> p + 4096 \<longrightarrow> dlog (log_all es dbg_init) (p mod 4096) = entry_of (es ! p))"
proof (induction es rule: rev_induct)
  case Nil
  show ?case by (simp add: log_all_def dbg_init_def)
next
  case (snoc e es)
  obtain ticks cur level msg where e: "e = (ticks, cur, level, msg)" by (cases e)
  define d where "d = log_all es dbg_init"
  have d: "active d" "log_head d = of_nat (length es)" "unat (log_count d) = min 4096 (length es)"
    and old: "p < length es \<Longrightarrow> length es \<le> p + 4096 \<Longrightarrow> dlog d (p mod 4096) = entry_of (es ! p)" for p
    using snoc by (auto simp: d_def)
  have step: "log_all (es @ [e]) dbg_init = dbg_log ticks cur level msg d" by (simp add: log_all_def d_def e)
  have head: "unat (log_head d) mod 4096 = length es mod 4096"
    using word_ring [of 0 "length es"] by (simp add: d(2) unat_mod)
  have "p mod 4096 \<noteq> length es mod 4096" if "p < length es" "Suc (length es) \<le> p + 4096" for p
    using that ring_places_differ [of p "length es" 4096] by simp
  with d old show ?case
    unfolding step dbg_log_active [OF d(1)] head
    by (auto simp: dbg_log_active [OF d(1)] nth_append less_Suc_eq entry_of_def e)
qed

text \<open>
  C21. The log returns the newest entries, oldest first, as many as it was asked for and as it holds; it holds the
  last 4096 of all that were written, however many there were.
\<close>

theorem dbg_log_newest:
  "dbg_get_log limit (log_all es dbg_init)
     = map entry_of (drop (length es - min (unat limit) 4096) es)"
proof -
  define d where "d = log_all es dbg_init"
  note ring = log_all_ring [of es, folded d_def]
  have head: "log_head d = of_nat (length es)" and cnt: "unat (log_count d) = min 4096 (length es)"
    and old: "p < length es \<Longrightarrow> length es \<le> p + 4096 \<Longrightarrow> dlog d (p mod 4096) = entry_of (es ! p)" for p
    using ring by blast+
  define n where "n = (if log_count d < limit then log_count d else limit)"
  have n: "unat n = min (length es) (min (unat limit) 4096)"
    using cnt by (auto simp: n_def word_less_nat_alt)
  have place: "unat ((log_head d - n + of_nat i) mod DBG_LOG_SZ) = (length es - unat n + i) mod 4096" for i
  proof -
    have "of_nat (length es - unat n) = (of_nat (length es) - of_nat (unat n) :: u32)" using n by (intro of_nat_diff) simp
    then have "log_head d - n + of_nat i = 0 + of_nat (length es - unat n + i)" by (simp add: head)
    then show ?thesis using word_ring [of 0 "length es - unat n + i"] by simp
  qed
  have "dbg_get_log limit d = map (\<lambda>i. entry_of (es ! (length es - unat n + i))) [0..<unat n]"
    using n old by (auto simp: dbg_get_log_def Let_def n_def [symmetric] place)
  also have "\<dots> = map entry_of (drop (length es - unat n) es)"
    using n by (intro nth_equalityI) auto
  also have "length es - unat n = length es - min (unat limit) 4096" using n by simp
  finally show ?thesis by (simp add: d_def)
qed

section \<open>Breakpoints and memory\<close>

definition add_all :: "u32 list \<Rightarrow> memory \<times> dbg \<Rightarrow> memory \<times> dbg" where
  "add_all as st = fold (\<lambda>a st. snd (dbg_add_breakpoint a st)) as st"

definition remove_all :: "int list \<Rightarrow> memory \<times> dbg \<Rightarrow> memory \<times> dbg" where
  "remove_all is st = fold (\<lambda>i st. snd (dbg_remove_breakpoint i st)) is st"

lemma remove_breakpoint:
  assumes "bp_count d \<le> DBG_MAX_BP" and "i < unat (bp_count d)"
  shows "snd (dbg_remove_breakpoint (int i) (mem, d)) = (mem(bp_address (bp d i) := original_byte (bp d i)),
     d\<lparr>bp := (bp d)(i := (bp d i)\<lparr>bp_active := False\<rparr>)\<rparr>)"
proof -
  have "uint (bp_count d) \<le> 32" using assms(1) by (simp add: word_le_def)
  moreover have "- (2 ^ 31) \<le> uint (bp_count d)" by (rule order_trans [OF _ uint_ge_0]) simp
  ultimately have "signed_take_bit 31 (uint (bp_count d)) = uint (bp_count d)"
    by (intro signed_take_bit_int_eq_self) simp_all
  then have "sint (bp_count d) = uint (bp_count d)" by (simp add: sint_uint)
  moreover have "int i < int (unat (bp_count d))" using assms(2) by (simp only: of_nat_less_iff)
  then have "int i < uint (bp_count d)" by simp
  ultimately show ?thesis by (simp add: dbg_remove_breakpoint_def Let_def)
qed

text \<open>What is kept of the breakpoints below \<open>n\<close>.\<close>

definition same_below :: "nat \<Rightarrow> dbg \<Rightarrow> dbg \<Rightarrow> bool" where
  "same_below n d d' \<longleftrightarrow> (\<forall>i < n. bp_address (bp d' i) = bp_address (bp d i) \<and> original_byte (bp d' i) = original_byte (bp d i))"

lemma breakpoints_undone:
  assumes "unat (bp_count d) + length as \<le> 32"
  shows "\<exists>d'. remove_all (map int (rev [unat (bp_count d)..<unat (bp_count d) + length as])) (add_all as (mem, d)) = (mem, d')
    \<and> unat (bp_count d') = unat (bp_count d) + length as \<and> same_below (unat (bp_count d)) d d'"
  using assms
proof (induction as arbitrary: mem d)
  case Nil
  show ?case by (simp add: remove_all_def add_all_def same_below_def)
next
  case (Cons a as)
  define k where "k = unat (bp_count d)"
  define e where "e = d\<lparr>bp := (bp d)(k := (bp d k)\<lparr>bp_address := a, bp_active := True, original_byte := mem a\<rparr>),
     bp_count := bp_count d + 1\<rparr>"
  have k: "k < 32" using Cons.prems by (simp add: k_def)
  then have less: "\<not> DBG_MAX_BP \<le> bp_count d" by (simp add: word_le_nat_alt k_def)
  have ke: "unat (bp_count e) = Suc k" using k by (simp add: e_def k_def unat_word_ariths)
  define m where "m = mem(a := 0xCC)"
  have add: "add_all (a # as) (mem, d) = add_all as (m, e)"
    using less by (simp add: add_all_def dbg_add_breakpoint_def Let_def e_def k_def m_def)
  have "unat (bp_count e) + length as \<le> 32" using Cons.prems ke by (simp add: k_def)
  from Cons.IH [OF this, of m, unfolded ke]
  obtain d' where d': "remove_all (map int (rev [Suc k..<Suc k + length as])) (add_all as (m, e)) = (m, d')"
    "unat (bp_count d') = Suc k + length as" "same_below (Suc k) e d'"
    by blast
  have "rev [k..<k + length (a # as)] = rev [Suc k..<Suc k + length as] @ [k]"
    by (subst upt_conv_Cons) (simp_all del: upt_Suc)
  then have "remove_all (map int (rev [k..<k + length (a # as)])) (add_all (a # as) (mem, d))
      = snd (dbg_remove_breakpoint (int k) (m, d'))"
    using d'(1) by (simp add: remove_all_def add)
  also have "\<dots> = (mem, d'\<lparr>bp := (bp d')(k := (bp d' k)\<lparr>bp_active := False\<rparr>)\<rparr>)"
    using d' k Cons.prems by (subst remove_breakpoint) (auto simp: word_le_nat_alt k_def same_below_def e_def m_def fun_eq_iff)
  finally show ?case
    using d'(2,3) unfolding k_def [symmetric] by (auto simp: same_below_def e_def)
qed

text \<open>
  Breakpoints removed in the reverse of the order they were set leave the memory as it was, at equal
  addresses too.
\<close>

theorem breakpoints_restore_memory:
  assumes "unat (bp_count d) + length as \<le> 32"
  shows "fst (remove_all (map int (rev [unat (bp_count d)..<unat (bp_count d) + length as])) (add_all as (mem, d))) = mem"
  using breakpoints_undone [OF assms, of mem] by auto

theorem breakpoints_restore_memory_witness:
  "fst (remove_all [1, 0] (add_all [16, 16] (\<lambda>_. 0x90, dbg_init))) = (\<lambda>_. 0x90)"
  using breakpoints_restore_memory [of dbg_init "[16, 16]" "\<lambda>_. 0x90"] by (simp add: dbg_init_def upt_rec)

text \<open>
  Two breakpoints at one address removed in the order they were set leave the breakpoint instruction
  in memory for good.
\<close>

theorem breakpoint_left_behind:
  "fst (remove_all [0, 1] (add_all [a, a] (mem, dbg_init))) = mem(a := 0xCC)"
  by (simp add: remove_all_def add_all_def dbg_add_breakpoint_def dbg_remove_breakpoint_def dbg_init_def Let_def fun_eq_iff word_le_nat_alt)

lemma fold_cells:
  "fold (\<lambda>j v. v(k + j := f j)) [0..<n] v i = (if k \<le> i \<and> i < k + n then f (i - k) else v i)"
  by (induction n) auto

text \<open>
  A panic shows its message in the first cells of the screen behind the prefix, in white on red, and every other cell
  of the screen is blank.
\<close>

theorem panic_screen:
  assumes "length msg \<le> 80 * 25 - 22" and "i < 80 * 25"
  shows "kernel_panic msg vga i
    = (if i < 22 then panic_cell (''BLOCKOS KERNEL PANIC: '' ! i)
       else if i < 22 + length msg then panic_cell (msg ! (i - 22)) else 0x4F20)"
proof -
  have "fold (\<lambda>i v. v(i := 0x4F20)) [0..<80 * 25] vga i = 0x4F20"
    using fold_cells [of 0 "\<lambda>_. 0x4F20" "80 * 25" vga i] assms(2) by simp
  moreover have "length ''BLOCKOS KERNEL PANIC: '' = 22" by simp
  ultimately show ?thesis
    unfolding kernel_panic_def Let_def fold_cells by (simp only: if_False if_True)
      (auto simp del: upt_Suc)
qed

theorem panic_screen_witness:
  "kernel_panic ''halt'' (\<lambda>_. 0) 23 = 0x4F61"
  using panic_screen [of "''halt''" 23 "\<lambda>_. 0"] by (simp add: panic_cell_def)

end
