(* ===== verification/Pkgmgr.thy ===== *)
theory Pkgmgr
  imports Prelude "HOL-Library.Word"
begin

text \<open>
  The package manager \<^verbatim>\<open>pkgmgr/blockpkg.c\<close>. Installing a package installs what it depends on first, by calls
  of itself: the first argument of \<open>pkgmgr_install\<close> is the depth of calls the stack has room for, and
  \<^term>\<open>None\<close> is a stack that overflows.
\<close>

section \<open>State\<close>

abbreviation PKG_STATE_NONE :: u8 where "PKG_STATE_NONE \<equiv> 0"

abbreviation PKG_STATE_INSTALLED :: u8 where "PKG_STATE_INSTALLED \<equiv> 1"

record package =
  p_name :: string
  p_version :: string
  p_description :: string
  p_size :: u32
  p_state :: u8
  deps :: "nat \<Rightarrow> string"
  dep_count :: u32

record pkgmgr =
  g_packages :: "nat \<Rightarrow> package"
  g_count :: u32
  g_installed :: u32

definition zero_package :: package where
  "zero_package = \<lparr>p_name = [], p_version = [], p_description = [], p_size = 0, p_state = 0, deps = (\<lambda>_. []), dep_count = 0\<rparr>"

text \<open>The table is cleared, the counters are not.\<close>

definition pkgmgr_init :: "pkgmgr \<Rightarrow> bool \<times> pkgmgr" where
  "pkgmgr_init s = (True, s\<lparr>g_packages := (\<lambda>_. zero_package)\<rparr>)"

definition pkgmgr_find :: "pkgmgr \<Rightarrow> string \<Rightarrow> nat option" where
  "pkgmgr_find s name = first_index (\<lambda>i. p_name (g_packages s i) = name) (unat (g_count s))"

definition set_state :: "nat \<Rightarrow> u8 \<Rightarrow> pkgmgr \<Rightarrow> pkgmgr" where
  "set_state i st s = s\<lparr>g_packages := (g_packages s)(i := (g_packages s i)\<lparr>p_state := st\<rparr>)\<rparr>"

fun pkgmgr_install :: "nat \<Rightarrow> string \<Rightarrow> pkgmgr \<Rightarrow> (bool \<times> pkgmgr) option" where
  "pkgmgr_install 0 name s = None"
| "pkgmgr_install (Suc n) name s =
     (case pkgmgr_find s name of
        None \<Rightarrow> Some (False, s)
      | Some i \<Rightarrow>
          if p_state (g_packages s i) = PKG_STATE_INSTALLED then Some (True, s)
          else
            case fold (\<lambda>j r. case r of None \<Rightarrow> None
                       | Some s \<Rightarrow> map_option snd (pkgmgr_install n (deps (g_packages s i) j) s))
                   [0..<unat (dep_count (g_packages s i))] (Some s) of
              None \<Rightarrow> None
            | Some s \<Rightarrow> Some (True, (set_state i PKG_STATE_INSTALLED s)\<lparr>g_installed := g_installed s + 1\<rparr>))"

definition pkgmgr_remove :: "string \<Rightarrow> pkgmgr \<Rightarrow> bool \<times> pkgmgr" where
  "pkgmgr_remove name s =
     (case pkgmgr_find s name of
        None \<Rightarrow> (False, s)
      | Some i \<Rightarrow>
          if p_state (g_packages s i) \<noteq> PKG_STATE_INSTALLED then (False, s)
          else (True, (set_state i PKG_STATE_NONE s)\<lparr>g_installed := g_installed s - 1\<rparr>))"

definition pkgmgr_update :: "pkgmgr \<Rightarrow> bool \<times> pkgmgr" where
  "pkgmgr_update s = (True, s)"

text \<open>The packages a list of at most \<open>limit\<close> entries gets.\<close>

definition pkgmgr_list_installed :: "u32 \<Rightarrow> pkgmgr \<Rightarrow> nat list" where
  "pkgmgr_list_installed limit s =
     take (unat limit) (filter (\<lambda>i. p_state (g_packages s i) = PKG_STATE_INSTALLED) [0..<unat (g_count s)])"

definition pkgmgr_stats :: "pkgmgr \<Rightarrow> u32 \<times> u32 \<times> u32" where
  "pkgmgr_stats s =
     (g_count s, g_installed s,
      fold (\<lambda>i sz. if p_state (g_packages s i) = PKG_STATE_INSTALLED then sz + p_size (g_packages s i) else sz)
        [0..<unat (g_count s)] 0)"

section \<open>Dependencies\<close>

abbreviation installed :: "pkgmgr \<Rightarrow> nat \<Rightarrow> bool" where
  "installed s i \<equiv> p_state (g_packages s i) = PKG_STATE_INSTALLED"

text \<open>The packages of the table that package \<open>i\<close> names as its dependencies.\<close>

definition needs :: "pkgmgr \<Rightarrow> nat \<Rightarrow> nat set" where
  "needs s i = {k. \<exists>j < unat (dep_count (g_packages s i)). pkgmgr_find s (deps (g_packages s i) j) = Some k}"

text \<open>\<open>r\<close> counts down along dependencies; installed packages have theirs; the counter counts.\<close>

definition ranked :: "(nat \<Rightarrow> nat) \<Rightarrow> pkgmgr \<Rightarrow> bool" where
  "ranked r s \<longleftrightarrow> (\<forall>i < unat (g_count s). \<forall>k \<in> needs s i. r k < r i)"

definition closed :: "pkgmgr \<Rightarrow> bool" where
  "closed s \<longleftrightarrow> (\<forall>i < unat (g_count s). installed s i \<longrightarrow> (\<forall>k \<in> needs s i. installed s k))"

definition counted :: "pkgmgr \<Rightarrow> bool" where
  "counted s \<longleftrightarrow> g_installed s = of_nat (card {i. i < unat (g_count s) \<and> installed s i})"

text \<open>Only states differ.\<close>

definition same_table :: "pkgmgr \<Rightarrow> pkgmgr \<Rightarrow> bool" where
  "same_table s s' \<longleftrightarrow> g_count s' = g_count s \<and>
     (\<forall>i. p_name (g_packages s' i) = p_name (g_packages s i) \<and> deps (g_packages s' i) = deps (g_packages s i)
       \<and> dep_count (g_packages s' i) = dep_count (g_packages s i))"

lemma same_tableD:
  assumes "same_table s s'"
  shows "pkgmgr_find s' = pkgmgr_find s" "needs s' = needs s" "ranked r s' = ranked r s"
    "unat (g_count s') = unat (g_count s)" "deps (g_packages s' i) = deps (g_packages s i)"
    "dep_count (g_packages s' i) = dep_count (g_packages s i)"
proof -
  show f: "pkgmgr_find s' = pkgmgr_find s" using assms by (simp add: same_table_def pkgmgr_find_def fun_eq_iff)
  show n: "needs s' = needs s" using assms by (simp add: needs_def f same_table_def fun_eq_iff)
  show "ranked r s' = ranked r s" using assms by (simp add: ranked_def n same_table_def)
  show "unat (g_count s') = unat (g_count s)" "deps (g_packages s' i) = deps (g_packages s i)"
    "dep_count (g_packages s' i) = dep_count (g_packages s i)"
    using assms by (simp_all add: same_table_def)
qed

lemma same_table_trans: "same_table s t \<Longrightarrow> same_table t u \<Longrightarrow> same_table s u"
  by (simp add: same_table_def)

text \<open>What installing packages of ranks below \<open>m\<close> does.\<close>

definition grows :: "(nat \<Rightarrow> nat) \<Rightarrow> nat \<Rightarrow> pkgmgr \<Rightarrow> pkgmgr \<Rightarrow> bool" where
  "grows r m s s' \<longleftrightarrow> same_table s s' \<and> (\<forall>k. installed s k \<longrightarrow> installed s' k)
     \<and> (\<forall>k. installed s' k \<longrightarrow> installed s k \<or> r k < m) \<and> closed s' \<and> counted s'"

lemma grows_refl: "closed s \<Longrightarrow> counted s \<Longrightarrow> grows r m s s"
  by (simp add: grows_def same_table_def)

lemma grows_trans: "grows r m s t \<Longrightarrow> grows r m t u \<Longrightarrow> grows r m s u"
  by (auto simp: grows_def intro: same_table_trans)

lemma grows_mono: "grows r m s t \<Longrightarrow> m \<le> m' \<Longrightarrow> grows r m' s t"
  by (fastforce simp: grows_def)

lemma find_below: "pkgmgr_find s name = Some i \<Longrightarrow> i < unat (g_count s)"
  by (auto simp: pkgmgr_find_def dest: first_index_SomeD)

lemma install_step:
  assumes "grows r (r i) s s'" and "\<not> installed s i" and "i < unat (g_count s)" and "\<forall>k \<in> needs s i. installed s' k"
  shows "grows r (Suc (r i)) s ((set_state i PKG_STATE_INSTALLED s')\<lparr>g_installed := g_installed s' + 1\<rparr>)" (is "grows _ _ _ ?t")
proof -
  have t: "same_table s' ?t" "same_table s s'" using assms(1) by (auto simp: same_table_def set_state_def grows_def)
  note st = same_tableD [OF t(1)] same_tableD [OF t(2)]
  have inst: "installed ?t k \<longleftrightarrow> k = i \<or> installed s' k" for k by (simp add: set_state_def)
  have new: "\<not> installed s' i" using assms(1,2) by (auto simp: grows_def)
  have "closed ?t"
    using assms(1,4) unfolding closed_def grows_def inst st by auto
  moreover have "{k. k < unat (g_count s) \<and> (k = i \<or> installed s' k)} = insert i {k. k < unat (g_count s) \<and> installed s' k}"
    using assms(3) by auto
  then have "counted ?t"
    using assms(1) new unfolding counted_def grows_def inst st by (simp add: counted_def st)
  ultimately show ?thesis
    using assms(1) same_table_trans [OF t(2,1)] unfolding grows_def inst by (auto simp: less_Suc_eq)
qed

lemma install_deps:
  assumes IH: "\<And>name s. closed s \<Longrightarrow> counted s \<Longrightarrow> ranked r s \<Longrightarrow>
      (case pkgmgr_find s name of None \<Rightarrow> 1 \<le> n | Some k \<Rightarrow> r k + 2 \<le> n) \<Longrightarrow>
      \<exists>b s'. pkgmgr_install n name s = Some (b, s')
        \<and> grows r (case pkgmgr_find s name of None \<Rightarrow> 0 | Some k \<Rightarrow> Suc (r k)) s s'
        \<and> (\<forall>k. pkgmgr_find s name = Some k \<longrightarrow> b \<and> installed s' k)"
    and "closed s" and "counted s" and "ranked r s" and "r i + 1 \<le> n" and "i < unat (g_count s)"
    and "\<forall>j \<in> set js. j < unat (dep_count (g_packages s i))"
  shows "\<exists>s'. fold (\<lambda>j q. case q of None \<Rightarrow> None
        | Some s \<Rightarrow> map_option snd (pkgmgr_install n (deps (g_packages s i) j) s)) js (Some s) = Some s'
      \<and> grows r (r i) s s'
      \<and> (\<forall>j \<in> set js. \<forall>k. pkgmgr_find s (deps (g_packages s i) j) = Some k \<longrightarrow> installed s' k)"
  using assms(2-)
proof (induction js arbitrary: s)
  case Nil
  then show ?case by (simp add: grows_refl)
next
  case (Cons j js)
  let ?name = "deps (g_packages s i) j"
  have less: "r k < r i" if "pkgmgr_find s ?name = Some k" for k
    using that Cons.prems(3,5,6) by (auto simp: ranked_def needs_def)
  have "case pkgmgr_find s ?name of None \<Rightarrow> 1 \<le> n | Some k \<Rightarrow> r k + 2 \<le> n"
    using less Cons.prems(4) by (fastforce split: option.split)
  from IH [OF Cons.prems(1-3) this] obtain b t where t: "pkgmgr_install n ?name s = Some (b, t)"
    and g: "grows r (case pkgmgr_find s ?name of None \<Rightarrow> 0 | Some k \<Rightarrow> Suc (r k)) s t"
    and inst: "\<forall>k. pkgmgr_find s ?name = Some k \<longrightarrow> b \<and> installed t k" by blast
  have gt: "grows r (r i) s t" by (rule grows_mono [OF g]) (use less in \<open>auto split: option.split\<close>)
  then have same: "same_table s t" and ok: "closed t" "counted t" by (simp_all add: grows_def)
  note st = same_tableD [OF same]
  from Cons.IH [OF ok, unfolded st, OF Cons.prems(3-5)] Cons.prems(6)
  obtain u where u: "fold (\<lambda>j q. case q of None \<Rightarrow> None
        | Some s \<Rightarrow> map_option snd (pkgmgr_install n (deps (g_packages s i) j) s)) js (Some t) = Some u"
    and gu: "grows r (r i) t u"
    and iu: "\<forall>j \<in> set js. \<forall>k. pkgmgr_find s (deps (g_packages s i) j) = Some k \<longrightarrow> installed u k" by auto
  have "installed u k" if "pkgmgr_find s ?name = Some k" for k
    using that inst gu by (auto simp: grows_def)
  with t u iu grows_trans [OF gt gu] show ?case by auto
qed

lemma install_main:
  assumes "closed s" and "counted s" and "ranked r s"
    and "case pkgmgr_find s name of None \<Rightarrow> 1 \<le> n | Some i \<Rightarrow> r i + 2 \<le> n"
  shows "\<exists>b s'. pkgmgr_install n name s = Some (b, s')
    \<and> grows r (case pkgmgr_find s name of None \<Rightarrow> 0 | Some i \<Rightarrow> Suc (r i)) s s'
    \<and> (\<forall>i. pkgmgr_find s name = Some i \<longrightarrow> b \<and> installed s' i)"
  using assms
proof (induction n arbitrary: name s)
  case 0
  then show ?case by (auto split: option.splits)
next
  case (Suc n)
  show ?case
  proof (cases "pkgmgr_find s name")
    case None
    with Suc.prems show ?thesis by (auto simp: grows_refl)
  next
    case (Some i)
    then have i: "i < unat (g_count s)" by (rule find_below)
    show ?thesis
    proof (cases "installed s i")
      case True
      with Some Suc.prems show ?thesis by (auto simp: grows_refl)
    next
      case False
      let ?js = "[0..<unat (dep_count (g_packages s i))]"
      have fuel: "r i + 1 \<le> n" using Suc.prems(4) Some by simp
      obtain t where t: "fold (\<lambda>j q. case q of None \<Rightarrow> None
          | Some s \<Rightarrow> map_option snd (pkgmgr_install n (deps (g_packages s i) j) s)) ?js (Some s) = Some t"
        and g: "grows r (r i) s t"
        and inst: "\<forall>j \<in> set ?js. \<forall>k. pkgmgr_find s (deps (g_packages s i) j) = Some k \<longrightarrow> installed t k"
        using install_deps [where js = ?js, OF Suc.IH Suc.prems(1-3) fuel i] by auto
      then have "\<forall>k \<in> needs s i. installed t k" by (auto simp: needs_def)
      from install_step [OF g False i this] t Some False show ?thesis by (auto simp: set_state_def)
    qed
  qed
qed

text \<open>
  On a table that holds packages, which the code never has (see the end of the theory), whose installed packages have their
  dependencies and whose counter is right: when the dependencies have no cycle, installing a known package returns, with as many nested calls as the
  longest chain below it: the package is installed, every installed package has its dependencies, no package is lost and the
  counter is the number of installed packages. Removing a package others need, or starting anew, breaks the hypotheses.
\<close>

theorem install_completes:
  assumes "closed s" and "counted s" and "ranked r s" and "pkgmgr_find s name = Some i" and "r i + 2 \<le> n"
  shows "\<exists>s'. pkgmgr_install n name s = Some (True, s') \<and> installed s' i \<and> closed s' \<and> counted s'
    \<and> (\<forall>k. installed s k \<longrightarrow> installed s' k)"
proof -
  have "case pkgmgr_find s name of None \<Rightarrow> 1 \<le> n | Some i \<Rightarrow> r i + 2 \<le> n" using assms(4,5) by simp
  from install_main [OF assms(1-3) this] assms(4) show ?thesis by (auto simp: grows_def)
qed

definition example_pkgs :: pkgmgr where
  "example_pkgs = \<lparr>g_packages = (\<lambda>_. zero_package)
      (0 := zero_package\<lparr>p_name := ''app'', deps := (\<lambda>_. ''lib''), dep_count := 1\<rparr>, 1 := zero_package\<lparr>p_name := ''lib''\<rparr>),
     g_count = 2, g_installed = 0\<rparr>"

theorem install_completes_witness:
  "\<exists>s'. pkgmgr_install 3 ''app'' example_pkgs = Some (True, s') \<and> p_state (g_packages s' 0) = PKG_STATE_INSTALLED"
proof -
  have f: "pkgmgr_find example_pkgs ''app'' = Some 0" "pkgmgr_find example_pkgs ''lib'' = Some 1"
    by (simp_all add: pkgmgr_find_def first_index_def example_pkgs_def upt_rec)
  have d: "deps (g_packages example_pkgs 0) = (\<lambda>_. ''lib'')" "dep_count (g_packages example_pkgs 0) = 1"
    "dep_count (g_packages example_pkgs 1) = 0" by (simp_all add: example_pkgs_def zero_package_def)
  have n: "needs example_pkgs 0 = {1}" "needs example_pkgs 1 = {}"
    by (auto simp: needs_def d [unfolded One_nat_def] f)
  have two: "i < unat (g_count example_pkgs) \<longleftrightarrow> i = 0 \<or> i = 1" for i by (auto simp: example_pkgs_def)
  have no: "\<not> installed example_pkgs i" for i by (simp add: example_pkgs_def zero_package_def)
  have "closed example_pkgs" using no by (simp add: closed_def)
  moreover have "counted example_pkgs"
    unfolding counted_def by (simp add: no) (simp add: example_pkgs_def)
  moreover have "ranked (\<lambda>i. 1 - i) example_pkgs"
    using n by (auto simp: ranked_def two)
  ultimately show ?thesis using install_completes [OF _ _ _ f(1), of "\<lambda>i. 1 - i" 3] by auto
qed

text \<open>
  A package that depends on itself is never installed: the calls go on until the stack overflows, however deep it is.
\<close>

theorem install_cycle_overflows:
  assumes "pkgmgr_find s name = Some i" and "\<not> installed s i"
    and "0 < dep_count (g_packages s i)" and "deps (g_packages s i) 0 = name"
  shows "pkgmgr_install n name s = None"
proof (induction n)
  case (Suc n)
  have none: "fold (\<lambda>j q. case q of None \<Rightarrow> None
      | Some s \<Rightarrow> map_option snd (pkgmgr_install n (deps (g_packages s i) j) s)) js None = None" for js
    by (induction js) simp_all
  have "0 < unat (dep_count (g_packages s i))" using assms(3) by (simp add: word_less_nat_alt)
  then obtain m where "unat (dep_count (g_packages s i)) = Suc m" by (cases "unat (dep_count (g_packages s i))") auto
  then have "[0..<unat (dep_count (g_packages s i))] = 0 # [Suc 0..<Suc m]" by (simp only: upt_conv_Cons)
  with assms Suc none show ?case by (simp del: upt_Suc)
qed simp

theorem install_cycle_overflows_witness:
  "pkgmgr_install 100 ''a'' \<lparr>g_packages = (\<lambda>_. zero_package\<lparr>p_name := ''a'', deps := (\<lambda>_. ''a''), dep_count := 1\<rparr>),
     g_count = 1, g_installed = 0\<rparr> = None"
  by (rule install_cycle_overflows [where i = 0]) (simp_all add: pkgmgr_find_def first_index_def zero_package_def)

text \<open>The states the package manager reaches from its start: the counter of packages is 0 and nothing changes it.\<close>

inductive pkg_reach :: "pkgmgr \<Rightarrow> bool" where
  start: "g_count s = 0 \<Longrightarrow> pkg_reach s"
| init: "pkg_reach s \<Longrightarrow> pkg_reach (snd (pkgmgr_init s))"
| install: "pkg_reach s \<Longrightarrow> pkgmgr_install n name s = Some (b, s') \<Longrightarrow> pkg_reach s'"
| remove: "pkg_reach s \<Longrightarrow> pkg_reach (snd (pkgmgr_remove name s))"

lemma pkg_reach_empty: "pkg_reach s \<Longrightarrow> g_count s = 0"
proof (induction rule: pkg_reach.induct)
  case (install s n name b s')
  then have "pkgmgr_find s name = None" by (simp add: pkgmgr_find_def)
  with install show ?case by (cases n) auto
qed (simp_all add: pkgmgr_init_def pkgmgr_remove_def pkgmgr_find_def)



end
