(* ===== verification/Float_Ops.thy ===== *)
theory Float_Ops
  imports Complex_Main Prelude
begin

text \<open>
  The floating point arithmetic of the machine, which animations and the frosted glass use, as a record of its
  operations: no lemma depends on how they round. \<open>f_less_double t a b\<close> is \<^verbatim>\<open>t < a / b\<close> in double precision and
  \<open>f_to_u8\<close> the conversion to a byte.
\<close>

record 'f float_ops =
  f_add :: "'f \<Rightarrow> 'f \<Rightarrow> 'f"
  f_sub :: "'f \<Rightarrow> 'f \<Rightarrow> 'f"
  f_mul :: "'f \<Rightarrow> 'f \<Rightarrow> 'f"
  f_div :: "'f \<Rightarrow> 'f \<Rightarrow> 'f"
  f_less :: "'f \<Rightarrow> 'f \<Rightarrow> bool"
  f_ge :: "'f \<Rightarrow> 'f \<Rightarrow> bool"
  f_lit :: "rat \<Rightarrow> 'f"
  f_of_u32 :: "u32 \<Rightarrow> 'f"
  f_of_int :: "int \<Rightarrow> 'f"
  f_less_double :: "'f \<Rightarrow> rat \<Rightarrow> rat \<Rightarrow> bool"
  f_to_u8 :: "'f \<Rightarrow> u8"

end
