(* ===== verification/Effects.thy ===== *)
theory Effects
  imports Float_Ops "HOL-Library.Signed_Division"
begin

text \<open>
  The effects of \<^verbatim>\<open>effects.c\<close> on a frame buffer of three bytes per pixel and \<open>fw\<close> pixels per row. The buffer is
  a function from offsets to bytes, outside of the buffer too, since the code does not know its size; the number \<open>fh\<close> of
  its rows occurs in the lemmas only. Coordinates and
  sums are integers: a sum has at most \<open>(2 * radius + 1) ^ 2\<close> summands below 256, far from the limit of a
  C integer for any radius below 1000. The frosted glass is computed with the operations \<open>float_ops\<close> of the machine.
\<close>

type_synonym fb = "int \<Rightarrow> u8"

section \<open>Blur\<close>

text \<open>One pixel of the window around \<open>(px, py)\<close> added to the sums of the three colours and the number of pixels.\<close>

definition add_pixel :: "fb \<Rightarrow> int \<Rightarrow> int \<Rightarrow> int \<Rightarrow> int \<times> int \<times> int \<times> int \<Rightarrow> int \<times> int \<times> int \<times> int" where
  "add_pixel b fw ny nx st =
     (case st of (r, g, bl, cnt) \<Rightarrow>
        if nx < 0 \<or> nx \<ge> fw \<or> ny < 0 then st
        else
          let idx = (ny * fw + nx) * 3
          in (r + uint (b idx), g + uint (b (idx + 1)), bl + uint (b (idx + 2)), cnt + 1))"

definition window_sums :: "fb \<Rightarrow> int \<Rightarrow> int \<Rightarrow> int \<Rightarrow> int \<Rightarrow> int \<times> int \<times> int \<times> int" where
  "window_sums b fw radius py px =
     fold (\<lambda>dy. fold (\<lambda>dx. add_pixel b fw (py + dy) (px + dx)) [- radius..radius]) [- radius..radius] (0, 0, 0, 0)"

definition put_pixel :: "int \<Rightarrow> u8 \<Rightarrow> u8 \<Rightarrow> u8 \<Rightarrow> fb \<Rightarrow> fb" where
  "put_pixel idx r g bl b = b(idx := r, idx + 1 := g, idx + 2 := bl)"

definition blur_pixel :: "int \<Rightarrow> int \<Rightarrow> int \<Rightarrow> int \<Rightarrow> fb \<Rightarrow> fb" where
  "blur_pixel fw radius py px b =
     (case window_sums b fw radius py px of (r, g, bl, cnt) \<Rightarrow>
        if cnt > 0
        then put_pixel ((py * fw + px) * 3) (word_of_int (r div cnt)) (word_of_int (g div cnt)) (word_of_int (bl div cnt)) b
        else b)"

definition each_pixel :: "int \<Rightarrow> int \<Rightarrow> int \<Rightarrow> int \<Rightarrow> (int \<Rightarrow> int \<Rightarrow> fb \<Rightarrow> fb) \<Rightarrow> fb \<Rightarrow> fb" where
  "each_pixel x y w h f b = fold (\<lambda>py. fold (f py) [x..x + w - 1]) [y..y + h - 1] b"

definition fx_blur :: "int \<Rightarrow> int \<Rightarrow> int \<Rightarrow> int \<Rightarrow> int \<Rightarrow> int \<Rightarrow> fb \<Rightarrow> fb" where
  "fx_blur x y w h fw radius b =
     (if radius < 1 then b else each_pixel x y w h (blur_pixel fw radius) b)"

definition fx_gaussian_blur :: "int \<Rightarrow> int \<Rightarrow> int \<Rightarrow> int \<Rightarrow> int \<Rightarrow> fb \<Rightarrow> fb" where
  "fx_gaussian_blur x y w h fw b = fx_blur x y w h fw 2 (fx_blur x y w h fw 2 b)"

section \<open>Frosted glass\<close>

text \<open>\<^verbatim>\<open>fb[idx] + (255-fb[idx]) * alpha * 0.3f\<close>, made a byte.\<close>

definition frost :: "'f float_ops \<Rightarrow> 'f \<Rightarrow> u8 \<Rightarrow> u8" where
  "frost ops alpha v = f_to_u8 ops (f_add ops (f_of_int ops (uint v))
     (f_mul ops (f_mul ops (f_of_int ops (255 - uint v)) alpha) (f_lit ops (3/10))))"

definition frost_pixel :: "'f float_ops \<Rightarrow> int \<Rightarrow> 'f \<Rightarrow> int \<Rightarrow> int \<Rightarrow> fb \<Rightarrow> fb" where
  "frost_pixel ops fw alpha py px b =
     (if px < 0 \<or> px \<ge> fw \<or> py < 0 then b
      else
        let idx = (py * fw + px) * 3
        in put_pixel idx (frost ops alpha (b idx)) (frost ops alpha (b (idx + 1))) (frost ops alpha (b (idx + 2))) b)"

definition fx_frosted_glass :: "'f float_ops \<Rightarrow> int \<Rightarrow> int \<Rightarrow> int \<Rightarrow> int \<Rightarrow> int \<Rightarrow> 'f \<Rightarrow> fb \<Rightarrow> fb" where
  "fx_frosted_glass ops x y w h fw alpha b =
     each_pixel x y w h (frost_pixel ops fw alpha) (fx_gaussian_blur x y w h fw b)"

section \<open>Shadow\<close>

definition darken :: "u8 \<Rightarrow> u8 \<Rightarrow> u8" where
  "darken alpha v = word_of_int (uint v * (255 - uint alpha) sdiv 255)"

definition shadow_pixel :: "int \<Rightarrow> u8 \<Rightarrow> int \<Rightarrow> int \<Rightarrow> fb \<Rightarrow> fb" where
  "shadow_pixel fw alpha py px b =
     (if px < 0 \<or> px \<ge> fw \<or> py < 0 then b
      else
        let idx = (py * fw + px) * 3
        in put_pixel idx (darken alpha (b idx)) (darken alpha (b (idx + 1))) (darken alpha (b (idx + 2))) b)"

definition fx_shadow :: "int \<Rightarrow> int \<Rightarrow> int \<Rightarrow> int \<Rightarrow> int \<Rightarrow> int \<Rightarrow> u8 \<Rightarrow> fb \<Rightarrow> fb" where
  "fx_shadow x y w h fw radius alpha b =
     (let sx = x + 6; sy = y + 6
      in fx_blur sx sy (w + radius) (h + radius) fw (radius sdiv 2)
           (each_pixel sx sy (w + radius) (h + radius) (shadow_pixel fw alpha) b))"

section \<open>Rounded rectangle\<close>

definition corner :: "int \<Rightarrow> int \<Rightarrow> int \<Rightarrow> int \<Rightarrow> int \<Rightarrow> int \<Rightarrow> int \<Rightarrow> int \<times> int" where
  "corner x y w h r px py =
     (if px < x + r \<and> py < y + r then (px - (x + r), py - (y + r))
      else if px > x + w - r \<and> py < y + r then (px - (x + w - r), py - (y + r))
      else if px < x + r \<and> py > y + h - r then (px - (x + r), py - (y + h - r))
      else if px > x + w - r \<and> py > y + h - r then (px - (x + w - r), py - (y + h - r))
      else (0, 0))"

definition rounded_pixel :: "int \<Rightarrow> int \<Rightarrow> int \<Rightarrow> int \<Rightarrow> int \<Rightarrow> int \<Rightarrow> u32 \<Rightarrow> int \<Rightarrow> int \<Rightarrow> fb \<Rightarrow> fb" where
  "rounded_pixel x y w h fw r color py px b =
     (let (dx, dy) = corner x y w h r px py in
      if (dx \<noteq> 0 \<or> dy \<noteq> 0) \<and> dx * dx + dy * dy > r * r then b
      else if px < 0 \<or> px \<ge> fw \<or> py < 0 then b
      else put_pixel ((py * fw + px) * 3) (ucast (drop_bit 16 color)) (ucast (drop_bit 8 color)) (ucast color) b)"

definition fx_rounded_rect :: "int \<Rightarrow> int \<Rightarrow> int \<Rightarrow> int \<Rightarrow> int \<Rightarrow> int \<Rightarrow> u32 \<Rightarrow> fb \<Rightarrow> fb" where
  "fx_rounded_rect x y w h fw r color b = each_pixel x y w h (rounded_pixel x y w h fw r color) b"

section \<open>Pixels and offsets\<close>

definition pixel :: "int \<Rightarrow> fb \<Rightarrow> int \<Rightarrow> int \<Rightarrow> u8 \<times> u8 \<times> u8" where
  "pixel fw b px py = (let i = (py * fw + px) * 3 in (b i, b (i + 1), b (i + 2)))"

lemma offset_inj:
  fixes px py qx qy fw i j :: int
  assumes "0 \<le> px" "px < fw" "0 \<le> qx" "qx < fw" "(py * fw + px) * 3 + i = (qy * fw + qx) * 3 + j"
    and "0 \<le> i" "i < 3" "0 \<le> j" "j < 3"
  shows "px = qx \<and> py = qy \<and> i = j"
proof -
  have ij: "i = j" and e: "py * fw + px = qy * fw + qx" using assms(5-9) by presburger+
  have "px = (py * fw + px) mod fw" "py = (py * fw + px) div fw" using assms(1,2) by simp_all
  moreover have "qx = (qy * fw + qx) mod fw" "qy = (qy * fw + qx) div fw" using assms(3,4) by simp_all
  ultimately show ?thesis using e ij by metis
qed

lemma pixel_put:
  assumes "0 \<le> px" "px < fw" "0 \<le> qx" "qx < fw"
  shows "pixel fw (put_pixel ((py * fw + px) * 3) r g bl b) qx qy
    = (if px = qx \<and> py = qy then (r, g, bl) else pixel fw b qx qy)"
proof -
  have "(py * fw + px) * 3 + i \<noteq> (qy * fw + qx) * 3 + j" if "\<not> (px = qx \<and> py = qy)" "0 \<le> i" "i < 3" "0 \<le> j" "j < 3" for i j
    using offset_inj [OF assms, of py i qy j] that by blast
  from this [of 0 0] this [of 0 1] this [of 0 2] this [of 1 0] this [of 1 1] this [of 1 2]
    this [of 2 0] this [of 2 1] this [of 2 2]
  show ?thesis by (auto simp: pixel_def put_pixel_def Let_def)
qed

text \<open>A step that sets what one looks at, or leaves it, under a condition on its argument.\<close>

lemma fold_sets:
  assumes "\<And>a b. view (g a b) = (if Q a then c else view b)"
  shows "view (fold g xs b) = (if \<exists>a \<in> set xs. Q a then c else view b)"
  by (induction xs arbitrary: b) (auto simp: assms)

lemma each_pixel_sets:
  assumes "\<And>py px b. pixel fw (f py px b) qx qy = (if P px py \<and> px = qx \<and> py = qy then c else pixel fw b qx qy)"
  shows "pixel fw (each_pixel x y w h f b) qx qy
    = (if x \<le> qx \<and> qx < x + w \<and> y \<le> qy \<and> qy < y + h \<and> P qx qy then c else pixel fw b qx qy)"
proof -
  have row: "pixel fw (fold (f py) [x..x + w - 1] b) qx qy
      = (if py = qy \<and> x \<le> qx \<and> qx < x + w \<and> P qx qy then c else pixel fw b qx qy)" for py b
    by (subst fold_sets [where view = "\<lambda>b. pixel fw b qx qy" and Q = "\<lambda>px. P px py \<and> px = qx \<and> py = qy", OF assms]) auto
  show ?thesis
    unfolding each_pixel_def
    by (subst fold_sets [where view = "\<lambda>b. pixel fw b qx qy"
          and Q = "\<lambda>py. py = qy \<and> x \<le> qx \<and> qx < x + w \<and> P qx qy", OF row]) auto
qed

text \<open>
  The inside of the rounded rectangle: the points of the rectangle within distance \<open>r\<close> of its core, which is the
  rectangle less a border of width \<open>r\<close>.
\<close>

definition inside :: "int \<Rightarrow> int \<Rightarrow> int \<Rightarrow> int \<Rightarrow> int \<Rightarrow> int \<Rightarrow> int \<Rightarrow> bool" where
  "inside x y w h r px py \<longleftrightarrow> x \<le> px \<and> px < x + w \<and> y \<le> py \<and> py < y + h
     \<and> (\<exists>a \<in> {x + r..x + w - r}. \<exists>b \<in> {y + r..y + h - r}. (px - a)\<^sup>2 + (py - b)\<^sup>2 \<le> r\<^sup>2)"

text \<open>The difference to the nearest point of an interval.\<close>

definition beyond :: "int \<Rightarrow> int \<Rightarrow> int \<Rightarrow> int" where
  "beyond lo hi p = (if p < lo then p - lo else if p > hi then p - hi else 0)"

lemma beyond_least: "lo \<le> a \<Longrightarrow> a \<le> hi \<Longrightarrow> (beyond lo hi p)\<^sup>2 \<le> (p - a)\<^sup>2"
  unfolding abs_le_square_iff [symmetric] by (auto simp: beyond_def)

lemma beyond_reached: "lo \<le> hi \<Longrightarrow> \<exists>a \<in> {lo..hi}. p - a = beyond lo hi p"
  by (auto simp: beyond_def intro: bexI [of _ lo] bexI [of _ hi] bexI [of _ p])

lemma near_interval_iff:
  assumes "lo \<le> hi" and "lo' \<le> hi'"
  shows "(\<exists>a \<in> {lo..hi}. \<exists>b \<in> {lo'..hi'}. (p - a)\<^sup>2 + (q - b)\<^sup>2 \<le> d)
    \<longleftrightarrow> (beyond lo hi p)\<^sup>2 + (beyond lo' hi' q)\<^sup>2 \<le> d"
proof
  assume "\<exists>a \<in> {lo..hi}. \<exists>b \<in> {lo'..hi'}. (p - a)\<^sup>2 + (q - b)\<^sup>2 \<le> d"
  then obtain a b where "lo \<le> a" "a \<le> hi" "lo' \<le> b" "b \<le> hi'" "(p - a)\<^sup>2 + (q - b)\<^sup>2 \<le> d" by auto
  with beyond_least [of lo a hi p] beyond_least [of lo' b hi' q]
  show "(beyond lo hi p)\<^sup>2 + (beyond lo' hi' q)\<^sup>2 \<le> d" by linarith
next
  obtain a b where "a \<in> {lo..hi}" "p - a = beyond lo hi p" "b \<in> {lo'..hi'}" "q - b = beyond lo' hi' q"
    using beyond_reached [OF assms(1), of p] beyond_reached [OF assms(2), of q] by blast
  moreover assume "(beyond lo hi p)\<^sup>2 + (beyond lo' hi' q)\<^sup>2 \<le> d"
  ultimately show "\<exists>a \<in> {lo..hi}. \<exists>b \<in> {lo'..hi'}. (p - a)\<^sup>2 + (q - b)\<^sup>2 \<le> d" by force
qed

text \<open>What \<open>corner\<close> decides inside the rectangle.\<close>

lemma corner_inside:
  assumes "0 \<le> r" and "2 * r \<le> w" and "2 * r \<le> h" and "x \<le> px" "px < x + w" "y \<le> py" "py < y + h"
  shows "(case corner x y w h r px py of (dx, dy) \<Rightarrow> dx * dx + dy * dy \<le> r * r) \<longleftrightarrow> inside x y w h r px py"
proof -
  let ?bx = "beyond (x + r) (x + w - r) px" and ?by = "beyond (y + r) (y + h - r) py"
  have small: "?bx\<^sup>2 \<le> r\<^sup>2" "?by\<^sup>2 \<le> r\<^sup>2"
    unfolding abs_le_square_iff [symmetric] using assms by (auto simp: beyond_def)
  have "inside x y w h r px py \<longleftrightarrow> ?bx\<^sup>2 + ?by\<^sup>2 \<le> r\<^sup>2"
    using assms near_interval_iff [of "x + r" "x + w - r" "y + r" "y + h - r" px py "r\<^sup>2"] by (simp add: inside_def)
  moreover have "corner x y w h r px py = (if ?bx \<noteq> 0 \<and> ?by \<noteq> 0 then (?bx, ?by) else (0, 0))"
    using assms(1-3) by (auto simp: corner_def beyond_def)
  ultimately show ?thesis using small by (auto simp: power2_eq_square)
qed

lemma rounded_pixel_at:
  assumes "0 \<le> qx" "qx < fw"
  shows "pixel fw (rounded_pixel x y w h fw r color py px b) qx qy
    = (if 0 \<le> py \<and> (case corner x y w h r px py of (dx, dy) \<Rightarrow> dx * dx + dy * dy \<le> r * r) \<and> px = qx \<and> py = qy
       then (ucast (drop_bit 16 color), ucast (drop_bit 8 color), ucast color) else pixel fw b qx qy)"
proof -
  obtain dx dy where d: "corner x y w h r px py = (dx, dy)" by fastforce
  have "0 \<le> r * r" by simp
  then have far: "(dx \<noteq> 0 \<or> dy \<noteq> 0) \<and> dx * dx + dy * dy > r * r \<longleftrightarrow> \<not> dx * dx + dy * dy \<le> r * r" by auto
  have p: "rounded_pixel x y w h fw r color py px b
      = (if dx * dx + dy * dy \<le> r * r \<and> 0 \<le> px \<and> px < fw \<and> 0 \<le> py
         then put_pixel ((py * fw + px) * 3) (ucast (drop_bit 16 color)) (ucast (drop_bit 8 color)) (ucast color) b else b)"
    unfolding rounded_pixel_def d Let_def prod.case far by (simp add: not_less)
  show ?thesis
  proof (cases "dx * dx + dy * dy \<le> r * r \<and> 0 \<le> px \<and> px < fw \<and> 0 \<le> py")
    case True
    with assms have "0 \<le> px" "px < fw" by auto
    from pixel_put [OF this assms, of py] True show ?thesis unfolding p d prod.case by simp
  next
    case False
    with assms show ?thesis unfolding p d prod.case by auto
  qed
qed

text \<open>A byte no step of the rectangle touches.\<close>

lemma each_pixel_untouched:
  assumes "\<And>py px c. y \<le> py \<Longrightarrow> py < y + h \<Longrightarrow> x \<le> px \<Longrightarrow> px < x + w \<Longrightarrow> f py px c i = c i"
  shows "each_pixel x y w h f b i = b i"
proof -
  have row: "fold (f py) [x..x + w - 1] c i = c i" if "y \<le> py" "py < y + h" for py c
    by (rule fold_invariant [where P = "\<lambda>d. d i = c i" and Q = "\<lambda>px. x \<le> px \<and> px < x + w"]) (use that assms in auto)
  show ?thesis unfolding each_pixel_def
    by (rule fold_invariant [where P = "\<lambda>d. d i = b i" and Q = "\<lambda>py. y \<le> py \<and> py < y + h"]) (use row in auto)
qed

lemma put_pixel_outside:
  fixes fw :: int
  assumes "0 \<le> px" "px < fw" "0 \<le> py" "py < fh" and "i < 0 \<or> fw * fh * 3 \<le> i"
  shows "put_pixel ((py * fw + px) * 3) r g bl b i = b i"
proof -
  have "0 \<le> py * fw" using assms(1-3) by simp
  moreover have "(py + 1) * fw \<le> fh * fw" using assms by (intro mult_right_mono) auto
  then have "py * fw + px + 1 \<le> fw * fh" using assms(2) by (simp add: algebra_simps)
  ultimately show ?thesis using assms(1,5) by (auto simp: put_pixel_def)
qed

text \<open>
  C36. The rounded rectangle with a radius of at most half its sides, in a frame of \<open>fh\<close> rows whose lower edge it does not cross:
  exactly the pixels of the frame inside the rectangle and within distance \<open>r\<close> of its core get the colour, cut at
  the left, the right and the upper edge of the frame; every other pixel of the frame and every byte outside of the frame stays as it was. (The code
  does not check the lower edge: a rectangle that crosses it is written behind the frame.)
\<close>

theorem rounded_rect_exact:
  assumes "0 \<le> r" and "2 * r \<le> w" and "2 * r \<le> h" and "y + h \<le> fh"
  shows "(\<forall>qx \<in> {0..<fw}. \<forall>qy \<in> {0..<fh}. pixel fw (fx_rounded_rect x y w h fw r color b) qx qy
      = (if x \<le> qx \<and> qx < x + w \<and> y \<le> qy \<and> qy < y + h
            \<and> (\<exists>a \<in> {x + r..x + w - r}. \<exists>c \<in> {y + r..y + h - r}. (qx - a)\<^sup>2 + (qy - c)\<^sup>2 \<le> r\<^sup>2)
         then (ucast (drop_bit 16 color), ucast (drop_bit 8 color), ucast color) else pixel fw b qx qy))
    \<and> (\<forall>i. i < 0 \<or> fw * fh * 3 \<le> i \<longrightarrow> fx_rounded_rect x y w h fw r color b i = b i)"
proof (intro conjI ballI allI impI)
  fix qx qy assume q: "qx \<in> {0..<fw}" "qy \<in> {0..<fh}"
  then have qx: "0 \<le> qx" "qx < fw" by simp_all
  have "pixel fw (rounded_pixel x y w h fw r color py px b) qx qy
      = (if (0 \<le> py \<and> (case corner x y w h r px py of (dx, dy) \<Rightarrow> dx * dx + dy * dy \<le> r * r)) \<and> px = qx \<and> py = qy
         then (ucast (drop_bit 16 color), ucast (drop_bit 8 color), ucast color) else pixel fw b qx qy)" for py px b
    using rounded_pixel_at [OF qx] by simp
  from each_pixel_sets [of fw "rounded_pixel x y w h fw r color", OF this, where x = x and y = y and w = w and h = h and b = b]
  have "pixel fw (fx_rounded_rect x y w h fw r color b) qx qy
      = (if inside x y w h r qx qy
         then (ucast (drop_bit 16 color), ucast (drop_bit 8 color), ucast color) else pixel fw b qx qy)"
    using corner_inside [OF assms(1-3), of x qx y qy] q by (auto simp: fx_rounded_rect_def inside_def)
  then show "pixel fw (fx_rounded_rect x y w h fw r color b) qx qy
      = (if x \<le> qx \<and> qx < x + w \<and> y \<le> qy \<and> qy < y + h
            \<and> (\<exists>a \<in> {x + r..x + w - r}. \<exists>c \<in> {y + r..y + h - r}. (qx - a)\<^sup>2 + (qy - c)\<^sup>2 \<le> r\<^sup>2)
         then (ucast (drop_bit 16 color), ucast (drop_bit 8 color), ucast color) else pixel fw b qx qy)"
    unfolding inside_def .
next
  fix i assume i: "i < 0 \<or> fw * fh * 3 \<le> i"
  have "rounded_pixel x y w h fw r color py px c i = c i" if "py < y + h" for py px c
    using put_pixel_outside [where fw = fw and fh = fh and px = px and py = py and i = i] that assms(4) i
    by (auto simp: rounded_pixel_def Let_def split: prod.split)
  then show "fx_rounded_rect x y w h fw r color b i = b i"
    unfolding fx_rounded_rect_def by (intro each_pixel_untouched)
qed

theorem rounded_rect_exact_witness:
  "pixel 10 (fx_rounded_rect 2 2 6 6 10 2 0x102030 (\<lambda>_. 0)) 4 4 = (0x10, 0x20, 0x30)
    \<and> pixel 10 (fx_rounded_rect 2 2 6 6 10 2 0x102030 (\<lambda>_. 0)) 2 2 = (0, 0, 0)"
proof -
  have "\<not> (\<exists>a \<in> {4..6}. \<exists>c \<in> {4..6}. (2 - a)\<^sup>2 + (2 - c)\<^sup>2 \<le> (4 :: int))"
    using near_interval_iff [of 4 6 4 6 2 2 4] by (simp add: beyond_def)
  moreover have "\<exists>a \<in> {4..6}. \<exists>c \<in> {4..6}. (4 - a)\<^sup>2 + (4 - c)\<^sup>2 \<le> (4 :: int)" by (intro bexI [of _ 4]) simp_all
  moreover note spec = rounded_rect_exact [where r = 2 and w = 6 and h = 6 and y = 2 and fh = 10 and fw = 10 and x = 2
      and color = "0x102030" and b = "\<lambda>_. 0", THEN conjunct1, THEN bspec, THEN bspec]
  moreover have "pixel 10 (\<lambda>_. 0) 2 2 = (0, 0, 0)" by (simp add: pixel_def)
  ultimately show ?thesis by (simp add: spec [where x1 = 4 and x = 4] spec [where x1 = 2 and x = 2])
qed

section \<open>Each pixel once\<close>

text \<open>A step that changes what one looks at under a condition that holds of one argument only.\<close>

lemma fold_once:
  assumes "\<And>a b. view (g a b) = (if Q a then c (view b) else view b)" and "distinct xs"
    and "\<And>a a'. Q a \<Longrightarrow> Q a' \<Longrightarrow> a = a'"
  shows "view (fold g xs b) = (if \<exists>a \<in> set xs. Q a then c (view b) else view b)"
  using assms(2)
proof (induction xs arbitrary: b)
  case (Cons a xs)
  then have "\<not> (\<exists>a' \<in> set xs. Q a')" if "Q a" using assms(3) [OF that] by auto
  with Cons show ?case by (auto simp: assms(1))
qed simp

lemma each_pixel_maps:
  assumes "\<And>py px b. pixel fw (f py px b) qx qy = (if P px py \<and> px = qx \<and> py = qy then c (pixel fw b qx qy) else pixel fw b qx qy)"
  shows "pixel fw (each_pixel x y w h f b) qx qy
    = (if x \<le> qx \<and> qx < x + w \<and> y \<le> qy \<and> qy < y + h \<and> P qx qy then c (pixel fw b qx qy) else pixel fw b qx qy)"
proof -
  have row: "pixel fw (fold (f py) [x..x + w - 1] b) qx qy
      = (if py = qy \<and> x \<le> qx \<and> qx < x + w \<and> P qx qy then c (pixel fw b qx qy) else pixel fw b qx qy)" for py b
    by (subst fold_once [where view = "\<lambda>b. pixel fw b qx qy" and Q = "\<lambda>px. P px py \<and> px = qx \<and> py = qy", OF assms]) auto
  show ?thesis
    unfolding each_pixel_def
    by (subst fold_once [where view = "\<lambda>b. pixel fw b qx qy"
          and Q = "\<lambda>py. py = qy \<and> x \<le> qx \<and> qx < x + w \<and> P qx qy", OF row]) auto
qed

text \<open>
  The frosted glass brightens each pixel of its rectangle inside the frame once, after the blur, and leaves the others as the
  blur made them.
\<close>

lemma frosted_glass_exact:
  assumes "0 \<le> qx" and "qx < fw"
  shows "pixel fw (fx_frosted_glass ops x y w h fw alpha b) qx qy =
    (case pixel fw (fx_gaussian_blur x y w h fw b) qx qy of (r, g, bl) \<Rightarrow>
       if 0 \<le> qy \<and> x \<le> qx \<and> qx < x + w \<and> y \<le> qy \<and> qy < y + h
       then (frost ops alpha r, frost ops alpha g, frost ops alpha bl) else (r, g, bl))"
proof -
  let ?c = "\<lambda>(r, g, bl). (frost ops alpha r, frost ops alpha g, frost ops alpha bl)"
  have "pixel fw (frost_pixel ops fw alpha py px b) qx qy
      = (if 0 \<le> py \<and> px = qx \<and> py = qy then ?c (pixel fw b qx qy) else pixel fw b qx qy)" for py px b
  proof (cases "0 \<le> px \<and> px < fw \<and> 0 \<le> py")
    case True
    then have "0 \<le> px" "px < fw" by auto
    from pixel_put [OF this assms, of py] True show ?thesis
      by (auto simp: frost_pixel_def Let_def pixel_def)
  next
    case False
    with assms show ?thesis by (auto simp: frost_pixel_def)
  qed
  from each_pixel_maps [of fw "frost_pixel ops fw alpha" qx qy "\<lambda>_ py. 0 \<le> py" ?c, OF this,
      of x y w h "fx_gaussian_blur x y w h fw b"]
  show ?thesis by (auto simp: fx_frosted_glass_def split: prod.split)
qed

section \<open>The average of a window\<close>

text \<open>The colour \<open>k\<close> of a pixel is a byte; the pixels of the frame at most \<open>radius\<close> away from a pixel in each direction.\<close>

definition colour_at :: "int \<Rightarrow> int \<Rightarrow> int \<Rightarrow> int \<Rightarrow> int" where
  "colour_at fw k px py = (py * fw + px) * 3 + k"

definition neighbours :: "int \<Rightarrow> int \<Rightarrow> int \<Rightarrow> int \<Rightarrow> int \<Rightarrow> (int \<times> int) set" where
  "neighbours fw fh radius px py =
     {px - radius..px + radius} \<times> {py - radius..py + radius} \<inter> {0..<fw} \<times> {0..<fh}"

lemma fold_product: "fold (\<lambda>a. fold (F a) ys) xs st = fold (\<lambda>(a, c). F a c) (List.product xs ys) st"
proof -
  have "fold (\<lambda>(a, c). F a c) (map (Pair x) ys) s = fold (F x) ys s" for x s
    by (induction ys arbitrary: s) simp_all
  then show ?thesis by (induction xs arbitrary: st) simp_all
qed

text \<open>The places of the window in the order the code visits them.\<close>

definition window_list :: "int \<Rightarrow> int \<Rightarrow> int \<Rightarrow> int \<Rightarrow> (int \<times> int) list" where
  "window_list fw radius px py = filter (\<lambda>(nx, ny). 0 \<le> nx \<and> nx < fw \<and> 0 \<le> ny)
     (map (\<lambda>(dy, dx). (px + dx, py + dy)) (List.product [- radius..radius] [- radius..radius]))"

lemma fold_add_pixel:
  "fold (\<lambda>(nx, ny). add_pixel b fw ny nx) ps (r, g, bl, cnt) =
    (let qs = filter (\<lambda>(nx, ny). 0 \<le> nx \<and> nx < fw \<and> 0 \<le> ny) ps;
         s = (\<lambda>k. \<Sum>(nx, ny) \<leftarrow> qs. uint (b (colour_at fw k nx ny)))
     in (r + s 0, g + s 1, bl + s 2, cnt + int (length qs)))"
proof (induction ps arbitrary: r g bl cnt)
  case (Cons p ps)
  obtain nx ny where p: "p = (nx, ny)" by (cases p)
  show ?case
  proof (cases "0 \<le> nx \<and> nx < fw \<and> 0 \<le> ny")
    case True
    then have "add_pixel b fw ny nx (r, g, bl, cnt) = (r + uint (b (colour_at fw 0 nx ny)),
        g + uint (b (colour_at fw 1 nx ny)), bl + uint (b (colour_at fw 2 nx ny)), cnt + 1)"
      by (simp add: add_pixel_def colour_at_def Let_def)
    then show ?thesis using Cons True by (simp add: p Let_def add.assoc)
  next
    case False
    then have "add_pixel b fw ny nx (r, g, bl, cnt) = (r, g, bl, cnt)" by (auto simp: add_pixel_def)
    then show ?thesis using Cons False by (auto simp: p Let_def)
  qed
qed simp

lemma window_list_props:
  assumes "1 \<le> radius" and "py + radius < fh"
  shows "distinct (window_list fw radius px py)" and "set (window_list fw radius px py) = neighbours fw fh radius px py"
proof -
  have "inj_on (\<lambda>(dy, dx). (px + dx, py + dy)) A" for A :: "(int \<times> int) set" by (auto simp: inj_on_def)
  then show "distinct (window_list fw radius px py)"
    by (simp add: window_list_def distinct_map distinct_product)
  have "(nx, ny) \<in> (\<lambda>(dy, dx). (px + dx, py + dy)) ` ({- radius..radius} \<times> {- radius..radius})
      \<longleftrightarrow> nx \<in> {px - radius..px + radius} \<and> ny \<in> {py - radius..py + radius}" for nx ny
    by (auto simp: image_iff intro: bexI [of _ "nx - px"] bexI [of _ "ny - py"])
  then show "set (window_list fw radius px py) = neighbours fw fh radius px py"
    using assms(2) by (auto simp: window_list_def neighbours_def)
qed

lemma window_sums_eq:
  fixes b :: fb and fw px :: int
  assumes "1 \<le> radius" and "py + radius < fh"
  defines "s \<equiv> \<lambda>k. \<Sum>(nx, ny) \<in> neighbours fw fh radius px py. uint (b (colour_at fw k nx ny))"
  shows "window_sums b fw radius py px = (s 0, s 1, s 2, int (card (neighbours fw fh radius px py)))"
proof -
  let ?L = "window_list fw radius px py"
  note L = window_list_props [OF assms(1,2), of fw px]
  have m: "fold (\<lambda>(dy, dx). add_pixel b fw (py + dy) (px + dx)) ds st
      = fold (\<lambda>(nx, ny). add_pixel b fw ny nx) (map (\<lambda>(dy, dx). (px + dx, py + dy)) ds) st" for ds st
    by (induction ds arbitrary: st) auto
  have "(\<Sum>(nx, ny) \<leftarrow> ?L. uint (b (colour_at fw k nx ny))) = s k" for k
    unfolding s_def L(2) [symmetric] by (rule sum_list_distinct_conv_sum_set [OF L(1)])
  moreover have "length ?L = card (neighbours fw fh radius px py)"
    unfolding L(2) [symmetric] by (rule distinct_card [OF L(1), symmetric])
  ultimately show ?thesis
    unfolding window_sums_def fold_product m fold_add_pixel Let_def window_list_def [symmetric] by simp
qed

lemma byte_le: "uint v \<le> 255" for v :: u8
  using uint_lt2p [of v] by simp

lemma average_byte:
  assumes "\<And>p. p \<in> A \<Longrightarrow> 0 \<le> f p \<and> f p \<le> 255" and "finite A"
  shows "uint (word_of_int (sum f A div int (card A)) :: u8) = sum f A div int (card A)"
proof -
  have "0 \<le> sum f A" using assms(1) by (intro sum_nonneg) auto
  moreover have "sum f A \<le> int (card A) * 255" using sum_bounded_above [of A f 255] assms(1) by simp
  ultimately have "0 \<le> sum f A div int (card A)" "sum f A div int (card A) \<le> 255"
    using zdiv_mono1 [of "sum f A" "int (card A) * 255" "int (card A)"]
    by (cases "card A = 0"; simp add: pos_imp_zdiv_nonneg_iff)+
  then show ?thesis by (simp add: unsigned_of_int take_bit_int_eq_self)
qed

text \<open>One step of the blur: the bytes of its pixel become the averages, and no other byte changes.\<close>

lemma blur_pixel_at:
  assumes "1 \<le> radius" and "0 \<le> px" "px < fw" "0 \<le> py" "py + radius < fh" and "0 \<le> k" "k < 3"
  shows "uint (blur_pixel fw radius py px b (colour_at fw k px py))
    = (\<Sum>(nx, ny) \<in> neighbours fw fh radius px py. uint (b (colour_at fw k nx ny)))
        div int (card (neighbours fw fh radius px py))"
proof -
  let ?N = "neighbours fw fh radius px py"
  let ?s = "\<lambda>k. \<Sum>(nx, ny) \<in> ?N. uint (b (colour_at fw k nx ny))"
  have fin: "finite ?N" by (simp add: neighbours_def)
  have "(px, py) \<in> ?N" using assms by (simp add: neighbours_def)
  then have "0 < int (card ?N)" using fin by (auto simp: card_gt_0_iff)
  then have p: "blur_pixel fw radius py px b = put_pixel ((py * fw + px) * 3) (word_of_int (?s 0 div int (card ?N)))
      (word_of_int (?s 1 div int (card ?N))) (word_of_int (?s 2 div int (card ?N))) b"
    by (simp add: blur_pixel_def window_sums_eq [OF assms(1,5)])
  have avg: "uint (word_of_int (?s k div int (card ?N)) :: u8) = ?s k div int (card ?N)" for k
    by (intro average_byte fin) (auto simp: split_beta byte_le)
  have "k = 0 \<or> k = 1 \<or> k = 2" using assms(6,7) by presburger
  then show ?thesis using avg [of 0] avg [of 1] avg [of 2] unfolding p by (auto simp: put_pixel_def colour_at_def)
qed

lemma blur_pixel_other:
  assumes "\<And>k. 0 \<le> k \<Longrightarrow> k < 3 \<Longrightarrow> i \<noteq> colour_at fw k px py"
  shows "blur_pixel fw radius py px b i = b i"
  using assms [of 0] assms [of 1] assms [of 2]
  by (auto simp: blur_pixel_def put_pixel_def colour_at_def split: prod.split)

section \<open>One pixel after the other\<close>

text \<open>
  Steps that each change the cells of their own argument only: what a step finds are the cells as the earlier steps left them,
  and what it leaves in its own cells stays.
\<close>

lemma fold_own_cells:
  fixes b :: "'i \<Rightarrow> 'v" and g :: "'a \<Rightarrow> ('i \<Rightarrow> 'v) \<Rightarrow> 'i \<Rightarrow> 'v"
  assumes frame: "\<And>a b i. a \<in> set (us @ a0 # vs) \<Longrightarrow> i \<notin> cells a \<Longrightarrow> g a b i = b i"
    and disj: "\<And>a a'. a \<in> set (us @ a0 # vs) \<Longrightarrow> a' \<in> set (us @ a0 # vs) \<Longrightarrow> a \<noteq> a' \<Longrightarrow> cells a \<inter> cells a' = {}"
    and "distinct (us @ a0 # vs)"
  defines "B \<equiv> fold g (us @ a0 # vs) b"
  defines "M \<equiv> \<lambda>i. if \<exists>a \<in> set us. i \<in> cells a then B i else b i"
  shows "i \<in> cells a0 \<Longrightarrow> B i = g a0 M i"
proof -
  have skip: "fold g xs c i = c i" if "set xs \<subseteq> set (us @ a0 # vs)" "\<forall>a \<in> set xs. i \<notin> cells a" for xs c i
    using that by (induction xs arbitrary: c) (auto simp: frame)
  have later: "B i = fold g us b i" if "a \<in> set us" "i \<in> cells a" for a i
  proof -
    have "\<forall>a' \<in> set (a0 # vs). i \<notin> cells a'"
    proof
      fix a' assume "a' \<in> set (a0 # vs)"
      with disj [of a a'] that assms(3) show "i \<notin> cells a'" by auto
    qed
    moreover have "set (a0 # vs) \<subseteq> set (us @ a0 # vs)" by auto
    ultimately show ?thesis using skip [of "a0 # vs" i "fold g us b"] by (simp add: B_def)
  qed
  have M: "fold g us b = M"
  proof
    fix i show "fold g us b i = M i" using later skip [of us i b] by (auto simp: M_def)
  qed
  assume i: "i \<in> cells a0"
  have "\<forall>a \<in> set vs. i \<notin> cells a"
  proof
    fix a assume "a \<in> set vs"
    with disj [of a a0] i assms(3) show "i \<notin> cells a" by auto
  qed
  moreover have "set vs \<subseteq> set (us @ a0 # vs)" by auto
  ultimately have "B i = g a0 (fold g us b) i" using skip [of vs i "g a0 (fold g us b)"] by (simp add: B_def)
  then show ?thesis by (simp add: M)
qed

text \<open>The order of the steps: row after row, and in a row from left to right.\<close>

definition earlier :: "int \<times> int \<Rightarrow> int \<times> int \<Rightarrow> bool" where
  "earlier p q \<longleftrightarrow> (case p of (py, px) \<Rightarrow> case q of (qy, qx) \<Rightarrow> py < qy \<or> py = qy \<and> px < qx)"

lemma product_in_order: "sorted_wrt earlier (List.product [i..j] [k..l])"
proof -
  have "sorted_wrt earlier (List.product ys xs)" if "sorted_wrt (<) xs" "sorted_wrt (<) ys" for xs ys :: "int list"
    using that(2)
  proof (induction ys)
    case (Cons y ys)
    have "sorted_wrt earlier (map (Pair y) xs)" using that(1) by (simp add: sorted_wrt_map earlier_def)
    with Cons show ?case by (auto simp: sorted_wrt_append) (auto simp: earlier_def)
  qed simp
  then show ?thesis by simp
qed

lemma product_split:
  assumes "k \<le> q" "q \<le> l" "i \<le> p" "p \<le> j"
  obtains us vs where "List.product [i..j] [k..l] = us @ (p, q) # vs"
    and "set us = {(p', q'). i \<le> p' \<and> p' \<le> j \<and> k \<le> q' \<and> q' \<le> l \<and> earlier (p', q') (p, q)}"
proof -
  let ?L = "List.product [i..j] [k..l]"
  have "(p, q) \<in> set ?L" using assms by simp
  then obtain us vs where L: "?L = us @ (p, q) # vs" by (meson split_list)
  have s: "sorted_wrt earlier (us @ (p, q) # vs)" using product_in_order [of i j k l] L by simp
  have "a \<in> set us \<longleftrightarrow> a \<in> set ?L \<and> earlier a (p, q)" for a
  proof
    assume "a \<in> set ?L \<and> earlier a (p, q)"
    moreover have "\<not> earlier a (p, q)" if "a = (p, q) \<or> a \<in> set vs"
      using that s by (auto simp: sorted_wrt_append earlier_def)
    ultimately show "a \<in> set us" unfolding L by auto
  qed (use s L in \<open>auto simp: sorted_wrt_append\<close>)
  then have "set us = {(p', q'). i \<le> p' \<and> p' \<le> j \<and> k \<le> q' \<and> q' \<le> l \<and> earlier (p', q') (p, q)}" by auto
  with L that show thesis by blast
qed

lemma colour_at_inj:
  assumes "0 \<le> px" "px < fw" "0 \<le> qx" "qx < fw" "0 \<le> k" "k < 3" "0 \<le> l" "l < 3" "colour_at fw k px py = colour_at fw l qx qy"
  shows "px = qx \<and> py = qy \<and> k = l"
  using offset_inj [OF assms(1-4), of py k qy l] assms(5-9) by (simp add: colour_at_def)

lemma blur_at:
  fixes b :: fb
  assumes "1 \<le> radius" and "0 \<le> x" "x + w \<le> fw" "0 \<le> y" "y + h + radius \<le> fh"
    and q: "x \<le> qx" "qx < x + w" "y \<le> qy" "qy < y + h" and k: "0 \<le> k" "k < 3"
  defines "B \<equiv> fx_blur x y w h fw radius b"
  shows "uint (B (colour_at fw k qx qy))
    = (\<Sum>(nx, ny) \<in> neighbours fw fh radius qx qy.
         uint ((if x \<le> nx \<and> nx < x + w \<and> y \<le> ny \<and> (ny < qy \<or> ny = qy \<and> nx < qx) then B else b) (colour_at fw k nx ny)))
        div int (card (neighbours fw fh radius qx qy))"
proof -
  define cells where "cells = (\<lambda>(py, px). {i. \<exists>k. 0 \<le> k \<and> k < 3 \<and> i = colour_at fw k px py})"
  define g where "g = (\<lambda>(py, px). blur_pixel fw radius py px)"
  obtain us vs where L: "List.product [y..y + h - 1] [x..x + w - 1] = us @ (qy, qx) # vs"
    and us: "set us = {(p', q'). y \<le> p' \<and> p' \<le> y + h - 1 \<and> x \<le> q' \<and> q' \<le> x + w - 1 \<and> earlier (p', q') (qy, qx)}"
    using q by (elim product_split [of x qx "x + w - 1" y qy "y + h - 1"]) auto
  have B: "B = fold g (us @ (qy, qx) # vs) b" unfolding L [symmetric]
    using assms(1) by (simp add: B_def fx_blur_def each_pixel_def fold_product g_def)
  define M where "M = (\<lambda>i. if \<exists>a \<in> set us. i \<in> cells a then B i else b i)"
  have rect: "fst a \<in> {y..<y + h} \<and> snd a \<in> {x..<x + w}" if "a \<in> set (us @ (qy, qx) # vs)" for a
    using that unfolding L [symmetric] by auto
  have "B (colour_at fw k qx qy) = g (qy, qx) M (colour_at fw k qx qy)"
    unfolding B M_def
  proof (rule fold_own_cells [where cells = cells and us = us and vs = vs and g = g and b = b])
    fix a b i assume "i \<notin> cells a"
    then show "g a b i = b i" by (cases a) (auto simp: g_def cells_def intro!: blur_pixel_other)
  next
    fix a a' assume "a \<in> set (us @ (qy, qx) # vs)" "a' \<in> set (us @ (qy, qx) # vs)" "a \<noteq> a'"
    with rect [of a] rect [of a'] assms(2,3) show "cells a \<inter> cells a' = {}"
      by (cases a; cases a') (auto simp: cells_def dest!: colour_at_inj [rotated 8])
  next
    show "distinct (us @ (qy, qx) # vs)" unfolding L [symmetric] by (simp add: distinct_product)
    show "colour_at fw k qx qy \<in> cells (qy, qx)" using k by (auto simp: cells_def)
  qed
  then have "uint (B (colour_at fw k qx qy)) = (\<Sum>(nx, ny) \<in> neighbours fw fh radius qx qy. uint (M (colour_at fw k nx ny)))
      div int (card (neighbours fw fh radius qx qy))"
    using blur_pixel_at [of radius qx fw qy fh k M] assms(1-5) q k by (simp add: g_def)
  moreover have "M (colour_at fw k nx ny)
      = (if x \<le> nx \<and> nx < x + w \<and> y \<le> ny \<and> (ny < qy \<or> ny = qy \<and> nx < qx) then B else b) (colour_at fw k nx ny)"
    if "(nx, ny) \<in> neighbours fw fh radius qx qy" for nx ny
  proof -
    have "0 \<le> nx" "nx < fw" using that by (auto simp: neighbours_def)
    then have "(\<exists>a \<in> set us. colour_at fw k nx ny \<in> cells a) \<longleftrightarrow> (ny, nx) \<in> set us"
      using rect assms(2,3) k by (fastforce simp: cells_def dest: colour_at_inj [rotated 8])
    also have "\<dots> \<longleftrightarrow> x \<le> nx \<and> nx < x + w \<and> y \<le> ny \<and> (ny < qy \<or> ny = qy \<and> nx < qx)"
      unfolding us using q by (auto simp: earlier_def)
    finally show ?thesis by (auto simp: M_def)
  qed
  ultimately show ?thesis by (simp add: split_beta cong: sum.cong)
qed

lemma blur_untouched:
  assumes "\<And>qx qy k. x \<le> qx \<Longrightarrow> qx < x + w \<Longrightarrow> y \<le> qy \<Longrightarrow> qy < y + h \<Longrightarrow> 0 \<le> k \<Longrightarrow> k < 3 \<Longrightarrow> i \<noteq> colour_at fw k qx qy"
  shows "fx_blur x y w h fw radius b i = b i"
  unfolding fx_blur_def using assms by (auto intro!: each_pixel_untouched blur_pixel_other)

text \<open>
  C37. Blurring a rectangle that lies inside the frame of \<open>fh\<close> rows and at least \<open>radius\<close> rows above its lower edge: each colour of each
  pixel of the rectangle becomes the average, rounded down, of the same colour of the pixels of the frame in the window around it; of those of
  them that are in the rectangle and come before the pixel, row after row and from left to right, it is their new colour that counts, for the
  code blurs in place. No other byte is changed. (The code does not check the lower edge: closer to it
  the window reads behind the frame.)
\<close>

theorem blur_averages:
  assumes "1 \<le> radius" and "0 \<le> x" and "x + w \<le> fw" and "0 \<le> y" and "y + h + radius \<le> fh"
  shows "let B = fx_blur x y w h fw radius b in
    (\<forall>qx \<in> {x..<x + w}. \<forall>qy \<in> {y..<y + h}. \<forall>k \<in> {0..<3}.
      uint (B (colour_at fw k qx qy)) =
        (\<Sum>(nx, ny) \<in> neighbours fw fh radius qx qy.
          uint ((if x \<le> nx \<and> nx < x + w \<and> y \<le> ny \<and> (ny < qy \<or> ny = qy \<and> nx < qx) then B else b) (colour_at fw k nx ny)))
        div int (card (neighbours fw fh radius qx qy)))
    \<and> (\<forall>i. (\<forall>qx \<in> {x..<x + w}. \<forall>qy \<in> {y..<y + h}. \<forall>k \<in> {0..<3}. i \<noteq> colour_at fw k qx qy) \<longrightarrow> B i = b i)"
  unfolding Let_def using blur_at [OF assms] blur_untouched [of x w y h _ fw radius b] by auto

theorem blur_averages_witness:
  "uint (fx_blur 1 1 1 1 3 1 (\<lambda>i. if i = 12 then 90 else if i = 0 then 30 else 0) 12) = 13
   \<and> fx_blur 1 1 1 1 3 1 (\<lambda>i. if i = 12 then 90 else if i = 0 then 30 else 0) 0 = 30"
proof -
  let ?b = "\<lambda>i :: int. if i = 12 then 90 else if i = 0 then 30 else 0 :: u8"
  have n: "neighbours 3 3 1 1 1 = {0..2} \<times> {0..2}" by (auto simp: neighbours_def)
  have r: "{0..2} = {0, 1, 2 :: int}" by auto
  note blur = blur_averages [where radius = 1 and x = 1 and w = 1 and fw = 3 and y = 1 and h = 1 and fh = 3 and b = ?b, unfolded Let_def]
  have avg: "uint (fx_blur 1 1 1 1 3 1 ?b (colour_at 3 0 1 1))
      = (\<Sum>(nx, ny) \<in> {0..2} \<times> {0..2}. uint ((if 1 \<le> nx \<and> nx < 1 + 1 \<and> 1 \<le> ny \<and> (ny < 1 \<or> ny = 1 \<and> nx < 1)
          then fx_blur 1 1 1 1 3 1 ?b else ?b) (colour_at 3 0 nx ny))) div int (card ({0..2 :: int} \<times> {0..2 :: int}))"
    using blur [THEN conjunct1, THEN bspec [where x = 1], THEN bspec [where x = 1], THEN bspec [where x = 0]]
    unfolding n by simp
  have other: "fx_blur 1 1 1 1 3 1 ?b 0 = ?b 0"
    using blur [THEN conjunct2, THEN spec [where x = 0]] by (simp add: colour_at_def)
  have old: "(if 1 \<le> nx \<and> nx < 1 + 1 \<and> 1 \<le> ny \<and> (ny < 1 \<or> ny = 1 \<and> nx < 1)
      then fx_blur 1 1 1 1 3 1 ?b else ?b) = ?b" for nx ny :: int by auto
  have "(\<Sum>(nx, ny) \<in> {0..2} \<times> {0..2}. uint (?b (colour_at 3 0 nx ny))) = 120"
    unfolding r by (simp add: sum.cartesian_product [symmetric] colour_at_def)
  with avg other show ?thesis unfolding old by (simp add: colour_at_def)
qed

text \<open>At the lower edge the window goes on behind the frame: a frame of one pixel is blurred with the bytes after it.\<close>

lemma blur_reads_below:
  "uint (fx_blur 0 0 1 1 1 1 b 0) = (uint (b 0) + uint (b 3)) div 2"
proof -
  have "neighbours 1 2 1 0 0 = {(0, 0), (0, 1)}" by (auto simp: neighbours_def)
  with blur_at [of 1 0 1 1 0 1 2 0 0 0 b] show ?thesis by (simp add: colour_at_def)
qed

section \<open>The shadow\<close>

lemma darken_le: "uint (darken alpha v) \<le> uint v"
proof -
  have a: "0 \<le> uint alpha" "uint alpha < 256" and v: "0 \<le> uint v" "uint v < 256"
    using uint_lt2p [of alpha] uint_lt2p [of v] by simp_all
  have m: "0 \<le> uint v * (255 - uint alpha)" "uint v * (255 - uint alpha) \<le> uint v * 255"
    using a v by (auto intro: mult_nonneg_nonneg mult_left_mono)
  then have "uint v * (255 - uint alpha) sdiv 255 = uint v * (255 - uint alpha) div 255"
    by (auto simp: signed_divide_int_def sgn_if)
  moreover have "uint v * (255 - uint alpha) div 255 \<le> uint v" using zdiv_mono1 [OF m(2), of 255] by simp
  moreover have "0 \<le> uint v * (255 - uint alpha) div 255" using m(1) by (simp add: pos_imp_zdiv_nonneg_iff)
  ultimately show ?thesis using v by (simp add: darken_def unsigned_of_int take_bit_int_eq_self)
qed

text \<open>A shadow darkens each pixel of its rectangle inside the frame once, and is then blurred.\<close>

lemma shadow_exact:
  assumes "0 \<le> qx" and "qx < fw"
  shows "\<exists>s. fx_shadow x y w h fw radius alpha b = fx_blur (x + 6) (y + 6) (w + radius) (h + radius) fw (radius sdiv 2) s
    \<and> pixel fw s qx qy = (case pixel fw b qx qy of (r, g, bl) \<Rightarrow>
        if 0 \<le> qy \<and> x + 6 \<le> qx \<and> qx < x + 6 + (w + radius) \<and> y + 6 \<le> qy \<and> qy < y + 6 + (h + radius)
        then (darken alpha r, darken alpha g, darken alpha bl) else (r, g, bl))"
proof -
  let ?c = "\<lambda>(r, g, bl). (darken alpha r, darken alpha g, darken alpha bl)"
  have "pixel fw (shadow_pixel fw alpha py px b) qx qy
      = (if 0 \<le> py \<and> px = qx \<and> py = qy then ?c (pixel fw b qx qy) else pixel fw b qx qy)" for py px b
  proof (cases "0 \<le> px \<and> px < fw \<and> 0 \<le> py")
    case True
    then have "0 \<le> px" "px < fw" by auto
    from pixel_put [OF this assms, of py] True show ?thesis
      by (auto simp: shadow_pixel_def Let_def pixel_def)
  next
    case False
    with assms show ?thesis by (auto simp: shadow_pixel_def)
  qed
  from each_pixel_maps [of fw "shadow_pixel fw alpha" qx qy "\<lambda>_ py. 0 \<le> py" ?c, OF this,
      of "x + 6" "y + 6" "w + radius" "h + radius" b]
  show ?thesis by (auto simp: fx_shadow_def Let_def split: prod.split)
qed

end
