(* ===== verification/Animation.thy ===== *)
theory Animation
  imports Float_Ops Interfaces
begin

text \<open>
  The animations of \<^verbatim>\<open>animation.c\<close>: a table of 64 places that \<open>anim_tick\<close> advances. What is computed in
  floating point is computed by the operations \<open>float_ops\<close> of the machine. A callback is the function with its
  argument; a tick gives the callbacks that were called, in order, on a table they leave alone.
\<close>

section \<open>State\<close>

abbreviation ANIM_MAX :: nat where "ANIM_MAX \<equiv> 64"

abbreviation ANIM_EASE_LINEAR :: u8 where "ANIM_EASE_LINEAR \<equiv> 0"

abbreviation ANIM_EASE_IN :: u8 where "ANIM_EASE_IN \<equiv> 1"

abbreviation ANIM_EASE_OUT :: u8 where "ANIM_EASE_OUT \<equiv> 2"

abbreviation ANIM_EASE_IN_OUT :: u8 where "ANIM_EASE_IN_OUT \<equiv> 3"

abbreviation ANIM_EASE_BOUNCE :: u8 where "ANIM_EASE_BOUNCE \<equiv> 4"

text \<open>\<open>on_update\<close> and \<open>on_complete\<close> hold the function and its \<open>userdata\<close>.\<close>

record ('f, 'u, 'c) anim =
  a_active :: bool
  a_start :: 'f
  a_end :: 'f
  a_current :: 'f
  duration_ms :: u32
  elapsed_ms :: u32
  easing :: u8
  on_update :: "'u option"
  on_complete :: "'c option"

datatype ('f, 'u, 'c) called = Update 'u 'f | Complete 'c

type_synonym ('f, 'u, 'c) anims = "nat \<Rightarrow> ('f, 'u, 'c) anim"

definition anim_init :: "'f float_ops \<Rightarrow> ('f, 'u, 'c) anims" where
  "anim_init ops = (\<lambda>_. \<lparr>a_active = False, a_start = f_lit ops 0, a_end = f_lit ops 0, a_current = f_lit ops 0,
     duration_ms = 0, elapsed_ms = 0, easing = 0, on_update = None, on_complete = None\<rparr>)"

section \<open>Easing\<close>

definition bounce_part :: "'f float_ops \<Rightarrow> 'f \<Rightarrow> rat \<Rightarrow> rat \<Rightarrow> 'f" where
  "bounce_part ops t shift rest =
     (let t = f_sub ops t (f_div ops (f_lit ops shift) (f_lit ops (11/4)))
      in f_mul ops (f_lit ops 1) (f_add ops (f_mul ops (f_mul ops (f_lit ops (121/16)) t) t) (f_lit ops rest)))"

definition anim_ease :: "'f float_ops \<Rightarrow> 'f \<Rightarrow> u8 \<Rightarrow> 'f" where
  "anim_ease ops t e =
     (let lit = f_lit ops; mul = f_mul ops; sub = f_sub ops; add = f_add ops;
          t = (if f_less ops t (lit 0) then lit 0 else t);
          t = (if f_less ops (lit 1) t then lit 1 else t)
      in if e = ANIM_EASE_LINEAR then t
         else if e = ANIM_EASE_IN then mul t t
         else if e = ANIM_EASE_OUT then sub (lit 1) (mul (sub (lit 1) t) (sub (lit 1) t))
         else if e = ANIM_EASE_IN_OUT then
           (if f_less ops t (lit (1/2)) then mul (mul (lit 2) t) t
            else sub (lit 1) (mul (mul (lit 2) (sub (lit 1) t)) (sub (lit 1) t)))
         else if e = ANIM_EASE_BOUNCE then
           (if f_less ops t (f_div ops (lit 1) (lit (11/4))) then mul (mul (mul (lit 1) (lit (121/16))) t) t
            else if f_less ops t (f_div ops (lit 2) (lit (11/4))) then bounce_part ops t (3/2) (3/4)
            else if f_less_double ops t (5/2) (11/4) then bounce_part ops t (9/4) (15/16)
            else bounce_part ops t (21/8) (63/64))
         else t)"

section \<open>Running animations\<close>

definition anim_start :: "'f \<Rightarrow> 'f \<Rightarrow> u32 \<Rightarrow> u8 \<Rightarrow> 'u option \<Rightarrow> 'c option \<Rightarrow> ('f, 'u, 'c) anims
    \<Rightarrow> int \<times> ('f, 'u, 'c) anims" where
  "anim_start from to ms e upd compl as =
     (case first_index (\<lambda>i. \<not> a_active (as i)) ANIM_MAX of
        None \<Rightarrow> (- 1, as)
      | Some i \<Rightarrow> (int i, as(i := \<lparr>a_active = True, a_start = from, a_end = to, a_current = from, duration_ms = ms,
                              elapsed_ms = 0, easing = e, on_update = upd, on_complete = compl\<rparr>)))"

definition anim_stop :: "int \<Rightarrow> ('f, 'u, 'c) anims \<Rightarrow> ('f, 'u, 'c) anims" where
  "anim_stop n as = (if n \<ge> 0 \<and> n < int ANIM_MAX then as(nat n := (as (nat n))\<lparr>a_active := False\<rparr>) else as)"

definition tick_one :: "'f float_ops \<Rightarrow> u32 \<Rightarrow> ('f, 'u, 'c) anim \<Rightarrow> ('f, 'u, 'c) called list \<times> ('f, 'u, 'c) anim" where
  "tick_one ops delta a =
     (if \<not> a_active a then ([], a)
      else
        let a = a\<lparr>elapsed_ms := elapsed_ms a + delta\<rparr>;
            t = f_div ops (f_of_u32 ops (elapsed_ms a)) (f_of_u32 ops (duration_ms a));
            (t, a) = (if f_ge ops t (f_lit ops 1) then (f_lit ops 1, a\<lparr>a_active := False\<rparr>) else (t, a));
            a = a\<lparr>a_current := f_add ops (a_start a) (f_mul ops (f_sub ops (a_end a) (a_start a)) (anim_ease ops t (easing a)))\<rparr>
        in ((case on_update a of None \<Rightarrow> [] | Some u \<Rightarrow> [Update u (a_current a)])
            @ (if a_active a then [] else case on_complete a of None \<Rightarrow> [] | Some c \<Rightarrow> [Complete c]), a))"

definition anim_tick :: "'f float_ops \<Rightarrow> u32 \<Rightarrow> ('f, 'u, 'c) anims \<Rightarrow> ('f, 'u, 'c) called list \<times> ('f, 'u, 'c) anims" where
  "anim_tick ops delta as =
     fold (\<lambda>i (cs, as). case tick_one ops delta (as i) of (c, a) \<Rightarrow> (cs @ c, as(i := a))) [0..<ANIM_MAX] ([], as)"

definition anim_fade_in :: "'f float_ops \<Rightarrow> ('f, 'u, 'c) anims \<Rightarrow> ('f, 'u, 'c) anims" where
  "anim_fade_in ops as = snd (anim_start (f_lit ops 0) (f_lit ops 1) 200 ANIM_EASE_OUT None None as)"

definition anim_fade_out :: "'f float_ops \<Rightarrow> ('f, 'u, 'c) anims \<Rightarrow> ('f, 'u, 'c) anims" where
  "anim_fade_out ops as = snd (anim_start (f_lit ops 1) (f_lit ops 0) 200 ANIM_EASE_IN None None as)"

definition anim_slide_in :: "'f float_ops \<Rightarrow> int \<Rightarrow> int \<Rightarrow> ('f, 'u, 'c) anims \<Rightarrow> ('f, 'u, 'c) anims" where
  "anim_slide_in ops pos target as = snd (anim_start (f_of_int ops pos) (f_of_int ops target) 250 ANIM_EASE_OUT None None as)"

section \<open>Properties\<close>

lemma tick_places:
  "fold (\<lambda>i (cs, as). case tick_one ops delta (as i) of (c, a) \<Rightarrow> (cs @ c, as(i := a))) [0..<n] (cs, as)
    = (cs @ concat (map (\<lambda>i. fst (tick_one ops delta (as i))) [0..<n]),
       \<lambda>i. if i < n then snd (tick_one ops delta (as i)) else as i)"
  by (induction n) (auto simp: fun_eq_iff less_Suc_eq split: prod.split)

text \<open>
  Starting an animation takes the first free place and leaves the others alone; with all 64 running it
  is refused and nothing changes.
\<close>

theorem anim_start_place:
  "case anim_start from to ms e upd compl as of (n, as') \<Rightarrow>
     if \<forall>i < ANIM_MAX. a_active (as i) then n = - 1 \<and> as' = as
     else \<exists>i < ANIM_MAX. n = int i \<and> \<not> a_active (as i) \<and> (\<forall>j < i. a_active (as j))
       \<and> a_active (as' i) \<and> elapsed_ms (as' i) = 0 \<and> a_current (as' i) = from \<and> (\<forall>j. j \<noteq> i \<longrightarrow> as' j = as j)"
proof (cases "first_index (\<lambda>i. \<not> a_active (as i)) ANIM_MAX")
  case None
  then have "\<forall>i < ANIM_MAX. a_active (as i)" by (simp add: first_index_None_iff)
  with None show ?thesis by (simp add: anim_start_def)
next
  case (Some i)
  then have "i < ANIM_MAX" "\<not> a_active (as i)" "\<forall>j < i. a_active (as j)" by (auto dest: first_index_SomeD)
  with Some show ?thesis by (auto simp: anim_start_def intro!: exI [of _ i])
qed

text \<open>The places as a slot table: starting takes one, stopping gives it back.\<close>

definition anim_alloc :: "'f \<Rightarrow> 'f \<Rightarrow> u32 \<Rightarrow> u8 \<Rightarrow> 'u option \<Rightarrow> 'c option \<Rightarrow> ('f, 'u, 'c) anims
    \<Rightarrow> (nat \<times> ('f, 'u, 'c) anims) option" where
  "anim_alloc from to ms e upd compl as =
     (case anim_start from to ms e upd compl as of (n, as') \<Rightarrow> if n = - 1 then None else Some (nat n, as'))"

interpretation anim_slots: slot_table "\<lambda>as i. a_active (as i)" ANIM_MAX "anim_alloc x y ms e upd compl"
    "\<lambda>i as. anim_stop (int i) as" for x y ms e upd compl
proof (unfold_locales, goal_cases)
  case (1 t i)
  then show ?case by (auto simp: anim_alloc_def anim_start_def first_index_None_iff split: option.splits)
next
  case (2 t i t')
  then obtain a where "first_index (\<lambda>i. \<not> a_active (t i)) ANIM_MAX = Some i" "t' = t(i := a)" "a_active a"
    by (auto simp: anim_alloc_def anim_start_def split: option.splits)
  then show ?case by (auto dest!: first_index_SomeD)
next
  case (3 i t)
  then show ?case by (auto simp: anim_stop_def)
qed

text \<open>Started one after the other, exactly as many animations run as there were free places, each in a place of its own.\<close>

lemma anim_starts:
  assumes "take_slots (anim_alloc from to ms e upd compl) k as = (is, as')"
  shows "length is = min k (card {i. i < ANIM_MAX \<and> \<not> a_active (as i)})" and "distinct is"
  using anim_slots.take_slots_distinct [OF assms] by (rule_tac anim_slots.take_slots_count [OF assms], blast)

lemma anim_tick_each:
  "snd (anim_tick ops delta as) i = (if i < ANIM_MAX then snd (tick_one ops delta (as i)) else as i)"
  "fst (anim_tick ops delta as) = concat (map (\<lambda>i. fst (tick_one ops delta (as i))) [0..<ANIM_MAX])"
  unfolding anim_tick_def tick_places by simp_all

lemma tick_one_done:
  assumes "a_active a" and "f_ge ops (f_div ops (f_of_u32 ops (elapsed_ms a + delta)) (f_of_u32 ops (duration_ms a))) (f_lit ops 1)"
  shows "\<not> a_active (snd (tick_one ops delta a))"
    and "fst (tick_one ops delta a) = (case on_update a of None \<Rightarrow> []
        | Some u \<Rightarrow> [Update u (f_add ops (a_start a) (f_mul ops (f_sub ops (a_end a) (a_start a)) (anim_ease ops (f_lit ops 1) (easing a))))])
      @ (case on_complete a of None \<Rightarrow> [] | Some c \<Rightarrow> [Complete c])"
  using assms by (auto simp: tick_one_def Let_def split: option.split)

text \<open>
  The tick in which an animation reaches its duration reports the value at its end, then that it is complete, and
  ends it: until its place is used again, no tick reports it or changes it.
\<close>

theorem anim_completes_once:
  assumes "i < ANIM_MAX" and "a_active (as i)"
    and "f_ge ops (f_div ops (f_of_u32 ops (elapsed_ms (as i) + delta)) (f_of_u32 ops (duration_ms (as i)))) (f_lit ops 1)"
  shows "case anim_tick ops delta as of (cs, as') \<Rightarrow>
    set (case on_complete (as i) of None \<Rightarrow> [] | Some c \<Rightarrow> [Complete c]) \<subseteq> set cs
    \<and> \<not> a_active (as' i) \<and> tick_one ops d (as' i) = ([], as' i) \<and> snd (anim_tick ops d as') i = as' i"
proof -
  let ?as' = "snd (anim_tick ops delta as)"
  note t = tick_one_done [OF assms(2,3)]
  have a: "?as' i = snd (tick_one ops delta (as i))" using assms(1) by (simp add: anim_tick_each)
  with t(1) have stop: "tick_one ops d (?as' i) = ([], ?as' i)" by (simp add: tick_one_def)
  have "set (fst (tick_one ops delta (as i))) \<subseteq> set (fst (anim_tick ops delta as))"
    using assms(1) by (auto simp: anim_tick_each(2) simp del: upt_Suc)
  with t(2) have "set (case on_complete (as i) of None \<Rightarrow> [] | Some c \<Rightarrow> [Complete c]) \<subseteq> set (fst (anim_tick ops delta as))"
    by auto
  moreover have "snd (anim_tick ops d ?as') i = ?as' i"
    using stop assms(1) by (subst anim_tick_each(1)) simp
  ultimately show ?thesis using a t(1) stop by (cases "anim_tick ops delta as") simp
qed

text \<open>The operations without rounding, for the examples.\<close>

definition exact_ops :: "rat float_ops" where
  "exact_ops = \<lparr>f_add = (+), f_sub = (-), f_mul = (*), f_div = (/), f_less = (<), f_ge = (\<ge>), f_lit = id,
     f_of_u32 = (\<lambda>w. of_nat (unat w)), f_of_int = of_int, f_less_double = (\<lambda>t a b. t < a / b),
     f_to_u8 = (\<lambda>q. word_of_int \<lfloor>q\<rfloor>)\<rparr>"

theorem anim_completes_once_witness:
  "let as = snd (anim_start 0 1 200 ANIM_EASE_OUT None (Some ''done'') (anim_init exact_ops :: (rat, string, string) anims))
   in Complete ''done'' \<in> set (fst (anim_tick exact_ops 250 as)) \<and> \<not> a_active (snd (anim_tick exact_ops 250 as) 0)"
proof -
  define as where "as = snd (anim_start 0 1 200 ANIM_EASE_OUT None (Some ''done'') (anim_init exact_ops :: (rat, string, string) anims))"
  have "first_index (\<lambda>i. True) ANIM_MAX = Some 0" by (simp add: first_index_Some_iff)
  then have a: "a_active (as 0)" "elapsed_ms (as 0) = 0" "duration_ms (as 0) = 200" "on_complete (as 0) = Some ''done''"
    by (simp_all add: as_def anim_start_def anim_init_def)
  have "f_ge exact_ops (f_div exact_ops (f_of_u32 exact_ops (elapsed_ms (as 0) + 250)) (f_of_u32 exact_ops (duration_ms (as 0))))
      (f_lit exact_ops 1)" by (simp add: exact_ops_def a)
  from anim_completes_once [where d = 0 and i = 0 and as = as, OF _ a(1) this] a(4) show ?thesis
    unfolding as_def [symmetric] by (cases "anim_tick exact_ops 250 as") simp
qed

text \<open>
  A fade reports nothing: it is started without the function that would set the opacity, so that its ticks call
  no callback for it.
\<close>

theorem fade_reports_nothing:
  assumes "\<forall>i < ANIM_MAX. \<not> a_active (as i)"
  shows "fst (anim_tick ops delta (anim_fade_in ops as)) = []"
proof -
  have "tick_one ops delta (anim_fade_in ops as i) = ([], snd (tick_one ops delta (anim_fade_in ops as i)))" if "i < ANIM_MAX" for i
    using assms that
    by (auto simp: anim_fade_in_def anim_start_def tick_one_def Let_def split: option.splits)
  then have "fst (tick_one ops delta (anim_fade_in ops as i)) = []" if "i < ANIM_MAX" for i
    using that by (metis fst_conv)
  then show ?thesis by (simp add: anim_tick_each(2) del: upt_Suc)
qed

theorem fade_reports_nothing_witness:
  "fst (anim_tick exact_ops 250 (anim_fade_in exact_ops (anim_init exact_ops :: (rat, string, string) anims))) = []"
  by (rule fade_reports_nothing) (simp add: anim_init_def)

end
