(* ===== verification/Kernel_Init.thy ===== *)
theory Kernel_Init
  imports Vfs Procfs Blockwm Ramfs_Boot Drivers
begin

text \<open>
  The start of the kernel and its event loop, \<^verbatim>\<open>kernel/init.c\<close>, and the clock of \<^verbatim>\<open>kernel/generic.c\<close>: the components of the other theories put
  together. They share one heap, which is handed on from each to the next; the FAT32 driver, which is not in the
  repository, works on a state \<open>'d\<close> of its own and that heap. The other calls into files that are not
  in the repository (processes, system calls, the mouse driver and its cursor) work on none of the state kept here and are
  added in \<^verbatim>\<open>Kernel_System\<close>; the readings of the mouse are an argument. What the theorems say does not depend on what
  the FAT32 driver does to the heap, except for the last part of \<open>kernel_starts\<close>, which states it. \<^term>\<open>None\<close> is undefined behaviour inside a file system.
\<close>

section \<open>Clock\<close>

text \<open>\<open>g_ticks\<close> of \<^verbatim>\<open>kernel/generic.c\<close>, which the timer interrupt advances together with the count of its driver.\<close>

definition kernel_tick :: "u64 \<Rightarrow> u64" where
  "kernel_tick g_ticks = g_ticks + 1"

definition kernel_get_ticks :: "u64 \<Rightarrow> u64" where
  "kernel_get_ticks g_ticks = g_ticks"

lemma clock_follows_timer:
  "t_cb_count (fst tw) = 0 \<Longrightarrow>
   kernel_get_ticks (snd (sleep_loop kernel_tick e tw)) - timer_get_ticks (fst (sleep_loop kernel_tick e tw))
     = kernel_get_ticks (snd tw) - timer_get_ticks (fst tw)"
proof (induction kernel_tick e tw rule: sleep_loop.induct)
  case (1 e tw)
  let ?next = "snd (timer_irq_handler kernel_tick tw)"
  have n: "t_cb_count (fst ?next) = 0" "snd ?next - t_ticks (fst ?next) = snd tw - t_ticks (fst tw)"
    using "1.prems" by (simp_all add: timer_irq_handler_def split_beta Let_def kernel_tick_def)
  show ?case
  proof (cases "t_ticks (fst tw) < e")
    case True
    with 1(1) [OF True n(1)] n(2) show ?thesis
      by (subst (1 2) sleep_loop.simps) (simp add: kernel_get_ticks_def timer_get_ticks_def)
  qed (simp add: sleep_loop.simps)
qed

section \<open>Start\<close>

record 'd kernel =
  k_ramfs :: ramfs
  k_procfs :: procfs
  k_vfs :: "('d \<times> heap) vfs"
  k_wm :: wm

definition kernel_vfs :: "'b fs_ops \<Rightarrow> 'b vfs \<Rightarrow> 'b vfs" where
  "kernel_vfs ops v = snd (vfs_mount_fat32 ops (vfs_init v))"

definition kernel_main :: "('d \<times> heap) fs_ops \<Rightarrow> sys \<Rightarrow> 'd kernel \<Rightarrow> 'd kernel option" where
  "kernel_main ops y k =
     (let (_, r) = ramfs_init (k_ramfs k); (_, r) = ramfs_mount ''/'' r in
      case ramfs_create_default_structure r of
        None \<Rightarrow> None
      | Some r \<Rightarrow>
          let (_, p) = procfs_init (k_procfs k\<lparr>p_heap := r_heap r\<rparr>) in
          case procfs_mount y (Some ''/proc'') p of
            None \<Rightarrow> None
          | Some (_, p) \<Rightarrow>
              let v = kernel_vfs ops (k_vfs k\<lparr>backend := (fst (backend (k_vfs k)), p_heap p)\<rparr>);
                  (_, w) = blockwm_init 1920 1080 (k_wm k\<lparr>wm_heap := snd (backend v)\<rparr>)
              in Some \<lparr>k_ramfs = r, k_procfs = p, k_vfs = v, k_wm = w\<rparr>)"

section \<open>Event loop\<close>

record mouse_data =
  x_movement :: u32
  y_movement :: u32
  left_button :: bool
  right_button :: bool

text \<open>One turn of \<open>kernel_loop\<close>: the mouse, the process file system, the compositor and what it draws.\<close>

definition kernel_turn :: "sys \<Rightarrow> mouse_data \<Rightarrow> 'd kernel \<Rightarrow> (draw list \<times> 'd kernel) option" where
  "kernel_turn y m k =
     (let w = blockwm_handle_mouse (x_movement m) (y_movement m) (left_button m) (right_button m) (k_wm k) in
      case procfs_update y (k_procfs k\<lparr>p_heap := wm_heap w\<rparr>) of
        None \<Rightarrow> None
      | Some p \<Rightarrow>
          let (ds, w) = blockwm_composite (w\<lparr>wm_heap := p_heap p\<rparr>)
          in Some (ds, k\<lparr>k_procfs := p, k_wm := w\<rparr>))"

text \<open>The turns of \<open>kernel_loop\<close>, each with the processes and the mouse it meets.\<close>

fun kernel_loop :: "(sys \<times> mouse_data) list \<Rightarrow> 'd kernel \<Rightarrow> 'd kernel option" where
  "kernel_loop [] k = Some k"
| "kernel_loop ((y, m) # ts) k = (case kernel_turn y m k of None \<Rightarrow> None | Some (_, k) \<Rightarrow> kernel_loop ts k)"

section \<open>The invariant of the loop\<close>

text \<open>The process file system with the heap the window manager hands on; \<open>base\<close> are its entries that belong to no process.\<close>

definition loop_procfs :: "'d kernel \<Rightarrow> procfs" where
  "loop_procfs k = k_procfs k\<lparr>p_heap := wm_heap (k_wm k)\<rparr>"

definition kernel_ok :: "'d kernel \<Rightarrow> string list \<Rightarrow> bool" where
  "kernel_ok k base \<longleftrightarrow> (\<exists>r xs. procfs_ok (loop_procfs k) r xs
     \<and> map (e_name \<circ> entries (k_procfs k)) (filter (\<lambda>x. e_pid (entries (k_procfs k) x) = 0) xs) = base)"

abbreviation k_mark :: "'d kernel \<Rightarrow> nat" where
  "k_mark k \<equiv> unat (h_ptr (wm_heap (k_wm k)))"

lemma turn_result:
  assumes "procfs_update y (loop_procfs k) = Some p"
  shows "\<exists>ds w. kernel_turn y m k = Some (ds, k\<lparr>k_procfs := p, k_wm := w\<rparr>) \<and> wm_heap w = p_heap p"
proof -
  let ?w = "blockwm_handle_mouse (x_movement m) (y_movement m) (left_button m) (right_button m) (k_wm k)"
  obtain ds w where w: "blockwm_composite (?w\<lparr>wm_heap := p_heap p\<rparr>) = (ds, w)" by fastforce
  then have "wm_heap w = p_heap p" using wm_heap_composite [of "?w\<lparr>wm_heap := p_heap p\<rparr>"] by simp
  with w assms show ?thesis by (auto simp: kernel_turn_def loop_procfs_def Let_def)
qed

lemma same_names:
  "\<forall>x \<in> set xs. same_entry (f x) (g x) \<Longrightarrow> map (e_name \<circ> g) xs = map (e_name \<circ> f) xs"
  by (auto dest: same_entryD)

abbreviation k_slots :: "'d kernel \<Rightarrow> nat" where
  "k_slots k \<equiv> slots (wm_heap (k_wm k))"

text \<open>
  A turn works with any heap: every process that can be housed has a directory afterwards, and
  the entries it took are not given back.
\<close>

lemma turn_exact:
  assumes ok: "kernel_ok k base"
  shows "\<exists>ds k'. kernel_turn y m k = Some (ds, k') \<and> kernel_ok k' base \<and> k_ramfs k' = k_ramfs k
    \<and> k_mark k' = k_mark k + 88 * min (k_slots k) (6 * length (live_pids y))
    \<and> procfs_list_dir ''/'' n (k_procfs k')
      = Some (Some (take n (rev (map decimal (housed (wm_heap (k_wm k)) (live_pids y))) @ base)))"
proof -
  let ?s = "loop_procfs k" and ?h = "wm_heap (k_wm k)"
  obtain r xs where r: "procfs_ok ?s r xs"
      "map (e_name \<circ> entries (k_procfs k)) (filter (\<lambda>x. e_pid (entries (k_procfs k) x) = 0) xs) = base"
    using ok by (auto simp: kernel_ok_def)
  have e: "entries ?s = entries (k_procfs k)" "p_heap ?s = ?h" by (simp_all add: loop_procfs_def)
  let ?ys = "filter (\<lambda>x. e_pid (entries ?s x) = 0) xs"
  from procfs_update_exact [OF r(1), of y] obtain p ps where p: "procfs_update y ?s = Some p" "procfs_ok p r (ps @ ?ys)"
      "map (e_name \<circ> entries p) ps = rev (map decimal (housed ?h (live_pids y)))" "\<forall>d \<in> set ps. e_pid (entries p d) > 0"
      "mark p = k_mark k + 88 * min (slots ?h) (6 * length (live_pids y))"
      "\<forall>x \<in> set xs. e_pid (entries ?s x) = 0 \<longrightarrow> same_entry (entries ?s x) (entries p x)"
    unfolding e(2) by blast
  obtain ds w where t: "kernel_turn y m k = Some (ds, k\<lparr>k_procfs := p, k_wm := w\<rparr>)" "wm_heap w = p_heap p"
    using turn_result [OF p(1)] by blast
  have names: "map (e_name \<circ> entries p) ?ys = base"
    unfolding r(2) [symmetric] e(1) [symmetric] by (rule same_names) (use p(6) in simp)
  have "filter (\<lambda>x. e_pid (entries p x) = 0) ps = []" using p(4) by (auto simp: filter_empty_conv)
  moreover have "filter (\<lambda>x. e_pid (entries p x) = 0) ?ys = ?ys"
    by (rule filter_True) (use p(6) in \<open>auto dest!: same_entryD\<close>)
  moreover have "loop_procfs (k\<lparr>k_procfs := p, k_wm := w\<rparr>) = p" by (simp add: loop_procfs_def t(2))
  ultimately have "kernel_ok (k\<lparr>k_procfs := p, k_wm := w\<rparr>) base"
    using p(2) names unfolding kernel_ok_def by (intro exI [of _ r] exI [of _ "ps @ ?ys"]) (simp del: filter_filter)
  moreover have "procfs_list_dir ''/'' n p
      = Some (Some (take n (rev (map decimal (housed ?h (live_pids y))) @ base)))"
    using list_root [OF p(2), of n] p(3) names by simp
  ultimately show ?thesis using t p(5) by (intro exI [of _ ds] exI [of _ "k\<lparr>k_procfs := p, k_wm := w\<rparr>"]) simp
qed

text \<open>The processes met on the way, counted once per turn; each takes six entries while there are any.\<close>

definition processes :: "(sys \<times> mouse_data) list \<Rightarrow> nat" where
  "processes ts = (\<Sum>(y, m) \<leftarrow> ts. length (live_pids y))"

lemma min_min_diff: "min k a + min (k - min k a) b = min k (a + b)" for a b k :: nat
  unfolding min_def by auto

lemma loop_exact:
  assumes "kernel_ok k base"
  shows "\<exists>k'. kernel_loop ts k = Some k' \<and> kernel_ok k' base \<and> k_ramfs k' = k_ramfs k
    \<and> k_mark k' = k_mark k + 88 * min (k_slots k) (6 * processes ts)"
  using assms
proof (induction ts arbitrary: k)
  case Nil
  then show ?case by (simp add: processes_def)
next
  case (Cons t ts)
  obtain y m where t: "t = (y, m)" by (cases t)
  let ?a = "min (k_slots k) (6 * length (live_pids y))"
  from turn_exact [OF Cons.prems] obtain ds k1 where k1: "kernel_turn y m k = Some (ds, k1)" "kernel_ok k1 base"
    "k_ramfs k1 = k_ramfs k" "k_mark k1 = k_mark k + 88 * ?a" by metis
  from Cons.IH [OF k1(2)] obtain k2 where k2: "kernel_loop ts k1 = Some k2" "kernel_ok k2 base" "k_ramfs k2 = k_ramfs k1"
    "k_mark k2 = k_mark k1 + 88 * min (k_slots k1) (6 * processes ts)" by blast
  have s1: "k_slots k1 = k_slots k - ?a" using k1(4) by (intro slots_used) simp_all
  have "k_mark k2 = k_mark k + 88 * (?a + min (k_slots k - ?a) (6 * processes ts))" using k1(4) k2(4) unfolding s1 by simp
  then have "k_mark k2 = k_mark k + 88 * min (k_slots k) (6 * length (live_pids y) + 6 * processes ts)"
    unfolding min_min_diff .
  with k1 k2 show ?case by (simp add: t processes_def)
qed

lemma loop_append: "kernel_loop (ts @ us) k = Option.bind (kernel_loop ts k) (kernel_loop us)"
proof (induction ts arbitrary: k)
  case (Cons t ts)
  then show ?case by (cases t) (simp split: option.split)
qed simp

lemma loop_last:
  assumes "kernel_ok k base"
  shows "\<exists>k'. kernel_loop (ts @ [(y, m)]) k = Some k' \<and> kernel_ok k' base \<and> k_ramfs k' = k_ramfs k
    \<and> k_mark k' = k_mark k + 88 * min (k_slots k) (6 * processes (ts @ [(y, m)]))
    \<and> procfs_list_dir ''/'' n (k_procfs k') = Some (Some (take n
        (rev (map decimal (take ((k_slots k - 6 * processes ts + 5) div 6) (live_pids y))) @ base)))"
proof -
  obtain k1 where k1: "kernel_loop ts k = Some k1" "kernel_ok k1 base" "k_ramfs k1 = k_ramfs k"
    "k_mark k1 = k_mark k + 88 * min (k_slots k) (6 * processes ts)" using loop_exact [OF assms] by blast
  have s1: "k_slots k1 = k_slots k - min (k_slots k) (6 * processes ts)" using k1(4) by (intro slots_used) simp_all
  then have h: "housed (wm_heap (k_wm k1)) l = take ((k_slots k - 6 * processes ts + 5) div 6) l" for l
    by (simp add: housed_def min_def)
  obtain ds k2 where k2: "kernel_turn y m k1 = Some (ds, k2)" "kernel_ok k2 base" "k_ramfs k2 = k_ramfs k1"
    "procfs_list_dir ''/'' n (k_procfs k2) = Some (Some (take n
        (rev (map decimal (take ((k_slots k - 6 * processes ts + 5) div 6) (live_pids y))) @ base)))"
    using turn_exact [OF k1(2), of y m n] unfolding h by blast
  have run: "kernel_loop (ts @ [(y, m)]) k = Some k2" using k1(1) k2(1) by (simp add: loop_append)
  then have "k_mark k2 = k_mark k + 88 * min (k_slots k) (6 * processes (ts @ [(y, m)]))"
    using loop_exact [OF assms, of "ts @ [(y, m)]"] by auto
  with run k1(3) k2 show ?thesis by (intro exI [of _ k2]) simp
qed

section \<open>Properties\<close>

lemma kernel_vfs_covers: "covers (kernel_vfs ops v) path i \<Longrightarrow> is_prefix ''/mnt'' path"
proof -
  have "covers (snd (vfs_mount ''/mnt'' t d (vfs_init u))) path i \<Longrightarrow> is_prefix ''/mnt'' path" for t d and u :: "'a vfs"
    by (auto simp: vfs_mount_def covers_def vfs_init_def vfs_consts split: option.splits if_splits)
  moreover have "(vfs_init v)\<lparr>backend := b\<rparr> = vfs_init (v\<lparr>backend := b\<rparr>)" for b by (simp add: vfs_init_def)
  moreover have "\<not> covers (vfs_init u) path i" for u :: "'a vfs" by (simp add: covers_def vfs_init_def)
  ultimately show "covers (kernel_vfs ops v) path i \<Longrightarrow> is_prefix ''/mnt'' path"
    by (auto simp: kernel_vfs_def vfs_mount_fat32_def mount_new_def split: prod.splits option.splits)
qed

text \<open>
  C39. After the start the file system switch knows at most the FAT32 drive at \<^verbatim>\<open>/mnt\<close>: the memory file
  system and its default files, and the process file system, are initialised but never mounted there, so that opening
  any path that does not start with the four characters \<^verbatim>\<open>/mnt\<close> fails and leaves the switch as it was. (A path
  such as \<^verbatim>\<open>/mntx\<close> does start with them and is handed to the FAT32 drive.)
\<close>

theorem boot_files_unreachable:
  assumes "\<not> is_prefix ''/mnt'' path"
  shows "vfs_open ops path flags (kernel_vfs ops v) = (- 1, kernel_vfs ops v)"
proof -
  have "\<not> covers (kernel_vfs ops v) path i" for i using kernel_vfs_covers assms by blast
  then have "vfs_find_mount path (kernel_vfs ops v) = None"
    using vfs_find_mount_spec [where path = path and v = "kernel_vfs ops v"] by (auto split: option.splits)
  then show ?thesis by (simp add: vfs_open_def)
qed

theorem boot_files_unreachable_witness:
  "fst (vfs_open example_ops ''/etc/hostname'' VFS_O_RDONLY (kernel_vfs example_ops example_vfs)) = - 1"
  using boot_files_unreachable [of "''/etc/hostname''" example_ops VFS_O_RDONLY example_vfs]
  by (simp add: is_prefix_def)

lemma procfs_ok_heap:
  assumes "procfs_ok p r xs" and "heap_ok h" and "mark p \<le> unat (h_ptr h)"
  shows "procfs_ok (p\<lparr>p_heap := h\<rparr>) r xs"
  using assms by (auto simp: procfs_ok_def kids_def below_def intro: less_le_trans)

lemma kernel_vfs_backend: "backend (kernel_vfs ops v) = snd (fat32_new_op ops (backend v))"
  by (auto simp: kernel_vfs_def vfs_mount_fat32_def mount_new_def vfs_init_def vfs_mount_def split: prod.split option.split)

text \<open>After \<open>procfs_mount\<close> the directories of as many processes are there as find room, six entries for each.\<close>

lemma procfs_starts:
  assumes "heap_ok (p_heap s)" and "mark s + 1056 \<le> 8388608"
  defines "room \<equiv> (8388608 - (mark s + 1056)) div 88"
  shows "\<exists>p r xs. procfs_mount y (Some mp) (snd (procfs_init s)) = Some (True, p) \<and> procfs_ok p r xs
    \<and> map (e_name \<circ> entries p) xs = rev (map decimal (take ((room + 5) div 6) (live_pids y))) @ global_names
    \<and> map (e_name \<circ> entries p) (filter (\<lambda>x. e_pid (entries p x) = 0) xs) = global_names
    \<and> mark p = mark s + 1056 + 88 * min room (6 * length (live_pids y))"
proof -
  from procfs_init_ok [OF assms(1,2)] obtain i r xs where i: "procfs_init s = (True, i)" "procfs_ok i r xs"
      "map (e_name \<circ> entries i) xs = global_names" "\<forall>x \<in> set xs. e_pid (entries i x) = 0" "mark i = mark s + 1056"
    by blast
  let ?j = "i\<lparr>p_mount_point := take (PROCFS_MAX_PATH - 1) mp, p_mounted := True\<rparr>"
  have j: "procfs_ok ?j r xs" using i(2) by (simp add: procfs_ok_def kids_def below_def)
  have room: "slots (p_heap ?j) = room" using i(5) by (simp add: slots_def room_def)
  have all: "filter (\<lambda>x. e_pid (entries ?j x) = 0) xs = xs" using i(4) by simp
  obtain p ds where p: "procfs_update y ?j = Some p" "procfs_ok p r (ds @ xs)"
      "map (e_name \<circ> entries p) ds = rev (map decimal (housed (p_heap ?j) (live_pids y)))"
      "\<forall>d \<in> set ds. e_pid (entries p d) > 0" "mark p = mark ?j + 88 * min room (6 * length (live_pids y))"
      "\<forall>x \<in> set xs. same_entry (entries i x) (entries p x)"
    using procfs_update_exact [OF j, of y] i(4) unfolding all room by auto
  have names: "map (e_name \<circ> entries p) xs = global_names" unfolding i(3) [symmetric] by (rule same_names [OF p(6)])
  have "filter (\<lambda>x. e_pid (entries p x) = 0) ds = []" using p(4) by (auto simp: filter_empty_conv)
  moreover have "filter (\<lambda>x. e_pid (entries p x) = 0) xs = xs"
    by (rule filter_True) (use p(6) i(4) in \<open>auto dest!: same_entryD\<close>)
  ultimately show ?thesis using i(1,5) p names unfolding housed_def room
    by (intro exI [of _ p] exI [of _ r] exI [of _ "ds @ xs"]) (simp add: procfs_mount_def)
qed

text \<open>The compositor has its frame exactly when eight megabytes less 94208 bytes are free.\<close>

lemma compositor_starts:
  assumes "heap_ok (wm_heap w)"
  defines "w' \<equiv> snd (blockwm_init 1920 1080 w)"
  shows "heap_ok (wm_heap w')"
    and "compositor_buffer w' \<noteq> None \<longleftrightarrow> unat (h_ptr (wm_heap w)) \<le> 94208"
    and "unat (h_ptr (wm_heap w')) = unat (h_ptr (wm_heap w)) + (if compositor_buffer w' = None then 0 else 8294400)"
proof -
  have "heap_ok (wm_heap w') \<and> (compositor_buffer w' \<noteq> None \<longleftrightarrow> unat (h_ptr (wm_heap w)) \<le> 94208)
    \<and> unat (h_ptr (wm_heap w')) = unat (h_ptr (wm_heap w)) + (if compositor_buffer w' = None then 0 else 8294400)"
  proof (cases "unat (h_ptr (wm_heap w)) \<le> 94208")
    case True
    then have "unat (h_ptr (wm_heap w)) + unat (8294400 :: u32) \<le> 8388608" by simp
    from malloc_room [OF assms(1) this] True show ?thesis unfolding w'_def by (auto simp: blockwm_init_def)
  next
    case False
    have "size_ok 8294400" by (simp add: size_ok_def)
    then have "malloc 8294400 (wm_heap w) = (None, wm_heap w)" using False by (simp add: malloc_cases [OF assms(1)])
    with assms(1) False show ?thesis unfolding w'_def by (auto simp: blockwm_init_def)
  qed
  then show "heap_ok (wm_heap w')"
    and "compositor_buffer w' \<noteq> None \<longleftrightarrow> unat (h_ptr (wm_heap w)) \<le> 94208"
    and "unat (h_ptr (wm_heap w')) = unat (h_ptr (wm_heap w)) + (if compositor_buffer w' = None then 0 else 8294400)"
    by blast+
qed

lemma kernel_started:
  assumes "inodes (k_ramfs k) = (\<lambda>_. zero_inode)" and "h_ptr (r_heap (k_ramfs k)) = 0"
  shows "\<exists>k' h h'. kernel_main ops y k = Some k' \<and> view (k_ramfs k') = default_tree
    \<and> procfs_list_dir ''/'' n (k_procfs k')
      = Some (Some (take n (rev (map decimal (take 15822 (live_pids y))) @ global_names)))
    \<and> heap_ok h \<and> unat (h_ptr h) = 34688 + 88 * min 94930 (6 * length (live_pids y))
    \<and> h' = snd (snd (fat32_new_op ops (fst (backend (k_vfs k)), h)))
    \<and> (heap_ok h' \<and> unat (h_ptr h) \<le> unat (h_ptr h') \<longrightarrow>
        kernel_ok k' global_names \<and> (compositor_buffer (k_wm k') \<noteq> None \<longleftrightarrow> unat (h_ptr h') \<le> 94208)
        \<and> k_mark k' = unat (h_ptr h') + (if compositor_buffer (k_wm k') = None then 0 else 8294400))"
proof -
  have zero: "heap_ok (r_heap (k_ramfs k))" "fs_mark (k_ramfs k) = 0" using assms(2) by (simp_all add: heap_ok_def)
  then obtain r where r: "ramfs_create_default_structure (snd (ramfs_mount ''/'' (snd (ramfs_init (k_ramfs k))))) = Some r"
      "fs_ok r" "view r = default_tree" "fs_mark r = 33632"
    using ramfs_start [OF zero(1) assms(1), of "''/''"] by auto
  let ?s = "k_procfs k\<lparr>p_heap := r_heap r\<rparr>"
  have "heap_ok (p_heap ?s)" using r(2) by (simp add: fs_ok_def tree_ok_def)
  then obtain p t xs where p: "procfs_mount y (Some ''/proc'') (snd (procfs_init ?s)) = Some (True, p)" "procfs_ok p t xs"
      "map (e_name \<circ> entries p) xs = rev (map decimal (take 15822 (live_pids y))) @ global_names"
      "map (e_name \<circ> entries p) (filter (\<lambda>x. e_pid (entries p x) = 0) xs) = global_names"
      "mark p = 34688 + 88 * min 94930 (6 * length (live_pids y))"
    using procfs_starts [of ?s y "''/proc''"] r(4) by auto
  define v where "v = kernel_vfs ops (k_vfs k\<lparr>backend := (fst (backend (k_vfs k)), p_heap p)\<rparr>)"
  have hp: "heap_ok (p_heap p)" using p(2) by (simp add: procfs_ok_def below_def)
  let ?h = "snd (snd (fat32_new_op ops (fst (backend (k_vfs k)), p_heap p)))"
  have v: "snd (backend v) = ?h" by (simp add: v_def kernel_vfs_backend)
  let ?w = "k_wm k\<lparr>wm_heap := snd (backend v)\<rparr>"
  obtain b w where w: "blockwm_init 1920 1080 ?w = (b, w)" by fastforce
  define k' where "k' = \<lparr>k_ramfs = r, k_procfs = p, k_vfs = v, k_wm = w\<rparr>"
  have main: "kernel_main ops y k = Some k'"
    using r(1) p(1) w(1) by (simp add: kernel_main_def v_def k'_def split_beta)
  have listing: "procfs_list_dir ''/'' n p
      = Some (Some (take n (rev (map decimal (take 15822 (live_pids y))) @ global_names)))"
    using list_root [OF p(2), of n] p(3) by simp
  have loop: "kernel_ok k' global_names \<and> (compositor_buffer w \<noteq> None \<longleftrightarrow> unat (h_ptr ?h) \<le> 94208)
      \<and> k_mark k' = unat (h_ptr ?h) + (if compositor_buffer w = None then 0 else 8294400)"
    if h: "heap_ok ?h" "mark p \<le> unat (h_ptr ?h)"
  proof -
    have wm: "heap_ok (wm_heap w)" "compositor_buffer w \<noteq> None \<longleftrightarrow> unat (h_ptr ?h) \<le> 94208"
        "unat (h_ptr (wm_heap w)) = unat (h_ptr ?h) + (if compositor_buffer w = None then 0 else 8294400)"
      using compositor_starts [of ?w] h(1) v unfolding w snd_conv by simp_all
    have "procfs_ok (loop_procfs k') t xs"
      unfolding loop_procfs_def k'_def using procfs_ok_heap [OF p(2) wm(1)] wm(3) h(2) by simp
    then have "kernel_ok k' global_names" using p(4) by (auto simp: kernel_ok_def k'_def)
    with wm show ?thesis by (simp add: k'_def)
  qed
  show ?thesis using main r(3) listing hp p(5) loop
    by (intro exI [of _ k'] exI [of _ "p_heap p"] exI [of _ ?h]) (simp add: k'_def)
qed

text \<open>
  C2. The kernel starts on a fresh heap, whatever the FAT32 driver does: the memory file system shows the default
  tree, and the process file system lists the first 15822 live processes, as many as the heap has room for, and
  its own files; the driver is given the heap with exactly the bytes of both file systems taken. When the driver leaves the
  pointer of the heap inside the heap and not lower than it was, the invariant of the event loop holds, and the
  compositor has its frame exactly when at most 94208 bytes were taken before it.
\<close>

theorem kernel_starts:
  assumes "inodes (k_ramfs k) = (\<lambda>_. zero_inode)" and "h_ptr (r_heap (k_ramfs k)) = 0"
  shows "\<exists>k' h h'. kernel_main ops y k = Some k' \<and> view (k_ramfs k') = default_tree
    \<and> procfs_list_dir ''/'' n (k_procfs k')
      = Some (Some (take n (rev (map decimal (take 15822 (live_pids y))) @ global_names)))
    \<and> heap_ok h \<and> unat (h_ptr h) = 34688 + 88 * min 94930 (6 * length (live_pids y))
    \<and> h' = snd (snd (fat32_new_op ops (fst (backend (k_vfs k)), h)))
    \<and> (heap_ok h' \<and> unat (h_ptr h) \<le> unat (h_ptr h') \<longrightarrow>
        kernel_ok k' global_names \<and> (compositor_buffer (k_wm k') \<noteq> None \<longleftrightarrow> unat (h_ptr h') \<le> 94208)
        \<and> k_mark k' = unat (h_ptr h') + (if compositor_buffer (k_wm k') = None then 0 else 8294400))"
  using assms by (rule kernel_started)

text \<open>A driver that takes 512 bytes and a kernel before its start, for the witnesses.\<close>

definition example_driver :: "(unit \<times> heap) fs_ops" where
  "example_driver = \<lparr>
     ext4_open_op = (\<lambda>_ _ _ b. (False, b)), fat32_open_op = (\<lambda>_ _ b. (False, b)),
     ramfs_open_op = (\<lambda>_ _ _ b. (False, b)), procfs_open_op = (\<lambda>_ _ b. (False, b)),
     ext4_mkdir_op = (\<lambda>_ _ _ b. (False, b)), ramfs_mkdir_op = (\<lambda>_ _ _ b. (False, b)),
     ext4_unlink_op = (\<lambda>_ _ b. (False, b)), ramfs_unlink_op = (\<lambda>_ _ b. (False, b)),
     ext4_exists_op = (\<lambda>_ _ b. False), ramfs_exists_op = (\<lambda>_ _ b. False),
     ext4_rename_op = (\<lambda>_ _ _ b. (False, b)),
     fat32_new_op = (\<lambda>(d, h). case malloc 512 h of (p, h) \<Rightarrow> (map_option unat p, (d, h))),
     ext4_new_op = (\<lambda>_ b. (None, b)), ramfs_new_op = (\<lambda>_ b. (None, b)), procfs_new_op = (\<lambda>_ b. (None, b))\<rparr>"

definition example_kernel :: "unit kernel" where
  "example_kernel = \<lparr>k_ramfs = example_fs\<lparr>inodes := (\<lambda>_. zero_inode), r_heap := \<lparr>h_mem = (\<lambda>_. 0), h_ptr = 0\<rparr>\<rparr>,
     k_procfs = example_procfs,
     k_vfs = \<lparr>mounts = mounts example_vfs, mount_count = 0, fds = fds example_vfs, backend = ((), \<lparr>h_mem = (\<lambda>_. 0), h_ptr = 0\<rparr>)\<rparr>,
     k_wm = example_wm\<rparr>"

lemma example_driver_heap:
  fixes d :: unit and h :: heap
  assumes h: "heap_ok h"
  defines "h' \<equiv> snd (snd (fat32_new_op example_driver (d, h)))"
  shows "heap_ok h' \<and> unat (h_ptr h) \<le> unat (h_ptr h') \<and> unat (h_ptr h') \<le> unat (h_ptr h) + 516"
proof (cases "malloc 512 h")
  case (Pair p g)
  have sz: "size_ok 512" by (simp add: size_ok_def)
  show ?thesis unfolding h'_def using Pair malloc_NoneD [of 512 h g] malloc_SomeD [OF h sz, of _ g] h
    by (cases p) (fastforce simp: example_driver_def)+
qed

lemma example_kernel_fresh:
  "inodes (k_ramfs example_kernel) = (\<lambda>_. zero_inode)" "h_ptr (r_heap (k_ramfs example_kernel)) = 0"
  by (simp_all add: example_kernel_def)

lemma example_live: "live_pids example_sys = [7]"
  by (simp add: live_pids_def example_sys_def)

definition example_mouse :: mouse_data where
  "example_mouse = \<lparr>x_movement = 1, y_movement = 1, left_button = False, right_button = False\<rparr>"

lemma example_boot:
  assumes "heap_ok h" and "unat (h_ptr h) = 34688 + 88 * min 94930 (6 * length (live_pids example_sys))"
    and "h' = snd (snd (fat32_new_op example_driver (d, h)))"
  shows "heap_ok h' \<and> unat (h_ptr h) \<le> unat (h_ptr h')" and "unat (h_ptr h') \<le> 35732"
  using example_driver_heap [OF assms(1), of d] assms(2) unfolding assms(3) by (auto simp: example_live)

lemma example_started:
  obtains k where "kernel_main example_driver example_sys example_kernel = Some k" and "kernel_ok k global_names"
    and "procfs_list_dir ''/'' 2 (k_procfs k) = Some (Some [decimal 7, ''self''])" and "k_mark k \<le> 8330132"
  using kernel_started [OF example_kernel_fresh, of example_driver example_sys 2]
proof (elim exE conjE, goal_cases)
  case (1 k h h')
  with example_boot [OF 1(5,6,7)] show ?case by (auto simp: example_live global_names_def split: if_splits)
qed

theorem kernel_starts_witness:
  "\<exists>k. kernel_main example_driver example_sys example_kernel = Some k
    \<and> procfs_list_dir ''/'' 2 (k_procfs k) = Some (Some [decimal 7, ''self''])
    \<and> kernel_ok k global_names \<and> compositor_buffer (k_wm k) \<noteq> None"
  using kernel_starts [OF example_kernel_fresh, of example_driver example_sys 2]
proof (elim exE conjE, goal_cases)
  case (1 k h h')
  with example_boot [OF 1(4,5,6)] show ?case by (auto simp: example_live global_names_def)
qed

text \<open>
  C3. From a proper state the loop runs any number of turns: each replaces the directories of the
  processes by new ones of six entries and never gives any back, until the room the heap has for entries is used up.
  The root of the process file system then lists those live processes of the last turn there was still room for,
  and the same other files as before; the memory file system is left alone.
\<close>

theorem kernel_loop_lists_and_leaks:
  assumes "kernel_ok k base"
  shows "\<exists>k'. kernel_loop (ts @ [(y, m)]) k = Some k' \<and> kernel_ok k' base \<and> k_ramfs k' = k_ramfs k
    \<and> k_mark k' = k_mark k + 88 * min (k_slots k) (6 * processes (ts @ [(y, m)]))
    \<and> procfs_list_dir ''/'' n (k_procfs k') = Some (Some (take n
        (rev (map decimal (take ((k_slots k - 6 * processes ts + 5) div 6) (live_pids y))) @ base)))"
  using assms by (rule loop_last)

theorem kernel_loop_lists_and_leaks_witness:
  "\<exists>k k'. kernel_main example_driver example_sys example_kernel = Some k
    \<and> kernel_loop [(example_sys, example_mouse)] k = Some k'
    \<and> k_mark k' = k_mark k + 528 \<and> procfs_list_dir ''/'' 2 (k_procfs k') = Some (Some [decimal 7, ''self''])"
proof -
  obtain k where k: "kernel_main example_driver example_sys example_kernel = Some k" "kernel_ok k global_names"
      "k_mark k \<le> 8330132" by (rule example_started)
  note loop = kernel_loop_lists_and_leaks [OF k(2), of "[]" example_sys
      "example_mouse" 2]
  have "658 \<le> k_slots k" using k(3) by (simp add: slots_def less_eq_div_iff_mult_less_eq)
  with loop show ?thesis using k(1) by (auto simp: processes_def example_live global_names_def)
qed

lemma processes_bounds:
  assumes "\<And>t. t \<in> set ts \<Longrightarrow> live_pids (fst t) \<noteq> []"
  shows "length ts \<le> processes ts"
  using assms
proof (induction ts)
  case (Cons t ts)
  then have "length ts \<le> processes ts" and "0 < length (live_pids (fst t))" by auto
  then show ?case by (simp add: processes_def split_beta del: length_greater_0_conv)
qed (simp add: processes_def)

lemma k_slots_bound: "k_slots k \<le> 95325"
proof -
  have "(8388608 - k_mark k) div 88 \<le> 8388608 div 88" by (rule div_le_mono) simp
  then show ?thesis by (simp add: slots_def)
qed

text \<open>
  C38. The list of processes dies: when at least one process is alive in every turn of the loop, then the process file
  system lists no process any more as soon as six entries for each turn passed reach the room for entries,
  which is after 15888 turns at the latest, for no directory that was taken out is ever given back.
  The loop itself goes on.
\<close>

theorem process_list_goes_blank:
  assumes "kernel_ok k base" and "\<And>t. t \<in> set ts \<Longrightarrow> live_pids (fst t) \<noteq> []" and "min (k_slots k) 95325 \<le> 6 * length ts"
  shows "\<exists>k'. kernel_loop (ts @ [(y, m)]) k = Some k' \<and> kernel_ok k' base
    \<and> procfs_list_dir ''/'' n (k_procfs k') = Some (Some (take n base))"
proof -
  have "k_slots k \<le> 6 * processes ts" using processes_bounds [OF assms(2)] assms(3) k_slots_bound [of k] by force
  with loop_last [OF assms(1), of ts y m n] show ?thesis by auto
qed

theorem process_list_goes_blank_witness:
  "\<exists>k k'. kernel_main example_driver example_sys example_kernel = Some k
    \<and> procfs_list_dir ''/'' 2 (k_procfs k) = Some (Some [decimal 7, ''self''])
    \<and> kernel_loop (replicate 15888 (example_sys, example_mouse) @ [(example_sys, example_mouse)]) k = Some k'
    \<and> procfs_list_dir ''/'' 1 (k_procfs k') = Some (Some [''self''])"
proof -
  obtain k where k: "kernel_main example_driver example_sys example_kernel = Some k" "kernel_ok k global_names"
    "procfs_list_dir ''/'' 2 (k_procfs k) = Some (Some [decimal 7, ''self''])" by (rule example_started)
  have "live_pids (fst t) \<noteq> []" if "t \<in> set (replicate 15888 (example_sys, example_mouse))" for t
    using that by (auto simp: example_live)
  then show ?thesis
    using process_list_goes_blank [where k = k and base = global_names and ts = "replicate 15888 (example_sys, example_mouse)"
        and y = example_sys and m = example_mouse and n = 1] k
    by (auto simp: global_names_def min_le_iff_disj simp del: kernel_loop.simps)
qed

text \<open>
  When the loop has used up its heap it goes on, but the process file system lists no process any more,
  whatever processes there are.
\<close>

theorem kernel_loop_runs_dry:
  assumes "kernel_ok k base" and "k_mark k + 88 > 8388608"
  shows "\<exists>k'. kernel_loop (ts @ [(y, m)]) k = Some k' \<and> kernel_ok k' base \<and> k_mark k' = k_mark k
    \<and> procfs_list_dir ''/'' n (k_procfs k') = Some (Some (take n base))"
proof -
  have "k_slots k = 0" using assms(2) slots_room [of "wm_heap (k_wm k)"] by simp
  with loop_last [OF assms(1), of ts y m n] show ?thesis by auto
qed

theorem kernel_loop_runs_dry_witness:
  "\<exists>(k :: unit kernel) k'. k_mark k = 8388608
    \<and> kernel_loop [(example_sys, example_mouse)] k = Some k'
    \<and> procfs_list_dir ''/'' 1 (k_procfs k') = Some (Some [''self''])"
proof -
  obtain k :: "unit kernel" where k: "kernel_ok k global_names" by (rule example_started)
  let ?h = "\<lparr>h_mem = (\<lambda>_. 0), h_ptr = 8388608\<rparr>"
  let ?k = "k\<lparr>k_wm := (k_wm k)\<lparr>wm_heap := ?h\<rparr>\<rparr>"
  have h: "heap_ok ?h" by (simp add: heap_ok_def)
  obtain r xs where r: "procfs_ok (loop_procfs k) r xs"
      "map (e_name \<circ> entries (k_procfs k)) (filter (\<lambda>x. e_pid (entries (k_procfs k) x) = 0) xs) = global_names"
    using k by (auto simp: kernel_ok_def)
  have "mark (loop_procfs k) \<le> 8388608" using r(1) by (simp add: procfs_ok_def below_def heap_ok_def)
  then have "procfs_ok (loop_procfs ?k) r xs" using procfs_ok_heap [OF r(1) h] by (simp add: loop_procfs_def)
  then have "kernel_ok ?k global_names" using r(2) by (auto simp: kernel_ok_def)
  from kernel_loop_runs_dry [OF this, of "[]" example_sys
      "example_mouse" 1]
  obtain k' where "kernel_loop [(example_sys, example_mouse)] ?k
      = Some k'" "procfs_list_dir ''/'' 1 (k_procfs k') = Some (Some [''self''])"
    by (auto simp: global_names_def simp del: kernel_loop.simps)
  then show ?thesis by (intro exI [of _ ?k] exI [of _ k']) (simp del: kernel_loop.simps)
qed

end
