(* ===== verification/Kernel_System.thy ===== *)
theory Kernel_System
  imports Kernel_Init Gui
begin

text \<open>
  The calls of \<^verbatim>\<open>kernel/init.c\<close> in their order: the start and the event loop of \<open>Kernel_Init\<close> together with the screen
  of \<^verbatim>\<open>gui/gui.c\<close> and the calls into files that are not in the repository. These calls are a record of functions
  on a state \<open>'e\<close> of their own, which stands for the process table, the devices and the cursor. This is a
  limit of the model: by its type a call of this record changes neither the heap, nor a file system, nor the window
  manager, so that code behind such a call that takes heap or opens files is not covered here; the lemmas below
  carry facts about the calls of this repository over to the sequence, and say nothing of the code behind the record.
  How a drawing call of \<^verbatim>\<open>gui/gui.h\<close> changes the
  back buffer is a function of the record too, for the routines declared there with 32-bit colours are not those
  \<^verbatim>\<open>gui/gui.c\<close> defines. The loop that passes time at the end of a turn changes nothing.
\<close>

section \<open>The system\<close>

record 'e outside =
  process_init :: "'e \<Rightarrow> 'e"
  syscall_init :: "'e \<Rightarrow> 'e"
  ps2_mouse_init :: "'e \<Rightarrow> 'e"
  cursor_manager_init :: "'e \<Rightarrow> 'e"
  process_create :: "string \<Rightarrow> 'e \<Rightarrow> nat option \<times> 'e"
  process_add_to_ready :: "nat \<Rightarrow> 'e \<Rightarrow> 'e"
  process_set_current :: "nat \<Rightarrow> 'e \<Rightarrow> 'e"
  ps2_mouse_get_state :: "'e \<Rightarrow> mouse_data \<times> 'e"
  cursor_manager_set_position :: "u32 \<Rightarrow> u32 \<Rightarrow> 'e \<Rightarrow> 'e"
  cursor_manager_draw :: "u32 \<Rightarrow> u32 \<Rightarrow> 'e \<Rightarrow> 'e"
  gui_draw :: "draw \<Rightarrow> pixels \<Rightarrow> pixels"
  sys_of :: "'e \<Rightarrow> sys"

record ('d, 'e) system =
  s_kernel :: "'d kernel"
  s_back :: pixels
  s_screen :: pixels
  s_out :: 'e

definition start_shell :: "'e outside \<Rightarrow> 'e \<Rightarrow> 'e" where
  "start_shell out e =
     (case process_create out ''blocksh'' e of
        (None, e) \<Rightarrow> e
      | (Some shell, e) \<Rightarrow> process_set_current out shell (process_add_to_ready out shell e))"

text \<open>\<open>kernel_main\<close> up to its last call, which is the loop.\<close>

definition system_main :: "'e outside \<Rightarrow> ('d \<times> heap) fs_ops \<Rightarrow> ('d, 'e) system \<Rightarrow> ('d, 'e) system option" where
  "system_main out ops s =
     (let e = syscall_init out (process_init out (s_out s)) in
      case kernel_main ops (sys_of out e) (s_kernel s) of
        None \<Rightarrow> None
      | Some k \<Rightarrow>
          let e = ps2_mouse_init out e;
              back = gui_init (s_back s);
              e = cursor_manager_init out e;
              e = start_shell out e
          in Some (s\<lparr>s_kernel := k, s_back := back, s_out := e\<rparr>))"

definition system_turn :: "'e outside \<Rightarrow> ('d, 'e) system \<Rightarrow> ('d, 'e) system option" where
  "system_turn out s =
     (let (m, e) = ps2_mouse_get_state out (s_out s);
          e = cursor_manager_set_position out (x_movement m) (y_movement m) e in
      case kernel_turn (sys_of out e) m (s_kernel s) of
        None \<Rightarrow> None
      | Some (ds, k) \<Rightarrow>
          let back = fold (gui_draw out) ds (s_back s);
              e = cursor_manager_draw out 1920 1080 e
          in Some (s\<lparr>s_kernel := k, s_back := back, s_screen := gui_update back (s_screen s), s_out := e\<rparr>))"

text \<open>The first turns of the loop.\<close>

fun system_loop :: "'e outside \<Rightarrow> nat \<Rightarrow> ('d, 'e) system \<Rightarrow> ('d, 'e) system option" where
  "system_loop out 0 s = Some s"
| "system_loop out (Suc n) s = Option.bind (system_turn out s) (system_loop out n)"

section \<open>The kernel inside the system\<close>

lemma system_turn_kernel:
  "\<exists>e m. map_option s_kernel (system_turn out s) = map_option snd (kernel_turn (sys_of out e) m (s_kernel s))"
proof -
  obtain m e where m: "ps2_mouse_get_state out (s_out s) = (m, e)" by fastforce
  show ?thesis
    by (intro exI [of _ "cursor_manager_set_position out (x_movement m) (y_movement m) e"] exI [of _ m])
       (auto simp: system_turn_def m Let_def option.map_comp split: option.split)
qed

text \<open>What the kernel does in a number of turns is its loop on what it met on the way.\<close>

lemma system_loop_kernel:
  "\<exists>ts. length ts = n \<and> (\<forall>t \<in> set ts. \<exists>e. fst t = sys_of out e)
    \<and> map_option s_kernel (system_loop out n s) = kernel_loop ts (s_kernel s)"
proof (induction n arbitrary: s)
  case (Suc n)
  obtain e m where em: "map_option s_kernel (system_turn out s) = map_option snd (kernel_turn (sys_of out e) m (s_kernel s))"
    using system_turn_kernel [of out s] by blast
  show ?case
  proof (cases "system_turn out s")
    case None
    then have "kernel_turn (sys_of out e) m (s_kernel s) = None" using em by simp
    then show ?thesis using None
      by (intro exI [of _ "replicate (Suc n) (sys_of out e, m)"]) auto
  next
    case (Some s1)
    then obtain ds where k1: "kernel_turn (sys_of out e) m (s_kernel s) = Some (ds, s_kernel s1)"
      using em by (cases "kernel_turn (sys_of out e) m (s_kernel s)") auto
    obtain ts where "length ts = n" "\<forall>t \<in> set ts. \<exists>e. fst t = sys_of out e"
      "map_option s_kernel (system_loop out n s1) = kernel_loop ts (s_kernel s1)" using Suc.IH by blast
    with Some k1 show ?thesis by (intro exI [of _ "(sys_of out e, m) # ts"]) auto
  qed
qed simp

lemma system_main_kernel:
  "map_option s_kernel (system_main out ops s)
    = kernel_main ops (sys_of out (syscall_init out (process_init out (s_out s)))) (s_kernel s)"
  by (simp add: system_main_def Let_def split: option.split)

definition shown :: "('d, 'e) system \<Rightarrow> bool" where
  "shown s \<longleftrightarrow> (\<forall>i < SCREEN_WIDTH * SCREEN_HEIGHT. s_screen s i = s_back s i)"

lemma system_turn_shown: "system_turn out s = Some s' \<Longrightarrow> shown s'"
  by (auto simp: system_turn_def Let_def shown_def gui_update_def split: prod.splits option.splits)

lemma system_loop_shown: "system_loop out n s = Some s' \<Longrightarrow> 0 < n \<or> shown s \<Longrightarrow> shown s'"
proof (induction n arbitrary: s)
  case (Suc n)
  then obtain s1 where "system_turn out s = Some s1" "system_loop out n s1 = Some s'" by (auto split: Option.bind_splits)
  with Suc.IH system_turn_shown show ?case by blast
qed simp

lemma system_loop_ok:
  assumes "kernel_ok (s_kernel s) base"
  obtains s' ts where "system_loop out n s = Some s'" and "length ts = n" and "\<forall>t \<in> set ts. \<exists>e. fst t = sys_of out e"
    and "kernel_loop ts (s_kernel s) = Some (s_kernel s')" and "k_ramfs (s_kernel s') = k_ramfs (s_kernel s)"
proof -
  obtain ts where ts: "length ts = n" "\<forall>t \<in> set ts. \<exists>e. fst t = sys_of out e"
    "map_option s_kernel (system_loop out n s) = kernel_loop ts (s_kernel s)" using system_loop_kernel [of n out s] by blast
  obtain k' where k': "kernel_loop ts (s_kernel s) = Some k'" "k_ramfs k' = k_ramfs (s_kernel s)"
    using loop_exact [OF assms, of ts] by blast
  then obtain s' where "system_loop out n s = Some s'" "s_kernel s' = k'" using ts(3) by auto
  with ts k' that show thesis by blast
qed

text \<open>
  With the calls outside of the repository confined to their own state, the loop of the system never fails from a
  proper state, and the heap is used up by the directories of the processes it meets.
\<close>

lemma system_loop_uses_heap:
  assumes "kernel_ok (s_kernel s) base"
  obtains s' ts where "system_loop out n s = Some s'" and "length ts = n"
    and "k_mark (s_kernel s') = k_mark (s_kernel s) + 88 * min (k_slots (s_kernel s)) (6 * processes ts)"
    and "0 < n \<Longrightarrow> shown s'"
proof -
  obtain s' ts where s': "system_loop out n s = Some s'" "length ts = n" "kernel_loop ts (s_kernel s) = Some (s_kernel s')"
    by (rule system_loop_ok [OF assms])
  with loop_exact [OF assms, of ts] system_loop_shown [OF s'(1)] that [of s' ts] show thesis by auto
qed

end
