(* ===== verification/Spec2Isabelle.thy ===== *)
theory Spec2Isabelle
  imports Interfaces CString Heap_Alloc Ipc Format_Print Scheduler Vmm Ramfs_Props Ramfs_Boot Vfs
    Blocksec Network Blockwm Gui Procfs Ext4 Drivers Boot Blockedit Tools_Props Guiterm_Props Desktop Apps
    Debug Pkgmgr Effects Animation Kernel_System
begin

text \<open>
  BlockOS is a small 32-bit operating system in C: a kernel with a heap, paging, a scheduler and inter-process
  communication; file systems behind a switch; a network stack; drivers; a window system with a terminal, an editor, a file
  manager and a system monitor; and a set of command line tools. This development is a model of that code and of
  what makes it correct. All source paths below are those of the repository.

  \<^bold>\<open>How the program hangs together.\<close> Everything allocates from one heap, the array of 8 MB in
  \<^verbatim>\<open>kernel/generic.c\<close>, whose \<open>free\<close> does nothing. Everything handles text with the string routines and
  \<open>snprintf\<close> of the same file. \<^verbatim>\<open>kernel/init.c\<close> starts the memory file system, the process file
  system, the switch and the window manager and then turns a loop that hands the mouse to the window manager,
  rebuilds the process file system and redraws. Programs reach files through \<^verbatim>\<open>vfs.c\<close>, which chooses the
  file system of the longest mounted prefix. Windows are drawn with \<^verbatim>\<open>gui/gui.c\<close>; the terminal gives its lines to the
  shell; the command line tools print on the terminal and read through the switch.

  \<^bold>\<open>Conventions.\<close> A C integer is a word of its width wherever it can wrap in the code, and an integer where
  it stays far from its limits (each theory says which). An array is a function from its index; only indices below
  the bound the code declares are read or written. A pointer into the heap is an offset, a pointer into a table an index, NULL
  is \<^term>\<open>None\<close>. A fixed buffer that holds a string is the string, cut to the size the code cuts it to. The
  outcome \<^term>\<open>None\<close> of an operation is undefined behaviour of the C code (an access behind an object, a NULL
  pointer, a division by zero) or a loop that never ends; the theorems that operations succeed exclude it.

  \<^bold>\<open>The library.\<close>
  \<^item> \<open>Prelude\<close>: the integer types and the loops that recur (linear search, closing a gap, rings, linked lists).
  \<^item> \<open>Interfaces\<close>: the locales \<open>bounded_fifo\<close>, \<open>slot_table\<close> and \<open>allocator\<close>, interpreted on pipes, message
    queues and the key buffer; on pipes, queues, descriptors, sockets and animations; on the kernel heap.
  \<^item> \<open>Bubble_Sort\<close>: the sort of the compositor and of the tool \<^verbatim>\<open>sort\<close>, in a locale for total preorders.
  \<^item> \<open>Printing\<close>: calls of \<open>snprintf\<close> with typed arguments, laid out on the stack as the compiler does.
  \<^item> \<open>Float_Ops\<close>: the floating point operations as a record.

  \<^bold>\<open>The kernel.\<close>
  \<^item> \<open>CString\<close> (\<^verbatim>\<open>kernel/generic.c\<close>, \<^verbatim>\<open>libc/libc.c\<close>): memory and string routines on buffers of characters, related to
    functions on lists; \<open>strtok\<close> yields exactly the fields of a string.
  \<^item> \<open>Heap_Alloc\<close> (\<^verbatim>\<open>kernel/generic.c\<close>): \<open>malloc\<close>, \<open>realloc\<close>, \<open>free\<close>, \<open>strdup\<close>; granted blocks are disjoint
    as long as no request comes close to \<open>2 ^ 32\<close>, and overlap otherwise.
  \<^item> \<open>Format_Print\<close> (\<^verbatim>\<open>kernel/generic.c\<close>, \<^verbatim>\<open>libc/libc.c\<close>): \<open>snprintf\<close> refines a parser of formats; numbers print and read back.
  \<^item> \<open>Vmm\<close> (\<^verbatim>\<open>kernel/vmm.c\<close>): the page tables as bytes of memory; mapping refines the update of a map from pages to frames.
  \<^item> \<open>Scheduler\<close> (\<^verbatim>\<open>kernel/scheduler.c\<close>): round robin starves nobody; priority takes a maximum.
  \<^item> \<open>Ipc\<close> (\<^verbatim>\<open>kernel/ipc.c\<close>): pipes, message queues and shared memory over every sequence of calls.
  \<^item> \<open>Boot\<close> (\<^verbatim>\<open>boot/gdt.c\<close>, \<^verbatim>\<open>boot/idt.c\<close>) and \<open>Drivers\<close> (\<^verbatim>\<open>drivers\<close>): descriptor tables; keyboard, timer, sound, USB, ACPI, screen.
  \<^item> \<open>Debug\<close> (\<^verbatim>\<open>debug/blockdbg.c\<close>): the log, breakpoints, the stack trace and the panic.
  \<^item> \<open>Kernel_Init\<close> (\<^verbatim>\<open>kernel/init.c\<close>): start and event loop over the models of the file systems and the window manager. The
    start succeeds with any FAT32 driver and shows the default tree and the live processes there is room for; the loop runs any number of
    turns, with an exact account of the heap it takes and of the processes it still lists, which are none after enough turns. Where the
    FAT32 driver leaves the heap in order is a hypothesis of what the start says of the loop, and of nothing else.
  \<^item> \<open>Kernel_System\<close> (\<^verbatim>\<open>kernel/init.c\<close>): the sequence of all calls, with the screen and with those into files that are not in the
    repository, which act on a state of their own and so cannot reach the heap; it carries facts on the loop over, and states no property.

  \<^bold>\<open>File systems.\<close>
  \<^item> \<open>Ramfs\<close>, \<open>Ramfs_Props\<close>, \<open>Ramfs_Boot\<close> (\<^verbatim>\<open>fs/ramfs.c\<close>): the tree of inodes refines a map from paths, file data refine
    byte lists, and the default tree is the one the code lists.
  \<^item> \<open>Procfs\<close> (\<^verbatim>\<open>fs/procfs.c\<close>): the linked list of entries under updates, the texts of the files, reading in chunks.
  \<^item> \<open>Ext4\<close> (\<^verbatim>\<open>ext4.c\<close>): path resolution against directory maps, extents, reading, listing.
  \<^item> \<open>Vfs\<close> (\<^verbatim>\<open>vfs.c\<close>): mounts, descriptors, dispatch.
  \<^item> \<open>Blocksec\<close> (\<^verbatim>\<open>blocksec.c\<close>): domains, rules, labels, the access check and its log; what the default policy grants the untrusted domain.

  \<^bold>\<open>Network.\<close> \<open>Network\<close> (\<^verbatim>\<open>network/network.c\<close>, \<^verbatim>\<open>network/ethernet.c\<close>): the checksum verifies, sockets, the device layer.

  \<^bold>\<open>Desktop.\<close>
  \<^item> \<open>Blockwm\<close> (\<^verbatim>\<open>wm/blockwm.c\<close>) and \<open>Gui\<close> (\<^verbatim>\<open>gui/gui.c\<close>): windows in stacking order; lines, rectangles, circles, widgets.
  \<^item> \<open>Effects\<close> (\<^verbatim>\<open>effects.c\<close>) and \<open>Animation\<close> (\<^verbatim>\<open>animation.c\<close>): which bytes are drawn and with what, in a frame with a lower edge the code does not know; one animation after the other.
  \<^item> \<open>Desktop\<close> (\<^verbatim>\<open>contextmenu.c\<close>, \<^verbatim>\<open>taskbar.c\<close>) and \<open>Apps\<close> (\<^verbatim>\<open>filemanager/blockfm.c\<close>, \<^verbatim>\<open>sysmonitor/blocksysmon.c\<close>).
  \<^item> \<open>Guiterm\<close>, \<open>Guiterm_Props\<close> (\<^verbatim>\<open>terminal/guiterm.c\<close>, \<^verbatim>\<open>shell/shell.c\<close>): printed text is on the screen, a typed line runs its command.
  \<^item> \<open>Blockedit\<close> (\<^verbatim>\<open>texteditor/blockedit.c\<close>): editing refines the text with a cursor, and no key fails while the cursor is in the text.

  \<^bold>\<open>Tools.\<close>
  \<^item> \<open>Tools\<close>, \<open>Tools_Props\<close> (\<^verbatim>\<open>tools\<close>): every tool, the dispatch, and the tools on the switch of the kernel, whose reads are
    all empty: what a tool makes of the contents of files is stated for other calls than those of \<^verbatim>\<open>vfs.c\<close>.
  \<^item> \<open>Pkgmgr\<close> (\<^verbatim>\<open>pkgmgr/blockpkg.c\<close>): no package is ever found; on a table with packages, installing would end on
    dependencies without a cycle, and only there.

  \<^bold>\<open>Kinds of lemmas.\<close> Most theories have three layers: the definitions in the order of the C file; facts on each operation,
  on every branch; and the properties. The properties are invariants over every sequence of operations (inductive sets named
  \<open>_reach\<close>), refinements of a specification without pointers and words (\<open>view\<close>, \<open>dir_map\<close>, \<open>content\<close>, \<open>document\<close> and
  the like), exact results, and theorems that show a defect by its consequence.

  \<^bold>\<open>Loops and fuel.\<close> A loop over an index is a fold over a list of indices. A loop with no bound in the code is a
  \<open>partial_function\<close> into options, or a \<open>function\<close> with its termination proof. Fuel occurs in \<open>Pkgmgr\<close>, where it
  is the depth of nested calls (\<open>install_completes\<close> gives a depth that is enough), and in \<open>Blocksec\<close> for the
  reads of the policy file (one is enough, by \<open>policy_file_ignored\<close>). The event loop of the kernel and the main loop of the
  shell, which never end, are given by any finite number of their turns.

  \<^bold>\<open>What is a parameter.\<close> Code that the repository uses and does not contain: the process table and the clock of other
  processes (\<^verbatim>\<open>kernel/process.h\<close>), the FAT32 driver, the disk, the Ethernet driver, the mouse driver and its
  cursor, the assembler routines. It enters as arguments or records of functions, with assumptions only where a theorem states them.

  \<^bold>\<open>Not modelled.\<close>
  \<^item> \<^verbatim>\<open>boot/boot.asm\<close>, \<^verbatim>\<open>linker.ld\<close>, the Makefile: not C. The inline assembler of the port routines and of the
    panic's last lines: port writes are listed by the drivers, port reads are arguments, and so is what the interrupt of
    \<open>vga_init\<close> does.
  \<^item> \<^verbatim>\<open>blocksec_policy.xml\<close> and its schema: no code reads them.
  \<^item> The layouts of frames and packet headers in \<^verbatim>\<open>network/network.c\<close>: nothing uses them.
  \<^item> The commands of \<^verbatim>\<open>shell/shell.c\<close> have empty bodies, so that only the choice of the command is modelled.
\<close>

end
